(* ===== verification/Prelude.thy ===== *)
theory Prelude
  imports Main "HOL-Library.Word"
begin

text \<open>
  Shared vocabulary of the development: the machine integer types of the C++ sources, little-endian
  byte encodings (what \<open>memcpy\<close> of an integer does on the x86-64 target), and the generic list
  lemmas the components use.  The collection \<open>inv_simps\<close> gathers the facts that preserve an
  invariant, \<open>exec_simps\<close> the facts that evaluate one operation on a constructor pattern.
\<close>

named_theorems inv_simps "facts that preserve a component's invariant"
named_theorems exec_simps "facts that evaluate an operation"

section \<open>Machine integers\<close>

type_synonym u8 = "8 word"
type_synonym u16 = "16 word"
type_synonym u32 = "32 word"
type_synonym u64 = "64 word"

text \<open>The value range of C++ \<open>long\<close> (64 bit on the target).\<close>

definition long_range :: "int set" where
  "long_range = {- (2 ^ 63) ..< 2 ^ 63}"

lemma long_range_iff [simp]: "n \<in> long_range \<longleftrightarrow> - 9223372036854775808 \<le> n \<and> n < 9223372036854775808"
  by (simp add: long_range_def)

section \<open>Little-endian encodings\<close>

text \<open>\<open>le_bytes n w\<close>: the \<open>n\<close> low bytes of \<open>w\<close>, least significant first.\<close>

fun le_bytes :: "nat \<Rightarrow> 'a::len word \<Rightarrow> u8 list" where
  "le_bytes 0 w = []"
| "le_bytes (Suc n) w = ucast w # le_bytes n (drop_bit 8 w)"

fun le_word :: "u8 list \<Rightarrow> 'a::len word" where
  "le_word [] = 0"
| "le_word (b # bs) = or (ucast b) (push_bit 8 (le_word bs))"

lemma length_le_bytes [simp]: "length (le_bytes n w) = n"
  by (induction n arbitrary: w) auto

lemma bit_le_word:
  "bit (le_word bs :: 'a::len word) i \<longleftrightarrow> i < LENGTH('a) \<and> i < 8 * length bs \<and> bit (bs ! (i div 8)) (i mod 8)"
proof (induction bs arbitrary: i)
  case Nil
  then show ?case by simp
next
  case (Cons b bs)
  show ?case
  proof (cases "i < 8")
    case True
    then show ?thesis by (auto simp: bit_or_iff bit_push_bit_iff bit_ucast_iff)
  next
    case False
    then have i: "i div 8 = Suc ((i - 8) div 8)" "i mod 8 = (i - 8) mod 8"
      by (simp_all add: le_div_geq le_mod_geq)
    have b: "\<not> bit b i" using False by (auto dest: bit_imp_le_length)
    show ?thesis
      using False by (auto simp: bit_or_iff bit_push_bit_iff bit_ucast_iff i b Cons.IH dest: bit_imp_le_length)
  qed
qed

lemma le_bytes_nth: "k < n \<Longrightarrow> le_bytes n w ! k = ucast (drop_bit (8 * k) w)"
proof (induction n arbitrary: w k)
  case 0
  then show ?case by simp
next
  case (Suc n)
  then show ?case by (cases k) (simp_all add: drop_bit_drop_bit add.commute)
qed

lemma le_word_le_bytes: "LENGTH('a) \<le> 8 * n \<Longrightarrow> le_word (le_bytes n (w :: 'a::len word)) = w"
  by (rule bit_word_eqI)
    (auto simp: bit_le_word le_bytes_nth bit_ucast_iff bit_drop_bit_eq less_mult_imp_div_less
      mult.commute)

lemma le_bytes_le_word:
  "8 * length bs \<le> LENGTH('a) \<Longrightarrow> le_bytes (length bs) (le_word bs :: 'a::len word) = bs"
proof (intro nth_equalityI)
  fix k
  assume len: "8 * length bs \<le> LENGTH('a)" and k: "k < length (le_bytes (length bs) (le_word bs :: 'a word))"
  show "le_bytes (length bs) (le_word bs :: 'a word) ! k = bs ! k"
  proof (rule bit_word_eqI)
    fix i assume "i < LENGTH(8)"
    then show "bit (le_bytes (length bs) (le_word bs :: 'a word) ! k) i \<longleftrightarrow> bit (bs ! k) i"
      using len k by (auto simp: le_bytes_nth bit_ucast_iff bit_drop_bit_eq bit_le_word)
  qed
qed simp

section \<open>Lists\<close>

lemma sum_list_map_pos:
  "(\<And>x. x \<in> set xs \<Longrightarrow> 0 < f x) \<Longrightarrow> 0 \<le> sum_list (map f xs :: int list)"
  by (induction xs) (auto intro: add_nonneg_nonneg less_imp_le)

lemma hd_last_singleton: "xs \<noteq> [] \<Longrightarrow> (if b then hd xs else last xs) \<in> set xs"
  by simp


section \<open>Errors\<close>

text \<open>Sequencing of computations that may fail.\<close>

definition and_then :: "'e + 'a \<Rightarrow> ('a \<Rightarrow> 'e + 'b) \<Rightarrow> 'e + 'b" where
  "and_then r f = (case r of Inl e \<Rightarrow> Inl e | Inr x \<Rightarrow> f x)"

lemma and_then_simps [simp]: "and_then (Inl e) f = Inl e" "and_then (Inr x) f = f x"
  by (simp_all add: and_then_def)

lemma and_then_Inr: "and_then r f = Inr y \<longleftrightarrow> (\<exists>x. r = Inr x \<and> f x = Inr y)"
  by (cases r) simp_all

end
