(* ===== verification/Ordered_Map.thy ===== *)
theory Ordered_Map
  imports Prelude
begin

text \<open>
  \<open>std::map\<close> as the sources use it: an association list kept strictly ascending in its keys.
  \<open>omap_find\<close> is \<open>find\<close>, \<open>omap_put\<close> is \<open>operator[]\<close> followed by an assignment
  (inserting in key order), \<open>omap_erase\<close> is \<open>erase\<close> of a key, and the first and last element are
  \<open>begin()\<close> and \<open>std::prev(end())\<close>.  The locale \<open>ordered_map\<close> states the contract the
  matching engine relies on; it is interpreted on this implementation.
\<close>

section \<open>The contract\<close>

locale ordered_map =
  fixes find :: "'m \<Rightarrow> 'k::linorder \<Rightarrow> 'v option"
    and put :: "'k \<Rightarrow> 'v \<Rightarrow> 'm \<Rightarrow> 'm"
    and erase :: "'k \<Rightarrow> 'm \<Rightarrow> 'm"
    and first :: "'m \<Rightarrow> ('k \<times> 'v) option"
    and final :: "'m \<Rightarrow> ('k \<times> 'v) option"
    and emp :: "'m"
    and inv :: "'m \<Rightarrow> bool"
  assumes inv_emp: "inv emp"
    and find_emp: "find emp k = None"
    and inv_put: "inv m \<Longrightarrow> inv (put k v m)"
    and inv_erase: "inv m \<Longrightarrow> inv (erase k m)"
    and find_put: "inv m \<Longrightarrow> find (put k v m) k' = (if k' = k then Some v else find m k')"
    and find_erase: "inv m \<Longrightarrow> find (erase k m) k' = (if k' = k then None else find m k')"
    and front_least: "inv m \<Longrightarrow> first m = Some (k, v) \<Longrightarrow> find m k = Some v \<and> (\<forall>k' v'. find m k' = Some v' \<longrightarrow> k \<le> k')"
    and back_greatest: "inv m \<Longrightarrow> final m = Some (k, v) \<Longrightarrow> find m k = Some v \<and> (\<forall>k' v'. find m k' = Some v' \<longrightarrow> k' \<le> k)"
    and front_None: "inv m \<Longrightarrow> first m = None \<longleftrightarrow> (\<forall>k. find m k = None)"
    and back_None: "inv m \<Longrightarrow> final m = None \<longleftrightarrow> (\<forall>k. find m k = None)"
begin

lemma find_put_same: "inv m \<Longrightarrow> find (put k v m) k = Some v"
  by (simp add: find_put)

lemma erase_put: "inv m \<Longrightarrow> find (erase k (put k v m)) k' = (if k' = k then None else find m k')"
  by (simp add: find_erase find_put inv_put)

lemma front_le_back:
  assumes "inv m" "first m = Some (k, v)" "final m = Some (k', v')"
  shows "k \<le> k'"
  using front_least [OF assms(1,2)] back_greatest [OF assms(1,3)] by auto

lemma front_put_less:
  assumes m: "inv m" and fr: "first (put k v m) = Some (k', v')"
  shows "k' \<le> k"
  using front_least [OF inv_put [OF m] fr] find_put_same [OF m] by blast

lemma back_put_greater:
  assumes m: "inv m" and fr: "final (put k v m) = Some (k', v')"
  shows "k \<le> k'"
  using back_greatest [OF inv_put [OF m] fr] find_put_same [OF m] by blast

end

section \<open>The implementation\<close>

type_synonym ('k, 'v) omap = "('k \<times> 'v) list"

definition omap_inv :: "('k::linorder, 'v) omap \<Rightarrow> bool" where
  "omap_inv m \<longleftrightarrow> sorted_wrt (<) (map fst m)"

definition omap_find :: "('k::linorder, 'v) omap \<Rightarrow> 'k \<Rightarrow> 'v option" where
  "omap_find m k = map_of m k"

fun omap_put :: "'k::linorder \<Rightarrow> 'v \<Rightarrow> ('k, 'v) omap \<Rightarrow> ('k, 'v) omap" where
  "omap_put k v [] = [(k, v)]"
| "omap_put k v ((k', v') # m) =
     (if k < k' then (k, v) # (k', v') # m
      else if k = k' then (k, v) # m
      else (k', v') # omap_put k v m)"

definition omap_erase :: "'k::linorder \<Rightarrow> ('k, 'v) omap \<Rightarrow> ('k, 'v) omap" where
  "omap_erase k m = filter (\<lambda>e. fst e \<noteq> k) m"

definition omap_front :: "('k::linorder, 'v) omap \<Rightarrow> ('k \<times> 'v) option" where
  "omap_front m = (if m = [] then None else Some (hd m))"

definition omap_back :: "('k::linorder, 'v) omap \<Rightarrow> ('k \<times> 'v) option" where
  "omap_back m = (if m = [] then None else Some (last m))"

subsection \<open>Keys and lookup\<close>

lemma omap_inv_Nil [simp]: "omap_inv []"
  by (simp add: omap_inv_def)

lemma omap_inv_Cons [simp]: "omap_inv ((k, v) # m) \<longleftrightarrow> (\<forall>k' \<in> fst ` set m. k < k') \<and> omap_inv m"
  by (auto simp: omap_inv_def)

lemma omap_inv_append:
  "omap_inv (m @ m') \<longleftrightarrow> omap_inv m \<and> omap_inv m' \<and> (\<forall>k \<in> fst ` set m. \<forall>k' \<in> fst ` set m'. k < k')"
  by (auto simp: omap_inv_def sorted_wrt_append)

lemma omap_inv_distinct: "omap_inv m \<Longrightarrow> distinct (map fst m)"
  by (simp add: omap_inv_def strict_sorted_iff)

lemma omap_find_eq_Some: "omap_inv m \<Longrightarrow> omap_find m k = Some v \<longleftrightarrow> (k, v) \<in> set m"
  by (simp add: omap_find_def omap_inv_distinct)

lemma omap_find_eq_None: "omap_find m k = None \<longleftrightarrow> k \<notin> fst ` set m"
  by (simp add: omap_find_def map_of_eq_None_iff)

lemma omap_put_neq_Nil [simp]: "omap_put k v m \<noteq> []"
  by (induction k v m rule: omap_put.induct) auto

lemma fst_set_omap_put [simp]: "fst ` set (omap_put k v m) = insert k (fst ` set m)"
  by (induction k v m rule: omap_put.induct) auto

lemma omap_inv_put [inv_simps]: "omap_inv m \<Longrightarrow> omap_inv (omap_put k v m)"
  by (induction k v m rule: omap_put.induct) auto

lemma omap_inv_erase [inv_simps]: "omap_inv m \<Longrightarrow> omap_inv (omap_erase k m)"
  by (auto simp: omap_inv_def omap_erase_def sorted_wrt_map intro: sorted_wrt_filter)

lemma omap_find_put: "omap_inv m \<Longrightarrow> omap_find (omap_put k v m) k' = (if k' = k then Some v else omap_find m k')"
  by (induction k v m rule: omap_put.induct) (auto simp: omap_find_def)

lemma omap_find_erase: "omap_find (omap_erase k m) k' = (if k' = k then None else omap_find m k')"
  by (induction m) (auto simp: omap_find_def omap_erase_def)

lemma set_omap_put:
  assumes "omap_inv m"
  shows "set (omap_put k v m) = insert (k, v) (set (omap_erase k m))"
  using assms
proof (induction k v m rule: omap_put.induct)
  case (1 k v)
  then show ?case by (simp add: omap_erase_def)
next
  case (2 k v k' v' m)
  then show ?case by (force simp: omap_erase_def)
qed

lemma set_omap_erase: "set (omap_erase k m) = {e \<in> set m. fst e \<noteq> k}"
  by (auto simp: omap_erase_def)

lemma omap_inv_hd: "omap_inv m \<Longrightarrow> m \<noteq> [] \<Longrightarrow> k \<in> fst ` set m \<Longrightarrow> fst (hd m) \<le> k"
  by (cases m) (fastforce intro: less_imp_le)+

lemma omap_inv_last: "omap_inv m \<Longrightarrow> m \<noteq> [] \<Longrightarrow> k \<in> fst ` set m \<Longrightarrow> k \<le> fst (last m)"
  by (cases m rule: rev_cases) (auto simp: omap_inv_append intro: less_imp_le)

lemma omap_inv_tl [inv_simps]: "omap_inv m \<Longrightarrow> omap_inv (tl m)"
  by (cases m) auto

lemma omap_inv_butlast [inv_simps]: "omap_inv m \<Longrightarrow> omap_inv (butlast m)"
  by (cases m rule: rev_cases) (auto simp: omap_inv_append)

text \<open>Where a key is or would be: every operation on that key acts between the same two parts.\<close>

lemma omap_split:
  assumes "omap_inv m"
  obtains lo hi where "\<forall>e \<in> set lo. fst e < k" "\<forall>e \<in> set hi. k < fst e"
    "m = lo @ (case omap_find m k of None \<Rightarrow> [] | Some v \<Rightarrow> [(k, v)]) @ hi"
    "\<And>v. omap_put k v m = lo @ (k, v) # hi" "omap_erase k m = lo @ hi"
  using assms
proof (induction m arbitrary: thesis)
  case Nil
  show ?case by (rule Nil(1) [of "[]" "[]"]) (simp_all add: omap_find_def omap_erase_def)
next
  case (Cons e m)
  obtain k' v' where e: "e = (k', v')" by (cases e)
  consider "k < k'" | "k = k'" | "k' < k" by (rule linorder_cases)
  then show ?case
  proof cases
    case 1
    then have "\<forall>x \<in> set (e # m). k < fst x" using Cons.prems(2) e by fastforce
    then have "omap_find (e # m) k = None" "omap_erase k (e # m) = e # m"
      by (auto simp: omap_find_eq_None omap_erase_def intro: filter_True)
    with 1 e show ?thesis using \<open>\<forall>x \<in> set (e # m). k < fst x\<close>
      by (intro Cons.prems(1) [of "[]" "e # m"]) auto
  next
    case 2
    then have "\<forall>x \<in> set m. k < fst x" using Cons.prems(2) e by fastforce
    moreover then have "omap_erase k (e # m) = m" "omap_find (e # m) k = Some v'"
      using 2 e by (auto simp: omap_find_def omap_erase_def intro: filter_True)
    ultimately show ?thesis using 2 e by (intro Cons.prems(1) [of "[]" m]) auto
  next
    case 3
    from Cons.prems(2) e have "omap_inv m" by simp
    then obtain lo hi where *: "\<forall>e \<in> set lo. fst e < k" "\<forall>e \<in> set hi. k < fst e"
      "m = lo @ (case omap_find m k of None \<Rightarrow> [] | Some v \<Rightarrow> [(k, v)]) @ hi"
      "\<And>v. omap_put k v m = lo @ (k, v) # hi" "omap_erase k m = lo @ hi"
      using Cons.IH by blast
    have "omap_find (e # m) k = omap_find m k" "omap_erase k (e # m) = e # omap_erase k m"
      using 3 e by (auto simp: omap_find_def omap_erase_def)
    with * 3 e show ?thesis by (intro Cons.prems(1) [of "e # lo" hi]) auto
  qed
qed

lemma omap_front_least:
  assumes "omap_inv m" "omap_front m = Some (k, v)"
  shows "omap_find m k = Some v \<and> (\<forall>k' v'. omap_find m k' = Some v' \<longrightarrow> k \<le> k')"
proof -
  from assms(2) have m: "m \<noteq> []" "hd m = (k, v)" by (auto simp: omap_front_def split: if_splits)
  then have "(k, v) \<in> set m" by (metis hd_in_set)
  moreover have "\<And>k' v'. (k', v') \<in> set m \<Longrightarrow> k \<le> k'"
    using omap_inv_hd [OF assms(1) m(1)] m(2) by force
  ultimately show ?thesis
    using assms(1) by (auto simp: omap_find_eq_Some)
qed

lemma omap_back_greatest:
  assumes "omap_inv m" "omap_back m = Some (k, v)"
  shows "omap_find m k = Some v \<and> (\<forall>k' v'. omap_find m k' = Some v' \<longrightarrow> k' \<le> k)"
proof -
  from assms(2) have m: "m \<noteq> []" "last m = (k, v)" by (auto simp: omap_back_def split: if_splits)
  then have "(k, v) \<in> set m" by (metis last_in_set)
  moreover have "\<And>k' v'. (k', v') \<in> set m \<Longrightarrow> k' \<le> k"
    using omap_inv_last [OF assms(1) m(1)] m(2) by force
  ultimately show ?thesis
    using assms(1) by (auto simp: omap_find_eq_Some)
qed

interpretation om: ordered_map omap_find omap_put omap_erase omap_front omap_back "[]" omap_inv
proof (unfold_locales, goal_cases)
  case (2 k)
  show ?case by (simp add: omap_find_def)
next
  case (7 m k v)
  then show ?case by (rule omap_front_least)
next
  case (8 m k v)
  then show ?case by (rule omap_back_greatest)
next
  case (9 m)
  then show ?case by (cases m) (auto simp: omap_front_def omap_find_eq_None)
next
  case (10 m)
  then show ?case by (cases m) (auto simp: omap_back_def omap_find_eq_None)
qed (simp_all add: inv_simps omap_find_put omap_find_erase)

end
