(* ===== verification/Book_Spec.thy ===== *)
theory Book_Spec
  imports Order_Book
begin

text \<open>
  The abstract specification of the order book and the proof that the loops of \<open>engine.cpp\<close>
  implement it.  A side of the book is abstracted to one queue of orders in priority order (best
  price first, then time of arrival).  Matching an incoming order is \<open>sweep\<close>: one pass over the
  queue that fills order after order while the price is acceptable and quantity is left.
\<close>

section \<open>The abstract book\<close>

type_synonym entry = "int \<times> node"

abbreviation px_of :: "entry \<Rightarrow> int" where "px_of e \<equiv> fst e"
abbreviation node_of :: "entry \<Rightarrow> nat" where "node_of e \<equiv> fst (snd e)"
abbreviation order_of :: "entry \<Rightarrow> resting" where "order_of e \<equiv> snd (snd e)"
abbreviation id_of :: "entry \<Rightarrow> u64" where "id_of e \<equiv> rid (order_of e)"
abbreviation qty_of :: "entry \<Rightarrow> int" where "qty_of e \<equiv> rqty (order_of e)"

definition entry_key :: "entry \<Rightarrow> int \<times> nat \<times> u64" where
  "entry_key e = (px_of e, node_of e, id_of e)"

definition levels :: "bool \<Rightarrow> book_side \<Rightarrow> book_side" where
  "levels asc m = (if asc then m else rev m)"

definition queue_of :: "bool \<Rightarrow> book_side \<Rightarrow> entry list" where
  "queue_of asc m = concat (map (\<lambda>(p, lvl). map (Pair p) lvl) (levels asc m))"

definition fill_of :: "int \<Rightarrow> entry \<Rightarrow> fill" where
  "fill_of t e = \<lparr>fill_px = px_of e, fill_qty = t, fill_maker = id_of e\<rparr>"

definition reduce :: "int \<Rightarrow> entry \<Rightarrow> entry" where
  "reduce t e = (px_of e, node_of e, (order_of e)\<lparr>rqty := qty_of e - t\<rparr>)"

fun sweep :: "(int \<Rightarrow> bool) \<Rightarrow> int \<Rightarrow> entry list \<Rightarrow> fill list \<times> int \<times> entry list" where
  "sweep ok q [] = ([], q, [])"
| "sweep ok q (e # es) =
     (if q \<le> 0 \<or> \<not> ok (px_of e) then ([], q, e # es)
      else if q < qty_of e then ([fill_of q e], 0, reduce q e # es)
      else (case sweep ok (q - qty_of e) es of (fs, q', es') \<Rightarrow> (fill_of (qty_of e) e # fs, q', es')))"

definition acceptable :: "bool \<Rightarrow> int \<Rightarrow> bool \<Rightarrow> int \<Rightarrow> bool" where
  "acceptable buy limit_px has_limit px \<longleftrightarrow> \<not> (has_limit \<and> beyond_limit buy limit_px px)"

section \<open>Facts about sweeping\<close>

lemma entry_key_reduce [simp]: "entry_key (reduce t e) = entry_key e"
  by (simp add: entry_key_def reduce_def)

lemma reduce_sel [simp]: "px_of (reduce t e) = px_of e" "node_of (reduce t e) = node_of e"
  "id_of (reduce t e) = id_of e" "qty_of (reduce t e) = qty_of e - t"
  by (simp_all add: reduce_def)

lemma sweep_exhausted [simp]: "q \<le> 0 \<Longrightarrow> sweep ok q es = ([], q, es)"
  by (cases es) auto

definition all_pos :: "entry list \<Rightarrow> bool" where
  "all_pos es \<longleftrightarrow> (\<forall>e \<in> set es. 0 < qty_of e)"

lemma all_pos_simps [simp]: "all_pos []" "all_pos (e # es) \<longleftrightarrow> 0 < qty_of e \<and> all_pos es"
  "all_pos (es @ es') \<longleftrightarrow> all_pos es \<and> all_pos es'"
  by (auto simp: all_pos_def)

lemma sweep_induct [consumes 1, case_names stop part full]:
  assumes "sweep ok q es = (fs, q', es')"
    and "\<And>q es. q \<le> 0 \<or> es = [] \<or> \<not> ok (px_of (hd es)) \<Longrightarrow> P q es [] q es"
    and "\<And>q e es. 0 < q \<Longrightarrow> ok (px_of e) \<Longrightarrow> q < qty_of e \<Longrightarrow> P q (e # es) [fill_of q e] 0 (reduce q e # es)"
    and "\<And>q e es fs q' es'. 0 < q \<Longrightarrow> ok (px_of e) \<Longrightarrow> qty_of e \<le> q \<Longrightarrow>
      sweep ok (q - qty_of e) es = (fs, q', es') \<Longrightarrow> P (q - qty_of e) es fs q' es' \<Longrightarrow>
      P q (e # es) (fill_of (qty_of e) e # fs) q' es'"
  shows "P q es fs q' es'"
  using assms(1)
proof (induction es arbitrary: q fs)
  case Nil
  then show ?case using assms(2) by auto
next
  case (Cons e es)
  consider "q \<le> 0 \<or> \<not> ok (px_of e)" | "0 < q" "ok (px_of e)" "q < qty_of e"
    | "0 < q" "ok (px_of e)" "qty_of e \<le> q" by fastforce
  then show ?case
  proof cases
    case 1
    with Cons.prems have "fs = []" "q' = q" "es' = e # es" by auto
    with 1 show ?thesis using assms(2) [of q "e # es"] by auto
  next
    case 2
    with Cons.prems have "fs = [fill_of q e]" "q' = 0" "es' = reduce q e # es" by auto
    with 2 show ?thesis using assms(3) by auto
  next
    case 3
    with Cons.prems obtain gs where gs: "sweep ok (q - qty_of e) es = (gs, q', es')" "fs = fill_of (qty_of e) e # gs"
      by (auto split: prod.splits)
    with 3 show ?thesis using assms(4) Cons.IH [OF gs(1)] by auto
  qed
qed

text \<open>Quantity is conserved: what the taker loses is what the fills and the makers account for.\<close>

lemma sweep_conserves:
  "sweep ok q es = (fs, q', es') \<Longrightarrow> sum_list (map fill_qty fs) + q' = q"
  by (induction rule: sweep_induct) (auto simp: fill_of_def)

lemma sweep_depth:
  "sweep ok q es = (fs, q', es') \<Longrightarrow> sum_list (map qty_of es) = sum_list (map fill_qty fs) + sum_list (map qty_of es')"
  by (induction rule: sweep_induct) (auto simp: fill_of_def)

lemma sweep_pos:
  "sweep ok q es = (fs, q', es') \<Longrightarrow> all_pos es \<Longrightarrow> all_pos es' \<and> (\<forall>f \<in> set fs. 0 < fill_qty f)"
  by (induction rule: sweep_induct) (auto simp: fill_of_def)

lemma sweep_left_nonneg:
  "sweep ok q es = (fs, q', es') \<Longrightarrow> 0 \<le> q \<Longrightarrow> 0 \<le> q'"
  by (induction rule: sweep_induct) auto

lemma sweep_left_le:
  "sweep ok q es = (fs, q', es') \<Longrightarrow> all_pos es \<Longrightarrow> q' \<le> q"
  by (induction rule: sweep_induct) auto

text \<open>What is left of the queue is a suffix of it, except that its first order may be reduced.\<close>

lemma sweep_suffix:
  "sweep ok q es = (fs, q', es') \<Longrightarrow>
   length es' \<le> length es \<and> map entry_key es' = map entry_key (drop (length es - length es') es)"
proof (induction rule: sweep_induct)
  case (full q e es fs q' es')
  then show ?case by (simp add: Suc_diff_le)
qed auto

lemma sweep_tail:
  "sweep ok q es = (fs, q', es') \<Longrightarrow> tl es' = drop (Suc (length es - length es')) es"
proof (induction rule: sweep_induct)
  case (stop q es)
  then show ?case by (simp add: drop_Suc)
next
  case (full q e es fs q' es')
  then show ?case using sweep_suffix [OF full.hyps(4)] by (simp add: Suc_diff_le)
qed auto

text \<open>Sweeping ends because the quantity, the queue or the acceptable prices are exhausted.\<close>

lemma sweep_complete:
  "sweep ok q es = (fs, q', es') \<Longrightarrow> q' \<le> 0 \<or> es' = [] \<or> \<not> ok (px_of (hd es'))"
  by (induction rule: sweep_induct) auto

text \<open>The fills name the makers front to back, each at the maker's own price.\<close>

lemma sweep_fills:
  "sweep ok q es = (fs, q', es') \<Longrightarrow>
   map (\<lambda>f. (fill_px f, fill_maker f)) fs = map (\<lambda>e. (px_of e, id_of e)) (take (length fs) es) \<and> length fs \<le> length es"
  by (induction rule: sweep_induct) (auto simp: fill_of_def)

lemma sweep_fill_prices:
  "sweep ok q es = (fs, q', es') \<Longrightarrow> f \<in> set fs \<Longrightarrow> ok (fill_px f)"
  by (induction rule: sweep_induct) (auto simp: fill_of_def)

text \<open>Every filled order but the last one is filled completely.\<close>

lemma sweep_full_fills:
  "sweep ok q es = (fs, q', es') \<Longrightarrow>
   map fill_qty (butlast fs) = map qty_of (take (length fs - 1) es)"
proof (induction rule: sweep_induct)
  case (full q e es fs q' es')
  then show ?case by (cases fs) (auto simp: fill_of_def)
qed auto

section \<open>One level\<close>

text \<open>Removing from the index the identifiers of consumed orders.\<close>

definition drop_ids :: "entry list \<Rightarrow> book_index \<Rightarrow> book_index" where
  "drop_ids es idx = (\<lambda>i. if i \<in> id_of ` set es then None else idx i)"

lemma drop_ids_Nil [simp]: "drop_ids [] idx = idx"
  by (simp add: drop_ids_def)

lemma drop_ids_Cons: "drop_ids (e # es) idx = drop_ids es (idx(id_of e := None))"
  by (auto simp: drop_ids_def)

lemma drop_ids_append: "drop_ids (es @ es') idx = drop_ids es' (drop_ids es idx)"
  by (auto simp: drop_ids_def fun_eq_iff)

text \<open>
  The statement that carries the refinement: running the concrete loop from one state to another is
  the same as moving along the sweep, whatever follows in the queue.
\<close>

definition advances :: "(int \<Rightarrow> bool) \<Rightarrow> int \<Rightarrow> entry list \<Rightarrow> book_index \<Rightarrow> fill list \<Rightarrow>
    int \<Rightarrow> entry list \<Rightarrow> book_index \<Rightarrow> fill list \<Rightarrow> bool" where
  "advances ok q es idx fs q' es' idx' fs' \<longleftrightarrow>
     (\<exists>gs dead. fs' = fs @ gs \<and> idx' = drop_ids dead idx \<and>
        map entry_key es = map entry_key dead @ map entry_key es' \<and>
        sweep ok q es = (case sweep ok q' es' of (hs, q'', es'') \<Rightarrow> (gs @ hs, q'', es'')))"

lemma advances_refl: "advances ok q es idx fs q es idx fs"
  unfolding advances_def by (intro exI [of _ "[]"]) (simp split: prod.split)

lemma advances_trans:
  assumes "advances ok q es idx fs q' es' idx' fs'" "advances ok q' es' idx' fs' q'' es'' idx'' fs''"
  shows "advances ok q es idx fs q'' es'' idx'' fs''"
proof -
  obtain gs dead gs' dead' where
    1: "fs' = fs @ gs" "idx' = drop_ids dead idx" "map entry_key es = map entry_key dead @ map entry_key es'"
      "sweep ok q es = (case sweep ok q' es' of (hs, r, es'') \<Rightarrow> (gs @ hs, r, es''))" and
    2: "fs'' = fs' @ gs'" "idx'' = drop_ids dead' idx'" "map entry_key es' = map entry_key dead' @ map entry_key es''"
      "sweep ok q' es' = (case sweep ok q'' es'' of (hs, r, es''') \<Rightarrow> (gs' @ hs, r, es'''))"
    using assms unfolding advances_def by blast
  show ?thesis unfolding advances_def
    by (rule exI [of _ "gs @ gs'"], rule exI [of _ "dead @ dead'"])
      (use 1 2 in \<open>simp add: drop_ids_append split: prod.splits\<close>)
qed

lemma advances_full:
  assumes "0 < q" "ok (px_of e)" "qty_of e \<le> q"
  shows "advances ok q (e # es) idx fs (q - qty_of e) es (idx(id_of e := None)) (fs @ [fill_of (qty_of e) e])"
  unfolding advances_def
  by (rule exI [of _ "[fill_of (qty_of e) e]"], rule exI [of _ "[e]"])
    (use assms in \<open>auto simp: drop_ids_Cons split: prod.splits\<close>)

lemma advances_part:
  assumes "0 < q" "ok (px_of e)" "q < qty_of e"
  shows "advances ok q (e # es) idx fs 0 (reduce q e # es) idx (fs @ [fill_of q e])"
  unfolding advances_def
  by (rule exI [of _ "[fill_of q e]"], rule exI [of _ "[]"]) (use assms in simp)

definition pos_level :: "node list \<Rightarrow> bool" where
  "pos_level lvl \<longleftrightarrow> (\<forall>n \<in> set lvl. 0 < rqty (snd n))"

lemma pos_level_simps [simp]: "pos_level []" "pos_level (n # lvl) \<longleftrightarrow> 0 < rqty (snd n) \<and> pos_level lvl"
  "pos_level (lvl @ lvl') \<longleftrightarrow> pos_level lvl \<and> pos_level lvl'"
  by (auto simp: pos_level_def)

text \<open>The three ways one round of the inner loop can go.\<close>

lemma match_level_stop: "qty \<le> 0 \<Longrightarrow> match_level best qty lvl idx fills = (qty, lvl, idx, fills)"
  by (cases lvl) auto

lemma match_level_part:
  "0 < qty \<Longrightarrow> qty < rqty m \<Longrightarrow>
   match_level best qty ((a, m) # lvl) idx fills =
     (0, (a, m\<lparr>rqty := rqty m - qty\<rparr>) # lvl, idx, fills @ [fill_of qty (best, a, m)])"
  by (simp add: fill_of_def)

lemma match_level_full:
  "0 < qty \<Longrightarrow> rqty m \<le> qty \<Longrightarrow>
   match_level best qty ((a, m) # lvl) idx fills =
     match_level best (qty - rqty m) lvl (idx(rid m := None)) (fills @ [fill_of (rqty m) (best, a, m)])"
  by (simp add: fill_of_def Let_def)

declare match_level.simps [simp del]

lemma match_level_Nil [simp]: "match_level best qty [] idx fills = (qty, [], idx, fills)"
  by (simp add: match_level.simps)

lemma match_level_sim:
  assumes "match_level best qty lvl idx fills = (qty', lvl', idx', fills')" and "pos_level lvl" and "ok best"
  shows "advances ok qty (map (Pair best) lvl @ es) idx fills qty' (map (Pair best) lvl' @ es) idx' fills'
    \<and> pos_level lvl'"
  using assms(1,2)
proof (induction lvl arbitrary: qty idx fills)
  case Nil
  then show ?case by (simp add: advances_refl)
next
  case (Cons n lvl)
  obtain a m where n: "n = (a, m)" by (cases n)
  let ?e = "(best, a, m)"
  consider "qty \<le> 0" | "0 < qty" "qty < rqty m" | "0 < qty" "rqty m \<le> qty" by linarith
  then show ?case
  proof cases
    case 1
    with Cons.prems show ?thesis by (simp add: advances_refl match_level_stop)
  next
    case 2
    with Cons.prems n have "qty' = 0" "lvl' = (a, m\<lparr>rqty := rqty m - qty\<rparr>) # lvl" "idx' = idx"
      "fills' = fills @ [fill_of qty ?e]" by (auto simp: match_level_part)
    with 2 Cons.prems(2) n show ?thesis
      using advances_part [of qty ok ?e "map (Pair best) lvl @ es" idx fills] assms(3)
      by (simp add: reduce_def)
  next
    case 3
    have "match_level best (qty - rqty m) lvl (idx(rid m := None)) (fills @ [fill_of (rqty m) ?e])
        = (qty', lvl', idx', fills')"
      using Cons.prems(1) 3 n by (simp add: match_level_full)
    note IH = Cons.IH [OF this]
    have "advances ok qty (map (Pair best) (n # lvl) @ es) idx fills (qty - rqty m)
        (map (Pair best) lvl @ es) (idx(rid m := None)) (fills @ [fill_of (rqty m) ?e])"
      using advances_full [of qty ok ?e "map (Pair best) lvl @ es" idx fills] assms(3) 3 n by simp
    with IH Cons.prems(2) n show ?thesis
      by (blast intro: advances_trans pos_level_simps(2) [THEN iffD1, THEN conjunct2])
  qed
qed

section \<open>The whole book\<close>

definition side_inv :: "book_side \<Rightarrow> bool" where
  "side_inv m \<longleftrightarrow> omap_inv m \<and> (\<forall>l \<in> set m. snd l \<noteq> [] \<and> pos_level (snd l))"

lemma levels_Nil_iff [simp]: "levels asc m = [] \<longleftrightarrow> m = []"
  by (simp add: levels_def)

lemma set_levels [simp]: "set (levels asc m) = set m"
  by (simp add: levels_def)

lemma levels_best:
  assumes "m \<noteq> []"
  shows "levels asc m = best_it asc m # levels asc (erase_best asc m)"
  using assms by (cases m rule: rev_cases) (auto simp: levels_def best_it_def erase_best_def)

lemma levels_set_best:
  assumes "m \<noteq> []"
  shows "levels asc (set_best asc lvl m) = (fst (best_it asc m), lvl) # levels asc (erase_best asc m)"
  using assms by (cases m rule: rev_cases) (auto simp: levels_def best_it_def erase_best_def set_best_def)

lemma erase_set_best [simp]: "m \<noteq> [] \<Longrightarrow> erase_best asc (set_best asc lvl m) = erase_best asc m"
  by (auto simp: erase_best_def set_best_def)

lemma queue_of_best:
  "m \<noteq> [] \<Longrightarrow> queue_of asc m = map (Pair (fst (best_it asc m))) (snd (best_it asc m)) @ queue_of asc (erase_best asc m)"
  by (simp add: queue_of_def levels_best split: prod.split)

lemma queue_of_set_best:
  "m \<noteq> [] \<Longrightarrow> queue_of asc (set_best asc lvl m) = map (Pair (fst (best_it asc m))) lvl @ queue_of asc (erase_best asc m)"
  by (simp add: queue_of_def levels_set_best)

lemma queue_of_Nil [simp]: "queue_of asc [] = []"
  by (simp add: queue_of_def levels_def)

lemma best_it_in: "m \<noteq> [] \<Longrightarrow> best_it asc m \<in> set m"
  by (simp add: best_it_def)

lemma set_erase_best: "set (erase_best asc m) \<subseteq> set m"
  by (cases m) (auto simp: erase_best_def dest: in_set_butlastD)

lemma side_inv_erase_best [inv_simps]: "side_inv m \<Longrightarrow> side_inv (erase_best asc m)"
  using set_erase_best [of asc m] by (auto simp: side_inv_def erase_best_def inv_simps)

lemma map_fst_set_best:
  assumes "m \<noteq> []"
  shows "map fst (set_best asc lvl m) = map fst m"
proof (cases asc)
  case True
  with assms show ?thesis by (cases m) (simp_all add: set_best_def)
next
  case False
  with assms show ?thesis by (cases m rule: rev_cases) (simp_all add: set_best_def)
qed

lemma set_set_best: "m \<noteq> [] \<Longrightarrow> set (set_best asc lvl m) \<subseteq> insert (fst (best_it asc m), lvl) (set m)"
  by (cases m rule: rev_cases; cases asc) (auto simp: set_best_def best_it_def hd_append tl_append split: list.splits)

lemma side_inv_set_best [inv_simps]:
  assumes "side_inv m" "m \<noteq> []" "lvl \<noteq> []" "pos_level lvl"
  shows "side_inv (set_best asc lvl m)"
  using assms set_set_best [OF assms(2), of asc lvl]
  by (auto simp: side_inv_def omap_inv_def map_fst_set_best)

lemma match_loop_advances:
  assumes "match_loop buy lp hl qty opp idx fills = (qty', opp', idx', fills')" "side_inv opp"
  shows "advances (acceptable buy lp hl) qty (queue_of buy opp) idx fills qty' (queue_of buy opp') idx' fills'
    \<and> side_inv opp'"
  using assms
proof (induction buy lp hl qty opp idx fills rule: match_loop.induct)
  case (1 buy lp hl qty opp idx fills)
  let ?best = "fst (best_it buy opp)" and ?lvl = "snd (best_it buy opp)"
  show ?case
  proof (cases "qty > 0 \<and> opp \<noteq> [] \<and> \<not> (hl \<and> beyond_limit buy lp ?best)")
    case False
    then have "qty' = qty" "opp' = opp" "idx' = idx" "fills' = fills"
      using "1.prems"(1) by (subst (asm) match_loop.simps, auto split: if_splits)+
    with "1.prems"(2) show ?thesis by (simp add: advances_refl)
  next
    case True
    then have c1: "0 < qty \<and> opp \<noteq> []" and c2: "\<not> (hl \<and> beyond_limit buy lp ?best)" by auto
    obtain q l i f where lv: "match_level ?best qty ?lvl idx fills = (q, l, i, f)" by (metis prod_cases4)
    let ?opp = "if l = [] then erase_best buy (set_best buy l opp) else set_best buy l opp"
    have step: "match_loop buy lp hl q ?opp i f = (qty', opp', idx', fills')"
      using "1.prems"(1) True lv by (subst (asm) match_loop.simps) (simp add: Let_def)
    have pos: "pos_level ?lvl"
      using "1.prems"(2) True best_it_in [of opp buy] by (auto simp: side_inv_def)
    have ok: "acceptable buy lp hl ?best" using True by (simp add: acceptable_def)
    note sim = match_level_sim [of ?best qty ?lvl idx fills q l i f "acceptable buy lp hl", OF lv pos ok, of "queue_of buy (erase_best buy opp)"]
    have inv: "side_inv ?opp"
      using "1.prems"(2) True sim by (auto intro: inv_simps)
    from sim have "advances (acceptable buy lp hl) qty (queue_of buy opp) idx fills q (queue_of buy ?opp) i f"
      using True by (auto simp: queue_of_best [of opp] queue_of_set_best)
    moreover have "advances (acceptable buy lp hl) q (queue_of buy ?opp) i f qty' (queue_of buy opp') idx' fills'
        \<and> side_inv opp'"
      by (rule "1.IH" [OF c1 refl c2 lv [symmetric] refl refl refl refl step inv])
    ultimately show ?thesis using advances_trans by blast
  qed
qed

lemma match_loop_stops:
  "match_loop buy lp hl qty opp idx fills = (qty', opp', idx', fills') \<Longrightarrow>
   qty' \<le> 0 \<or> opp' = [] \<or> \<not> acceptable buy lp hl (fst (best_it buy opp'))"
proof (induction buy lp hl qty opp idx fills rule: match_loop.induct)
  case (1 buy lp hl qty opp idx fills)
  show ?case
  proof (cases "(0 < qty \<and> opp \<noteq> []) \<and> \<not> (hl \<and> beyond_limit buy lp (fst (best_it buy opp)))")
    case False
    with "1.prems" show ?thesis
      by (subst (asm) match_loop.simps) (auto simp: acceptable_def split: if_splits)
  next
    case True
    then have c1: "0 < qty \<and> opp \<noteq> []" and c2: "\<not> (hl \<and> beyond_limit buy lp (fst (best_it buy opp)))" by auto
    obtain q l i f where lv: "match_level (fst (best_it buy opp)) qty (snd (best_it buy opp)) idx fills = (q, l, i, f)"
      by (metis prod_cases4)
    show ?thesis
      by (rule "1.IH" [OF c1 refl c2 lv [symmetric] refl refl refl refl])
        (use "1.prems" c1 c2 lv in \<open>subst (asm) match_loop.simps, simp add: Let_def\<close>)
  qed
qed

text \<open>
  The refinement of the matching loop: the fills are those of the sweep, the opposite side is
  abstracted to the queue the sweep leaves, and exactly the identifiers of the consumed orders have
  left the index.
\<close>

lemma match_loop_refines:
  assumes run: "match_loop buy lp hl qty opp idx fills = (qty', opp', idx', fills')" and inv: "side_inv opp"
  obtains fs where "fills' = fills @ fs"
    "sweep (acceptable buy lp hl) qty (queue_of buy opp) = (fs, qty', queue_of buy opp')"
    "idx' = drop_ids (take (length (queue_of buy opp) - length (queue_of buy opp')) (queue_of buy opp)) idx"
    "side_inv opp'"
proof -
  let ?ok = "acceptable buy lp hl" and ?es = "queue_of buy opp" and ?es' = "queue_of buy opp'"
  have inv': "side_inv opp'" using match_loop_advances [OF run inv] by blast
  have "sweep ?ok qty' ?es' = ([], qty', ?es')"
  proof (cases "opp' = [] \<or> qty' \<le> 0")
    case False
    then have "snd (best_it buy opp') \<noteq> []"
      using inv' best_it_in [of opp' buy] by (auto simp: side_inv_def)
    with False match_loop_stops [OF run] show ?thesis
      by (cases "snd (best_it buy opp')") (auto simp: queue_of_best)
  qed auto
  then obtain gs dead where *: "fills' = fills @ gs" "idx' = drop_ids dead idx"
      "map entry_key ?es = map entry_key dead @ map entry_key ?es'"
      "sweep ?ok qty ?es = (gs, qty', ?es')"
    using match_loop_advances [OF run inv] unfolding advances_def by auto
  from arg_cong [OF *(3), of length] have len: "length ?es = length dead + length ?es'" by simp
  from *(3) have "map entry_key (take (length dead) ?es) = map entry_key dead"
    by (metis append_eq_conv_conj length_map take_map)
  then have "map (snd \<circ> snd) (map entry_key (take (length dead) ?es)) = map (snd \<circ> snd) (map entry_key dead)"
    by simp
  then have "map id_of (take (length dead) ?es) = map id_of dead" by (simp add: entry_key_def o_def)
  then have "id_of ` set (take (length dead) ?es) = id_of ` set dead" by (metis list.set_map)
  with len *(2) have "idx' = drop_ids (take (length ?es - length ?es') ?es) idx"
    by (simp add: drop_ids_def)
  with * inv' that show ?thesis by blast
qed

end
