(* ===== verification/Book_Invariant.thy ===== *)
theory Book_Invariant
  imports Book_Spec "HOL-Library.Multiset"
begin

text \<open>
  The invariant of the order book and the proofs that every operation of \<open>OrderBook\<close> keeps it:
  levels ascending and non-empty with positive quantities, an uncrossed book, list nodes that are
  distinct and allocated, and an index whose iterators point at live nodes that carry the indexed
  identifier.  The locale \<open>venue\<close> states what the message handlers need of a book.
\<close>

section \<open>Queues of a side\<close>

lemma queue_of_append: "queue_of True (m @ m') = queue_of True m @ queue_of True m'"
  "queue_of False (m @ m') = queue_of False m' @ queue_of False m"
  by (simp_all add: queue_of_def levels_def)

lemma queue_of_Cons: "queue_of True ((p, l) # m) = map (Pair p) l @ queue_of True m"
  "queue_of False ((p, l) # m) = queue_of False m @ map (Pair p) l"
  by (simp_all add: queue_of_def levels_def)

lemma in_queue_of: "e \<in> set (queue_of asc m) \<longleftrightarrow> (\<exists>l. (px_of e, l) \<in> set m \<and> snd e \<in> set l)"
  by (cases e) (auto simp: queue_of_def)

lemma in_queue_of_find:
  "side_inv m \<Longrightarrow> e \<in> set (queue_of asc m) \<longleftrightarrow> (\<exists>l. omap_find m (px_of e) = Some l \<and> snd e \<in> set l)"
  by (auto simp: in_queue_of omap_find_eq_Some side_inv_def)

lemma keys_queue_of: "side_inv m \<Longrightarrow> fst ` set m = px_of ` set (queue_of asc m)"
proof (intro subset_antisym subsetI)
  fix p assume inv: "side_inv m" and "p \<in> fst ` set m"
  then obtain l where l: "(p, l) \<in> set m" by auto
  with inv have "l \<noteq> []" by (force simp: side_inv_def)
  then have "(p, hd l) \<in> set (queue_of asc m)" using l by (auto simp: in_queue_of)
  then show "p \<in> px_of ` set (queue_of asc m)" by force
qed (force simp: in_queue_of)

lemma side_inv_all_pos: "side_inv m \<Longrightarrow> all_pos (queue_of asc m)"
  by (fastforce simp: all_pos_def in_queue_of side_inv_def pos_level_def)

text \<open>\<open>ahead asc p px\<close>: a resting price \<open>p\<close> has at least the priority of \<open>px\<close>.\<close>

definition ahead :: "bool \<Rightarrow> int \<Rightarrow> int \<Rightarrow> bool" where
  "ahead asc p px = (if asc then p \<le> px else px \<le> p)"

definition enqueue :: "bool \<Rightarrow> entry \<Rightarrow> entry list \<Rightarrow> entry list" where
  "enqueue asc e es =
     takeWhile (\<lambda>x. ahead asc (px_of x) (px_of e)) es @ e # dropWhile (\<lambda>x. ahead asc (px_of x) (px_of e)) es"

lemma queue_sorted:
  "omap_inv m \<Longrightarrow> sorted_wrt (\<lambda>x y. ahead asc (px_of x) (px_of y)) (queue_of asc m)"
proof (induction m)
  case (Cons e m)
  obtain p l where e: "e = (p, l)" by (cases e)
  have "sorted_wrt (\<lambda>x y. ahead asc (px_of x) (px_of y)) (map (Pair p) l)"
    by (induction l) (auto simp: ahead_def)
  moreover have "\<forall>x \<in> set (queue_of asc m). p < px_of x"
    using Cons.prems e by (fastforce simp: in_queue_of)
  ultimately show ?case using Cons e
    by (cases asc) (auto simp: queue_of_Cons sorted_wrt_append ahead_def less_imp_le)
qed simp

lemma queue_of_put:
  assumes "omap_inv m"
  shows "queue_of asc (omap_put px (level_at m px @ [n]) m) = enqueue asc (px, n) (queue_of asc m)"
proof -
  obtain lo hi where *: "\<forall>e \<in> set lo. fst e < px" "\<forall>e \<in> set hi. px < fst e"
      "m = lo @ (case omap_find m px of None \<Rightarrow> [] | Some v \<Rightarrow> [(px, v)]) @ hi"
      "\<And>v. omap_put px v m = lo @ (px, v) # hi"
    using assms by (metis omap_split)
  let ?mid = "map (Pair px) (level_at m px)"
  have mid: "queue_of asc (case omap_find m px of None \<Rightarrow> [] | Some v \<Rightarrow> [(px, v)]) = ?mid"
    by (cases asc) (auto simp: level_at_def queue_of_Cons split: option.split)
  have lo: "\<And>x. x \<in> set (queue_of asc lo) \<Longrightarrow> px_of x < px"
    and hi: "\<And>x. x \<in> set (queue_of asc hi) \<Longrightarrow> px < px_of x"
    using *(1,2) by (force simp: in_queue_of)+
  show ?thesis
  proof (cases asc)
    case True
    have q: "queue_of True m = queue_of True lo @ ?mid @ queue_of True hi"
      by (subst *(3)) (use mid True in \<open>simp add: queue_of_append\<close>)
    have "takeWhile (\<lambda>x. px_of x \<le> px) (queue_of True hi) = []"
      "dropWhile (\<lambda>x. px_of x \<le> px) (queue_of True hi) = queue_of True hi"
      using hi True by (cases "queue_of True hi"; force)+
    then show ?thesis using lo True
      by (simp add: *(4) queue_of_append queue_of_Cons enqueue_def ahead_def q takeWhile_append dropWhile_append less_imp_le)
  next
    case False
    have q: "queue_of False m = queue_of False hi @ ?mid @ queue_of False lo"
      by (subst *(3)) (use mid False in \<open>simp add: queue_of_append\<close>)
    have "takeWhile (\<lambda>x. px \<le> px_of x) (queue_of False lo) = []"
      "dropWhile (\<lambda>x. px \<le> px_of x) (queue_of False lo) = queue_of False lo"
      using lo False by (cases "queue_of False lo"; force)+
    then show ?thesis using hi False
      by (simp add: *(4) queue_of_append queue_of_Cons enqueue_def ahead_def q takeWhile_append dropWhile_append less_imp_le)
  qed
qed

lemma set_enqueue [simp]: "set (enqueue asc e es) = insert e (set es)"
proof -
  have "set es = set (takeWhile P es) \<union> set (dropWhile P es)" for P
    by (metis set_append takeWhile_dropWhile_id)
  then show ?thesis by (auto simp: enqueue_def)
qed

lemma mset_enqueue: "mset (enqueue asc e es) = add_mset e (mset es)"
  unfolding enqueue_def mset_append mset.simps
  by (metis add_mset_add_single mset_append takeWhile_dropWhile_id union_mset_add_mset_right)

lemma distinct_enqueue:
  "distinct (map f (enqueue asc e es)) \<longleftrightarrow> f e \<notin> f ` set es \<and> distinct (map f es)"
proof -
  have "mset (map f (enqueue asc e es)) = mset (map f (e # es))" by (simp add: mset_enqueue)
  then have "distinct (map f (enqueue asc e es)) \<longleftrightarrow> distinct (map f (e # es))" by (rule mset_eq_imp_distinct_iff)
  then show ?thesis by simp
qed

section \<open>The invariant\<close>

definition book_queue :: "char \<Rightarrow> order_book \<Rightarrow> entry list" where
  "book_queue c b = (if c = CHR ''b'' then queue_of False (bids b) else queue_of True (asks b))"

definition all_orders :: "order_book \<Rightarrow> entry list" where
  "all_orders b = queue_of False (bids b) @ queue_of True (asks b)"

definition uncrossed :: "order_book \<Rightarrow> bool" where
  "uncrossed b \<longleftrightarrow> (\<forall>p \<in> px_of ` set (queue_of False (bids b)). \<forall>q \<in> px_of ` set (queue_of True (asks b)). p < q)"

definition nodes_ok :: "order_book \<Rightarrow> bool" where
  "nodes_ok b \<longleftrightarrow> distinct (map node_of (all_orders b)) \<and> node_of ` set (all_orders b) \<subseteq> {..<next_node b}"

definition indexed :: "order_book \<Rightarrow> u64 \<Rightarrow> loc \<Rightarrow> bool" where
  "indexed b i f \<longleftrightarrow>
     (\<exists>e \<in> set (book_queue (loc_side f) b). entry_key e = (loc_price f, loc_it f, i))"

definition index_sound :: "order_book \<Rightarrow> bool" where
  "index_sound b \<longleftrightarrow> (\<forall>i f. index b i = Some f \<longrightarrow> indexed b i f)"

definition book_inv :: "order_book \<Rightarrow> bool" where
  "book_inv b \<longleftrightarrow> side_inv (bids b) \<and> side_inv (asks b) \<and> uncrossed b \<and> nodes_ok b \<and> index_sound b"

lemma side_inv_Nil [simp]: "side_inv []"
  by (simp add: side_inv_def)

lemma book_inv_empty [inv_simps]: "book_inv empty_book"
  by (simp add: book_inv_def empty_book_def uncrossed_def nodes_ok_def all_orders_def index_sound_def)

section \<open>Matching\<close>

lemma image_entry_key_subset:
  assumes "sweep ok q es = (fs, q', es')"
  shows "entry_key ` set es' \<subseteq> entry_key ` set es"
  using sweep_suffix [OF assms] by (metis list.set_map image_mono set_drop_subset)

lemma image_subset_of_key:
  assumes "entry_key ` set es' \<subseteq> entry_key ` set es"
  shows "px_of ` set es' \<subseteq> px_of ` set es" "node_of ` set es' \<subseteq> node_of ` set es"
proof -
  have p: "px_of ` A = fst ` (entry_key ` A)" "node_of ` A = (fst \<circ> snd) ` (entry_key ` A)" for A
    by (force simp: entry_key_def image_image)+
  show "px_of ` set es' \<subseteq> px_of ` set es" "node_of ` set es' \<subseteq> node_of ` set es"
    unfolding p using assms by (rule image_mono)+
qed

lemma distinct_nodes_suffix:
  assumes "sweep ok q es = (fs, q', es')" "distinct (map node_of es)"
  shows "distinct (map node_of es')"
proof -
  have m: "map node_of xs = map (fst \<circ> snd) (map entry_key xs)" for xs
    by (simp add: entry_key_def)
  have "distinct (map node_of (drop (length es - length es') es))"
    using assms(2) by (simp add: drop_map [symmetric])
  then show ?thesis using sweep_suffix [OF assms(1)] by (metis m)
qed

lemma index_after_sweep:
  assumes sw: "sweep ok q es = (fs, q', es')" and i: "i \<notin> id_of ` set (take (length es - length es') es)"
    and e: "e \<in> set es" "entry_key e = (p, a, i)"
  shows "\<exists>e' \<in> set es'. entry_key e' = (p, a, i)"
proof -
  let ?n = "length es - length es'"
  have "e \<notin> set (take ?n es)" using i e(2) by (auto simp: entry_key_def)
  with e(1) have "e \<in> set (drop ?n es)"
    by (metis Un_iff append_take_drop_id set_append)
  then have "entry_key e \<in> set (map entry_key es')"
    using sweep_suffix [OF sw] by (metis image_eqI list.set_map)
  with e(2) show ?thesis by auto
qed

lemma book_queue_simps: "book_queue CHR ''b'' b = queue_of False (bids b)"
  "book_queue CHR ''a'' b = queue_of True (asks b)"
  by (simp_all add: book_queue_def)

lemma uncrossed_mono:
  assumes "uncrossed b" "\<And>c. px_of ` set (book_queue c b') \<subseteq> px_of ` set (book_queue c b)"
  shows "uncrossed b'"
  using assms(1) assms(2) [of "CHR ''a''"] assms(2) [of "CHR ''b''"]
  unfolding uncrossed_def book_queue_simps by blast

lemma nodes_ok_mono:
  assumes "nodes_ok b" "\<And>c. node_of ` set (book_queue c b') \<subseteq> node_of ` set (book_queue c b)"
    "\<And>c. distinct (map node_of (book_queue c b'))" "next_node b \<le> next_node b'"
  shows "nodes_ok b'"
proof -
  let ?B = "node_of ` set (queue_of False (bids b))" and ?A = "node_of ` set (queue_of True (asks b))"
  let ?B' = "node_of ` set (queue_of False (bids b'))" and ?A' = "node_of ` set (queue_of True (asks b'))"
  note sub = assms(2) [of "CHR ''b''", unfolded book_queue_simps] assms(2) [of "CHR ''a''", unfolded book_queue_simps]
  have "?B \<inter> ?A = {}" "?B \<union> ?A \<subseteq> {..<next_node b}"
    using assms(1) by (simp_all add: nodes_ok_def all_orders_def image_Un)
  moreover have "{..<next_node b} \<subseteq> {..<next_node b'}" using assms(4) by simp
  ultimately have "?B' \<inter> ?A' = {}" "?B' \<union> ?A' \<subseteq> {..<next_node b'}"
    using Int_mono [OF sub] Un_mono [OF sub] by (auto simp only: subset_empty intro: subset_trans)
  then show ?thesis using assms(3) [of "CHR ''b''"] assms(3) [of "CHR ''a''"]
    by (simp add: nodes_ok_def all_orders_def image_Un book_queue_simps)
qed

lemma distinct_book_queue: "nodes_ok b \<Longrightarrow> distinct (map node_of (book_queue c b))"
  by (simp add: nodes_ok_def all_orders_def book_queue_def)

lemma drop_ids_Some: "drop_ids es idx i = Some f \<longleftrightarrow> i \<notin> id_of ` set es \<and> idx i = Some f"
  by (auto simp: drop_ids_def)

text \<open>The sides a taker matches against and rests on.\<close>

abbreviation opp_side :: "bool \<Rightarrow> char" where "opp_side buy \<equiv> (if buy then CHR ''a'' else CHR ''b'')"
abbreviation own_side :: "bool \<Rightarrow> char" where "own_side buy \<equiv> (if buy then CHR ''b'' else CHR ''a'')"

lemma match_order_effect:
  assumes inv: "book_inv b" and run: "match_order buy lp qty hl b = (fs, qty', b')"
  shows "sweep (acceptable buy lp hl) qty (book_queue (opp_side buy) b) = (fs, qty', book_queue (opp_side buy) b')"
    and "book_queue (own_side buy) b' = book_queue (own_side buy) b"
    and "next_node b' = next_node b"
    and "index b' = drop_ids (take (length (book_queue (opp_side buy) b) - length (book_queue (opp_side buy) b'))
       (book_queue (opp_side buy) b)) (index b)"
    and "side_inv (bids b')" and "side_inv (asks b')"
    and "(if buy then bids b' else asks b') = (if buy then bids b else asks b)"
proof -
  obtain opp' idx' where loop: "match_loop buy lp hl qty (if buy then asks b else bids b) (index b) [] = (qty', opp', idx', fs)"
    and b': "b' = (if buy then b\<lparr>asks := opp', index := idx'\<rparr> else b\<lparr>bids := opp', index := idx'\<rparr>)"
    using run by (auto simp: match_order_def split: prod.splits if_splits)
  have "side_inv (if buy then asks b else bids b)" using inv by (simp add: book_inv_def)
  then obtain gs where "fs = [] @ gs"
    "sweep (acceptable buy lp hl) qty (queue_of buy (if buy then asks b else bids b)) = (gs, qty', queue_of buy opp')"
    "idx' = drop_ids (take (length (queue_of buy (if buy then asks b else bids b)) - length (queue_of buy opp'))
       (queue_of buy (if buy then asks b else bids b))) (index b)"
    "side_inv opp'"
    by (rule match_loop_refines [OF loop])
  note * = this [unfolded append_Nil]
  show "sweep (acceptable buy lp hl) qty (book_queue (opp_side buy) b) = (fs, qty', book_queue (opp_side buy) b')"
    "index b' = drop_ids (take (length (book_queue (opp_side buy) b) - length (book_queue (opp_side buy) b'))
       (book_queue (opp_side buy) b)) (index b)"
    "side_inv (bids b')" "side_inv (asks b')"
    using inv * by (auto simp: b' book_queue_def book_inv_def)
qed (use run in \<open>auto simp: match_order_def book_queue_def split: prod.splits if_splits\<close>)

lemma book_inv_match [inv_simps]:
  assumes inv: "book_inv b" and run: "match_order buy lp qty hl b = (fs, qty', b')"
  shows "book_inv b'"
proof -
  let ?o = "opp_side buy" and ?s = "own_side buy"
  define es' where "es' = book_queue ?o b'"
  note eff = match_order_effect [OF inv run]
  have sw: "sweep (acceptable buy lp hl) qty (book_queue ?o b) = (fs, qty', es')"
    and q: "book_queue ?o b' = es'" "book_queue ?s b' = book_queue ?s b" "next_node b' = next_node b"
    and idx: "index b' = drop_ids (take (length (book_queue ?o b) - length es') (book_queue ?o b)) (index b)"
    and sides: "side_inv (bids b')" "side_inv (asks b')"
    using eff by (simp_all add: es'_def)
  have side: "book_queue c b' = es' \<and> book_queue c b = book_queue ?o b \<or> book_queue c b' = book_queue c b" for c
    using q(1,2) by (cases buy; cases "c = CHR ''b''") (simp_all add: book_queue_def)
  note sub = image_subset_of_key [OF image_entry_key_subset [OF sw]]
  have u: "uncrossed b" and n: "nodes_ok b" and x: "index_sound b" using inv by (simp_all add: book_inv_def)
  have "uncrossed b'"
    by (rule uncrossed_mono [OF u]) (use side sub(1) in \<open>metis order_refl\<close>)
  moreover have "nodes_ok b'"
  proof (rule nodes_ok_mono [OF n])
    fix c
    show "node_of ` set (book_queue c b') \<subseteq> node_of ` set (book_queue c b)"
      using side [of c] sub(2) by (metis order_refl)
    show "distinct (map node_of (book_queue c b'))"
      using side [of c] distinct_book_queue [OF n] distinct_nodes_suffix [OF sw] by metis
  qed (use q in simp)
  moreover have "index_sound b'"
    unfolding index_sound_def
  proof (intro allI impI)
    fix i f assume "index b' i = Some f"
    then have i: "i \<notin> id_of ` set (take (length (book_queue ?o b) - length es') (book_queue ?o b))"
      and f: "index b i = Some f" by (simp_all add: idx drop_ids_Some)
    from f x obtain e where e: "e \<in> set (book_queue (loc_side f) b)" "entry_key e = (loc_price f, loc_it f, i)"
      unfolding index_sound_def indexed_def by blast
    from side [of "loc_side f"] show "indexed b' i f"
    proof
      assume "book_queue (loc_side f) b' = es' \<and> book_queue (loc_side f) b = book_queue ?o b"
      then show ?thesis using index_after_sweep [OF sw i] e by (simp add: indexed_def)
    next
      assume "book_queue (loc_side f) b' = book_queue (loc_side f) b"
      with e show ?thesis by (auto simp: indexed_def)
    qed
  qed
  ultimately show ?thesis using sides by (simp add: book_inv_def)
qed


section \<open>Resting an order\<close>

lemma side_inv_put:
  assumes "side_inv m" "0 < rqty r"
  shows "side_inv (omap_put px (level_at m px @ [(a, r)]) m)"
proof -
  have "pos_level (level_at m px)"
    using assms(1) by (auto simp: level_at_def side_inv_def omap_find_eq_Some split: option.split)
  then show ?thesis
    using assms by (auto simp: side_inv_def inv_simps set_omap_put set_omap_erase)
qed

lemma rest_order_effect:
  assumes "book_inv b"
  shows "book_queue (own_side buy) (rest_order oid buy px q b) =
      enqueue (\<not> buy) (px, next_node b, \<lparr>rid = oid, rqty = q\<rparr>) (book_queue (own_side buy) b)"
    and "book_queue (opp_side buy) (rest_order oid buy px q b) = book_queue (opp_side buy) b"
    and "index (rest_order oid buy px q b) =
      (index b)(oid \<mapsto> \<lparr>loc_side = own_side buy, loc_price = px, loc_it = next_node b\<rparr>)"
    and "next_node (rest_order oid buy px q b) = Suc (next_node b)"
  using assms by (cases buy; simp add: rest_order_def book_queue_def Let_def queue_of_put book_inv_def side_inv_def)+

lemma book_inv_rest [inv_simps]:
  assumes inv: "book_inv b" and q: "0 < q"
    and clear: "\<And>p. p \<in> px_of ` set (book_queue (opp_side buy) b) \<Longrightarrow> if buy then px < p else p < px"
  shows "book_inv (rest_order oid buy px q b)"
proof -
  let ?b' = "rest_order oid buy px q b" and ?e = "(px, next_node b, \<lparr>rid = oid, rqty = q\<rparr>)"
  note eff = rest_order_effect [OF inv, where buy = buy and oid = oid and px = px and q = q]
  have u: "uncrossed b" and n: "nodes_ok b" and x: "index_sound b" using inv by (simp_all add: book_inv_def)
  have mem: "set (book_queue c b) \<subseteq> set (book_queue c ?b')" for c
    using eff(1,2) by (cases buy; cases "c = CHR ''b''") (auto simp: book_queue_def)
  have "side_inv (bids ?b')" "side_inv (asks ?b')"
    using inv q by (simp_all add: rest_order_def book_inv_def Let_def side_inv_put)
  moreover have "uncrossed ?b'"
    using u clear eff(1,2) by (cases buy) (auto simp: uncrossed_def book_queue_def)
  moreover have "nodes_ok ?b'"
  proof -
    have new: "next_node b \<notin> node_of ` set (all_orders b)" using n by (auto simp: nodes_ok_def)
    have "mset (all_orders ?b') = add_mset ?e (mset (all_orders b))"
      using eff(1,2) by (cases buy) (simp_all add: all_orders_def book_queue_def mset_enqueue)
    then have "mset (map node_of (all_orders ?b')) = mset (next_node b # map node_of (all_orders b))"
      by simp
    then have "distinct (map node_of (all_orders ?b')) \<longleftrightarrow> distinct (next_node b # map node_of (all_orders b))"
      "set (map node_of (all_orders ?b')) = insert (next_node b) (set (map node_of (all_orders b)))"
      by (rule mset_eq_imp_distinct_iff, metis list.set(2) mset_eq_setD \<open>mset (map _ _) = _\<close>)
    with n new eff(4) show ?thesis by (auto simp: nodes_ok_def)
  qed
  moreover have "index_sound ?b'"
    unfolding index_sound_def
  proof (intro allI impI)
    fix i f assume f: "index ?b' i = Some f"
    show "indexed ?b' i f"
    proof (cases "i = oid")
      case True
      with f eff(3) have "f = \<lparr>loc_side = own_side buy, loc_price = px, loc_it = next_node b\<rparr>" by simp
      then show ?thesis using True eff(1) by (auto simp: indexed_def entry_key_def intro!: bexI [of _ ?e])
    next
      case False
      with f eff(3) x have "indexed b i f" by (simp add: index_sound_def)
      then show ?thesis using mem by (auto simp: indexed_def)
    qed
  qed
  ultimately show ?thesis by (simp add: book_inv_def)
qed

section \<open>Limit and market orders\<close>

lemma match_limit_clears:
  assumes inv: "book_inv b" and run: "match_order buy px qty True b = (fs, qty', b')"
    and left: "0 < qty'" and p: "p \<in> px_of ` set (book_queue (opp_side buy) b')"
  shows "if buy then px < p else p < px"
proof -
  let ?es = "book_queue (opp_side buy) b'"
  have hd: "\<not> acceptable buy px True (px_of (hd ?es))" "?es \<noteq> []"
    using sweep_complete [OF match_order_effect(1) [OF inv run]] left p by auto
  have "omap_inv (if buy then asks b' else bids b')"
    using match_order_effect(5,6) [OF inv run] by (simp add: side_inv_def)
  from queue_sorted [OF this, of buy] have "sorted_wrt (\<lambda>x y. ahead buy (px_of x) (px_of y)) ?es"
    by (simp add: book_queue_def split: if_splits)
  with hd(2) p have "ahead buy (px_of (hd ?es)) p"
    by (cases ?es) (auto simp: ahead_def)
  with hd(1) show ?thesis by (auto simp: acceptable_def beyond_limit_def ahead_def split: if_splits)
qed

lemma book_inv_limit [inv_simps]:
  assumes inv: "book_inv b" and run: "limit_order oid buy px qty b = (fs, b')"
  shows "book_inv b'"
proof -
  obtain qty' b1 where m: "match_order buy px qty True b = (fs, qty', b1)"
    and b': "b' = (if 0 < qty' then rest_order oid buy px qty' b1 else b1)"
    using run by (auto simp: limit_order_def split: prod.splits)
  have "book_inv b1" using book_inv_match [OF inv m] .
  then show ?thesis
    using match_limit_clears [OF inv m] by (auto simp only: b' intro!: book_inv_rest split: if_split)
qed

lemma book_inv_market [inv_simps]:
  "book_inv b \<Longrightarrow> market_order oid buy qty b = (fs, b') \<Longrightarrow> book_inv b'"
  by (auto simp: market_order_def intro: book_inv_match split: prod.splits)

end
