(* ===== verification/Book_Cancel.thy ===== *)
theory Book_Cancel
  imports Book_Invariant
begin

text \<open>
  Cancelling through the index, the completeness of the index while identifiers are not reused, and
  the contract \<open>venue\<close> the message handlers rely on, interpreted on the order book.
\<close>

section \<open>Cancel\<close>

lemma disjoint_imageD: "f ` A \<inter> f ` B = {} \<Longrightarrow> A \<inter> B = {}"
  by blast

lemma disjoint_image_neq: "f ` A \<inter> f ` B = {} \<Longrightarrow> x \<in> A \<Longrightarrow> y \<in> B \<Longrightarrow> f x \<noteq> f y"
  by blast

lemma filter_nodes_map_Pair:
  "filter (\<lambda>e. node_of e \<noteq> it) (map (Pair p) l) = map (Pair p) (filter (\<lambda>n. fst n \<noteq> it) l)"
  by (induction l) auto

lemma pos_level_filter: "pos_level l \<Longrightarrow> pos_level (filter P l)"
  by (simp add: pos_level_def)

lemma cancel_in_effect:
  assumes inv: "side_inv m" and dist: "distinct (map node_of (queue_of asc m))"
    and l: "omap_find m (loc_price f) = Some l" "loc_it f \<in> fst ` set l"
  obtains m' where "cancel_in f m = Inr m'" "side_inv m'"
    "queue_of asc m' = filter (\<lambda>e. node_of e \<noteq> loc_it f) (queue_of asc m)"
proof -
  let ?p = "loc_price f" and ?it = "loc_it f" and ?l' = "filter (\<lambda>n. fst n \<noteq> loc_it f) l"
  let ?m' = "if ?l' = [] then omap_erase ?p m else omap_put ?p ?l' m"
  have om: "omap_inv m" using inv by (simp add: side_inv_def)
  obtain lo hi where m: "m = lo @ (?p, l) # hi" "omap_put ?p ?l' m = lo @ (?p, ?l') # hi"
    "omap_erase ?p m = lo @ hi"
  proof -
    from omap_split [OF om, of ?p] obtain lo hi where
      "m = lo @ (case omap_find m ?p of None \<Rightarrow> [] | Some v \<Rightarrow> [(?p, v)]) @ hi"
      "\<And>v. omap_put ?p v m = lo @ (?p, v) # hi" "omap_erase ?p m = lo @ hi" by metis
    with l(1) that show ?thesis by simp
  qed
  have run: "cancel_in f m = Inr ?m'"
    using l by (auto simp: cancel_in_def erase_node_def)
  have in_l: "?it \<in> node_of ` set (map (Pair ?p) l)" using l(2) by force
  have "?it \<notin> node_of ` set (queue_of asc x)" if "x \<in> {lo, hi}" for x
    using dist in_l that unfolding m(1)
    by (cases asc; simp only: queue_of_append queue_of_Cons map_append distinct_append set_append set_map append_assoc; blast)
  then have keep: "filter (\<lambda>e. node_of e \<noteq> ?it) (queue_of asc x) = queue_of asc x" if "x \<in> {lo, hi}" for x
    using that by (intro filter_True) (metis image_eqI)
  obtain m2 where m2: "m2 = ?m'" by blast
  have m': "m2 = (if ?l' = [] then lo @ hi else lo @ (?p, ?l') # hi)" using m(2,3) m2 by simp
  have "queue_of asc m2 = filter (\<lambda>e. node_of e \<noteq> ?it) (queue_of asc m)"
    using keep [of lo] keep [of hi] unfolding m' m(1)
    by (cases asc) (auto simp: queue_of_append queue_of_Cons filter_nodes_map_Pair)
  moreover have "side_inv m2"
    using inv om unfolding m' m(1) by (auto simp: side_inv_def omap_inv_append pos_level_filter)
  ultimately show ?thesis using run m2 that by blast
qed

definition cancelled :: "nat \<Rightarrow> entry list \<Rightarrow> entry list" where
  "cancelled it es = filter (\<lambda>e. node_of e \<noteq> it) es"

lemma cancel_order_effect:
  assumes inv: "book_inv b" and f: "index b target = Some f"
  obtains b' where "cancel_order target b = Inr (True, b')"
    "side_inv (bids b')" "side_inv (asks b')"
    "\<And>c. book_queue c b' = cancelled (loc_it f) (book_queue c b)"
    "index b' = (index b)(target := None)" "next_node b' = next_node b"
    "\<exists>e \<in> set (all_orders b). node_of e = loc_it f \<and> id_of e = target \<and> px_of e = loc_price f"
proof -
  let ?m = "if loc_side f = CHR ''b'' then bids b else asks b" and ?asc = "loc_side f \<noteq> CHR ''b''"
  have n: "nodes_ok b" and sides: "side_inv (bids b)" "side_inv (asks b)" using inv by (simp_all add: book_inv_def)
  obtain e where e: "e \<in> set (book_queue (loc_side f) b)" "entry_key e = (loc_price f, loc_it f, target)"
    using inv f unfolding book_inv_def index_sound_def indexed_def by blast
  have q: "book_queue (loc_side f) b = queue_of ?asc ?m" by (simp add: book_queue_def)
  have "side_inv ?m" using sides by simp
  moreover have "distinct (map node_of (queue_of ?asc ?m))"
    using distinct_book_queue [OF n] q by metis
  moreover obtain l where "omap_find ?m (loc_price f) = Some l" "loc_it f \<in> fst ` set l"
  proof -
    from e(1) obtain l where "omap_find ?m (px_of e) = Some l" "snd e \<in> set l"
      unfolding q in_queue_of_find [OF \<open>side_inv ?m\<close>] by blast
    with e(2) imageI [of "snd e" "set l" fst] that [of l] show ?thesis by (simp add: entry_key_def)
  qed
  ultimately obtain m' where m': "cancel_in f ?m = Inr m'" "side_inv m'"
    "queue_of ?asc m' = cancelled (loc_it f) (queue_of ?asc ?m)"
    unfolding cancelled_def by (rule cancel_in_effect)
  let ?b' = "if loc_side f = CHR ''b'' then b\<lparr>bids := m', index := (index b)(target := None)\<rparr>
             else b\<lparr>asks := m', index := (index b)(target := None)\<rparr>"
  have other: "cancelled (loc_it f) (book_queue c b) = book_queue c b"
    if "(c = CHR ''b'') \<noteq> (loc_side f = CHR ''b'')" for c
    unfolding cancelled_def
  proof (rule filter_True, rule ballI)
    fix x assume x: "x \<in> set (book_queue c b)"
    have "node_of ` set (queue_of False (bids b)) \<inter> node_of ` set (queue_of True (asks b)) = {}"
      using n by (simp add: nodes_ok_def all_orders_def)
    with x e that show "node_of x \<noteq> loc_it f"
      by (cases "c = CHR ''b''") (auto simp: book_queue_def entry_key_def dest: disjoint_image_neq)
  qed
  show ?thesis
  proof (rule that [of ?b'])
    show "cancel_order target b = Inr (True, ?b')" using f m'(1) by (simp add: cancel_order_def)
    show "book_queue c ?b' = cancelled (loc_it f) (book_queue c b)" for c
    proof (cases "(c = CHR ''b'') = (loc_side f = CHR ''b'')")
      case True
      then show ?thesis using m'(3) by (auto simp: book_queue_def)
    next
      case False
      then show ?thesis using other [OF False] by (auto simp: book_queue_def)
    qed
    show "\<exists>e \<in> set (all_orders b). node_of e = loc_it f \<and> id_of e = target \<and> px_of e = loc_price f"
      using e by (intro bexI [of _ e]) (auto simp: entry_key_def all_orders_def book_queue_def split: if_splits)
  qed (use sides m'(2) in auto)
qed

lemma book_inv_cancel [inv_simps]:
  assumes inv: "book_inv b" and run: "cancel_order target b = Inr (r, b')"
  shows "book_inv b'"
proof (cases "index b target")
  case None
  with run inv show ?thesis by (simp add: cancel_order_def)
next
  case (Some f)
  have u: "uncrossed b" and n: "nodes_ok b" and x: "index_sound b" using inv by (simp_all add: book_inv_def)
  from cancel_order_effect [OF inv Some] run obtain
    sides: "side_inv (bids b')" "side_inv (asks b')"
    and q: "\<And>c. book_queue c b' = cancelled (loc_it f) (book_queue c b)"
    and idx: "index b' = (index b)(target := None)" and nn: "next_node b' = next_node b"
    by (metis Pair_inject sum.inject(2))
  have sub: "set (book_queue c b') \<subseteq> set (book_queue c b)" for c by (auto simp: q cancelled_def)
  have "uncrossed b'"
    by (rule uncrossed_mono [OF u]) (intro image_mono sub)
  moreover have "nodes_ok b'"
    by (rule nodes_ok_mono [OF n], intro image_mono sub)
      (simp_all add: q cancelled_def distinct_map_filter distinct_book_queue [OF n] nn)
  moreover have "index_sound b'"
    unfolding index_sound_def
  proof (intro allI impI)
    fix i g assume "index b' i = Some g"
    then have i: "i \<noteq> target" and g: "index b i = Some g" by (auto simp: idx split: if_splits)
    from g x obtain e where e: "e \<in> set (book_queue (loc_side g) b)" "entry_key e = (loc_price g, loc_it g, i)"
      unfolding index_sound_def indexed_def by blast
    from x Some obtain e' where e': "e' \<in> set (book_queue (loc_side f) b)" "entry_key e' = (loc_price f, loc_it f, target)"
      unfolding index_sound_def indexed_def by blast
    have "e \<in> set (all_orders b)" "e' \<in> set (all_orders b)"
      using e(1) e'(1) by (auto simp: all_orders_def book_queue_def split: if_splits)
    moreover have "e \<noteq> e'" using e(2) e'(2) i by auto
    ultimately have "node_of e \<noteq> node_of e'"
      using n by (auto simp: nodes_ok_def distinct_map inj_on_def)
    with e e'(2) show "indexed b' i g"
      unfolding indexed_def q by (intro bexI [of _ e]) (auto simp: cancelled_def entry_key_def)
  qed
  ultimately show ?thesis using sides by (simp add: book_inv_def)
qed

text \<open>The iterator of an index entry is never dangling: \<open>cancel\<close> always returns.\<close>

lemma cancel_order_defined:
  "book_inv b \<Longrightarrow> \<exists>b'. cancel_order target b = Inr (index b target \<noteq> None, b')"
proof (cases "index b target")
  case (Some f)
  assume "book_inv b"
  from cancel_order_effect [OF this Some] Some show ?thesis by (metis option.distinct(1))
qed (simp add: cancel_order_def)

section \<open>Completeness of the index\<close>

text \<open>
  While no identifier is reused, every resting order can be found (and so cancelled) through the
  index.  \<open>index_complete\<close> is kept by matching and cancelling, and by a limit order whose identifier
  does not rest in the book.
\<close>

definition entry_loc :: "char \<Rightarrow> entry \<Rightarrow> loc" where
  "entry_loc c e = \<lparr>loc_side = c, loc_price = px_of e, loc_it = node_of e\<rparr>"

definition index_complete :: "order_book \<Rightarrow> bool" where
  "index_complete b \<longleftrightarrow>
     (\<forall>c \<in> {CHR ''a'', CHR ''b''}. \<forall>e \<in> set (book_queue c b). index b (id_of e) = Some (entry_loc c e))"

lemma entry_loc_key: "entry_key e = entry_key e' \<Longrightarrow> entry_loc c e = entry_loc c e'"
  by (simp add: entry_key_def entry_loc_def)

lemma id_of_key: "entry_key e = entry_key e' \<Longrightarrow> id_of e = id_of e'"
  by (simp add: entry_key_def)

lemma index_complete_ids_distinct:
  assumes inv: "book_inv b" and ic: "index_complete b"
    and e: "e \<in> set (book_queue c b)" "e' \<in> set (book_queue c' b)" "c \<in> {CHR ''a'', CHR ''b''}" "c' \<in> {CHR ''a'', CHR ''b''}"
    and i: "id_of e = id_of e'"
  shows "c = c' \<and> e = e'"
proof -
  have "entry_loc c e = entry_loc c' e'"
    using ic e i unfolding index_complete_def by (metis option.inject)
  then have c: "c = c'" and node: "node_of e = node_of e'" by (simp_all add: entry_loc_def)
  have "distinct (map node_of (book_queue c b))"
    using inv distinct_book_queue by (simp add: book_inv_def)
  with node e(1,2) c show ?thesis by (auto simp: distinct_map inj_on_def)
qed

lemma index_complete_match:
  assumes inv: "book_inv b" and ic: "index_complete b" and run: "match_order buy lp qty hl b = (fs, qty', b')"
  shows "index_complete b'"
  unfolding index_complete_def
proof (intro ballI)
  let ?o = "opp_side buy"
  let ?n = "length (book_queue ?o b) - length (book_queue ?o b')"
  fix c e' assume c: "c \<in> {CHR ''a'', CHR ''b''}" and e': "e' \<in> set (book_queue c b')"
  note eff = match_order_effect [OF inv run]
  have dist: "distinct (book_queue ?o b)"
    using inv distinct_book_queue [of b ?o] by (simp add: book_inv_def distinct_map)
  have "\<exists>e. e \<in> set (book_queue c b) \<and> entry_key e = entry_key e' \<and> e \<notin> set (take ?n (book_queue ?o b))"
  proof (cases "c = ?o")
    case True
    with e' have "entry_key e' \<in> set (map entry_key (book_queue ?o b'))" by simp
    also have "map entry_key (book_queue ?o b') = map entry_key (drop ?n (book_queue ?o b))"
      using sweep_suffix [OF eff(1)] by blast
    finally have "entry_key e' \<in> entry_key ` set (drop ?n (book_queue ?o b))" by simp
    then obtain e where e: "entry_key e' = entry_key e" "e \<in> set (drop ?n (book_queue ?o b))"
      by (rule imageE)
    moreover have "set (drop ?n (book_queue ?o b)) \<inter> set (take ?n (book_queue ?o b)) = {}"
      using set_take_disj_set_drop_if_distinct [OF dist order_refl, of ?n] by (simp add: Int_commute)
    ultimately have "e \<notin> set (take ?n (book_queue ?o b))" by (meson disjoint_iff)
    with e in_set_dropD [OF e(2)] True show ?thesis by (intro exI [of _ e]) simp
  next
    case False
    then have own: "c = own_side buy" using c by (auto split: if_splits)
    have "node_of ` set (queue_of False (bids b)) \<inter> node_of ` set (queue_of True (asks b)) = {}"
      using inv by (simp add: book_inv_def nodes_ok_def all_orders_def)
    then have "set (book_queue c b) \<inter> set (book_queue ?o b) = {}"
      using own by (cases buy) (simp_all add: book_queue_def, (drule disjoint_imageD, blast)+)
    moreover have "e' \<in> set (book_queue c b)" using e' own eff(2) by simp
    ultimately have "e' \<in> set (book_queue c b)" "e' \<notin> set (take ?n (book_queue ?o b))"
      by (blast, meson disjoint_iff in_set_takeD)
    then show ?thesis by (intro exI [of _ e']) simp
  qed
  then obtain e where e: "e \<in> set (book_queue c b)" "entry_key e = entry_key e'"
    "e \<notin> set (take ?n (book_queue ?o b))" by blast
  have "id_of e \<notin> id_of ` set (take ?n (book_queue ?o b))"
  proof
    assume "id_of e \<in> id_of ` set (take ?n (book_queue ?o b))"
    then obtain x where x: "x \<in> set (take ?n (book_queue ?o b))" "id_of x = id_of e" by auto
    then have "x \<in> set (book_queue ?o b)" by (meson in_set_takeD)
    with x(2) e(1) c have "e = x"
      using index_complete_ids_distinct [OF inv ic, of e c x ?o] by auto
    with x(1) e(3) show False by simp
  qed
  moreover have "index b (id_of e) = Some (entry_loc c e)"
    using ic c e(1) unfolding index_complete_def by blast
  ultimately show "index b' (id_of e') = Some (entry_loc c e')"
    using e(2) by (simp add: eff(4) drop_ids_def id_of_key [OF e(2)] entry_loc_key [OF e(2)])
qed


lemma index_complete_rest:
  assumes inv: "book_inv b" and ic: "index_complete b" and fresh: "oid \<notin> id_of ` set (all_orders b)"
  shows "index_complete (rest_order oid buy px q b)"
  unfolding index_complete_def
proof (intro ballI)
  let ?b' = "rest_order oid buy px q b" and ?e = "(px, next_node b, \<lparr>rid = oid, rqty = q\<rparr>)"
  note eff = rest_order_effect [OF inv, where buy = buy and oid = oid and px = px and q = q]
  fix c e assume c: "c \<in> {CHR ''a'', CHR ''b''}" and e: "e \<in> set (book_queue c ?b')"
  show "index ?b' (id_of e) = Some (entry_loc c e)"
  proof (cases "c = own_side buy \<and> e = ?e")
    case True
    then show ?thesis using eff(3) by (simp add: entry_loc_def)
  next
    case False
    have "book_queue c ?b' = book_queue c b \<or> c = own_side buy"
      using c eff(2) by (cases buy) auto
    then have "e \<in> set (book_queue c b)"
    proof
      assume own: "c = own_side buy"
      then have "e \<in> insert ?e (set (book_queue c b))" using e by (simp only: own eff(1) set_enqueue)
      then show ?thesis using False own by (simp only: insert_iff) blast
    qed (use e in simp)
    moreover from this have "id_of e \<noteq> oid"
      using fresh c by (auto simp: all_orders_def book_queue_def split: if_splits)
    moreover have "index b (id_of e) = Some (entry_loc c e)"
      using ic c calculation(1) unfolding index_complete_def by blast
    ultimately show ?thesis using eff(3) by simp
  qed
qed

lemma all_orders_book_queue:
  "set (all_orders b) = set (book_queue (own_side buy) b) \<union> set (book_queue (opp_side buy) b)"
  by (cases buy) (auto simp: all_orders_def book_queue_def)

lemma match_order_ids:
  assumes inv: "book_inv b" and run: "match_order buy lp qty hl b = (fs, qty', b')"
  shows "id_of ` set (all_orders b') \<subseteq> id_of ` set (all_orders b)"
proof -
  note eff = match_order_effect [OF inv run]
  have p: "id_of ` A = (snd \<circ> snd) ` (entry_key ` A)" for A
    by (force simp: entry_key_def image_image)
  have "id_of ` set (book_queue (opp_side buy) b') \<subseteq> id_of ` set (book_queue (opp_side buy) b)"
    unfolding p by (rule image_mono) (rule image_entry_key_subset [OF eff(1)])
  then show ?thesis unfolding all_orders_book_queue [of _ buy] eff(2) image_Un by blast
qed

lemma index_complete_limit:
  assumes inv: "book_inv b" and ic: "index_complete b" and fresh: "oid \<notin> id_of ` set (all_orders b)"
    and run: "limit_order oid buy px qty b = (fs, b')"
  shows "index_complete b'"
proof -
  obtain qty' b1 where m: "match_order buy px qty True b = (fs, qty', b1)"
    and b': "b' = (if 0 < qty' then rest_order oid buy px qty' b1 else b1)"
    using run by (auto simp: limit_order_def split: prod.splits)
  have "book_inv b1" "index_complete b1" "oid \<notin> id_of ` set (all_orders b1)"
    using book_inv_match [OF inv m] index_complete_match [OF inv ic m] match_order_ids [OF inv m] fresh by blast+
  then show ?thesis by (simp add: b' index_complete_rest)
qed

lemma index_complete_market:
  "book_inv b \<Longrightarrow> index_complete b \<Longrightarrow> market_order oid buy qty b = (fs, b') \<Longrightarrow> index_complete b'"
  by (auto simp: market_order_def intro: index_complete_match split: prod.splits)

lemma index_complete_cancel:
  assumes inv: "book_inv b" and ic: "index_complete b" and run: "cancel_order target b = Inr (r, b')"
  shows "index_complete b'"
proof (cases "index b target")
  case None
  with run ic show ?thesis by (simp add: cancel_order_def)
next
  case (Some f)
  from cancel_order_effect [OF inv Some] run obtain
    q: "\<And>c. book_queue c b' = cancelled (loc_it f) (book_queue c b)"
    and idx: "index b' = (index b)(target := None)"
    by (metis Pair_inject sum.inject(2))
  show ?thesis unfolding index_complete_def
  proof (intro ballI)
    fix c e assume c: "c \<in> {CHR ''a'', CHR ''b''}" and e: "e \<in> set (book_queue c b')"
    then have e': "e \<in> set (book_queue c b)" "node_of e \<noteq> loc_it f" by (simp_all add: q cancelled_def)
    have "index b (id_of e) = Some (entry_loc c e)" using ic c e'(1) unfolding index_complete_def by blast
    moreover then have "id_of e \<noteq> target" using e'(2) Some by (auto simp: entry_loc_def)
    ultimately show "index b' (id_of e) = Some (entry_loc c e)" by (simp add: idx)
  qed
qed

lemma index_complete_empty: "index_complete empty_book"
  by (simp add: index_complete_def empty_book_def book_queue_def)

section \<open>The contract of a matching venue\<close>

text \<open>
  What the WebSocket handlers rely on: three operations on a book, an invariant they keep, and a
  cancel that never fails under the invariant.  A command is one decoded message.
\<close>

datatype command = Limit u64 bool int int | Market u64 bool int | Cancel u64 | Ignore

locale venue =
  fixes limit :: "u64 \<Rightarrow> bool \<Rightarrow> int \<Rightarrow> int \<Rightarrow> 'b \<Rightarrow> fill list \<times> 'b"
    and market :: "u64 \<Rightarrow> bool \<Rightarrow> int \<Rightarrow> 'b \<Rightarrow> fill list \<times> 'b"
    and cancel :: "u64 \<Rightarrow> 'b \<Rightarrow> 'e + bool \<times> 'b"
    and exec :: "command \<Rightarrow> 'b \<Rightarrow> 'e + fill list \<times> 'b"
    and inv :: "'b \<Rightarrow> bool"
  assumes inv_limit: "inv b \<Longrightarrow> limit oid buy px qty b = (fs, b') \<Longrightarrow> inv b'"
    and inv_market: "inv b \<Longrightarrow> market oid buy qty b = (fs, b') \<Longrightarrow> inv b'"
    and cancel_total: "inv b \<Longrightarrow> \<exists>r b'. cancel t b = Inr (r, b') \<and> inv b'"
    and exec_limit: "exec (Limit oid buy px qty) b = Inr (limit oid buy px qty b)"
    and exec_market: "exec (Market oid buy qty) b = Inr (market oid buy qty b)"
    and exec_cancel: "exec (Cancel t) b = map_sum id (\<lambda>(r, b'). ([], b')) (cancel t b)"
    and exec_ignore: "exec Ignore b = Inr ([], b)"
begin

lemma exec_total: "inv b \<Longrightarrow> \<exists>fs b'. exec c b = Inr (fs, b') \<and> inv b'"
proof (cases c)
  case (Limit oid buy px qty)
  assume "inv b"
  then show ?thesis using inv_limit Limit by (cases "limit oid buy px qty b") (auto simp: exec_limit)
next
  case (Market oid buy qty)
  assume "inv b"
  then show ?thesis using inv_market Market by (cases "market oid buy qty b") (auto simp: exec_market)
next
  case (Cancel t)
  assume "inv b"
  from cancel_total [OF this, of t] Cancel show ?thesis by (auto simp: exec_cancel)
qed (simp add: exec_ignore)

lemma inv_exec: "inv b \<Longrightarrow> exec c b = Inr (fs, b') \<Longrightarrow> inv b'"
  using exec_total [of b c] by auto

end

text \<open>One command on the book, and a sequence of commands in the order the mutex admits them.\<close>

fun exec_command :: "command \<Rightarrow> order_book \<Rightarrow> undefined_behaviour + fill list \<times> order_book" where
  "exec_command (Limit oid buy px qty) b = Inr (limit_order oid buy px qty b)"
| "exec_command (Market oid buy qty) b = Inr (market_order oid buy qty b)"
| "exec_command (Cancel t) b = map_sum id (\<lambda>(r, b'). ([], b')) (cancel_order t b)"
| "exec_command Ignore b = Inr ([], b)"

fun exec_commands :: "command list \<Rightarrow> order_book \<Rightarrow> undefined_behaviour + fill list list \<times> order_book" where
  "exec_commands [] b = Inr ([], b)"
| "exec_commands (c # cs) b =
     (case exec_command c b of
        Inl e \<Rightarrow> Inl e
      | Inr (fs, b') \<Rightarrow> (case exec_commands cs b' of Inl e \<Rightarrow> Inl e | Inr (fss, b'') \<Rightarrow> Inr (fs # fss, b'')))"

interpretation book: venue limit_order market_order cancel_order exec_command book_inv
proof (unfold_locales, goal_cases)
  case (3 b t)
  then show ?case using cancel_order_defined [OF 3, of t] book_inv_cancel [OF 3] by blast
qed (auto intro: inv_simps)

lemma exec_commands_total:
  "book_inv b \<Longrightarrow> \<exists>fss b'. exec_commands cs b = Inr (fss, b') \<and> book_inv b' \<and> length fss = length cs"
proof (induction cs arbitrary: b)
  case (Cons c cs)
  obtain fs b1 where "exec_command c b = Inr (fs, b1)" "book_inv b1"
    using book.exec_total [OF Cons.prems] by blast
  with Cons.IH show ?case by fastforce
qed simp

end
