(* ===== verification/Book_Properties.thy ===== *)
theory Book_Properties
  imports Book_Cancel
begin

text \<open>
  The properties of the matching engine's order book, stated over the operations of
  \<open>Order_Book\<close>: safety of every command sequence, the refinement to the priority sweep,
  conservation of quantity, cancels, and what reusing an order identifier does.
\<close>

section \<open>Helper facts\<close>

lemma limit_order_effect:
  assumes inv: "book_inv b" and run: "limit_order oid buy px qty b = (fs, b')"
  obtains left es where
    "sweep (acceptable buy px True) qty (book_queue (opp_side buy) b) = (fs, left, es)"
    "book_queue (opp_side buy) b' = es"
    "book_queue (own_side buy) b' =
       (if 0 < left then enqueue (\<not> buy) (px, next_node b, \<lparr>rid = oid, rqty = left\<rparr>) (book_queue (own_side buy) b)
        else book_queue (own_side buy) b)"
proof -
  obtain left b1 where m: "match_order buy px qty True b = (fs, left, b1)"
    and b': "b' = (if 0 < left then rest_order oid buy px left b1 else b1)"
    using run by (auto simp: limit_order_def split: prod.splits)
  note eff = match_order_effect [OF inv m]
  note r = rest_order_effect [OF book_inv_match [OF inv m], where buy = buy and oid = oid and px = px and q = left]
  show ?thesis
    by (rule that [OF eff(1)]; cases "0 < left") (simp_all only: b' r eff(2,3) if_True if_False)
qed

lemma market_order_effect:
  assumes inv: "book_inv b" and run: "market_order oid buy qty b = (fs, b')"
  obtains left where
    "sweep (\<lambda>_. True) qty (book_queue (opp_side buy) b) = (fs, left, book_queue (opp_side buy) b')"
    "book_queue (own_side buy) b' = book_queue (own_side buy) b"
proof -
  obtain left where m: "match_order buy 0 qty False b = (fs, left, b')"
    using run by (auto simp: market_order_def split: prod.splits)
  have "acceptable buy 0 False = (\<lambda>_. True)" by (auto simp: acceptable_def)
  with match_order_effect(1,2) [OF inv m] that show ?thesis by simp
qed

text \<open>The identifiers of the limit orders of a command sequence.\<close>

fun limit_ids :: "command list \<Rightarrow> u64 list" where
  "limit_ids [] = []"
| "limit_ids (Limit oid buy px qty # cs) = oid # limit_ids cs"
| "limit_ids (c # cs) = limit_ids cs"

lemma limit_order_ids:
  assumes inv: "book_inv b" and run: "limit_order oid buy px qty b = (fs, b')"
  shows "id_of ` set (all_orders b') \<subseteq> insert oid (id_of ` set (all_orders b))"
proof -
  obtain left b1 where m: "match_order buy px qty True b = (fs, left, b1)"
    and b': "b' = (if 0 < left then rest_order oid buy px left b1 else b1)"
    using run by (auto simp: limit_order_def split: prod.splits)
  note r = rest_order_effect [OF book_inv_match [OF inv m], where buy = buy and oid = oid and px = px and q = left]
  have "id_of ` set (all_orders b') \<subseteq> insert oid (id_of ` set (all_orders b1))"
    unfolding b' all_orders_book_queue [of _ buy] by (simp only: r set_enqueue split: if_split) auto
  with match_order_ids [OF inv m] show ?thesis by blast
qed

lemma cancel_order_ids:
  assumes inv: "book_inv b" and run: "cancel_order t b = Inr (r, b')"
  shows "set (all_orders b') \<subseteq> set (all_orders b)"
proof (cases "index b t")
  case (Some f)
  from cancel_order_effect [OF inv Some] run obtain
    q: "\<And>c. book_queue c b' = cancelled (loc_it f) (book_queue c b)"
    by (metis Pair_inject sum.inject(2))
  then show ?thesis unfolding all_orders_book_queue [of _ True] q cancelled_def by auto
qed (use run in \<open>simp add: cancel_order_def\<close>)

lemma exec_command_complete:
  assumes inv: "book_inv b" and ic: "index_complete b" and run: "exec_command c b = Inr (fs, b')"
    and fresh: "set (limit_ids [c]) \<inter> id_of ` set (all_orders b) = {}"
  shows "index_complete b'" and "id_of ` set (all_orders b') \<subseteq> set (limit_ids [c]) \<union> id_of ` set (all_orders b)"
proof -
  have "index_complete b' \<and> id_of ` set (all_orders b') \<subseteq> set (limit_ids [c]) \<union> id_of ` set (all_orders b)"
  proof (cases c)
    case (Limit oid buy px qty)
    with run have l: "limit_order oid buy px qty b = (fs, b')" by simp
    have "oid \<notin> id_of ` set (all_orders b)" using fresh Limit by simp
    from index_complete_limit [OF inv ic this l] limit_order_ids [OF inv l] Limit show ?thesis by simp
  next
    case (Market oid buy qty)
    with run have l: "market_order oid buy qty b = (fs, b')" by simp
    then obtain left where "match_order buy 0 qty False b = (fs, left, b')"
      by (auto simp: market_order_def split: prod.splits)
    from index_complete_market [OF inv ic l] match_order_ids [OF inv this] Market show ?thesis by simp
  next
    case (Cancel t)
    with run obtain r where l: "cancel_order t b = Inr (r, b')" by (auto simp: map_sum_def split: sum.splits)
    from index_complete_cancel [OF inv ic l] image_mono [OF cancel_order_ids [OF inv l], of id_of] Cancel
    show ?thesis by simp
  next
    case Ignore
    with run ic show ?thesis by simp
  qed
  then show "index_complete b'" and "id_of ` set (all_orders b') \<subseteq> set (limit_ids [c]) \<union> id_of ` set (all_orders b)"
    by simp_all
qed

lemma limit_ids_Cons: "limit_ids (c # cs) = limit_ids [c] @ limit_ids cs"
  by (cases c) auto

lemma exec_commands_complete:
  "book_inv b \<Longrightarrow> index_complete b \<Longrightarrow> exec_commands cs b = Inr (fss, b') \<Longrightarrow>
   distinct (limit_ids cs) \<Longrightarrow> set (limit_ids cs) \<inter> id_of ` set (all_orders b) = {} \<Longrightarrow>
   book_inv b' \<and> index_complete b'"
proof (induction cs arbitrary: b fss)
  case (Cons c cs)
  from Cons.prems(3) obtain fs b1 gss where c: "exec_command c b = Inr (fs, b1)" and cs: "exec_commands cs b1 = Inr (gss, b')"
    by (auto split: sum.splits)
  have fresh: "set (limit_ids [c]) \<inter> id_of ` set (all_orders b) = {}"
    using Cons.prems(5) unfolding limit_ids_Cons [of c cs] by auto
  note 1 = exec_command_complete [OF Cons.prems(1,2) c fresh]
  have "set (limit_ids cs) \<inter> id_of ` set (all_orders b1) = {}"
    using Cons.prems(4,5) 1(2) unfolding limit_ids_Cons [of c cs] set_append distinct_append by blast
  moreover have "distinct (limit_ids cs)" using Cons.prems(4) unfolding limit_ids_Cons [of c cs] by simp
  ultimately show ?case using Cons.IH [OF book.inv_exec [OF Cons.prems(1) c] 1(1) cs] by blast
qed simp

text \<open>Total quantity resting on a side.\<close>

definition depth :: "char \<Rightarrow> order_book \<Rightarrow> int" where
  "depth c b = sum_list (map qty_of (book_queue c b))"

lemma depth_enqueue: "sum_list (map qty_of (enqueue asc e es)) = qty_of e + sum_list (map qty_of es)"
proof -
  have "sum_list (map qty_of (enqueue asc e es)) = sum_mset (image_mset qty_of (mset (enqueue asc e es)))"
    by (simp only: mset_map [symmetric] sum_mset_sum_list)
  also have "\<dots> = qty_of e + sum_mset (image_mset qty_of (mset es))"
    by (simp only: mset_enqueue) simp
  finally show ?thesis by (simp only: mset_map [symmetric] sum_mset_sum_list)
qed

lemma all_pos_book_queue: "book_inv b \<Longrightarrow> all_pos (book_queue c b)"
  by (simp add: book_queue_def book_inv_def side_inv_all_pos)

lemma depth_nonneg: "book_inv b \<Longrightarrow> 0 \<le> depth c b"
  using all_pos_book_queue [of b c] unfolding depth_def all_pos_def
  by (intro sum_list_map_pos) blast

text \<open>A concrete book, used by the witnesses: two asks and a bid.\<close>

definition sample_book :: order_book where
  "sample_book = \<lparr>bids = [(8, [(2, \<lparr>rid = 3, rqty = 1\<rparr>)])],
     asks = [(10, [(0, \<lparr>rid = 1, rqty = 5\<rparr>)]), (12, [(1, \<lparr>rid = 2, rqty = 5\<rparr>)])],
     index = [1 \<mapsto> \<lparr>loc_side = CHR ''a'', loc_price = 10, loc_it = 0\<rparr>,
              2 \<mapsto> \<lparr>loc_side = CHR ''a'', loc_price = 12, loc_it = 1\<rparr>,
              3 \<mapsto> \<lparr>loc_side = CHR ''b'', loc_price = 8, loc_it = 2\<rparr>],
     next_node = 3\<rparr>"

lemmas book_eval = limit_order_def market_order_def match_order_def match_loop.simps match_level.simps
  rest_order_def level_at_def omap_find_def best_it_def beyond_limit_def set_best_def erase_best_def
  cancel_order_def cancel_in_def erase_node_def omap_erase_def empty_book_def

lemma sample_book_run:
  "exec_commands [Limit 1 False 10 5, Limit 2 False 12 5, Limit 3 True 8 1] empty_book = Inr ([[], [], []], sample_book)"
  by (simp add: book_eval sample_book_def numeral_2_eq_2)

lemma sample_book_inv: "book_inv sample_book"
  using exec_commands_total [OF book_inv_empty, of "[Limit 1 False 10 5, Limit 2 False 12 5, Limit 3 True 8 1]"]
  unfolding sample_book_run by blast

section \<open>Properties\<close>

text \<open>C1: safety of the order book.  Every sequence of limit, market and cancel commands, in whatever
  order the connections get the mutex, runs to its end from the empty book: no cancel ever erases
  through a dangling list iterator, and afterwards every level is non-empty and ascending with
  positive quantities, the index is sound, and each command has returned its fills.
\<close>

theorem book_run_safe:
  "\<exists>fss b'. exec_commands cs empty_book = Inr (fss, b') \<and> book_inv b' \<and> length fss = length cs"
  by (rule exec_commands_total [OF book_inv_empty])

text \<open>C3: the book is never crossed.  After any sequence of commands every resting bid price is below
  every resting ask price.
\<close>

theorem book_never_crossed:
  assumes "exec_commands cs empty_book = Inr (fss, b')"
    and "omap_find (bids b') p = Some l" and "omap_find (asks b') q = Some l'"
  shows "p < q"
proof -
  have inv: "book_inv b'" using exec_commands_total [OF book_inv_empty, of cs] assms(1) by auto
  then have sides: "side_inv (bids b')" "side_inv (asks b')" and u: "uncrossed b'" by (simp_all add: book_inv_def)
  have "p \<in> fst ` set (bids b')" "q \<in> fst ` set (asks b')"
    using assms(2,3) by (force simp: omap_find_def dest: map_of_SomeD)+
  then show ?thesis
    using u unfolding uncrossed_def keys_queue_of [OF sides(1), symmetric] keys_queue_of [OF sides(2), symmetric] by blast
qed

theorem book_never_crossed_witness:
  "\<exists>b'. exec_commands [Limit 1 True 10 5, Limit 2 False 12 5] empty_book = Inr ([[], []], b') \<and> (10::int) < 12"
proof -
  let ?b = "\<lparr>bids = [(10, [(0, \<lparr>rid = 1, rqty = 5\<rparr>)])], asks = [(12, [(1, \<lparr>rid = 2, rqty = 5\<rparr>)])],
     index = [1 \<mapsto> \<lparr>loc_side = CHR ''b'', loc_price = 10, loc_it = 0\<rparr>,
              2 \<mapsto> \<lparr>loc_side = CHR ''a'', loc_price = 12, loc_it = 1\<rparr>], next_node = 2\<rparr>"
  have run: "exec_commands [Limit 1 True 10 5, Limit 2 False 12 5] empty_book = Inr ([[], []], ?b)"
    by (simp add: limit_order_def match_order_def match_loop.simps rest_order_def empty_book_def
        level_at_def omap_find_def best_it_def beyond_limit_def)
  have "(10::int) < 12"
    using book_never_crossed [OF run, of 10 _ 12] by (simp add: omap_find_def)
  with run show ?thesis by blast
qed


text \<open>C2: the two nested loops of \<open>limit\<close> implement price-time priority.  A limit order does one sweep
  over the opposite side in priority order, as far as its limit price allows; the fills are those of
  the sweep, the opposite side is what the sweep leaves, and a positive rest is queued on its own
  side behind every order of the same or a better price.
\<close>

theorem limit_order_refines_sweep:
  assumes "book_inv b" and "limit_order oid buy px qty b = (fs, b')"
  shows "\<exists>left. sweep (\<lambda>p. if buy then p \<le> px else px \<le> p) qty (book_queue (opp_side buy) b)
           = (fs, left, book_queue (opp_side buy) b') \<and>
         book_queue (own_side buy) b' =
           (if 0 < left then enqueue (\<not> buy) (px, next_node b, \<lparr>rid = oid, rqty = left\<rparr>) (book_queue (own_side buy) b)
            else book_queue (own_side buy) b)"
proof -
  have ok: "acceptable buy px True = (\<lambda>p. if buy then p \<le> px else px \<le> p)"
    by (auto simp: acceptable_def beyond_limit_def)
  obtain left es where "sweep (acceptable buy px True) qty (book_queue (opp_side buy) b) = (fs, left, es)"
    "book_queue (opp_side buy) b' = es"
    "book_queue (own_side buy) b' =
       (if 0 < left then enqueue (\<not> buy) (px, next_node b, \<lparr>rid = oid, rqty = left\<rparr>) (book_queue (own_side buy) b)
        else book_queue (own_side buy) b)"
    by (rule limit_order_effect [OF assms])
  then show ?thesis unfolding ok by blast
qed

theorem limit_order_refines_sweep_witness:
  "\<exists>fs b' left. limit_order 4 True 11 7 sample_book = (fs, b') \<and>
     sweep (\<lambda>p. p \<le> 11) 7 (book_queue CHR ''a'' sample_book) = (fs, left, book_queue CHR ''a'' b')"
proof -
  obtain fs b' where run: "limit_order 4 True 11 7 sample_book = (fs, b')" by (metis surj_pair)
  show ?thesis using limit_order_refines_sweep [OF sample_book_inv run] run by auto
qed

text \<open>a market order takes exactly what is there.  It fills the smaller of its quantity and the
  opposite depth, removes that much depth, and never rests.
\<close>

theorem market_order_fills_min:
  assumes "book_inv b" and "market_order oid buy qty b = (fs, b')" and "0 \<le> qty"
  shows "sum_list (map fill_qty fs) = min qty (depth (opp_side buy) b)
    \<and> depth (opp_side buy) b' = depth (opp_side buy) b - sum_list (map fill_qty fs)
    \<and> book_queue (own_side buy) b' = book_queue (own_side buy) b"
proof -
  obtain left where sw: "sweep (\<lambda>_. True) qty (book_queue (opp_side buy) b) = (fs, left, book_queue (opp_side buy) b')"
    and own: "book_queue (own_side buy) b' = book_queue (own_side buy) b"
    using market_order_effect [OF assms(1,2)] by metis
  have left: "0 \<le> left" by (rule sweep_left_nonneg [OF sw assms(3)])
  have q: "sum_list (map fill_qty fs) + left = qty" by (rule sweep_conserves [OF sw])
  have d: "depth (opp_side buy) b = sum_list (map fill_qty fs) + depth (opp_side buy) b'"
    unfolding depth_def by (rule sweep_depth [OF sw])
  have "left = 0 \<or> depth (opp_side buy) b' = 0"
    using sweep_complete [OF sw] left by (auto simp: depth_def)
  moreover have "0 \<le> depth (opp_side buy) b'"
    using depth_nonneg [OF book_inv_market [OF assms(1,2)]] .
  ultimately have "sum_list (map fill_qty fs) = min qty (depth (opp_side buy) b)" using q d left by linarith
  with d own show ?thesis by simp
qed

theorem market_order_fills_min_witness:
  "\<exists>fs b'. market_order 4 True 7 sample_book = (fs, b') \<and> sum_list (map fill_qty fs) = 7 \<and> depth CHR ''a'' b' = 3"
proof -
  obtain fs b' where run: "market_order 4 True 7 sample_book = (fs, b')" by (metis surj_pair)
  have "depth CHR ''a'' sample_book = 10"
    by (simp add: depth_def book_queue_def sample_book_def queue_of_def levels_def)
  with market_order_fills_min [OF sample_book_inv run] run show ?thesis by auto
qed

text \<open>quantity is conserved by a limit order: what is filled leaves the opposite side, and the rest
  (nothing, if it is filled completely) is added to the order's own side.
\<close>

theorem limit_order_conserves:
  assumes "book_inv b" and "limit_order oid buy px qty b = (fs, b')" and "0 \<le> qty"
  shows "depth (opp_side buy) b' = depth (opp_side buy) b - sum_list (map fill_qty fs)
    \<and> depth (own_side buy) b' = depth (own_side buy) b + (qty - sum_list (map fill_qty fs))
    \<and> sum_list (map fill_qty fs) \<le> qty"
proof -
  obtain left es where sw: "sweep (acceptable buy px True) qty (book_queue (opp_side buy) b) = (fs, left, es)"
    and opp: "book_queue (opp_side buy) b' = es"
    and own: "book_queue (own_side buy) b' =
       (if 0 < left then enqueue (\<not> buy) (px, next_node b, \<lparr>rid = oid, rqty = left\<rparr>) (book_queue (own_side buy) b)
        else book_queue (own_side buy) b)"
    by (rule limit_order_effect [OF assms(1,2)])
  have "depth (own_side buy) b' = depth (own_side buy) b + left"
    using own sweep_left_nonneg [OF sw assms(3)] by (cases "0 < left") (simp_all add: depth_def depth_enqueue)
  moreover have "depth (opp_side buy) b = sum_list (map fill_qty fs) + depth (opp_side buy) b'"
    unfolding depth_def opp by (rule sweep_depth [OF sw])
  ultimately show ?thesis
    using sweep_conserves [OF sw] sweep_left_nonneg [OF sw assms(3)] by simp
qed

theorem limit_order_conserves_witness:
  "\<exists>fs b'. limit_order 4 True 11 7 sample_book = (fs, b') \<and> sum_list (map fill_qty fs) \<le> 7"
proof -
  obtain fs b' where run: "limit_order 4 True 11 7 sample_book = (fs, b')" by (metis surj_pair)
  show ?thesis using limit_order_conserves [OF sample_book_inv run] run by auto
qed

text \<open>who is filled and at what price.  The makers are the front orders of the opposite queue, each
  trading at its own price, which the limit accepts; every traded quantity is positive and only the
  last maker can be filled in part.
\<close>

theorem limit_order_fills_priority:
  assumes "book_inv b" and "limit_order oid buy px qty b = (fs, b')"
  shows "map (\<lambda>f. (fill_px f, fill_maker f)) fs =
      map (\<lambda>e. (px_of e, id_of e)) (take (length fs) (book_queue (opp_side buy) b))
    \<and> map fill_qty (butlast fs) = map qty_of (take (length fs - 1) (book_queue (opp_side buy) b))
    \<and> (\<forall>f \<in> set fs. 0 < fill_qty f \<and> (if buy then fill_px f \<le> px else px \<le> fill_px f))"
proof -
  obtain left es where sw: "sweep (acceptable buy px True) qty (book_queue (opp_side buy) b) = (fs, left, es)"
    by (rule limit_order_effect [OF assms])
  have "\<forall>f \<in> set fs. if buy then fill_px f \<le> px else px \<le> fill_px f"
    using sweep_fill_prices [OF sw] by (auto simp: acceptable_def beyond_limit_def not_less split: if_splits)
  with sweep_fills [OF sw] sweep_full_fills [OF sw] sweep_pos [OF sw all_pos_book_queue [OF assms(1)]]
  show ?thesis by blast
qed

theorem limit_order_fills_priority_witness:
  "\<exists>fs b'. limit_order 4 True 12 7 sample_book = (fs, b') \<and>
     (\<forall>f \<in> set fs. 0 < fill_qty f \<and> fill_px f \<le> 12)"
proof -
  obtain fs b' where run: "limit_order 4 True 12 7 sample_book = (fs, b')" by (metis surj_pair)
  show ?thesis using limit_order_fills_priority [OF sample_book_inv run] run by auto
qed

text \<open>C4: a cancel is exact.  It answers whether the identifier is indexed; if it is, the one order the
  index names leaves its queue, the priority order of everything else is untouched, and a second
  cancel answers false; if it is not, the book is unchanged.
\<close>

theorem cancel_order_exact:
  assumes "book_inv b" and "cancel_order target b = Inr (r, b')"
  shows "(r \<longleftrightarrow> index b target \<noteq> None) \<and> (\<not> r \<longrightarrow> b' = b) \<and>
    (r \<longrightarrow> (\<exists>e \<in> set (all_orders b). id_of e = target \<and>
       all_orders b' = filter (\<lambda>x. x \<noteq> e) (all_orders b) \<and> cancel_order target b' = Inr (False, b')))"
proof (cases "index b target")
  case None
  with assms(2) show ?thesis by (simp add: cancel_order_def)
next
  case (Some f)
  from cancel_order_effect [OF assms(1) Some] assms(2) obtain e where r: "r" 
    and q: "\<And>c. book_queue c b' = cancelled (loc_it f) (book_queue c b)"
    and idx: "index b' = (index b)(target := None)"
    and e: "e \<in> set (all_orders b)" "node_of e = loc_it f" "id_of e = target"
    by (metis Pair_inject sum.inject(2))
  have dist: "distinct (map node_of (all_orders b))" using assms(1) by (simp add: book_inv_def nodes_ok_def)
  have "all_orders b' = filter (\<lambda>x. node_of x \<noteq> loc_it f) (all_orders b)"
    using q [of "CHR ''b''"] q [of "CHR ''a''"] by (simp add: all_orders_def book_queue_simps cancelled_def)
  also have "\<dots> = filter (\<lambda>x. x \<noteq> e) (all_orders b)"
  proof (rule filter_cong [OF refl])
    fix x assume "x \<in> set (all_orders b)"
    with dist e show "node_of x \<noteq> loc_it f \<longleftrightarrow> x \<noteq> e" unfolding distinct_map inj_on_def by metis
  qed
  finally show ?thesis using r Some e idx by (auto simp: cancel_order_def intro!: bexI [of _ e])
qed

theorem cancel_order_exact_witness:
  "\<exists>b'. cancel_order 1 sample_book = Inr (True, b') \<and>
     (\<exists>e \<in> set (all_orders sample_book). id_of e = 1 \<and> all_orders b' = filter (\<lambda>x. x \<noteq> e) (all_orders sample_book))"
proof -
  have "index sample_book 1 \<noteq> None" by (simp add: sample_book_def)
  then obtain b' where "cancel_order 1 sample_book = Inr (True, b')"
    using cancel_order_defined [OF sample_book_inv, of 1] by auto
  with cancel_order_exact [OF sample_book_inv this] show ?thesis by blast
qed

text \<open>with fresh identifiers nothing is lost to cancels.  If no two limit orders of a session reuse
  an identifier, every order that rests in the book afterwards can be cancelled by its identifier,
  which removes exactly that order.
\<close>

theorem fresh_ids_cancellable:
  assumes "exec_commands cs empty_book = Inr (fss, b)" and "distinct (limit_ids cs)"
    and "e \<in> set (all_orders b)"
  shows "\<exists>b'. cancel_order (id_of e) b = Inr (True, b') \<and> all_orders b' = filter (\<lambda>x. x \<noteq> e) (all_orders b)"
proof -
  have "book_inv b \<and> index_complete b"
    using exec_commands_complete [OF book_inv_empty index_complete_empty assms(1,2)]
    by (simp add: all_orders_def empty_book_def)
  then have inv: "book_inv b" and ic: "index_complete b" by simp_all
  obtain c where c: "c \<in> {CHR ''a'', CHR ''b''}" "e \<in> set (book_queue c b)"
    using assms(3) by (auto simp: all_orders_def book_queue_simps [symmetric])
  with ic have f: "index b (id_of e) = Some (entry_loc c e)" unfolding index_complete_def by blast
  have dist: "distinct (map node_of (all_orders b))" using inv by (simp add: book_inv_def nodes_ok_def)
  from cancel_order_effect [OF inv f] obtain b' where b': "cancel_order (id_of e) b = Inr (True, b')"
    "\<And>c'. book_queue c' b' = cancelled (node_of e) (book_queue c' b)"
    by (metis entry_loc_def loc.select_convs(3))
  have "all_orders b' = filter (\<lambda>x. node_of x \<noteq> node_of e) (all_orders b)"
    using b'(2) [of "CHR ''b''"] b'(2) [of "CHR ''a''"] by (simp add: all_orders_def book_queue_simps cancelled_def)
  also have "\<dots> = filter (\<lambda>x. x \<noteq> e) (all_orders b)"
  proof (rule filter_cong [OF refl])
    fix x assume "x \<in> set (all_orders b)"
    with dist assms(3) show "node_of x \<noteq> node_of e \<longleftrightarrow> x \<noteq> e" unfolding distinct_map inj_on_def by metis
  qed
  finally show ?thesis using b'(1) by blast
qed

theorem fresh_ids_cancellable_witness:
  "\<exists>b'. cancel_order 2 sample_book = Inr (True, b')"
proof -
  let ?e = "(12, 1, \<lparr>rid = 2, rqty = 5\<rparr>) :: entry"
  have "distinct (limit_ids [Limit 1 False 10 5, Limit 2 False 12 5, Limit 3 True 8 1])" by simp
  moreover have "?e \<in> set (all_orders sample_book)"
    by (simp add: sample_book_def all_orders_def queue_of_def levels_def)
  ultimately show ?thesis
    using fresh_ids_cancellable [OF sample_book_run, of ?e] by auto
qed


text \<open>\<open>long\<close> arithmetic is exact.  If every resting quantity and the incoming one are in the range of
  \<open>long\<close>, so is every quantity the matching computes (each trade, the taker's rest, each reduced maker),
  so the subtractions of \<open>match\<close> never overflow.
\<close>

theorem limit_order_in_range:
  assumes "book_inv b" and "limit_order oid buy px qty b = (fs, b')" and "qty \<in> long_range"
    and "\<forall>e \<in> set (all_orders b). qty_of e \<in> long_range"
  shows "(\<forall>f \<in> set fs. fill_qty f \<in> long_range) \<and> (\<forall>e \<in> set (all_orders b'). qty_of e \<in> long_range)"
proof -
  obtain left es where sw: "sweep (acceptable buy px True) qty (book_queue (opp_side buy) b) = (fs, left, es)"
    and opp: "book_queue (opp_side buy) b' = es"
    and own: "book_queue (own_side buy) b' =
       (if 0 < left then enqueue (\<not> buy) (px, next_node b, \<lparr>rid = oid, rqty = left\<rparr>) (book_queue (own_side buy) b)
        else book_queue (own_side buy) b)"
    by (rule limit_order_effect [OF assms(1,2)])
  have pos: "all_pos (book_queue (opp_side buy) b)" by (rule all_pos_book_queue [OF assms(1)])
  have M: "\<forall>e \<in> set (book_queue (opp_side buy) b). qty_of e < 2 ^ 63"
    using assms(4) unfolding all_orders_book_queue [of _ buy] long_range_def by auto
  have "(\<forall>f \<in> set fs. fill_qty f \<in> long_range) \<and> (\<forall>e \<in> set es. qty_of e \<in> long_range)"
    using sw pos M assms(3)
  proof (induction rule: sweep_induct)
    case (stop q es)
    then show ?case by (auto simp: all_pos_def intro: less_imp_le order_trans [of _ 0])
  next
    case (part q e es)
    then show ?case by (auto simp: fill_of_def all_pos_def intro: less_imp_le order_trans [of _ 0])
  next
    case (full q e es fs q' es')
    then show ?case by (auto simp: fill_of_def)
  qed
  moreover have "left \<in> long_range \<or> left \<le> 0" using sweep_left_le [OF sw pos] assms(3) by auto
  moreover have "\<forall>e \<in> set (book_queue (own_side buy) b). qty_of e \<in> long_range"
    using assms(4) unfolding all_orders_book_queue [of _ buy] by blast
  ultimately show ?thesis unfolding all_orders_book_queue [of _ buy] opp own by (cases "0 < left") auto
qed

theorem limit_order_in_range_witness:
  "\<exists>fs b'. limit_order 4 True 12 7 sample_book = (fs, b') \<and> (\<forall>f \<in> set fs. fill_qty f \<in> long_range)"
proof -
  obtain fs b' where run: "limit_order 4 True 12 7 sample_book = (fs, b')" by (metis surj_pair)
  have "\<forall>e \<in> set (all_orders sample_book). qty_of e \<in> long_range"
    by (simp add: sample_book_def all_orders_def queue_of_def levels_def)
  moreover have "(7::int) \<in> long_range" by simp
  ultimately show ?thesis using limit_order_in_range [OF sample_book_inv run] run by blast
qed

end
