(* ===== verification/Chars.thy ===== *)
theory Chars
  imports Prelude
begin

text \<open>
  Bytes of text: the character classes the parsers test, decimal numerals (\<open>std::to_string\<close> and the
  digits that \<open>std::num_get\<close> accumulates), and the lemmas that connect them.  A \<open>char\<close> is a byte;
  \<open>code\<close> is its value as \<open>unsigned char\<close>.
\<close>

definition NUL :: char where "NUL = CHR 0x00"

definition code :: "char \<Rightarrow> nat" where "code c = of_char c"

definition is_digit :: "char \<Rightarrow> bool" where
  "is_digit c \<longleftrightarrow> 48 \<le> code c \<and> code c \<le> 57"

definition is_hex :: "char \<Rightarrow> bool" where
  "is_hex c \<longleftrightarrow> 48 \<le> code c \<and> code c \<le> 57 \<or> 97 \<le> code c \<and> code c \<le> 102 \<or> 65 \<le> code c \<and> code c \<le> 70"

definition is_space :: "char \<Rightarrow> bool" where
  "is_space c \<longleftrightarrow> code c = 32 \<or> 9 \<le> code c \<and> code c \<le> 13"

lemma code_inj: "code c = code c' \<longleftrightarrow> c = c'"
  by (simp add: code_def)

lemma code_char_of [simp]: "code (char_of n) = n mod 256"
  by (simp add: code_def)

lemma char_of_code [simp]: "char_of (code c) = c"
  by (simp add: code_def)

lemma code_less: "code c < 256"
proof -
  have "code c = code c mod 256" by (metis char_of_code code_char_of)
  then show ?thesis by (metis mod_less_divisor zero_less_numeral)
qed

section \<open>Decimal numerals\<close>

definition digit_char :: "nat \<Rightarrow> char" where
  "digit_char d = char_of (48 + d)"

fun to_dec :: "nat \<Rightarrow> string" where
  "to_dec n = (if n < 10 then [digit_char n] else to_dec (n div 10) @ [digit_char (n mod 10)])"

declare to_dec.simps [simp del]

text \<open>\<open>std::to_string\<close> on signed and unsigned integers.\<close>

definition to_string :: "int \<Rightarrow> string" where
  "to_string n = (if n < 0 then CHR ''-'' # to_dec (nat (- n)) else to_dec (nat n))"

definition digits_value :: "string \<Rightarrow> nat" where
  "digits_value ds = foldl (\<lambda>a c. a * 10 + (code c - 48)) 0 ds"

lemma is_digit_digit_char: "d < 10 \<Longrightarrow> is_digit (digit_char d)"
  by (simp add: is_digit_def digit_char_def)

lemma code_digit_char: "d < 10 \<Longrightarrow> code (digit_char d) = 48 + d"
  by (simp add: digit_char_def)

lemma digits_value_snoc: "digits_value (ds @ [c]) = digits_value ds * 10 + (code c - 48)"
  by (simp add: digits_value_def)

lemma to_dec_induct [case_names small large]:
  fixes n :: nat
  assumes "\<And>n. n < 10 \<Longrightarrow> P n" "\<And>n. 10 \<le> n \<Longrightarrow> P (n div 10) \<Longrightarrow> P n"
  shows "P n"
  using assms by (induction n rule: to_dec.induct) (metis not_less)

lemma to_dec_digits: "\<forall>c \<in> set (to_dec n). is_digit c"
proof (induction n rule: to_dec_induct)
  case (small n)
  then show ?case by (subst to_dec.simps) (simp add: is_digit_digit_char)
next
  case (large n)
  then show ?case by (subst to_dec.simps) (auto simp: is_digit_digit_char)
qed

lemma to_dec_not_Nil [simp]: "to_dec n \<noteq> []"
  by (subst to_dec.simps) simp

lemma digits_value_to_dec: "digits_value (to_dec n) = n"
proof (induction n rule: to_dec_induct)
  case (small n)
  then show ?case by (subst to_dec.simps) (simp add: digits_value_def code_digit_char)
next
  case (large n)
  then show ?case by (subst to_dec.simps) (simp add: digits_value_snoc code_digit_char)
qed

lemma hd_to_dec: "0 < n \<Longrightarrow> hd (to_dec n) \<noteq> CHR ''0''"
proof (induction n rule: to_dec_induct)
  case (small n)
  have "code (hd (to_dec n)) \<noteq> code (CHR ''0'')"
    using small by (subst to_dec.simps) (simp add: code_digit_char, simp add: code_def)
  then show ?case by (simp add: code_inj)
next
  case (large n)
  then show ?case by (subst to_dec.simps) simp
qed

lemma to_dec_0 [simp]: "to_dec 0 = ''0''"
proof -
  have "code (digit_char 0) = code (CHR ''0'')" by (simp add: digit_char_def, simp add: code_def)
  then have "digit_char 0 = CHR ''0''" by (simp only: code_inj)
  then show ?thesis by (subst to_dec.simps) simp
qed

lemma takeWhile_digits_append:
  "\<forall>c \<in> set ds. is_digit c \<Longrightarrow> s = [] \<or> \<not> is_digit (hd s) \<Longrightarrow> takeWhile is_digit (ds @ s) = ds"
  by (cases s) (simp_all add: takeWhile_append2)

end
