(* ===== verification/Json_Read.thy ===== *)
theory Json_Read
  imports Chars
begin

text \<open>
  The JSON reader of \<open>crow.h\<close> (\<open>crow::json::load\<close> and the local \<open>struct Parser\<close> of
  \<open>load_nocopy_internal\<close>).  The parser moves a cursor over a NUL-terminated copy of the input; here
  the cursor is the list of the bytes that remain, and reading past the last byte reads the
  terminator.  The bytes the parser overwrites (the quotes of a string) lie behind the cursor and are
  never read again by it, so the buffer itself need not be part of the state: a string value keeps
  its raw text and the flag the code stores over the opening quote.  A failed production is the
  \<open>rvalue\<close> with the error bit; every caller tests it and gives up, so its other fields do not matter.
\<close>

section \<open>Values\<close>

text \<open>
  A read value keeps the text it was read from: the constructors are the cases of \<open>enum class type\<close>
  that the parser builds.  \<open>R_String raw esc\<close> is a string with the raw text between the quotes and
  the flag \<open>has_escaping\<close>.  The key of an object member is already unescaped (\<open>t.s()\<close>).
\<close>

datatype rvalue =
    R_Null
  | R_False
  | R_True
  | R_Number string
  | R_String string bool
  | R_List "rvalue list"
  | R_Object "(string \<times> rvalue) list"

text \<open>The result of a production: out of fuel, the error value, or a value and the rest.\<close>

datatype 'a parsed = No_Fuel | Bad | Good 'a string

section \<open>Characters\<close>

definition peek :: "string \<Rightarrow> char" where
  "peek s = (case s of [] \<Rightarrow> NUL | c # _ \<Rightarrow> c)"

definition is_ws :: "char \<Rightarrow> bool" where
  "is_ws c \<longleftrightarrow> c = CHR '' '' \<or> c = CHR 0x09 \<or> c = CHR 0x0D \<or> c = CHR 0x0A"

definition consume :: "char \<Rightarrow> string \<Rightarrow> string option" where
  "consume c s = (if peek s \<noteq> c then None else Some (tl s))"

definition ws_skip :: "string \<Rightarrow> string" where
  "ws_skip s = dropWhile is_ws s"

section \<open>Strings\<close>

text \<open>The loop of \<open>decode_string\<close> after the opening quote: raw text, escape flag, rest.\<close>

definition simple_escape :: "char \<Rightarrow> bool" where
  "simple_escape c \<longleftrightarrow> c \<in> {CHR 0x22, CHR 0x5C, CHR ''/'', CHR ''b'', CHR ''f'', CHR ''n'', CHR ''r'', CHR ''t''}"

fun scan_string :: "string \<Rightarrow> (string \<times> bool \<times> string) option" where
  "scan_string [] = None"
| "scan_string (c # s) =
     (if c \<noteq> CHR 0x22 \<and> c \<noteq> CHR 0x5C \<and> c \<noteq> NUL then
        (case scan_string s of None \<Rightarrow> None | Some (raw, esc, rest) \<Rightarrow> Some (c # raw, esc, rest))
      else if c = CHR 0x22 then Some ([], False, s)
      else if c = CHR 0x5C then
        (case s of
           [] \<Rightarrow> None
         | e # s' \<Rightarrow>
             (if e = CHR ''u'' then
                (case s' of
                   h1 # h2 # h3 # h4 # s'' \<Rightarrow>
                     (if is_hex h1 \<and> is_hex h2 \<and> is_hex h3 \<and> is_hex h4 then
                        (case scan_string s'' of
                           None \<Rightarrow> None
                         | Some (raw, esc, rest) \<Rightarrow> Some (c # e # h1 # h2 # h3 # h4 # raw, True, rest))
                      else None)
                 | _ \<Rightarrow> None)
              else if simple_escape e then
                (case scan_string s' of None \<Rightarrow> None | Some (raw, esc, rest) \<Rightarrow> Some (c # e # raw, True, rest))
              else None))
      else None)"

definition decode_string :: "string \<Rightarrow> rvalue parsed" where
  "decode_string s =
     (case consume (CHR 0x22) s of
        None \<Rightarrow> Bad
      | Some s' \<Rightarrow>
          (case scan_string s' of None \<Rightarrow> Bad | Some (raw, esc, rest) \<Rightarrow> Good (R_String raw esc) rest))"

text \<open>\<open>rvalue::unescape\<close>: the in-place loop with \<open>head\<close> and \<open>tail\<close>.\<close>

definition from_hex :: "char \<Rightarrow> nat" where
  "from_hex c = (if 97 \<le> code c then code c - 97 + 10 else if 65 \<le> code c then code c - 65 + 10 else code c - 48)"

definition utf8_bytes :: "nat \<Rightarrow> string" where
  "utf8_bytes n =
     (if 0x800 \<le> n then
        [char_of (or 0xE0 (drop_bit 12 n)), char_of (or 0x80 (and (drop_bit 6 n) 0x3F)), char_of (or 0x80 (and n 0x3F))]
      else if 0x80 \<le> n then [char_of (or 0xC0 (drop_bit 6 n)), char_of (or 0x80 (and n 0x3F))]
      else [char_of n])"

definition unescape_char :: "char \<Rightarrow> string" where
  "unescape_char e =
     (if e = CHR 0x22 then [CHR 0x22] else if e = CHR 0x5C then [CHR 0x5C] else if e = CHR ''/'' then ''/''
      else if e = CHR ''b'' then [CHR 0x08] else if e = CHR ''f'' then [CHR 0x0C] else if e = CHR ''n'' then [CHR 0x0A]
      else if e = CHR ''r'' then [CHR 0x0D] else if e = CHR ''t'' then [CHR 0x09] else [])"

fun unescape :: "string \<Rightarrow> string" where
  "unescape [] = []"
| "unescape (c # s) =
     (if c = CHR 0x5C then
        (case s of
           [] \<Rightarrow> []
         | e # s' \<Rightarrow>
             (if e = CHR ''u'' then
                (case s' of
                   h1 # h2 # h3 # h4 # s'' \<Rightarrow>
                     utf8_bytes (push_bit 12 (from_hex h1) + push_bit 8 (from_hex h2) + push_bit 4 (from_hex h3) + from_hex h4)
                       @ unescape s''
                 | _ \<Rightarrow> [])
              else unescape_char e @ unescape s'))
      else c # unescape s)"

definition string_text :: "string \<Rightarrow> bool \<Rightarrow> string" where
  "string_text raw esc = (if esc then unescape raw else raw)"

section \<open>Numbers\<close>

datatype number_state = Minus | AfterMinus | ZeroFirst | Digits | DigitsAfterPoints | E | DigitsAfterE | Invalid

text \<open>The transition tables, which the code indexes by the state.\<close>

primrec state_index :: "number_state \<Rightarrow> nat" where
  "state_index Minus = 0" | "state_index AfterMinus = 1" | "state_index ZeroFirst = 2" | "state_index Digits = 3"
| "state_index DigitsAfterPoints = 4" | "state_index E = 5" | "state_index DigitsAfterE = 6" | "state_index Invalid = 7"

definition table_zero :: "number_state list" where
  "table_zero = [ZeroFirst, ZeroFirst, Invalid, Digits, DigitsAfterPoints, DigitsAfterE, DigitsAfterE]"
definition table_digit :: "number_state list" where
  "table_digit = [Digits, Digits, Invalid, Digits, DigitsAfterPoints, DigitsAfterE, DigitsAfterE]"
definition table_point :: "number_state list" where
  "table_point = [Invalid, Invalid, DigitsAfterPoints, DigitsAfterPoints, Invalid, Invalid, Invalid]"
definition table_minus :: "number_state list" where
  "table_minus = [AfterMinus, Invalid, Invalid, Invalid, Invalid, DigitsAfterE, Invalid]"
definition table_plus :: "number_state list" where
  "table_plus = [Invalid, Invalid, Invalid, Invalid, Invalid, DigitsAfterE, Invalid]"
definition table_exp :: "number_state list" where
  "table_exp = [Invalid, Invalid, Invalid, E, E, Invalid, Invalid]"

definition number_table :: "char \<Rightarrow> number_state list option" where
  "number_table c =
     (if c = CHR ''0'' then Some table_zero
      else if is_digit c then Some table_digit
      else if c = CHR ''.'' then Some table_point
      else if c = CHR ''-'' then Some table_minus
      else if c = CHR ''+'' then Some table_plus
      else if c = CHR ''e'' \<or> c = CHR ''E'' then Some table_exp
      else None)"

definition accepting :: "number_state \<Rightarrow> bool" where
  "accepting st \<longleftrightarrow> st = ZeroFirst \<or> st = Digits \<or> st = DigitsAfterPoints \<or> st = DigitsAfterE"

text \<open>
  The loop of \<open>decode_number\<close>: it returns the text consumed and the rest.  A digit from 1 to 9 also
  consumes the digits that follow it.
\<close>

function number_loop :: "number_state \<Rightarrow> string \<Rightarrow> (string \<times> string) option" where
  "number_loop st s =
     (if st = Invalid then None
      else
        (case s of
           [] \<Rightarrow> (if accepting st then Some ([], []) else None)
         | c # s' \<Rightarrow>
             (case number_table c of
                None \<Rightarrow> (if accepting st then Some ([], s) else None)
              | Some tab \<Rightarrow>
                  (let run = (if is_digit c \<and> c \<noteq> CHR ''0'' then takeWhile is_digit s' else []);
                       rest = drop (length run) s'
                   in (case number_loop (tab ! state_index st) rest of
                         None \<Rightarrow> None
                       | Some (lexeme, rest) \<Rightarrow> Some (c # run @ lexeme, rest))))))"
  by pat_completeness auto
termination
  by (relation "measure (\<lambda>(st, s). length s)") auto

declare number_loop.simps [simp del]

definition decode_number :: "string \<Rightarrow> rvalue parsed" where
  "decode_number s = (case number_loop Minus s of None \<Rightarrow> Bad | Some (lexeme, rest) \<Rightarrow> Good (R_Number lexeme) rest)"

section \<open>Values, lists and objects\<close>

definition max_depth :: nat where "max_depth = 10000"

text \<open>
  The three mutually recursive productions.  The first argument is fuel; \<open>decode_fuel\<close> below is shown
  to be enough, so that running out of it never happens.  \<open>decode_elems\<close> and \<open>decode_members\<close> are
  the bodies of the \<open>while (1)\<close> loops.
\<close>

function (sequential) decode_value :: "nat \<Rightarrow> nat \<Rightarrow> string \<Rightarrow> rvalue parsed"
  and decode_list :: "nat \<Rightarrow> nat \<Rightarrow> string \<Rightarrow> rvalue parsed"
  and decode_elems :: "nat \<Rightarrow> nat \<Rightarrow> string \<Rightarrow> rvalue list parsed"
  and decode_object :: "nat \<Rightarrow> nat \<Rightarrow> string \<Rightarrow> rvalue parsed"
  and decode_members :: "nat \<Rightarrow> nat \<Rightarrow> string \<Rightarrow> (string \<times> rvalue) list parsed"
where
  "decode_value 0 depth s = No_Fuel"
| "decode_value (Suc n) depth s =
     (if peek s = CHR ''['' then decode_list n (depth + 1) s
      else if peek s = CHR ''{'' then decode_object n (depth + 1) s
      else if peek s = CHR 0x22 then decode_string s
      else if peek s = CHR ''t'' then (if take 4 s = ''true'' then Good R_True (drop 4 s) else Bad)
      else if peek s = CHR ''f'' then (if take 5 s = ''false'' then Good R_False (drop 5 s) else Bad)
      else if peek s = CHR ''n'' then (if take 4 s = ''null'' then Good R_Null (drop 4 s) else Bad)
      else decode_number s)"
| "decode_list 0 depth s = No_Fuel"
| "decode_list (Suc n) depth s =
     (case consume (CHR ''['') s of
        None \<Rightarrow> Bad
      | Some s' \<Rightarrow>
          (if depth > max_depth then Bad
           else (let s1 = ws_skip s'
                 in if peek s1 = CHR '']'' then Good (R_List []) (tl s1)
                    else (case decode_elems n depth s1 of
                            No_Fuel \<Rightarrow> No_Fuel | Bad \<Rightarrow> Bad | Good vs rest \<Rightarrow> Good (R_List vs) rest))))"
| "decode_elems 0 depth s = No_Fuel"
| "decode_elems (Suc n) depth s =
     (case decode_value n (depth + 1) s of
        No_Fuel \<Rightarrow> No_Fuel
      | Bad \<Rightarrow> Bad
      | Good v s1 \<Rightarrow>
          (let s2 = ws_skip s1
           in if peek s2 = CHR '']'' then Good [v] (tl s2)
              else (case consume (CHR '','') s2 of
                      None \<Rightarrow> Bad
                    | Some s3 \<Rightarrow>
                        (case decode_elems n depth (ws_skip s3) of
                           No_Fuel \<Rightarrow> No_Fuel | Bad \<Rightarrow> Bad | Good vs rest \<Rightarrow> Good (v # vs) rest))))"
| "decode_object 0 depth s = No_Fuel"
| "decode_object (Suc n) depth s =
     (case consume (CHR ''{'') s of
        None \<Rightarrow> Bad
      | Some s' \<Rightarrow>
          (if depth > max_depth then Bad
           else (let s1 = ws_skip s'
                 in if peek s1 = CHR ''}'' then Good (R_Object []) (tl s1)
                    else (case decode_members n depth s1 of
                            No_Fuel \<Rightarrow> No_Fuel | Bad \<Rightarrow> Bad | Good kvs rest \<Rightarrow> Good (R_Object kvs) rest))))"
| "decode_members 0 depth s = No_Fuel"
| "decode_members (Suc n) depth s =
     (case decode_string s of
        No_Fuel \<Rightarrow> No_Fuel
      | Bad \<Rightarrow> Bad
      | Good t s1 \<Rightarrow>
          (case consume (CHR '':'') (ws_skip s1) of
             None \<Rightarrow> Bad
           | Some s2 \<Rightarrow>
               (let key = (case t of R_String raw esc \<Rightarrow> string_text raw esc | _ \<Rightarrow> [])
                in (case decode_value n (depth + 1) (ws_skip s2) of
                      No_Fuel \<Rightarrow> No_Fuel
                    | Bad \<Rightarrow> Bad
                    | Good v s3 \<Rightarrow>
                        (let s4 = ws_skip s3
                         in if peek s4 = CHR ''}'' then Good [(key, v)] (tl s4)
                            else (case consume (CHR '','') s4 of
                                    None \<Rightarrow> Bad
                                  | Some s5 \<Rightarrow>
                                      (case decode_members n depth (ws_skip s5) of
                                         No_Fuel \<Rightarrow> No_Fuel
                                       | Bad \<Rightarrow> Bad
                                       | Good kvs rest \<Rightarrow> Good ((key, v) # kvs) rest)))))))"

  by pat_completeness auto
termination
  by (relation "measure (\<lambda>x. case x of Inl (Inl (n, d, s)) \<Rightarrow> n | Inl (Inr (n, d, s)) \<Rightarrow> n
      | Inr (Inl (n, d, s)) \<Rightarrow> n | Inr (Inr (Inl (n, d, s))) \<Rightarrow> n | Inr (Inr (Inr (n, d, s))) \<Rightarrow> n)") auto

definition decode_fuel :: "string \<Rightarrow> nat" where
  "decode_fuel s = 3 * length s + 3"

text \<open>\<open>Parser::parse\<close> and \<open>load\<close>: the whole input must be consumed up to the first NUL.\<close>

definition parse :: "string \<Rightarrow> rvalue parsed" where
  "parse s =
     (let s0 = ws_skip s
      in (case decode_value (decode_fuel s0) 0 s0 of
            No_Fuel \<Rightarrow> No_Fuel
          | Bad \<Rightarrow> Bad
          | Good v s1 \<Rightarrow> (let s2 = ws_skip s1 in if peek s2 \<noteq> NUL then Bad else Good v s2)))"

definition load :: "string \<Rightarrow> rvalue option" where
  "load s = (case parse s of Good v _ \<Rightarrow> Some v | _ \<Rightarrow> None)"

end
