(* ===== verification/Json_Facts.thy ===== *)
theory Json_Facts
  imports Json_Read
begin

text \<open>
  Facts about the JSON reader: every production consumes at least one byte when it succeeds, the
  fuel of \<open>parse\<close> is enough for every input, and the nesting of an accepted value is bounded by
  the recursion guard.
\<close>

section \<open>Progress\<close>

lemma consume_Some: "consume c s = Some s' \<Longrightarrow> c \<noteq> NUL \<Longrightarrow> s = c # s'"
  by (cases s) (auto simp: consume_def peek_def split: if_splits)

lemma length_ws_skip: "length (ws_skip s) \<le> length s"
  by (simp add: ws_skip_def length_dropWhile_le)

lemma length_tl_less: "peek s = c \<Longrightarrow> c \<noteq> NUL \<Longrightarrow> length (tl s) < length s"
  by (cases s) (auto simp: peek_def)

lemma peek_not_NUL: "peek s = c \<Longrightarrow> c \<noteq> NUL \<Longrightarrow> s = c # tl s"
  by (cases s) (auto simp: peek_def)

lemma NUL_neq [simp]: "CHR ''['' \<noteq> NUL" "CHR ''{'' \<noteq> NUL" "CHR 0x22 \<noteq> NUL" "CHR '']'' \<noteq> NUL"
  "CHR ''}'' \<noteq> NUL" "CHR '','' \<noteq> NUL" "CHR '':'' \<noteq> NUL" "CHR ''t'' \<noteq> NUL" "CHR ''f'' \<noteq> NUL" "CHR ''n'' \<noteq> NUL"
  by (simp_all add: NUL_def)

text \<open>The four ways one round of the string loop can succeed.\<close>

lemma scan_string_elim:
  assumes "scan_string s = Some (raw, esc, rest)"
  obtains (quote) "s = CHR 0x22 # rest" "raw = []" "\<not> esc"
    | (plain) c s' raw' where "s = c # s'" "c \<noteq> CHR 0x22" "c \<noteq> CHR 0x5C" "c \<noteq> NUL" "raw = c # raw'"
        "scan_string s' = Some (raw', esc, rest)"
    | (hex) h1 h2 h3 h4 s' raw' e where "s = CHR 0x5C # CHR ''u'' # h1 # h2 # h3 # h4 # s'"
        "is_hex h1" "is_hex h2" "is_hex h3" "is_hex h4" "esc"
        "raw = CHR 0x5C # CHR ''u'' # h1 # h2 # h3 # h4 # raw'" "scan_string s' = Some (raw', e, rest)"
    | (simple) x s' raw' e where "s = CHR 0x5C # x # s'" "simple_escape x" "x \<noteq> CHR ''u''" "esc"
        "raw = CHR 0x5C # x # raw'" "scan_string s' = Some (raw', e, rest)"
proof (cases s)
  case (Cons c t)
  show ?thesis
  proof (cases "c = CHR 0x5C")
    case bs: True
    show ?thesis
    proof (cases t)
      case t: (Cons x u)
      show ?thesis
      proof (cases "x = CHR ''u''")
        case True
        with assms Cons bs t show ?thesis
          by (auto split: list.splits if_splits option.splits intro: hex)
      next
        case False
        with assms Cons bs t show ?thesis
          by (auto split: if_splits option.splits intro: simple)
      qed
    qed (use assms Cons bs in simp)
  next
    case False
    with assms Cons show ?thesis
      by (auto split: if_splits option.splits intro: quote plain)
  qed
qed (use assms in simp)

lemma scan_string_induct [consumes 1, case_names quote plain hex simple]:
  assumes "scan_string s = Some (raw, esc, rest)"
    and "P (CHR 0x22 # rest) [] False"
    and "\<And>c s raw esc. c \<noteq> CHR 0x22 \<Longrightarrow> c \<noteq> CHR 0x5C \<Longrightarrow> c \<noteq> NUL \<Longrightarrow>
      scan_string s = Some (raw, esc, rest) \<Longrightarrow> P s raw esc \<Longrightarrow> P (c # s) (c # raw) esc"
    and "\<And>h1 h2 h3 h4 s raw esc. is_hex h1 \<Longrightarrow> is_hex h2 \<Longrightarrow> is_hex h3 \<Longrightarrow> is_hex h4 \<Longrightarrow>
      scan_string s = Some (raw, esc, rest) \<Longrightarrow> P s raw esc \<Longrightarrow>
      P (CHR 0x5C # CHR ''u'' # h1 # h2 # h3 # h4 # s) (CHR 0x5C # CHR ''u'' # h1 # h2 # h3 # h4 # raw) True"
    and "\<And>x s raw esc. simple_escape x \<Longrightarrow> x \<noteq> CHR ''u'' \<Longrightarrow>
      scan_string s = Some (raw, esc, rest) \<Longrightarrow> P s raw esc \<Longrightarrow> P (CHR 0x5C # x # s) (CHR 0x5C # x # raw) True"
  shows "P s raw esc"
  using assms(1)
proof (induction "length s" arbitrary: s raw esc rule: less_induct)
  case less
  from less.prems show ?case
  proof (cases rule: scan_string_elim)
    case quote
    then show ?thesis using assms(2) by simp
  next
    case (plain c s' raw')
    with less.hyps [of s'] show ?thesis using assms(3) by simp
  next
    case (hex h1 h2 h3 h4 s' raw' e)
    with less.hyps [of s'] show ?thesis using assms(4) by simp
  next
    case (simple x s' raw' e)
    with less.hyps [of s'] show ?thesis using assms(5) by simp
  qed
qed

lemma scan_string_length:
  "scan_string s = Some (raw, esc, rest) \<Longrightarrow> length rest < length s \<and> s = raw @ CHR 0x22 # rest"
  by (induction rule: scan_string_induct) auto

lemma decode_string_Good:
  assumes "decode_string s = Good v rest"
  obtains raw esc where "v = R_String raw esc" "s = CHR 0x22 # raw @ CHR 0x22 # rest"
    "scan_string (raw @ CHR 0x22 # rest) = Some (raw, esc, rest)"
proof -
  obtain s' where s': "consume (CHR 0x22) s = Some s'"
    using assms by (auto simp: decode_string_def split: option.splits)
  then obtain raw esc where r: "scan_string s' = Some (raw, esc, rest)" "v = R_String raw esc"
    using assms by (auto simp: decode_string_def split: option.splits)
  from consume_Some [OF s'] have "s = CHR 0x22 # s'" by simp
  with r scan_string_length [OF r(1)] that show ?thesis by auto
qed

lemma number_loop_text: "number_loop st s = Some (tx, rest) \<Longrightarrow> s = tx @ rest"
proof (induction st s arbitrary: tx rule: number_loop.induct)
  case (1 st s)
  show ?case
  proof (cases s)
    case Nil
    with "1.prems" show ?thesis by (subst (asm) number_loop.simps) (auto split: if_splits)
  next
    case (Cons c s')
    show ?thesis
    proof (cases "number_table c")
      case None
      with "1.prems" Cons show ?thesis by (subst (asm) number_loop.simps) (auto split: if_splits)
    next
      case (Some tab)
      let ?run = "if is_digit c \<and> c \<noteq> CHR ''0'' then takeWhile is_digit s' else []"
      from "1.prems" Cons Some obtain t where t: "number_loop (tab ! state_index st) (drop (length ?run) s') = Some (t, rest)"
        "tx = c # ?run @ t" and st: "st \<noteq> Invalid"
        by (subst (asm) number_loop.simps) (auto simp: Let_def split: if_splits option.splits)
      from "1.IH" [OF st Cons Some refl refl t(1)] have "drop (length ?run) s' = t @ rest" .
      moreover have "s' = ?run @ drop (length ?run) s'"
        by (auto simp: dropWhile_eq_drop [symmetric])
      ultimately show ?thesis using Cons t(2) by (metis append.assoc append_Cons)
    qed
  qed
qed

lemma number_loop_start: "number_loop Minus s = Some (tx, rest) \<Longrightarrow> tx \<noteq> []"
  by (subst (asm) number_loop.simps) (auto simp: accepting_def Let_def split: list.splits option.splits if_splits)

lemma decode_number_Good:
  "decode_number s = Good v rest \<Longrightarrow> \<exists>tx. v = R_Number tx \<and> s = tx @ rest \<and> tx \<noteq> []"
  by (auto simp: decode_number_def dest: number_loop_text number_loop_start split: option.splits)

text \<open>Success of a production shortens the input, for all five productions at once.\<close>

definition shortens :: "'a parsed \<Rightarrow> string \<Rightarrow> bool" where
  "shortens r s \<longleftrightarrow> (\<forall>v rest. r = Good v rest \<longrightarrow> length rest < length s)"

lemma shortens_simps [simp]: "shortens No_Fuel s" "shortens Bad s"
  "shortens (Good v rest) s \<longleftrightarrow> length rest < length s"
  by (simp_all add: shortens_def)

lemma shortens_decode_string: "shortens (decode_string s) s"
  by (auto simp: shortens_def elim!: decode_string_Good)

lemma shortens_decode_number: "shortens (decode_number s) s"
  by (auto simp: shortens_def dest!: decode_number_Good)

lemma shortens_literal: "peek s = c \<Longrightarrow> c \<noteq> NUL \<Longrightarrow> 0 < k \<Longrightarrow> shortens (Good v (drop k s)) s"
  by (cases s) (auto simp: peek_def)

lemma shortens_trans: "shortens r s' \<Longrightarrow> length s' \<le> length s \<Longrightarrow> shortens r s"
  by (auto simp: shortens_def)

lemma shortens_all:
  "shortens (decode_value n d s) s" "shortens (decode_list n d s) s" "shortens (decode_elems n d s) s"
  "shortens (decode_object n d s) s" "shortens (decode_members n d s) s"
proof (induction n d s and n d s and n d s and n d s and n d s
    rule: decode_value_decode_list_decode_elems_decode_object_decode_members.induct)
  case (2 n d s)
  then show ?case
    by (simp add: shortens_decode_string shortens_decode_number)
      (auto intro!: length_tl_less simp: peek_def split: list.splits)
next
  case (4 n d s)
  show ?case
  proof (cases "consume (CHR ''['') s")
    case (Some s')
    then have s: "s = CHR ''['' # s'" by (auto dest: consume_Some)
    then have "length (ws_skip s') < length s" using length_ws_skip [of s'] by simp
    with 4 [OF Some] Some show ?thesis
      by (auto simp: Let_def shortens_def split: parsed.split)
  qed simp
next
  case (6 n d s)
  show ?case
  proof (cases "decode_value n (d + 1) s")
    case (Good v s1)
    then have 1: "length s1 < length s" using 6(1) by simp
    have 2: "length (ws_skip s1) \<le> length s1" by (rule length_ws_skip)
    show ?thesis
    proof (cases "consume (CHR '','') (ws_skip s1)")
      case (Some s3)
      then have "length s3 < length (ws_skip s1)" by (auto dest!: consume_Some)
      moreover have "length (ws_skip s3) \<le> length s3" by (rule length_ws_skip)
      ultimately show ?thesis
        using 1 2 Good Some 6(2) [OF Good refl _ Some]
        by (auto simp: Let_def shortens_def split: parsed.split)
    qed (use 1 2 Good in \<open>auto simp: Let_def\<close>)
  qed simp_all
next
  case (8 n d s)
  show ?case
  proof (cases "consume (CHR ''{'') s")
    case (Some s')
    then have s: "s = CHR ''{'' # s'" by (auto dest: consume_Some)
    then have "length (ws_skip s') < length s" using length_ws_skip [of s'] by simp
    with 8 [OF Some] Some show ?thesis
      by (auto simp: Let_def shortens_def split: parsed.split)
  qed simp
next
  case (10 n d s)
  show ?case
  proof (cases "decode_string s")
    case (Good t s1)
    then have 1: "length s1 < length s" using shortens_decode_string [of s] by simp
    have 2: "length (ws_skip s1) \<le> length s1" by (rule length_ws_skip)
    show ?thesis
    proof (cases "consume (CHR '':'') (ws_skip s1)")
      case c: (Some s2)
      then have 3: "length s2 < length (ws_skip s1)" by (auto dest!: consume_Some)
      have 4: "length (ws_skip s2) \<le> length s2" by (rule length_ws_skip)
      show ?thesis
      proof (cases "decode_value n (d + 1) (ws_skip s2)")
        case v: (Good v s3)
        then have 5: "length s3 < length (ws_skip s2)" using 10(1) [OF Good c refl] by simp
        have 6: "length (ws_skip s3) \<le> length s3" by (rule length_ws_skip)
        show ?thesis
        proof (cases "consume (CHR '','') (ws_skip s3)")
          case k: (Some s5)
          then have "length s5 < length (ws_skip s3)" by (auto dest!: consume_Some)
          moreover have "length (ws_skip s5) \<le> length s5" by (rule length_ws_skip)
          ultimately show ?thesis
            using 1 2 3 4 5 6 Good c v k 10(2) [OF Good c refl v refl _ k]
            by (auto simp: Let_def shortens_def split: parsed.split)
        qed (use 1 2 3 4 5 6 Good c v in \<open>auto simp: Let_def\<close>)
      qed (use Good c in \<open>auto simp: Let_def\<close>)
    qed (use Good in simp)
  qed simp_all
qed simp_all

section \<open>The fuel is enough\<close>

lemma decode_leaf_fuel [simp]: "decode_string s \<noteq> No_Fuel" "decode_number s \<noteq> No_Fuel"
  by (auto simp: decode_string_def decode_number_def split: option.splits)


lemma fuel_enough:
  "3 * length s + 3 \<le> n \<Longrightarrow> decode_value n d s \<noteq> No_Fuel"
  "3 * length s + 2 \<le> n \<Longrightarrow> decode_list n d s \<noteq> No_Fuel"
  "3 * length s + 4 \<le> n \<Longrightarrow> decode_elems n d s \<noteq> No_Fuel"
  "3 * length s + 2 \<le> n \<Longrightarrow> decode_object n d s \<noteq> No_Fuel"
  "3 * length s + 4 \<le> n \<Longrightarrow> decode_members n d s \<noteq> No_Fuel"
proof (induction n d s and n d s and n d s and n d s and n d s
    rule: decode_value_decode_list_decode_elems_decode_object_decode_members.induct)
  case (2 n d s)
  then show ?case by simp
next
  case (4 n d s)
  show ?case
  proof (cases "consume (CHR ''['') s")
    case (Some s')
    then have s: "s = CHR ''['' # s'" by (auto dest: consume_Some)
    then have "3 * length (ws_skip s') + 4 \<le> n" using length_ws_skip [of s'] 4(2) by simp
    with 4(1) [OF Some] Some show ?thesis by (auto simp: Let_def split: parsed.split)
  qed simp
next
  case (6 n d s)
  then have v: "decode_value n (d + 1) s \<noteq> No_Fuel" by simp
  show ?case
  proof (cases "decode_value n (d + 1) s")
    case (Good v s1)
    then have 1: "length s1 < length s" using shortens_all(1) [of n "d + 1" s] by simp
    have 2: "length (ws_skip s1) \<le> length s1" by (rule length_ws_skip)
    show ?thesis
    proof (cases "consume (CHR '','') (ws_skip s1)")
      case (Some s3)
      then have "length s3 < length (ws_skip s1)" by (auto dest!: consume_Some)
      moreover have "length (ws_skip s3) \<le> length s3" by (rule length_ws_skip)
      ultimately have "3 * length (ws_skip s3) + 4 \<le> n" using 1 2 6(3) by linarith
      with Good Some 6(2) [OF Good refl _ Some] show ?thesis
        by (auto simp: Let_def split: parsed.split)
    qed (use Good in \<open>auto simp: Let_def\<close>)
  qed (use v in simp_all)
next
  case (8 n d s)
  show ?case
  proof (cases "consume (CHR ''{'') s")
    case (Some s')
    then have s: "s = CHR ''{'' # s'" by (auto dest: consume_Some)
    then have "3 * length (ws_skip s') + 4 \<le> n" using length_ws_skip [of s'] 8(2) by simp
    with 8(1) [OF Some] Some show ?thesis by (auto simp: Let_def split: parsed.split)
  qed simp
next
  case (10 n d s)
  show ?case
  proof (cases "decode_string s")
    case (Good t s1)
    then have 1: "length s1 < length s" using shortens_decode_string [of s] by simp
    have 2: "length (ws_skip s1) \<le> length s1" by (rule length_ws_skip)
    show ?thesis
    proof (cases "consume (CHR '':'') (ws_skip s1)")
      case c: (Some s2)
      then have 3: "length s2 < length (ws_skip s1)" by (auto dest!: consume_Some)
      have 4: "length (ws_skip s2) \<le> length s2" by (rule length_ws_skip)
      have v0: "decode_value n (d + 1) (ws_skip s2) \<noteq> No_Fuel"
        by (rule 10(1) [OF Good c refl]) (use 1 2 3 4 10(3) in linarith)
      show ?thesis
      proof (cases "decode_value n (d + 1) (ws_skip s2)")
        case v: (Good v s3)
        then have 5: "length s3 < length (ws_skip s2)" using shortens_all(1) [of n "d + 1" "ws_skip s2"] by simp
        have 6: "length (ws_skip s3) \<le> length s3" by (rule length_ws_skip)
        show ?thesis
        proof (cases "consume (CHR '','') (ws_skip s3)")
          case k: (Some s5)
          then have "length s5 < length (ws_skip s3)" by (auto dest!: consume_Some)
          moreover have "length (ws_skip s5) \<le> length s5" by (rule length_ws_skip)
          ultimately have "3 * length (ws_skip s5) + 4 \<le> n" using 1 2 3 4 5 6 10(3) by linarith
          with Good c v k 10(2) [OF Good c refl v refl _ k] show ?thesis
            by (auto simp: Let_def split: parsed.split)
        qed (use Good c v in \<open>auto simp: Let_def\<close>)
      qed (use v0 Good c in \<open>auto simp: Let_def\<close>)
    qed (use Good in simp)
  qed simp_all
qed simp_all

lemma parse_total: "parse s \<noteq> No_Fuel"
  using fuel_enough(1) [of "ws_skip s" "decode_fuel (ws_skip s)" 0]
  by (auto simp: parse_def decode_fuel_def Let_def split: parsed.split)

section \<open>The recursion guard\<close>

text \<open>Depth of nested containers.\<close>

fun nesting :: "rvalue \<Rightarrow> nat" where
  "nesting (R_List vs) = Suc (foldr max (map nesting vs) 0)"
| "nesting (R_Object kvs) = Suc (foldr max (map (\<lambda>kv. nesting (snd kv)) kvs) 0)"
| "nesting _ = 0"

definition within :: "nat \<Rightarrow> rvalue \<Rightarrow> bool" where
  "within d v \<longleftrightarrow> nesting v = 0 \<or> d + 2 * nesting v \<le> Suc max_depth"

lemma foldr_max_le: "foldr max (xs :: nat list) 0 \<le> k \<longleftrightarrow> (\<forall>x \<in> set xs. x \<le> k)"
  by (induction xs) auto

lemma foldr_max_in: "foldr max (xs :: nat list) 0 = 0 \<or> foldr max xs 0 \<in> set xs"
  by (induction xs) (auto simp: max_def)

lemma within_list:
  assumes "d \<le> max_depth" "\<forall>v \<in> set vs. within (d + 1) v"
  shows "d + 2 * nesting (R_List vs) \<le> Suc (Suc max_depth)"
  using foldr_max_in [of "map nesting vs"] assms by (auto simp: within_def)

lemma within_object:
  assumes "d \<le> max_depth" "\<forall>kv \<in> set kvs. within (d + 1) (snd kv)"
  shows "d + 2 * nesting (R_Object kvs) \<le> Suc (Suc max_depth)"
  using foldr_max_in [of "map (\<lambda>kv. nesting (snd kv)) kvs"] assms by (fastforce simp: within_def)

lemma decode_within:
  "decode_value n d s = Good v r \<Longrightarrow> within d v"
  "decode_list n d s = Good v r \<Longrightarrow> d + 2 * nesting v \<le> Suc (Suc max_depth)"
  "decode_elems n d s = Good vs r \<Longrightarrow> \<forall>v \<in> set vs. within (d + 1) v"
  "decode_object n d s = Good v r \<Longrightarrow> d + 2 * nesting v \<le> Suc (Suc max_depth)"
  "decode_members n d s = Good kvs r \<Longrightarrow> \<forall>kv \<in> set kvs. within (d + 1) (snd kv)"
proof (induction n d s and n d s and n d s and n d s and n d s arbitrary: v r and v r and vs r and v r and kvs r
    rule: decode_value_decode_list_decode_elems_decode_object_decode_members.induct)
  case (2 n d s)
  then show ?case
    by (auto simp: within_def split: if_splits dest!: decode_number_Good elim!: decode_string_Good)
next
  case (4 n d s)
  from 4(2) obtain s' where s': "consume (CHR ''['') s = Some s'" and d: "\<not> max_depth < d"
    by (auto split: option.splits if_splits)
  show ?case
  proof (cases "peek (ws_skip s') = CHR '']''")
    case True
    with 4(2) s' d show ?thesis by (auto simp: Let_def)
  next
    case False
    with 4(2) s' d obtain vs where vs: "decode_elems n d (ws_skip s') = Good vs r" "v = R_List vs"
      by (auto simp: Let_def split: parsed.splits)
    from 4(1) [OF s' d refl False vs(1)] vs(2) d show ?thesis by (simp only:) (rule within_list, simp_all)
  qed
next
  case (6 n d s)
  from 6(3) obtain v s1 where v: "decode_value n (d + 1) s = Good v s1" by (auto split: parsed.splits)
  note IH = 6(1) [OF v]
  show ?case
  proof (cases "peek (ws_skip s1) = CHR '']''")
    case True
    with 6(3) v IH show ?thesis by (auto simp: Let_def)
  next
    case False
    with 6(3) v obtain s3 vs' where s3: "consume (CHR '','') (ws_skip s1) = Some s3"
      "decode_elems n d (ws_skip s3) = Good vs' r" "vs = v # vs'"
      by (auto simp: Let_def split: parsed.splits option.splits)
    from 6(2) [OF v refl False s3(1,2)] IH s3(3) show ?thesis by simp
  qed
next
  case (8 n d s)
  from 8(2) obtain s' where s': "consume (CHR ''{'') s = Some s'" and d: "\<not> max_depth < d"
    by (auto split: option.splits if_splits)
  show ?case
  proof (cases "peek (ws_skip s') = CHR ''}''")
    case True
    with 8(2) s' d show ?thesis by (auto simp: Let_def)
  next
    case False
    with 8(2) s' d obtain vs where vs: "decode_members n d (ws_skip s') = Good vs r" "v = R_Object vs"
      by (auto simp: Let_def split: parsed.splits)
    from 8(1) [OF s' d refl False vs(1)] vs(2) d show ?thesis by (simp only:) (rule within_object, simp_all)
  qed
next
  case (10 n d s)
  from 10(3) obtain t s1 s2 v s3 where t: "decode_string s = Good t s1" "consume (CHR '':'') (ws_skip s1) = Some s2"
    and v: "decode_value n (d + 1) (ws_skip s2) = Good v s3"
    by (auto simp: Let_def split: parsed.splits option.splits)
  note IH = 10(1) [OF t refl v]
  show ?case
  proof (cases "peek (ws_skip s3) = CHR ''}''")
    case True
    with 10(3) t v IH show ?thesis by (auto simp: Let_def)
  next
    case False
    with 10(3) t v obtain s5 kvs' key where k: "consume (CHR '','') (ws_skip s3) = Some s5"
      "decode_members n d (ws_skip s5) = Good kvs' r" "kvs = (key, v) # kvs'"
      by (auto simp: Let_def split: parsed.splits option.splits)
    from 10(2) [OF t refl v refl False k(1,2)] IH k(3) show ?thesis by simp
  qed
qed simp_all

lemma parse_nesting: "parse s = Good v r \<Longrightarrow> nesting v \<le> 5000"
  by (auto simp: parse_def Let_def within_def max_depth_def dest!: decode_within(1) split: parsed.splits if_splits)

end
