(* ===== verification/Json_Value.thy ===== *)
theory Json_Value
  imports Json_Facts "HOL-Library.List_Lexorder"
begin

text \<open>
  The accessors of \<open>crow::json::rvalue\<close>: \<open>t\<close>, \<open>i\<close>, \<open>u\<close>, \<open>b\<close>, \<open>s\<close>, \<open>size\<close>, the list and member
  \<open>operator[]\<close>, \<open>has\<close> and \<open>keys\<close>, with their exceptions as values, and \<open>utility::lexical_cast\<close>,
  whose \<open>stream >> res\<close> is \<open>std::num_get\<close>.  A \<open>lexical_cast\<close> of a text without any character to
  read leaves its result uninitialised, which is the error \<open>Indeterminate\<close>.
\<close>

datatype access_error = Throws string | Indeterminate

section \<open>Types\<close>

datatype json_type = T_Null | T_False | T_True | T_Number | T_String | T_List | T_Object | T_Function

fun type_of :: "rvalue \<Rightarrow> json_type" where
  "type_of R_Null = T_Null"
| "type_of R_False = T_False"
| "type_of R_True = T_True"
| "type_of (R_Number _) = T_Number"
| "type_of (R_String _ _) = T_String"
| "type_of (R_List _) = T_List"
| "type_of (R_Object _) = T_Object"

fun get_type_str :: "json_type \<Rightarrow> string" where
  "get_type_str T_Number = ''Number''"
| "get_type_str T_False = ''False''"
| "get_type_str T_True = ''True''"
| "get_type_str T_List = ''List''"
| "get_type_str T_String = ''String''"
| "get_type_str T_Object = ''Object''"
| "get_type_str T_Function = ''Function''"
| "get_type_str T_Null = ''Unknown''"

datatype num_type = Signed_integer | Unsigned_integer | Floating_point | NT_Null | Double_precision_floating_point

definition determine_num_type :: "rvalue \<Rightarrow> num_type" where
  "determine_num_type v =
     (case v of
        R_Number t \<Rightarrow>
          (let has_minus = CHR ''-'' \<in> set t;
               has_e = CHR ''e'' \<in> set t \<or> CHR ''E'' \<in> set t;
               has_dec_sep = CHR ''.'' \<in> set t
           in if has_dec_sep \<or> has_e then Floating_point
              else if has_minus then Signed_integer else Unsigned_integer)
      | _ \<Rightarrow> NT_Null)"

section \<open>Integers from text\<close>

text \<open>The sign and the digits \<open>std::num_get\<close> reads.\<close>

definition num_get :: "string \<Rightarrow> bool \<times> string" where
  "num_get s =
     (case s of
        c # s' \<Rightarrow>
          (if c = CHR ''-'' then (True, takeWhile is_digit s')
           else if c = CHR ''+'' then (False, takeWhile is_digit s')
           else (False, takeWhile is_digit s))
      | [] \<Rightarrow> (False, []))"

definition lexical_cast_i64 :: "string \<Rightarrow> access_error + int" where
  "lexical_cast_i64 s =
     (let s1 = dropWhile is_space s
      in if s1 = [] then Inl Indeterminate
         else (case num_get s1 of (neg, ds) \<Rightarrow>
           (let v = int (digits_value ds)
            in Inr (if neg then max (- (2 ^ 63)) (- v) else min (2 ^ 63 - 1) v))))"

definition lexical_cast_u64 :: "string \<Rightarrow> access_error + u64" where
  "lexical_cast_u64 s =
     (let s1 = dropWhile is_space s
      in if s1 = [] then Inl Indeterminate
         else (case num_get s1 of (neg, ds) \<Rightarrow>
           (let v = digits_value ds
            in Inr (if 2 ^ 64 \<le> v then - 1 else if neg then - of_nat v else of_nat v))))"

section \<open>Scalar accessors\<close>

definition not_number :: "rvalue \<Rightarrow> access_error" where
  "not_number v = Throws (''expected number, got: '' @ get_type_str (type_of v))"

definition r_i :: "rvalue \<Rightarrow> access_error + int" where
  "r_i v =
     (case v of R_Number t \<Rightarrow> lexical_cast_i64 t | R_String raw esc \<Rightarrow> lexical_cast_i64 raw | _ \<Rightarrow> Inl (not_number v))"

definition r_u :: "rvalue \<Rightarrow> access_error + u64" where
  "r_u v =
     (case v of R_Number t \<Rightarrow> lexical_cast_u64 t | R_String raw esc \<Rightarrow> lexical_cast_u64 raw | _ \<Rightarrow> Inl (not_number v))"

definition r_b :: "rvalue \<Rightarrow> access_error + bool" where
  "r_b v =
     (if type_of v \<noteq> T_True \<and> type_of v \<noteq> T_False then Inl (Throws ''value is not boolean'')
      else Inr (type_of v = T_True))"

definition r_s :: "rvalue \<Rightarrow> access_error + string" where
  "r_s v = (case v of R_String raw esc \<Rightarrow> Inr (string_text raw esc) | _ \<Rightarrow> Inl (Throws ''value is not string''))"

text \<open>The conversion operator to \<open>std::string\<close>.\<close>

definition r_string :: "rvalue \<Rightarrow> access_error + string" where
  "r_string v =
     (case v of
        R_Object _ \<Rightarrow> Inl (Throws ''json type container'')
      | R_List _ \<Rightarrow> Inl (Throws ''json type container'')
      | R_String raw esc \<Rightarrow> Inr (string_text raw esc)
      | R_Null \<Rightarrow> Inr ''null''
      | R_True \<Rightarrow> Inr ''true''
      | R_False \<Rightarrow> Inr ''false''
      | R_Number t \<Rightarrow> Inr t)"

section \<open>Containers\<close>

definition r_size :: "rvalue \<Rightarrow> access_error + nat" where
  "r_size v =
     (case v of
        R_String raw esc \<Rightarrow> Inr (length (string_text raw esc))
      | R_List vs \<Rightarrow> Inr (length vs)
      | R_Object kvs \<Rightarrow> Inr (length kvs)
      | _ \<Rightarrow> Inl (Throws ''value is not a container''))"

definition r_index :: "rvalue \<Rightarrow> int \<Rightarrow> access_error + rvalue" where
  "r_index v idx =
     (case v of
        R_List vs \<Rightarrow>
          (if int (length vs) \<le> idx \<or> idx < 0 then Inl (Throws ''list out of bound'') else Inr (vs ! nat idx))
      | _ \<Rightarrow> Inl (Throws ''value is not a list''))"

text \<open>
  Member lookup sorts the members by key (\<open>std::sort\<close> with \<open>Pred\<close>, comparing \<open>char\<close>s, which are
  signed on the target) and then takes \<open>lower_bound\<close>.  For equal keys the order \<open>std::sort\<close> leaves is
  unspecified in general; it is stable for up to 16 members in libstdc++, the case modelled here.
  \<open>has\<close> also accepts a list, whose elements have a key that was never set.
\<close>

definition schar :: "char \<Rightarrow> int" where
  "schar c = (if 128 \<le> code c then int (code c) - 256 else int (code c))"

definition key_rank :: "string \<Rightarrow> int list" where
  "key_rank k = map schar k"

definition sort_members :: "(string \<times> rvalue) list \<Rightarrow> (string \<times> rvalue) list" where
  "sort_members kvs = sort_key (\<lambda>kv. key_rank (fst kv)) kvs"

definition lower_bound :: "string \<Rightarrow> (string \<times> rvalue) list \<Rightarrow> (string \<times> rvalue) list" where
  "lower_bound str kvs = dropWhile (\<lambda>kv. key_rank (fst kv) < key_rank str) kvs"

definition r_has :: "rvalue \<Rightarrow> string \<Rightarrow> access_error + bool" where
  "r_has v str =
     (case v of
        R_Object kvs \<Rightarrow> Inr (case lower_bound str (sort_members kvs) of [] \<Rightarrow> False | kv # _ \<Rightarrow> fst kv = str)
      | R_List vs \<Rightarrow> (if vs = [] then Inr False else Inl Indeterminate)
      | _ \<Rightarrow> Inl (Throws ''value is not a container''))"

definition r_member :: "rvalue \<Rightarrow> string \<Rightarrow> access_error + rvalue" where
  "r_member v str =
     (case v of
        R_Object kvs \<Rightarrow>
          (case lower_bound str (sort_members kvs) of
             [] \<Rightarrow> Inl (Throws (''cannot find key: '' @ str))
           | kv # _ \<Rightarrow> (if fst kv = str then Inr (snd kv) else Inl (Throws (''cannot find key: '' @ str))))
      | _ \<Rightarrow> Inl (Throws ''value is not an object''))"

definition r_keys :: "rvalue \<Rightarrow> access_error + string list" where
  "r_keys v = (case v of R_Object kvs \<Rightarrow> Inr (map fst kvs) | _ \<Rightarrow> Inl (Throws ''value is not an object''))"

section \<open>Member lookup finds the first member with the key\<close>

lemma schar_inj: "schar c = schar c' \<longleftrightarrow> c = c'"
  using code_less [of c] code_less [of c'] code_inj [of c c'] by (auto simp: schar_def)

lemma key_rank_inj: "key_rank k = key_rank k' \<longleftrightarrow> k = k'"
  unfolding key_rank_def by (rule inj_map_eq_map) (simp add: inj_def schar_inj)

lemma lower_bound_sorted:
  assumes "sorted (map (\<lambda>kv. key_rank (fst kv)) kvs)"
  shows "(case lower_bound str kvs of [] \<Rightarrow> None | kv # _ \<Rightarrow> if fst kv = str then Some (snd kv) else None)
    = map_of kvs str"
  using assms
proof (induction kvs)
  case (Cons kv kvs)
  show ?case
  proof (cases "key_rank (fst kv) < key_rank str")
    case True
    then have "fst kv \<noteq> str" by auto
    with True Cons show ?thesis by (cases kv) (auto simp: lower_bound_def)
  next
    case False
    then have gt: "fst kv \<noteq> str \<Longrightarrow> key_rank str < key_rank (fst kv)"
      by (metis key_rank_inj linorder_neqE)
    have "fst kv \<noteq> str \<Longrightarrow> map_of kvs str = None"
      using gt Cons.prems by (force simp: map_of_eq_None_iff)
    with False show ?thesis by (cases kv) (auto simp: lower_bound_def)
  qed
qed (simp add: lower_bound_def)

lemma map_of_filter: "map_of (filter (\<lambda>kv. fst kv = k) kvs) k = map_of kvs k"
  by (induction kvs) auto

lemma map_of_sort_members: "map_of (sort_members kvs) k = map_of kvs k"
proof -
  have "filter (\<lambda>kv. fst kv = k) (sort_members kvs) = filter (\<lambda>kv. fst kv = k) kvs"
    using sort_key_stable [of "\<lambda>kv. key_rank (fst kv)" "key_rank k" kvs]
    by (simp add: sort_members_def key_rank_inj)
  then show ?thesis by (metis map_of_filter)
qed

lemma r_member_eq:
  "r_member (R_Object kvs) str =
     (case map_of kvs str of None \<Rightarrow> Inl (Throws (''cannot find key: '' @ str)) | Some v \<Rightarrow> Inr v)"
proof -
  have "sorted (map (\<lambda>kv. key_rank (fst kv)) (sort_members kvs))" by (simp add: sort_members_def)
  from lower_bound_sorted [OF this, of str] show ?thesis
    by (auto simp: r_member_def map_of_sort_members split: list.splits option.splits if_splits)
qed

lemma r_has_eq: "r_has (R_Object kvs) str = Inr (str \<in> fst ` set kvs)"
proof -
  have "sorted (map (\<lambda>kv. key_rank (fst kv)) (sort_members kvs))" by (simp add: sort_members_def)
  from lower_bound_sorted [OF this, of str]
  have "r_has (R_Object kvs) str = Inr (map_of kvs str \<noteq> None)"
    by (cases "lower_bound str (sort_members kvs)") (auto simp: r_has_def map_of_sort_members dest: sym split: if_splits)
  then show ?thesis by (simp add: map_of_eq_None_iff)
qed

end
