(* ===== verification/Json_Write.thy ===== *)
theory Json_Write
  imports Json_Value
begin

text \<open>
  The JSON writer of \<open>crow.h\<close>: \<open>escape\<close> and \<open>wvalue::dump\<close>.  A write value carries its 64 bit
  number in the width the union has; a double carries the text \<open>snprintf\<close> wrote for it into
  \<open>outbuf\<close>.  The members of an object come in the iteration order of the \<open>unordered_map\<close>.  The main
  result is the round trip: \<open>load\<close> reads back what \<open>dump\<close> wrote, with or without indentation.
\<close>

datatype wvalue =
    W_Null
  | W_False
  | W_True
  | W_Signed "64 word"
  | W_Unsigned u64
  | W_Float string
  | W_Nonfinite
  | W_String string
  | W_List "wvalue list"
  | W_Object "(string \<times> wvalue) list"
  | W_Function

section \<open>Escaping\<close>

definition to_hex :: "nat \<Rightarrow> char" where
  "to_hex c = (let d = c mod 16 in if d < 10 then char_of (48 + d) else char_of (97 + d - 10))"

definition escape_char :: "char \<Rightarrow> string" where
  "escape_char c =
     (if c = CHR 0x22 then [CHR 0x5C, CHR 0x22]
      else if c = CHR 0x5C then [CHR 0x5C, CHR 0x5C]
      else if c = CHR 0x0A then [CHR 0x5C, CHR ''n'']
      else if c = CHR 0x08 then [CHR 0x5C, CHR ''b'']
      else if c = CHR 0x0C then [CHR 0x5C, CHR ''f'']
      else if c = CHR 0x0D then [CHR 0x5C, CHR ''r'']
      else if c = CHR 0x09 then [CHR 0x5C, CHR ''t'']
      else if code c < 32 then [CHR 0x5C, CHR ''u'', CHR ''0'', CHR ''0'', to_hex (code c div 16), to_hex (code c mod 16)]
      else [c])"

definition escape :: "string \<Rightarrow> string" where
  "escape s = concat (map escape_char s)"

section \<open>Doubles\<close>

text \<open>The loop that drops trailing zeros from \<open>outbuf\<close>; the result is the position recorded last.\<close>

datatype f_state = F_start | F_decp | F_zero

fun trim_scan :: "f_state \<Rightarrow> nat \<Rightarrow> nat option \<Rightarrow> string \<Rightarrow> nat option" where
  "trim_scan st p pos [] = pos"
| "trim_scan F_start p pos (ch # s) =
     (if ch = CHR ''.'' then
        (case s of
           [] \<Rightarrow> trim_scan F_decp (p + 1) pos []
         | fch # s' \<Rightarrow> (if fch \<noteq> NUL \<and> fch = CHR ''0'' then trim_scan F_decp (p + 2) pos s'
                        else trim_scan F_decp (p + 1) pos (fch # s')))
      else trim_scan F_start (p + 1) pos s)"
| "trim_scan F_decp p pos (ch # s) =
     (if ch = CHR ''0'' then trim_scan F_zero (p + 1) (Some p) s else trim_scan F_decp (p + 1) pos s)"
| "trim_scan F_zero p pos (ch # s) =
     (if ch \<noteq> CHR ''0'' then trim_scan F_decp (p + 1) None s else trim_scan F_zero (p + 1) pos s)"

definition trim_float :: "string \<Rightarrow> string" where
  "trim_float outbuf = (case trim_scan F_start 0 None outbuf of None \<Rightarrow> outbuf | Some p \<Rightarrow> take p outbuf)"

section \<open>Dumping\<close>

definition dump_string :: "string \<Rightarrow> string" where
  "dump_string str = CHR 0x22 # escape str @ [CHR 0x22]"

definition indentation_part :: "int \<Rightarrow> char \<Rightarrow> nat \<Rightarrow> string" where
  "indentation_part indent sep lvl = (if 0 \<le> indent then CHR 0x0A # replicate (lvl * nat indent) sep else [])"

fun dump_internal :: "wvalue \<Rightarrow> int \<Rightarrow> char \<Rightarrow> nat \<Rightarrow> string"
  and dump_elems :: "bool \<Rightarrow> wvalue list \<Rightarrow> int \<Rightarrow> char \<Rightarrow> nat \<Rightarrow> string"
  and dump_members :: "bool \<Rightarrow> (string \<times> wvalue) list \<Rightarrow> int \<Rightarrow> char \<Rightarrow> nat \<Rightarrow> string"
where
  "dump_internal W_Null indent sep lvl = ''null''"
| "dump_internal W_False indent sep lvl = ''false''"
| "dump_internal W_True indent sep lvl = ''true''"
| "dump_internal W_Nonfinite indent sep lvl = ''null''"
| "dump_internal (W_Float outbuf) indent sep lvl = trim_float outbuf"
| "dump_internal (W_Signed si) indent sep lvl = to_string (sint si)"
| "dump_internal (W_Unsigned ui) indent sep lvl = to_string (uint ui)"
| "dump_internal (W_String s) indent sep lvl = dump_string s"
| "dump_internal (W_List l) indent sep lvl =
     CHR ''['' # indentation_part indent sep (lvl + 1) @ dump_elems True l indent sep lvl
       @ indentation_part indent sep lvl @ '']''"
| "dump_internal (W_Object kvs) indent sep lvl =
     CHR ''{'' # indentation_part indent sep (lvl + 1) @ dump_members True kvs indent sep lvl
       @ indentation_part indent sep lvl @ ''}''"
| "dump_internal W_Function indent sep lvl = ''custom function''"
| "dump_elems first [] indent sep lvl = []"
| "dump_elems first (x # xs) indent sep lvl =
     (if \<not> first then CHR '','' # indentation_part indent sep (lvl + 1) else [])
       @ dump_internal x indent sep (lvl + 1) @ dump_elems False xs indent sep lvl"
| "dump_members first [] indent sep lvl = []"
| "dump_members first (kv # kvs) indent sep lvl =
     (if \<not> first then CHR '','' # indentation_part indent sep (lvl + 1) else [])
       @ dump_string (fst kv) @ CHR '':'' # (if 0 \<le> indent then '' '' else [])
       @ dump_internal (snd kv) indent sep (lvl + 1) @ dump_members False kvs indent sep lvl"

definition dump :: "wvalue \<Rightarrow> int \<Rightarrow> char \<Rightarrow> string" where
  "dump v indent sep = dump_internal v indent sep 0"

section \<open>Escaping and scanning\<close>

definition needs_escape :: "string \<Rightarrow> bool" where
  "needs_escape s \<longleftrightarrow> (\<exists>c \<in> set s. escape_char c \<noteq> [c])"

lemma escape_simps [simp]: "escape [] = []" "escape (c # s) = escape_char c @ escape s"
  by (simp_all add: escape_def)

lemma needs_escape_simps [simp]: "\<not> needs_escape []"
  "needs_escape (c # s) \<longleftrightarrow> escape_char c \<noteq> [c] \<or> needs_escape s"
  by (auto simp: needs_escape_def)

lemma escape_plain: "\<not> needs_escape s \<Longrightarrow> escape s = s"
  by (induction s) auto

lemma code_to_hex: "code (to_hex n) = (if n mod 16 < 10 then 48 + n mod 16 else 87 + n mod 16)"
  by (auto simp: to_hex_def Let_def) 

lemma is_hex_to_hex: "is_hex (to_hex n)"
  by (auto simp: is_hex_def code_to_hex)

lemma from_hex_to_hex: "from_hex (to_hex n) = n mod 16"
  by (auto simp: from_hex_def code_to_hex)

text \<open>The three forms an escaped character takes.\<close>

lemma escape_char_cases:
  obtains (simple) e where "escape_char c = [CHR 0x5C, e]" "simple_escape e" "e \<noteq> CHR ''u''" "unescape_char e = [c]"
  | (control) "code c < 32" "escape_char c = [CHR 0x5C, CHR ''u'', CHR ''0'', CHR ''0'', to_hex (code c div 16), to_hex (code c mod 16)]"
  | (plain) "escape_char c = [c]" "32 \<le> code c" "c \<noteq> CHR 0x22" "c \<noteq> CHR 0x5C"
proof (cases "c \<in> {CHR 0x22, CHR 0x5C, CHR 0x0A, CHR 0x08, CHR 0x0C, CHR 0x0D, CHR 0x09}")
  case True
  have "\<exists>e. escape_char c = [CHR 0x5C, e] \<and> simple_escape e \<and> e \<noteq> CHR ''u'' \<and> unescape_char e = [c]"
    using True by (elim insertE emptyE) (simp_all add: escape_char_def simple_escape_def unescape_char_def)
  then show ?thesis using simple by blast
next
  case False
  then show ?thesis using control plain by (cases "code c < 32") (simp_all add: escape_char_def)
qed

lemma scan_escape_char:
  assumes "scan_string s = Some (raw, esc, rest)"
  shows "scan_string (escape_char c @ s) = Some (escape_char c @ raw, esc \<or> escape_char c \<noteq> [c], rest)"
proof (cases c rule: escape_char_cases)
  case (simple e)
  then show ?thesis using assms by (simp add: NUL_def)
next
  case control
  have "is_hex CHR ''0''" by (simp add: is_hex_def code_def)
  then show ?thesis using assms control by (simp add: is_hex_to_hex NUL_def)
next
  case plain
  then have "c \<noteq> NUL" by (auto simp: NUL_def code_def)
  then show ?thesis using assms plain by simp
qed

lemma scan_escape:
  "scan_string (escape str @ CHR 0x22 # rest) = Some (escape str, needs_escape str, rest)"
proof (induction str)
  case (Cons c str)
  from scan_escape_char [OF Cons.IH, of c] show ?case by (auto simp: disj_commute)
qed simp

lemma utf8_bytes_small: "n < 128 \<Longrightarrow> utf8_bytes n = [char_of n]"
  by (simp add: utf8_bytes_def)

lemma unescape_escape_char: "unescape (escape_char c @ s) = c # unescape s"
proof (cases c rule: escape_char_cases)
  case control
  have z: "from_hex CHR ''0'' = 0" by (simp add: from_hex_def code_def)
  have "code c div 16 < 16" using control by linarith
  then have "push_bit 4 (code c div 16 mod 16) + code c mod 16 mod 16 = code c"
    by (simp add: push_bit_eq_mult)
  then show ?thesis using control
    by (simp add: z from_hex_to_hex utf8_bytes_small)
qed simp_all

lemma unescape_escape: "unescape (escape str) = str"
  by (induction str) (simp_all add: unescape_escape_char)

lemma string_text_escape: "string_text (escape str) (needs_escape str) = str"
  by (simp add: string_text_def unescape_escape escape_plain)

lemma decode_dump_string:
  "decode_string (dump_string str @ rest) = Good (R_String (escape str) (needs_escape str)) rest"
  by (simp add: decode_string_def dump_string_def consume_def peek_def scan_escape)


section \<open>Numbers\<close>

definition stops :: "string \<Rightarrow> bool" where
  "stops s \<longleftrightarrow> number_table (peek s) = None"

lemma digit_0: "is_digit CHR ''0''" "\<not> is_digit NUL"
  by (simp_all add: is_digit_def code_def NUL_def)

lemma stops_not_digit: "stops s \<Longrightarrow> s = [] \<or> \<not> is_digit (hd s)"
  by (cases s) (auto simp: stops_def peek_def number_table_def digit_0 split: if_splits)

lemma number_loop_stops: "stops s \<Longrightarrow> accepting st \<Longrightarrow> number_loop st s = Some ([], s)"
  by (subst number_loop.simps) (auto simp: stops_def peek_def accepting_def split: list.split)

lemma number_loop_digits:
  assumes "st = Minus \<or> st = AfterMinus" and s: "stops s"
  shows "number_loop st (to_dec n @ s) = Some (to_dec n, s)"
proof (cases "n = 0")
  case True
  then have "number_loop st (to_dec n @ s) = (case number_loop ZeroFirst s of None \<Rightarrow> None | Some (t, e) \<Rightarrow> Some (CHR ''0'' # t, e))"
    using assms(1) by (subst number_loop.simps) (auto simp: number_table_def table_zero_def split: option.split)
  with s True show ?thesis by (simp add: number_loop_stops accepting_def)
next
  case False
  obtain c ds where d: "to_dec n = c # ds" by (cases "to_dec n") auto
  have c: "is_digit c" "\<forall>x \<in> set ds. is_digit x" using to_dec_digits [of n] d by auto
  have c0: "c \<noteq> CHR ''0''" using hd_to_dec [of n] False d by simp
  have tw: "takeWhile is_digit (ds @ s) = ds" using c(2) stops_not_digit [OF s] by (rule takeWhile_digits_append)
  have tab: "number_table c = Some table_digit" using c c0 by (simp add: number_table_def)
  have "number_loop st (c # ds @ s) = (case number_loop Digits s of None \<Rightarrow> None | Some (t, e) \<Rightarrow> Some (c # ds @ t, e))"
    using assms(1) c c0 by (subst number_loop.simps) (auto simp: tab table_digit_def tw)
  with s d show ?thesis by (simp add: number_loop_stops accepting_def)
qed

lemma number_loop_minus:
  "stops s \<Longrightarrow> number_loop Minus (CHR ''-'' # to_dec n @ s) = Some (CHR ''-'' # to_dec n, s)"
proof -
  assume s: "stops s"
  have m: "\<not> is_digit CHR ''-''" by (simp add: is_digit_def code_def)
  have "number_loop Minus (CHR ''-'' # to_dec n @ s) =
    (case number_loop AfterMinus (to_dec n @ s) of None \<Rightarrow> None | Some (t, e) \<Rightarrow> Some (CHR ''-'' # t, e))"
    by (subst number_loop.simps) (simp add: number_table_def table_minus_def m split: option.split)
  with number_loop_digits [of AfterMinus s n] s show ?thesis by simp
qed

lemma number_loop_to_string: "stops s \<Longrightarrow> number_loop Minus (to_string k @ s) = Some (to_string k, s)"
  by (simp add: to_string_def number_loop_digits number_loop_minus)

lemma hd_to_string: "\<exists>c t. to_string k = c # t \<and> (is_digit c \<or> c = CHR ''-'')"
  using to_dec_digits [of "nat k"] by (cases "to_dec (nat k)") (auto simp: to_string_def)

lemma decode_value_number:
  assumes "stops s"
  shows "decode_value (Suc n) d (to_string k @ s) = Good (R_Number (to_string k)) s"
proof -
  obtain c t where c: "to_string k = c # t" "is_digit c \<or> c = CHR ''-''" using hd_to_string by blast
  then have "c \<notin> {CHR ''['', CHR ''{'', CHR 0x22, CHR ''t'', CHR ''f'', CHR ''n''}"
    by (auto simp: is_digit_def code_def)
  with c number_loop_to_string [OF assms, of k] show ?thesis
    by (simp add: peek_def decode_number_def)
qed

section \<open>The round trip\<close>

text \<open>What a write value reads back as, and the values \<open>dump\<close> writes as JSON text.\<close>

fun read_back :: "wvalue \<Rightarrow> rvalue" where
  "read_back W_Null = R_Null"
| "read_back W_False = R_False"
| "read_back W_True = R_True"
| "read_back (W_Signed si) = R_Number (to_string (sint si))"
| "read_back (W_Unsigned ui) = R_Number (to_string (uint ui))"
| "read_back (W_Float outbuf) = R_Number (trim_float outbuf)"
| "read_back W_Nonfinite = R_Null"
| "read_back (W_String s) = R_String (escape s) (needs_escape s)"
| "read_back (W_List l) = R_List (map read_back l)"
| "read_back (W_Object kvs) = R_Object (map (\<lambda>kv. (fst kv, read_back (snd kv))) kvs)"
| "read_back W_Function = R_Null"

fun dumpable :: "wvalue \<Rightarrow> bool" where
  "dumpable (W_Float outbuf) = False"
| "dumpable W_Function = False"
| "dumpable (W_List l) = (\<forall>v \<in> set l. dumpable v)"
| "dumpable (W_Object kvs) = (\<forall>kv \<in> set kvs. dumpable (snd kv))"
| "dumpable _ = True"

definition ws_only :: "string \<Rightarrow> bool" where
  "ws_only s \<longleftrightarrow> (\<forall>c \<in> set s. is_ws c)"

lemma ws_skip_append: "ws_only u \<Longrightarrow> ws_skip (u @ s) = ws_skip s"
  by (simp add: ws_skip_def ws_only_def dropWhile_append2)

lemma ws_skip_self: "s \<noteq> [] \<Longrightarrow> \<not> is_ws (hd s) \<Longrightarrow> ws_skip s = s"
  by (cases s) (auto simp: ws_skip_def)

lemma ws_only_indentation: "is_ws sep \<Longrightarrow> ws_only (indentation_part indent sep lvl)"
  by (auto simp: ws_only_def indentation_part_def is_ws_def)

text \<open>A dumped value starts with a character that starts a value.\<close>

definition starts_value :: "string \<Rightarrow> bool" where
  "starts_value s \<longleftrightarrow> s \<noteq> [] \<and> \<not> is_ws (hd s) \<and> hd s \<noteq> CHR '']'' \<and> hd s \<noteq> CHR ''}''"

lemma starts_value_to_string: "starts_value (to_string k @ s)"
proof -
  obtain c t where c: "to_string k = c # t" "is_digit c \<or> c = CHR ''-''" using hd_to_string by blast
  then show ?thesis by (auto simp: starts_value_def is_ws_def is_digit_def code_def)
qed

lemma starts_value_dump: "dumpable v \<Longrightarrow> starts_value (dump_internal v indent sep lvl @ s)"
  by (cases v) (simp_all add: starts_value_to_string, simp_all add: starts_value_def is_ws_def dump_string_def)

lemma starts_valueD: "starts_value s \<Longrightarrow> ws_skip s = s \<and> peek s \<noteq> CHR '']'' \<and> peek s \<noteq> CHR ''}''"
  by (cases s) (auto simp: starts_value_def ws_skip_def peek_def)

lemma stops_indentation:
  assumes "is_ws sep" "stops s"
  shows "stops (indentation_part indent sep lvl @ s)"
proof (cases "0 \<le> indent")
  case True
  then show ?thesis by (simp add: stops_def indentation_part_def peek_def number_table_def is_digit_def code_def)
next
  case False
  with assms show ?thesis by (simp add: indentation_part_def)
qed

lemma stops_punct: "stops (CHR '']'' # s)" "stops (CHR ''}'' # s)" "stops (CHR '','' # s)" "stops []"
  by (simp_all add: stops_def peek_def number_table_def is_digit_def code_def NUL_def)


lemma punct: "ws_skip (CHR '']'' # s) = CHR '']'' # s" "ws_skip (CHR ''}'' # s) = CHR ''}'' # s"
  "ws_skip (CHR '','' # s) = CHR '','' # s" "ws_skip (CHR '':'' # s) = CHR '':'' # s"
  "peek (c # s) = c" "consume c (c # s) = Some s"
  by (simp_all add: ws_skip_def is_ws_def peek_def consume_def)

text \<open>
  The induction hypothesis of the round trip: in any state of the parser with enough fuel, before
  anything that ends a number, the dumped value is read back and nothing else is consumed.
\<close>

definition reads_back :: "int \<Rightarrow> char \<Rightarrow> wvalue \<Rightarrow> bool" where
  "reads_back indent sep v \<longleftrightarrow>
     (\<forall>n d lvl s. within d (read_back v) \<longrightarrow> stops s \<longrightarrow> 3 * length (dump_internal v indent sep lvl @ s) + 3 \<le> n \<longrightarrow>
        decode_value n d (dump_internal v indent sep lvl @ s) = Good (read_back v) s)"

lemma reads_backD:
  "reads_back indent sep v \<Longrightarrow> within d (read_back v) \<Longrightarrow> stops s \<Longrightarrow>
   3 * length (dump_internal v indent sep lvl @ s) + 3 \<le> n \<Longrightarrow>
   decode_value n d (dump_internal v indent sep lvl @ s) = Good (read_back v) s"
  by (simp add: reads_back_def)

lemma decode_elems_dump:
  assumes sep: "is_ws sep" and rb: "\<forall>v \<in> set (x # xs). dumpable v \<and> reads_back indent sep v \<and> within (d + 1) (read_back v)"
    and n: "3 * length (dump_internal x indent sep (lvl + 1) @ dump_elems False xs indent sep lvl
        @ indentation_part indent sep lvl @ CHR '']'' # s) + 4 \<le> n"
  shows "decode_elems n d (dump_internal x indent sep (lvl + 1) @ dump_elems False xs indent sep lvl
      @ indentation_part indent sep lvl @ CHR '']'' # s) = Good (map read_back (x # xs)) s"
  using rb n
proof (induction xs arbitrary: x n)
  case Nil
  then obtain m where m: "n = Suc m" by (cases n) auto
  have "decode_value m (d + 1) (dump_internal x indent sep (lvl + 1) @ indentation_part indent sep lvl @ CHR '']'' # s)
      = Good (read_back x) (indentation_part indent sep lvl @ CHR '']'' # s)"
    using Nil m sep by (intro reads_backD) (simp_all add: stops_indentation stops_punct)
  then show ?case using m sep
    by (simp add: ws_skip_append ws_only_indentation punct)
next
  case (Cons y ys)
  from Cons.prems obtain m where m: "n = Suc m" by (cases n) auto
  let ?tail = "dump_internal y indent sep (lvl + 1) @ dump_elems False ys indent sep lvl
      @ indentation_part indent sep lvl @ CHR '']'' # s"
  let ?i = "indentation_part indent sep (lvl + 1)"
  have v: "decode_value m (d + 1) (dump_internal x indent sep (lvl + 1) @ CHR '','' # ?i @ ?tail)
      = Good (read_back x) (CHR '','' # ?i @ ?tail)"
    using Cons.prems m by (intro reads_backD) (simp_all add: stops_punct)
  have t: "ws_skip (?i @ ?tail) = ?tail"
    using Cons.prems(1) sep starts_value_dump [of y indent sep "lvl + 1"]
    by (simp add: ws_skip_append ws_only_indentation starts_valueD)
  have "decode_elems m d ?tail = Good (map read_back (y # ys)) s"
    using Cons.prems m by (intro Cons.IH) simp_all
  with m v t show ?case
    by (simp add: punct)
qed

lemma decode_members_dump:
  assumes sep: "is_ws sep"
    and rb: "\<forall>kv \<in> set (x # xs). dumpable (snd kv) \<and> reads_back indent sep (snd kv) \<and> within (d + 1) (read_back (snd kv))"
    and n: "3 * length (dump_members True (x # xs) indent sep lvl @ indentation_part indent sep lvl @ CHR ''}'' # s) + 4 \<le> n"
  shows "decode_members n d (dump_members True (x # xs) indent sep lvl @ indentation_part indent sep lvl @ CHR ''}'' # s)
    = Good (map (\<lambda>kv. (fst kv, read_back (snd kv))) (x # xs)) s"
  using rb n
proof (induction xs arbitrary: x n)
  case Nil
  then obtain m where m: "n = Suc m" by (cases n) auto
  let ?sp = "if 0 \<le> indent then '' '' else []" and ?stop = "indentation_part indent sep lvl @ CHR ''}'' # s"
  let ?v = "dump_internal (snd x) indent sep (lvl + 1)"
  have v: "decode_value m (d + 1) (?v @ ?stop) = Good (read_back (snd x)) ?stop"
    using Nil m sep by (intro reads_backD) (simp_all add: stops_indentation stops_punct)
  have w: "ws_skip (?sp @ ?v @ ?stop) = ?v @ ?stop"
    using Nil.prems(1) starts_valueD [OF starts_value_dump, of "snd x" indent sep "lvl + 1" ?stop]
    by (simp add: ws_skip_append ws_only_def is_ws_def)
  show ?case using m sep v w
    by (simp add: decode_dump_string ws_skip_append ws_only_indentation string_text_escape punct)
next
  case (Cons y ys)
  from Cons.prems obtain m where m: "n = Suc m" by (cases n) auto
  let ?sp = "if 0 \<le> indent then '' '' else []"
  let ?tail = "dump_members True (y # ys) indent sep lvl @ indentation_part indent sep lvl @ CHR ''}'' # s"
  let ?i = "indentation_part indent sep (lvl + 1)" and ?v = "dump_internal (snd x) indent sep (lvl + 1)"
  have v: "decode_value m (d + 1) (?v @ CHR '','' # ?i @ ?tail) = Good (read_back (snd x)) (CHR '','' # ?i @ ?tail)"
    using Cons.prems m by (intro reads_backD) (simp_all add: stops_punct)
  have w: "ws_skip (?sp @ ?v @ CHR '','' # ?i @ ?tail) = ?v @ CHR '','' # ?i @ ?tail"
    using Cons.prems(1) starts_valueD [OF starts_value_dump, of "snd x" indent sep "lvl + 1" "CHR '','' # ?i @ ?tail"]
    by (auto simp: ws_skip_append ws_only_def is_ws_def)
  have t: "ws_skip (?i @ ?tail) = ?tail"
    using sep by (simp add: ws_skip_append ws_only_indentation dump_string_def) (simp add: ws_skip_def is_ws_def)
  have "decode_members m d ?tail = Good (map (\<lambda>kv. (fst kv, read_back (snd kv))) (y # ys)) s"
    using Cons.prems m by (intro Cons.IH) simp_all
  with m v w t show ?case
    by (simp add: decode_dump_string string_text_escape punct)
qed

text \<open>Within the recursion limit, the elements of a container are within it one level further.\<close>

lemma within_elems:
  assumes "within d (R_List vs)" "v \<in> set vs"
  shows "within (d + 2) v"
proof -
  have "nesting v \<le> foldr max (map nesting vs) 0"
    using foldr_max_le [of "map nesting vs" "foldr max (map nesting vs) 0"] assms(2) by auto
  then show ?thesis using assms(1) by (auto simp: within_def)
qed

lemma within_members:
  assumes "within d (R_Object kvs)" "kv \<in> set kvs"
  shows "within (d + 2) (snd kv)"
proof -
  let ?ns = "map (\<lambda>kv. nesting (snd kv)) kvs"
  have "nesting (snd kv) \<le> foldr max ?ns 0"
    using foldr_max_le [of ?ns "foldr max ?ns 0"] assms(2) by auto
  then show ?thesis using assms(1) by (auto simp: within_def)
qed

lemma within_depth: "within d (R_List vs) \<Longrightarrow> d + 1 \<le> max_depth" "within d (R_Object kvs) \<Longrightarrow> d + 1 \<le> max_depth"
  by (auto simp: within_def)

lemma reads_back_list:
  assumes sep: "is_ws sep" and IH: "\<And>x. x \<in> set l \<Longrightarrow> dumpable x \<and> reads_back indent sep x"
  shows "reads_back indent sep (W_List l)"
  unfolding reads_back_def
proof (intro allI impI)
  fix n d lvl s
  assume w: "within d (read_back (W_List l))" and n: "3 * length (dump_internal (W_List l) indent sep lvl @ s) + 3 \<le> n"
  let ?i = "indentation_part indent sep (lvl + 1)"
  obtain m where m: "n = Suc (Suc m)" using n by (cases n; cases "n - 1") auto
  have depth: "d + 1 \<le> max_depth" using w by (auto dest: within_depth)
  show "decode_value n d (dump_internal (W_List l) indent sep lvl @ s) = Good (read_back (W_List l)) s"
  proof (cases l)
    case Nil
    then show ?thesis using m depth sep by (simp add: punct ws_skip_append ws_only_indentation)
  next
    case (Cons x xs)
    let ?t = "dump_internal x indent sep (lvl + 1) @ dump_elems False xs indent sep lvl
        @ indentation_part indent sep lvl @ CHR '']'' # s"
    have "\<forall>v \<in> set (x # xs). dumpable v \<and> reads_back indent sep v \<and> within (d + 1 + 1) (read_back v)"
      using IH w Cons within_elems [of d "map read_back l"] by simp
    then have e: "decode_elems m (Suc d) ?t = Good (map read_back (x # xs)) s"
      using decode_elems_dump [OF sep, of x xs indent "d + 1" lvl s m] n m Cons by simp
    have "starts_value ?t" using IH Cons by (intro starts_value_dump) simp
    then have t: "ws_skip (?i @ ?t) = ?t \<and> peek ?t \<noteq> CHR '']''"
      using sep by (simp add: ws_skip_append ws_only_indentation starts_valueD)
    show ?thesis using e t m depth Cons by (simp add: punct)
  qed
qed

lemma reads_back_object:
  assumes sep: "is_ws sep" and IH: "\<And>kv. kv \<in> set kvs \<Longrightarrow> dumpable (snd kv) \<and> reads_back indent sep (snd kv)"
  shows "reads_back indent sep (W_Object kvs)"
  unfolding reads_back_def
proof (intro allI impI)
  fix n d lvl s
  assume w: "within d (read_back (W_Object kvs))" and n: "3 * length (dump_internal (W_Object kvs) indent sep lvl @ s) + 3 \<le> n"
  let ?i = "indentation_part indent sep (lvl + 1)"
  obtain m where m: "n = Suc (Suc m)" using n by (cases n; cases "n - 1") auto
  have depth: "d + 1 \<le> max_depth" using w by (auto dest: within_depth)
  show "decode_value n d (dump_internal (W_Object kvs) indent sep lvl @ s) = Good (read_back (W_Object kvs)) s"
  proof (cases kvs)
    case Nil
    then show ?thesis using m depth sep by (simp add: punct ws_skip_append ws_only_indentation)
  next
    case (Cons x xs)
    let ?t = "dump_members True (x # xs) indent sep lvl @ indentation_part indent sep lvl @ CHR ''}'' # s"
    have "within (d + 2) (read_back (snd kv))" if "kv \<in> set kvs" for kv
      using within_members [of d "map (\<lambda>kv. (fst kv, read_back (snd kv))) kvs" "(fst kv, read_back (snd kv))"] w that
      by simp
    then have "\<forall>kv \<in> set (x # xs). dumpable (snd kv) \<and> reads_back indent sep (snd kv) \<and> within (d + 1 + 1) (read_back (snd kv))"
      unfolding Cons [symmetric] using IH by simp
    then have e: "decode_members m (Suc d) ?t = Good (map (\<lambda>kv. (fst kv, read_back (snd kv))) (x # xs)) s"
      using decode_members_dump [OF sep, of x xs indent "d + 1" lvl s m] n m Cons by simp
    have "starts_value ?t" by (simp add: starts_value_def dump_string_def is_ws_def)
    then have t: "ws_skip (?i @ ?t) = ?t \<and> peek ?t \<noteq> CHR ''}''"
      using sep by (simp add: ws_skip_append ws_only_indentation starts_valueD)
    show ?thesis using e t m depth Cons by (simp add: punct)
  qed
qed

lemma reads_back_leaf:
  assumes "\<And>n d lvl s. stops s \<Longrightarrow> decode_value (Suc n) d (dump_internal v indent sep lvl @ s) = Good (read_back v) s"
  shows "reads_back indent sep v"
  unfolding reads_back_def
proof (intro allI impI)
  fix n d lvl s
  assume "stops s" "3 * length (dump_internal v indent sep lvl @ s) + 3 \<le> n"
  then show "decode_value n d (dump_internal v indent sep lvl @ s) = Good (read_back v) s"
    using assms by (cases n) simp_all
qed

lemma decode_value_dump_string:
  "decode_value (Suc n) d (dump_string str @ s) = Good (R_String (escape str) (needs_escape str)) s"
proof -
  have "peek (dump_string str @ s) = CHR 0x22" by (simp add: dump_string_def punct)
  then show ?thesis by (simp add: decode_dump_string)
qed

lemma reads_back_all: "is_ws sep \<Longrightarrow> dumpable v \<Longrightarrow> reads_back indent sep v"
proof (induction v)
  case (W_List l)
  then show ?case by (intro reads_back_list) auto
next
  case (W_Object kvs)
  have "dumpable (snd kv) \<and> reads_back indent sep (snd kv)" if "kv \<in> set kvs" for kv
    using W_Object that by (cases kv) (auto simp: snds.simps)
  then show ?case using W_Object.prems(1) by (intro reads_back_object)
qed (auto intro!: reads_back_leaf simp: punct decode_value_number decode_value_dump_string simp del: decode_value.simps(2)
  simp: decode_value.simps(2) [of _ _ "CHR ''n'' # _"] decode_value.simps(2) [of _ _ "CHR ''t'' # _"] decode_value.simps(2) [of _ _ "CHR ''f'' # _"])

lemma load_dump:
  assumes "is_ws sep" "dumpable v" "nesting (read_back v) \<le> 5000"
  shows "load (dump v indent sep) = Some (read_back v)"
proof -
  let ?s = "dump v indent sep"
  have ws: "ws_skip ?s = ?s"
    using starts_valueD [OF starts_value_dump [OF assms(2)], of indent sep 0 "[]"] by (simp add: dump_def)
  have "within 0 (read_back v)" using assms(3) by (simp add: within_def max_depth_def)
  then have "decode_value (decode_fuel ?s) 0 ?s = Good (read_back v) []"
    using reads_backD [OF reads_back_all [OF assms(1,2)], of 0 "[]" indent 0 "decode_fuel ?s"]
    by (simp add: dump_def decode_fuel_def stops_punct)
  with ws show ?thesis by (simp add: load_def parse_def ws_skip_def peek_def NUL_def)
qed

section \<open>Numbers read back\<close>

lemma num_get_to_string: "num_get (to_string k) = (k < 0, to_dec (nat \<bar>k\<bar>))"
proof (cases "k < 0")
  case True
  have "takeWhile is_digit (to_dec (nat (- k))) = to_dec (nat (- k))"
    using to_dec_digits by (simp add: takeWhile_eq_all_conv)
  with True show ?thesis by (simp add: num_get_def to_string_def)
next
  case False
  obtain c t where c: "to_dec (nat k) = c # t" by (cases "to_dec (nat k)") auto
  have d: "\<forall>x \<in> set (to_dec (nat k)). is_digit x" by (rule to_dec_digits)
  have "is_digit c" using d c by simp
  then have "c \<noteq> CHR ''-''" "c \<noteq> CHR ''+''" by (auto simp: is_digit_def code_def)
  moreover have "takeWhile is_digit (to_dec (nat k)) = to_dec (nat k)" using d by (simp add: takeWhile_eq_all_conv)
  ultimately show ?thesis using False c by (simp add: num_get_def to_string_def)
qed

lemma skip_space_to_string: "dropWhile is_space (to_string k) = to_string k" "to_string k \<noteq> []"
proof -
  obtain c t where c: "to_string k = c # t" "is_digit c \<or> c = CHR ''-''" using hd_to_string by blast
  then have "\<not> is_space c" by (auto simp: is_space_def is_digit_def code_def)
  with c show "dropWhile is_space (to_string k) = to_string k" "to_string k \<noteq> []" by simp_all
qed

lemma lexical_cast_to_string_u64: "lexical_cast_u64 (to_string (uint w)) = Inr w"
proof -
  have "unat w < 2 ^ 64" using unsigned_less [where ?'a = nat, of w] by simp
  then show ?thesis
    by (simp add: lexical_cast_u64_def skip_space_to_string num_get_to_string digits_value_to_dec not_less [symmetric])
qed

lemma lexical_cast_to_string_i64:
  "lexical_cast_i64 (to_string (sint (w :: 64 word))) = Inr (sint w)"
proof -
  have "- (2 ^ 63) \<le> sint w" "sint w < 2 ^ 63" using sint_ge [of w] sint_lt [of w] by simp_all
  then show ?thesis
    by (simp add: lexical_cast_i64_def skip_space_to_string num_get_to_string digits_value_to_dec Let_def)
qed

section \<open>Trailing zeros\<close>

definition drop_zeros :: "string \<Rightarrow> string" where
  "drop_zeros s = rev (dropWhile (\<lambda>c. c = CHR ''0'') (rev s))"

lemma drop_zeros_Cons:
  "drop_zeros (c # s) = (if drop_zeros s = [] then (if c = CHR ''0'' then [] else [c]) else c # drop_zeros s)"
  by (auto simp: drop_zeros_def dropWhile_append)

lemma drop_zeros_Nil [simp]: "drop_zeros [] = []"
  by (simp add: drop_zeros_def)

lemma drop_zeros_take: "take (length (drop_zeros s)) s = drop_zeros s"
  by (induction s) (auto simp: drop_zeros_Cons)

lemma trim_scan_tail:
  "trim_scan F_decp p None s = (if drop_zeros s = s then None else Some (p + length (drop_zeros s)))"
  "trim_scan F_zero p (Some q) s =
     (if drop_zeros s = [] then Some q else if drop_zeros s = s then None else Some (p + length (drop_zeros s)))"
proof (induction s arbitrary: p q)
  case (Cons c s)
  { case 1 show ?case using Cons by (auto simp: drop_zeros_Cons) }
  { case 2 show ?case using Cons by (auto simp: drop_zeros_Cons) }
qed simp_all

lemma trim_scan_start:
  "CHR ''.'' \<notin> set a \<Longrightarrow> trim_scan F_start p None (a @ s) = trim_scan F_start (p + length a) None s"
  by (induction a arbitrary: p) auto

lemma trim_float_point:
  assumes "CHR ''.'' \<notin> set a" "c \<noteq> NUL"
  shows "trim_float (a @ CHR ''.'' # c # f) = a @ CHR ''.'' # c # drop_zeros f"
proof -
  let ?n = "length a"
  have "trim_scan F_start 0 None (a @ CHR ''.'' # c # f) =
      (if drop_zeros f = f then None else Some (?n + 2 + length (drop_zeros f)))"
    using assms by (simp add: trim_scan_start trim_scan_tail(1))
  then show ?thesis by (simp add: trim_float_def drop_zeros_take)
qed

end
