(* ===== verification/Engine_Server.thy ===== *)
theory Engine_Server
  imports Book_Properties Json_Write
begin

text \<open>
  The WebSocket message handler of \<open>reference_engine_cpp/engine.cpp\<close>: the packed binary protocol, the
  JSON protocol, and the critical section around the shared book.  A handler run is split where other
  handlers can interleave: the acknowledgement, the book operation under \<open>BOOK_MTX\<close>, and the fill
  messages.  \<open>ts\<close> is the value of \<open>now_ns()\<close>.  A binary frame shorter than the packed struct makes
  the handler read past the end of its buffer, which is the fault \<open>Out_Of_Bounds_Read\<close>.
\<close>

section \<open>Messages\<close>

datatype message = Binary "u8 list" | Text string

datatype outgoing = Send_Binary "u8 list" | Send_Text string

datatype fault = Out_Of_Bounds_Read | Json_Fault access_error | Book_Fault undefined_behaviour

record frame =
  f_type :: u8
  f_side :: u8
  f_id :: u64
  f_px :: u32
  f_qty :: u32
  f_target :: u64

definition decode_frame :: "u8 list \<Rightarrow> frame option" where
  "decode_frame p =
     (if length p < 26 then None
      else Some \<lparr>f_type = p ! 0, f_side = p ! 1, f_id = le_word (take 8 (drop 2 p)),
                 f_px = le_word (take 4 (drop 10 p)), f_qty = le_word (take 4 (drop 14 p)),
                 f_target = le_word (take 8 (drop 18 p))\<rparr>)"

definition frame_command :: "frame \<Rightarrow> command" where
  "frame_command f =
     (if f_type f = 1 then Limit (f_id f) (f_side f = 0) (sint (f_px f)) (sint (f_qty f))
      else if f_type f = 2 then Market (f_id f) (f_side f = 0) (sint (f_qty f))
      else Cancel (f_target f))"

definition ack_bytes :: "u64 \<Rightarrow> int \<Rightarrow> u8 list" where
  "ack_bytes oid ts = 1 # le_bytes 8 oid @ le_bytes 8 (word_of_int ts :: u64)"

definition fill_bytes :: "u64 \<Rightarrow> fill \<Rightarrow> u8 list" where
  "fill_bytes oid f =
     2 # le_bytes 8 oid @ le_bytes 4 (word_of_int (fill_px f) :: u32) @ le_bytes 4 (word_of_int (fill_qty f) :: u32)
       @ le_bytes 8 (fill_maker f)"

definition quoted :: "string \<Rightarrow> string" where
  "quoted s = CHR 0x22 # s @ [CHR 0x22]"

definition ack_text :: "u64 \<Rightarrow> int \<Rightarrow> string" where
  "ack_text oid ts = ''{'' @ quoted ''ack'' @ '':'' @ to_string (uint oid) @ '','' @ quoted ''ts'' @ '':'' @ to_string ts @ ''}''"

definition fill_text :: "u64 \<Rightarrow> fill \<Rightarrow> string" where
  "fill_text oid f =
     ''{'' @ quoted ''fill'' @ '':'' @ to_string (uint oid) @ '','' @ quoted ''px'' @ '':'' @ to_string (fill_px f)
       @ '','' @ quoted ''qty'' @ '':'' @ to_string (fill_qty f)
       @ '','' @ quoted ''maker'' @ '':'' @ to_string (uint (fill_maker f)) @ ''}''"

section \<open>The JSON protocol\<close>

text \<open>
  The command of a JSON message.  The order in which C++ evaluates the arguments \<open>px\<close> and \<open>qty\<close> is
  unspecified; it only decides which of two faults is reported, here the one of \<open>px\<close>.
\<close>

definition json_command :: "rvalue \<Rightarrow> u64 \<Rightarrow> access_error + command" where
  "json_command m oid =
     and_then (and_then (r_member m ''t'') r_s) (\<lambda>ty.
       if ty = ''limit'' then
         and_then (and_then (r_member m ''side'') r_s) (\<lambda>side.
           and_then (and_then (r_member m ''px'') r_i) (\<lambda>px.
             and_then (and_then (r_member m ''qty'') r_i) (\<lambda>qty.
               Inr (Limit oid (side = ''buy'') px qty))))
       else if ty = ''market'' then
         and_then (and_then (r_member m ''side'') r_s) (\<lambda>side.
           and_then (and_then (r_member m ''qty'') r_i) (\<lambda>qty. Inr (Market oid (side = ''buy'') qty)))
       else if ty = ''cancel'' then
         and_then (and_then (r_member m ''target'') r_u) (\<lambda>target. Inr (Cancel target))
       else Inr Ignore)"

section \<open>The handler\<close>

text \<open>
  What a handler knows before it enters the critical section: nothing to do, a fault, or the
  identifier and the command to execute; with the messages it has sent by then.
\<close>

datatype reception = Return | Fault fault | Proceed u64 command

definition receive :: "int \<Rightarrow> message \<Rightarrow> outgoing list \<times> reception" where
  "receive ts msg =
     (case msg of
        Binary p \<Rightarrow>
          (case decode_frame p of
             None \<Rightarrow> ([], Fault Out_Of_Bounds_Read)
           | Some f \<Rightarrow> ([Send_Binary (ack_bytes (f_id f) ts)], Proceed (f_id f) (frame_command f)))
      | Text data \<Rightarrow>
          (case load data of
             None \<Rightarrow> ([], Return)
           | Some m \<Rightarrow>
               (case and_then (r_member m ''id'') r_u of
                  Inl e \<Rightarrow> ([], Fault (Json_Fault e))
                | Inr oid \<Rightarrow>
                    ([Send_Text (ack_text oid ts)],
                     (case json_command m oid of Inl e \<Rightarrow> Fault (Json_Fault e) | Inr c \<Rightarrow> Proceed oid c)))))"

definition report :: "message \<Rightarrow> u64 \<Rightarrow> fill list \<Rightarrow> outgoing list" where
  "report msg oid fs =
     (case msg of
        Binary p \<Rightarrow> map (\<lambda>f. Send_Binary (fill_bytes oid f)) fs
      | Text data \<Rightarrow> map (\<lambda>f. Send_Text (fill_text oid f)) fs)"

text \<open>The whole handler, run without interruption.\<close>

definition on_message :: "int \<Rightarrow> message \<Rightarrow> order_book \<Rightarrow> outgoing list \<times> fault option \<times> order_book" where
  "on_message ts msg b =
     (case receive ts msg of
        (sent, Return) \<Rightarrow> (sent, None, b)
      | (sent, Fault e) \<Rightarrow> (sent, Some e, b)
      | (sent, Proceed oid c) \<Rightarrow>
          (case exec_command c b of
             Inl e \<Rightarrow> (sent, Some (Book_Fault e), b)
           | Inr (fs, b') \<Rightarrow> (sent @ report msg oid fs, None, b')))"

section \<open>Concurrent handlers\<close>

text \<open>
  \<open>multithreaded()\<close> runs handlers on several threads; the only shared state is the book, guarded by
  \<open>BOOK_MTX\<close>.  A configuration has the book, and for every message received so far its phase and
  what its handler has sent.  \<open>admitted\<close> records the commands in the order they took the lock.
\<close>

datatype phase = Waiting u64 command | Matched u64 "fill list" | Finished

record job =
  job_msg :: message
  job_phase :: phase
  job_out :: "outgoing list"

record server =
  srv_book :: order_book
  srv_jobs :: "job list"
  admitted :: "(nat \<times> command) list"

definition start_phase :: "reception \<Rightarrow> phase" where
  "start_phase r = (case r of Proceed oid c \<Rightarrow> Waiting oid c | _ \<Rightarrow> Finished)"

definition initial_server :: server where
  "initial_server = \<lparr>srv_book = empty_book, srv_jobs = [], admitted = []\<rparr>"

inductive server_step :: "server \<Rightarrow> server \<Rightarrow> bool" where
  arrive: "receive ts msg = (sent, r) \<Longrightarrow>
    server_step s (s\<lparr>srv_jobs := srv_jobs s @ [\<lparr>job_msg = msg, job_phase = start_phase r, job_out = sent\<rparr>]\<rparr>)"
| enter: "k < length (srv_jobs s) \<Longrightarrow> job_phase (srv_jobs s ! k) = Waiting oid c \<Longrightarrow>
    exec_command c (srv_book s) = Inr (fs, b') \<Longrightarrow>
    server_step s (s\<lparr>srv_book := b', srv_jobs := (srv_jobs s)[k := (srv_jobs s ! k)\<lparr>job_phase := Matched oid fs\<rparr>],
      admitted := admitted s @ [(k, c)]\<rparr>)"
| answer: "k < length (srv_jobs s) \<Longrightarrow> job_phase (srv_jobs s ! k) = Matched oid fs \<Longrightarrow>
    server_step s (s\<lparr>srv_jobs := (srv_jobs s)[k := (srv_jobs s ! k)\<lparr>job_phase := Finished,
      job_out := job_out (srv_jobs s ! k) @ report (job_msg (srv_jobs s ! k)) oid fs\<rparr>]\<rparr>)"

inductive reachable :: "server \<Rightarrow> bool" where
  init: "reachable initial_server"
| step: "reachable s \<Longrightarrow> server_step s s' \<Longrightarrow> reachable s'"

end
