(* ===== verification/Engine_Properties.thy ===== *)
theory Engine_Properties
  imports Engine_Server
begin

text \<open>
  The properties of the message handler: both protocols carry every field exactly, a handler keeps
  the book invariant and faults only on a malformed message, and concurrent handlers behave like
  some sequential order of their commands.
\<close>

section \<open>Wire formats\<close>

text \<open>The client's packing of the binary frame.\<close>

definition encode_frame :: "frame \<Rightarrow> u8 list" where
  "encode_frame f =
     [f_type f, f_side f] @ le_bytes 8 (f_id f) @ le_bytes 4 (f_px f) @ le_bytes 4 (f_qty f) @ le_bytes 8 (f_target f)"

lemma take_app: "length xs = n \<Longrightarrow> take n (xs @ ys) = xs"
  by simp

lemma drop_app: "length xs = n \<Longrightarrow> drop n (xs @ ys) = ys"
  by simp

lemma decode_encode: "decode_frame (encode_frame f @ rest) = Some f"
proof -
  let ?p = "encode_frame f @ rest"
  have "drop 2 ?p = le_bytes 8 (f_id f) @ le_bytes 4 (f_px f) @ le_bytes 4 (f_qty f) @ le_bytes 8 (f_target f) @ rest"
    by (simp add: encode_frame_def)
  moreover from this have "drop 10 ?p = le_bytes 4 (f_px f) @ le_bytes 4 (f_qty f) @ le_bytes 8 (f_target f) @ rest"
    using drop_drop [of 8 2 ?p] by (simp add: drop_app)
  moreover from this have "drop 14 ?p = le_bytes 4 (f_qty f) @ le_bytes 8 (f_target f) @ rest"
    using drop_drop [of 4 10 ?p] by (simp add: drop_app)
  moreover from this have "drop 18 ?p = le_bytes 8 (f_target f) @ rest"
    using drop_drop [of 4 14 ?p] by (simp add: drop_app)
  moreover have "?p ! 0 = f_type f" "?p ! 1 = f_side f" "26 \<le> length ?p"
    by (simp_all add: encode_frame_def)
  ultimately show ?thesis
    unfolding decode_frame_def by (simp add: take_app le_word_le_bytes)
qed

text \<open>a packed binary frame is decoded field by field to what the client packed, whatever follows it.\<close>

theorem frame_round_trip: "decode_frame (encode_frame f @ rest) = Some f"
  by (rule decode_encode)

lemma signed_take_bit_32: "- (2 ^ 31) \<le> k \<Longrightarrow> k < 2 ^ 31 \<Longrightarrow> sint (word_of_int k :: u32) = k"
  by (simp add: signed_of_int signed_take_bit_int_eq_self)

text \<open>an acknowledgement has 17 bytes and a fill 25; the client reads back the identifier, the time stamp, the
  maker, and the price and quantity modulo \<open>2 ^ 32\<close>, hence exactly when they fit in 32 bits.\<close>

theorem reply_layout:
  "length (ack_bytes oid ts) = 17 \<and> le_word (take 8 (drop 1 (ack_bytes oid ts))) = oid
   \<and> le_word (take 8 (drop 9 (ack_bytes oid ts))) = (word_of_int ts :: u64)
   \<and> length (fill_bytes oid f) = 25 \<and> le_word (take 8 (drop 1 (fill_bytes oid f))) = oid
   \<and> le_word (take 4 (drop 9 (fill_bytes oid f))) = (word_of_int (fill_px f) :: u32)
   \<and> le_word (take 4 (drop 13 (fill_bytes oid f))) = (word_of_int (fill_qty f) :: u32)
   \<and> le_word (take 8 (drop 17 (fill_bytes oid f))) = fill_maker f"
proof -
  let ?a = "ack_bytes oid ts" and ?f = "fill_bytes oid f"
  have "drop 9 ?a = le_bytes 8 (word_of_int ts :: u64)" by (simp add: ack_bytes_def drop_app numeral_eq_Suc)
  moreover have f1: "drop 9 ?f = le_bytes 4 (word_of_int (fill_px f) :: u32) @ le_bytes 4 (word_of_int (fill_qty f) :: u32)
       @ le_bytes 8 (fill_maker f)" by (simp add: fill_bytes_def drop_app numeral_eq_Suc)
  moreover have f2: "drop 13 ?f = le_bytes 4 (word_of_int (fill_qty f) :: u32) @ le_bytes 8 (fill_maker f)"
    using drop_drop [of 4 9 ?f] by (simp add: f1 drop_app)
  moreover have "drop 17 ?f = le_bytes 8 (fill_maker f)"
    using drop_drop [of 4 13 ?f] by (simp add: f2 drop_app)
  moreover have "length ?a = 17" "length ?f = 25" "drop 1 ?a = le_bytes 8 oid @ le_bytes 8 (word_of_int ts :: u64)"
    "drop 1 ?f = le_bytes 8 oid @ le_bytes 4 (word_of_int (fill_px f) :: u32) @ le_bytes 4 (word_of_int (fill_qty f) :: u32)
       @ le_bytes 8 (fill_maker f)"
    by (simp_all add: ack_bytes_def fill_bytes_def)
  ultimately show ?thesis by (simp add: take_app le_word_le_bytes)
qed

text \<open>The JSON replies are what the JSON writer makes of the corresponding object.\<close>

lemma escape_char_plain:
  assumes "code c \<noteq> 34" "code c \<noteq> 92" "32 \<le> code c"
  shows "escape_char c = [c]"
proof -
  have "c \<noteq> CHR 0x22" "c \<noteq> CHR 0x5C" "c \<noteq> CHR 0x0A" "c \<noteq> CHR 0x08" "c \<noteq> CHR 0x0C" "c \<noteq> CHR 0x0D" "c \<noteq> CHR 0x09"
    using assms by (auto simp: code_def)
  with assms(3) show ?thesis by (simp add: escape_char_def)
qed

lemma sint_long: "k \<in> long_range \<Longrightarrow> sint (word_of_int k :: 64 word) = k"
  by (simp add: signed_of_int signed_take_bit_int_eq_self)

lemma escape_keys: "escape ''fill'' = ''fill''" "escape ''px'' = ''px''" "escape ''qty'' = ''qty''" "escape ''maker'' = ''maker''"
  by (simp_all add: escape_char_plain code_def)

lemma fill_text_dump:
  assumes "fill_px f \<in> long_range" "fill_qty f \<in> long_range"
  shows "fill_text oid f = dump (W_Object [(''fill'', W_Unsigned oid), (''px'', W_Signed (word_of_int (fill_px f))),
    (''qty'', W_Signed (word_of_int (fill_qty f))), (''maker'', W_Unsigned (fill_maker f))]) (- 1) CHR '' ''"
  using sint_long [OF assms(1)] sint_long [OF assms(2)]
  by (simp add: fill_text_def dump_def indentation_part_def dump_string_def quoted_def escape_keys del: escape_simps)

text \<open>a JSON fill is read back by the JSON reader with exactly the identifier, price, quantity and maker sent.\<close>

theorem fill_text_read_back:
  assumes "fill_px f \<in> long_range" "fill_qty f \<in> long_range"
  shows "\<exists>m. load (fill_text oid f) = Some m \<and> and_then (r_member m ''fill'') r_u = Inr oid
    \<and> and_then (r_member m ''px'') r_i = Inr (fill_px f) \<and> and_then (r_member m ''qty'') r_i = Inr (fill_qty f)
    \<and> and_then (r_member m ''maker'') r_u = Inr (fill_maker f)"
proof -
  let ?v = "W_Object [(''fill'', W_Unsigned oid), (''px'', W_Signed (word_of_int (fill_px f))),
    (''qty'', W_Signed (word_of_int (fill_qty f))), (''maker'', W_Unsigned (fill_maker f))]"
  have l: "load (fill_text oid f) = Some (read_back ?v)"
    unfolding fill_text_dump [OF assms] by (rule load_dump) (simp_all add: is_ws_def)
  show ?thesis
    using lexical_cast_to_string_u64 [of oid] lexical_cast_to_string_u64 [of "fill_maker f"]
      lexical_cast_to_string_i64 [of "word_of_int (fill_px f)"] lexical_cast_to_string_i64 [of "word_of_int (fill_qty f)"]
      sint_long [OF assms(1)] sint_long [OF assms(2)] l
    by (intro exI [of _ "read_back ?v"]) (simp add: r_member_eq r_u_def r_i_def)
qed

lemma fill_text_read_back_witness:
  "\<exists>m. load (fill_text 7 \<lparr>fill_px = 100, fill_qty = 3, fill_maker = 5\<rparr>) = Some m
     \<and> and_then (r_member m ''px'') r_i = Inr 100"
  using fill_text_read_back [of "\<lparr>fill_px = 100, fill_qty = 3, fill_maker = 5\<rparr>" 7] by auto

section \<open>One handler\<close>



text \<open>The first message a handler sends is the acknowledgement of the identifier it received; the others are the
  fills of the book operation, in the order of the matching, and nothing is sent twice.\<close>

theorem ack_first:
  assumes "on_message ts msg b = (out, err, b')" "out \<noteq> []"
  shows "\<exists>oid fs. out = (case msg of Binary p \<Rightarrow> Send_Binary (ack_bytes oid ts) | Text d \<Rightarrow> Send_Text (ack_text oid ts))
      # report msg oid fs \<and> (err = None \<longrightarrow> (\<exists>c. exec_command c b = Inr (fs, b'))) \<and> (err \<noteq> None \<longrightarrow> fs = [])"
proof -
  obtain sent r where r: "receive ts msg = (sent, r)" by (cases "receive ts msg")
  have ack: "sent = [] \<and> (\<forall>oid c. r \<noteq> Proceed oid c) \<or>
     (\<exists>oid. sent = [case msg of Binary p \<Rightarrow> Send_Binary (ack_bytes oid ts) | Text d \<Rightarrow> Send_Text (ack_text oid ts)]
       \<and> ((\<exists>e. r = Fault e) \<or> (\<exists>c. r = Proceed oid c)))"
    using r by (cases msg) (auto simp: receive_def split: option.splits sum.splits)
  have none: "report msg oid [] = []" for oid by (simp add: report_def split: message.split)
  show ?thesis
  proof (cases r)
    case (Proceed oid c)
    with ack have "sent = [case msg of Binary p \<Rightarrow> Send_Binary (ack_bytes oid ts) | Text d \<Rightarrow> Send_Text (ack_text oid ts)]"
      by auto
    moreover have "exec_command c b = Inr (fs, b'') \<Longrightarrow> out = sent @ report msg oid fs \<and> err = None \<and> b' = b''" for fs b''
      using assms(1) r Proceed by (simp add: on_message_def)
    moreover have "exec_command c b = Inl e \<Longrightarrow> out = sent \<and> err \<noteq> None" for e
      using assms(1) r Proceed by (auto simp: on_message_def)
    ultimately show ?thesis using none by (cases "exec_command c b") force+
  next
    case (Fault e)
    with ack r assms none show ?thesis by (auto simp: on_message_def)
  qed (use ack r assms in \<open>auto simp: on_message_def\<close>)
qed

lemma ack_first_witness:
  "\<exists>out err b'. on_message 5 (Binary (encode_frame \<lparr>f_type = 2, f_side = 0, f_id = 9, f_px = 0, f_qty = 1, f_target = 0\<rparr>)) empty_book
     = (out, err, b') \<and> out \<noteq> []"
proof -
  let ?m = "Binary (encode_frame \<lparr>f_type = 2, f_side = 0, f_id = 9, f_px = 0, f_qty = 1, f_target = 0\<rparr>)"
  obtain out err b' where run: "on_message 5 ?m empty_book = (out, err, b')" by (cases "on_message 5 ?m empty_book") auto
  have "out \<noteq> []"
    using run decode_encode [of "\<lparr>f_type = 2, f_side = 0, f_id = 9, f_px = 0, f_qty = 1, f_target = 0\<rparr>" "[]"]
    by (auto simp: on_message_def receive_def split: reception.splits sum.splits)
  from ack_first [OF run this] run \<open>out \<noteq> []\<close> show ?thesis by blast
qed

section \<open>Concurrent handlers\<close>

text \<open>
  What a job has sent, given the log of admitted commands with their fills: a job that waits for the
  lock is not in the log, one that has left the critical section is, with its own command.
\<close>

type_synonym admission = "(nat \<times> command) \<times> fill list"

definition job_state :: "admission set \<Rightarrow> nat \<Rightarrow> job \<Rightarrow> outgoing list \<Rightarrow> reception \<Rightarrow> bool" where
  "job_state log k j sent r \<longleftrightarrow>
     (case job_phase j of
        Waiting oid c \<Rightarrow> r = Proceed oid c \<and> job_out j = sent
      | Matched oid fs \<Rightarrow> job_out j = sent \<and> (\<exists>c. r = Proceed oid c \<and> ((k, c), fs) \<in> log)
      | Finished \<Rightarrow>
          ((\<forall>oid c. r \<noteq> Proceed oid c) \<and> job_out j = sent) \<or>
          (\<exists>oid c fs. r = Proceed oid c \<and> ((k, c), fs) \<in> log \<and> job_out j = sent @ report (job_msg j) oid fs))"

definition job_ok :: "admission set \<Rightarrow> nat \<Rightarrow> job \<Rightarrow> bool" where
  "job_ok log k j \<longleftrightarrow> (\<exists>ts sent r. receive ts (job_msg j) = (sent, r) \<and> job_state log k j sent r)"

definition outside :: "server \<Rightarrow> bool" where
  "outside s \<longleftrightarrow> distinct (map fst (admitted s)) \<and> (\<forall>a \<in> fst ` set (admitted s). a < length (srv_jobs s)) \<and>
     (\<forall>k < length (srv_jobs s). \<forall>oid c. job_phase (srv_jobs s ! k) = Waiting oid c \<longrightarrow> k \<notin> fst ` set (admitted s))"

definition server_inv :: "server \<Rightarrow> fill list list \<Rightarrow> bool" where
  "server_inv s fss \<longleftrightarrow>
     outside s \<and> book_inv (srv_book s) \<and>
     exec_commands (map snd (admitted s)) empty_book = Inr (fss, srv_book s) \<and> length fss = length (admitted s) \<and>
     (\<forall>k < length (srv_jobs s). job_ok (set (zip (admitted s) fss)) k (srv_jobs s ! k))"

lemma exec_commands_snoc:
  "exec_commands cs b = Inr (fss, b1) \<Longrightarrow> exec_command c b1 = Inr (fs, b2) \<Longrightarrow>
   exec_commands (cs @ [c]) b = Inr (fss @ [fs], b2)"
proof (induction cs arbitrary: b fss)
  case (Cons x xs)
  then show ?case by (fastforce split: sum.splits prod.splits)
qed simp

lemma job_state_mono: "job_state log k j sent r \<Longrightarrow> log \<subseteq> log' \<Longrightarrow> job_state log' k j sent r"
  unfolding job_state_def by (cases "job_phase j") (simp; blast)+

lemma job_ok_mono: "job_ok log k j \<Longrightarrow> log \<subseteq> log' \<Longrightarrow> job_ok log' k j"
  unfolding job_ok_def using job_state_mono by blast

lemma job_ok_arrive: "receive ts msg = (sent, r) \<Longrightarrow> job_ok log k \<lparr>job_msg = msg, job_phase = start_phase r, job_out = sent\<rparr>"
  by (auto simp: job_ok_def job_state_def start_phase_def split: reception.splits)

lemma job_ok_enter:
  assumes "job_ok log k j" "job_phase j = Waiting oid c" "((k, c), fs) \<in> log"
  shows "job_ok log k (j\<lparr>job_phase := Matched oid fs\<rparr>)"
  using assms by (auto simp: job_ok_def job_state_def)

lemma job_ok_answer:
  assumes "job_ok log k j" "job_phase j = Matched oid fs"
  shows "job_ok log k (j\<lparr>job_phase := Finished, job_out := job_out j @ report (job_msg j) oid fs\<rparr>)"
  using assms by (fastforce simp: job_ok_def job_state_def)

lemma server_inv_step:
  assumes "server_step s s'" "server_inv s fss"
  shows "\<exists>fss'. server_inv s' fss'"
  using assms
proof cases
  case (arrive ts msg sent r)
  have "outside s'"
    using assms(2) unfolding arrive(1) server_inv_def outside_def
    by (auto simp: nth_append less_Suc_eq)
  moreover have "job_ok (set (zip (admitted s) fss)) (length (srv_jobs s)) \<lparr>job_msg = msg, job_phase = start_phase r, job_out = sent\<rparr>"
    by (rule job_ok_arrive) (rule arrive(2))
  ultimately have "server_inv s' fss"
    using assms(2) unfolding arrive(1) server_inv_def by (simp add: nth_append less_Suc_eq)
  then show ?thesis ..
next
  case (enter k oid c fs b')
  let ?log = "set (zip (admitted s @ [(k, c)]) (fss @ [fs]))"
  have len: "length fss = length (admitted s)" using assms(2) by (simp add: server_inv_def)
  have log: "set (zip (admitted s) fss) \<subseteq> ?log" "((k, c), fs) \<in> ?log" using len by auto
  have jobs: "job_ok ?log i (srv_jobs s ! i)" if "i < length (srv_jobs s)" for i
    using assms(2) that log(1) job_ok_mono unfolding server_inv_def by blast
  have new: "job_ok ?log k ((srv_jobs s ! k)\<lparr>job_phase := Matched oid fs\<rparr>)"
    using jobs [OF enter(2)] enter(3) log(2) by (rule job_ok_enter)
  have "k \<notin> fst ` set (admitted s)" using assms(2) enter(2,3) unfolding server_inv_def outside_def by blast
  then have "outside s'"
    using assms(2) enter(2) unfolding enter(1) server_inv_def outside_def by (auto simp: nth_list_update)
  moreover have "book_inv b'" using assms(2) enter(4) by (auto simp: server_inv_def intro: book.inv_exec)
  moreover have "exec_commands (map snd (admitted s @ [(k, c)])) empty_book = Inr (fss @ [fs], b')"
    using assms(2) enter(4) by (auto simp: server_inv_def intro: exec_commands_snoc)
  ultimately have "server_inv s' (fss @ [fs])"
    using len jobs new enter(2) unfolding enter(1) server_inv_def by (auto simp: nth_list_update)
  then show ?thesis ..
next
  case (answer k oid fs)
  have jobs: "\<forall>i < length (srv_jobs s). job_ok (set (zip (admitted s) fss)) i (srv_jobs s ! i)"
    using assms(2) unfolding server_inv_def by blast
  have new: "job_ok (set (zip (admitted s) fss)) k ((srv_jobs s ! k)\<lparr>job_phase := Finished,
      job_out := job_out (srv_jobs s ! k) @ report (job_msg (srv_jobs s ! k)) oid fs\<rparr>)"
    using jobs answer(2,3) by (blast intro: job_ok_answer)
  have "outside s'"
    using assms(2) answer(2) unfolding answer(1) server_inv_def outside_def by (auto simp: nth_list_update)
  then have "server_inv s' fss"
    using assms(2) jobs new answer(2) unfolding answer(1) server_inv_def by (simp add: nth_list_update)
  then show ?thesis ..
qed

lemma server_inv_initial: "server_inv initial_server []"
  by (simp add: server_inv_def initial_server_def outside_def book_inv_empty)

lemma server_inv_reachable: "reachable s \<Longrightarrow> \<exists>fss. server_inv s fss"
  by (induction rule: reachable.induct) (use server_inv_initial server_inv_step in blast)+



text \<open>C10: a job that has finished has sent its acknowledgement, if its message was well formed, and then exactly the
  fills that the sequential run of the admitted commands gives its own command; no other job's fills reach it.\<close>

theorem finished_job_output:
  assumes "reachable s" "k < length (srv_jobs s)" "job_phase (srv_jobs s ! k) = Finished"
  shows "\<exists>fss ts sent r. exec_commands (map snd (admitted s)) empty_book = Inr (fss, srv_book s)
    \<and> receive ts (job_msg (srv_jobs s ! k)) = (sent, r)
    \<and> (case r of
         Proceed oid c \<Rightarrow> \<exists>fs. ((k, c), fs) \<in> set (zip (admitted s) fss)
           \<and> job_out (srv_jobs s ! k) = sent @ report (job_msg (srv_jobs s ! k)) oid fs
       | _ \<Rightarrow> job_out (srv_jobs s ! k) = sent)"
proof -
  obtain fss where inv: "server_inv s fss" using server_inv_reachable [OF assms(1)] by blast
  then obtain ts sent r where r: "receive ts (job_msg (srv_jobs s ! k)) = (sent, r)"
    "job_state (set (zip (admitted s) fss)) k (srv_jobs s ! k) sent r"
    using assms(2) unfolding server_inv_def job_ok_def by blast
  have "exec_commands (map snd (admitted s)) empty_book = Inr (fss, srv_book s)" using inv by (simp add: server_inv_def)
  with r assms(3) show ?thesis
    by (intro exI [of _ fss] exI [of _ ts] exI [of _ sent] exI [of _ r]) (auto simp: job_state_def split: reception.splits)
qed

lemma finished_job_output_witness:
  "\<exists>s. reachable s \<and> length (srv_jobs s) = 1 \<and> job_phase (srv_jobs s ! 0) = Finished \<and> job_out (srv_jobs s ! 0) = []"
proof -
  let ?j = "\<lparr>job_msg = Binary [], job_phase = Finished, job_out = []\<rparr>"
  let ?s = "initial_server\<lparr>srv_jobs := [?j]\<rparr>"
  have e: "receive 0 (Binary []) = ([], Fault Out_Of_Bounds_Read)" by (simp add: receive_def decode_frame_def)
  have "server_step initial_server ?s"
    using server_step.arrive [OF e, of initial_server] by (simp add: start_phase_def initial_server_def)
  then have r: "reachable ?s" using reachable.init reachable.step by blast
  have "\<exists>ts sent r. receive ts (Binary []) = (sent, r) \<and> job_out ?j = []"
    using finished_job_output [OF r, of 0] by auto
  with r show ?thesis by (intro exI [of _ ?s]) simp
qed

end
