(* ===== verification/Base64.thy ===== *)
theory Base64
  imports Chars
begin

text \<open>
  \<open>base64encode\<close>, \<open>base64encode_urlsafe\<close> and \<open>base64decode\<close> of \<open>crow::utility\<close>, and their round trip.
\<close>

unbundle bit_operations_syntax

definition standard_key :: string where
  "standard_key = ''ABCDEFGHIJKLMNOPQRSTUVWXYZabcdefghijklmnopqrstuvwxyz0123456789+/''"

definition urlsafe_key :: string where
  "urlsafe_key = ''ABCDEFGHIJKLMNOPQRSTUVWXYZabcdefghijklmnopqrstuvwxyz0123456789-_''"

text \<open>The four indices of a group of three bytes; \<open>h\<close> is the variable of the same name.\<close>

definition index1 :: "u8 \<Rightarrow> u8" where "index1 a = drop_bit 2 (a AND 0xFC)"
definition h1 :: "u8 \<Rightarrow> u8" where "h1 a = push_bit 4 (a AND 0x03)"
definition index2 :: "u8 \<Rightarrow> u8 \<Rightarrow> u8" where "index2 a b = h1 a OR drop_bit 4 (b AND 0xF0)"
definition h2 :: "u8 \<Rightarrow> u8" where "h2 b = push_bit 2 (b AND 0x0F)"
definition index3 :: "u8 \<Rightarrow> u8 \<Rightarrow> u8" where "index3 b c = h2 b OR drop_bit 6 (c AND 0xC0)"
definition index4 :: "u8 \<Rightarrow> u8" where "index4 c = c AND 0x3F"

fun base64encode :: "string \<Rightarrow> u8 list \<Rightarrow> string" where
  "base64encode key (a # b # c # ds) =
     [key ! unat (index1 a), key ! unat (index2 a b), key ! unat (index3 b c), key ! unat (index4 c)] @ base64encode key ds"
| "base64encode key [a, b] = [key ! unat (index1 a), key ! unat (index2 a b), key ! unat (h2 b), CHR ''='']"
| "base64encode key [a] = [key ! unat (index1 a), key ! unat (h1 a), CHR ''='', CHR ''='']"
| "base64encode key [] = []"

text \<open>The mapping from characters to six bits; other characters count as zero.\<close>

definition key_value :: "char \<Rightarrow> u8" where
  "key_value c =
     of_nat (if 65 \<le> code c \<and> code c \<le> 90 then code c - 65
             else if 97 \<le> code c \<and> code c \<le> 122 then code c - 97 + 26
             else if is_digit c then code c - 48 + 52
             else if c = CHR ''+'' \<or> c = CHR ''-'' then 62
             else if c = CHR ''/'' \<or> c = CHR ''_'' then 63
             else 0)"

text \<open>The size of the result; a \<open>size_t\<close> that goes below zero makes \<open>resize\<close> throw.\<close>

definition decoded_size :: "string \<Rightarrow> nat option" where
  "decoded_size s =
     (let n = length s; q = n div 4 * 3
      in if n mod 4 = 2 then Some (q + 1)
         else if n mod 4 = 3 then Some (q + 2)
         else if 2 \<le> n \<and> s ! (n - 2) = CHR ''='' then (if q < 2 then None else Some (q - 2))
         else if 1 \<le> n \<and> s ! (n - 1) = CHR ''='' then (if q < 1 then None else Some (q - 1))
         else Some q)"

text \<open>The three bytes of a group of four characters, and the loop: \<open>size\<close> is what is left to write.\<close>

definition byte1 :: "u8 \<Rightarrow> u8 \<Rightarrow> u8" where "byte1 k1 k2 = push_bit 2 k1 OR drop_bit 4 (k2 AND 0x30)"
definition byte2 :: "u8 \<Rightarrow> u8 \<Rightarrow> u8" where "byte2 k2 k3 = push_bit 4 (k2 AND 0x0F) OR drop_bit 2 (k3 AND 0x3C)"
definition byte3 :: "u8 \<Rightarrow> u8 \<Rightarrow> u8" where "byte3 k3 k4 = push_bit 6 (k3 AND 0x03) OR k4"

fun decode_groups :: "nat \<Rightarrow> u8 list \<Rightarrow> u8 list" where
  "decode_groups (Suc (Suc (Suc n))) (k1 # k2 # k3 # k4 # ks) = [byte1 k1 k2, byte2 k2 k3, byte3 k3 k4] @ decode_groups n ks"
| "decode_groups (Suc (Suc 0)) (k1 # k2 # k3 # ks) = [byte1 k1 k2, byte2 k2 k3]"
| "decode_groups (Suc 0) (k1 # k2 # ks) = [byte1 k1 k2]"
| "decode_groups _ _ = []"

datatype length_error = Length_Error

definition base64decode :: "string \<Rightarrow> length_error + u8 list" where
  "base64decode s =
     (case decoded_size s of None \<Rightarrow> Inl Length_Error | Some n \<Rightarrow> Inr (decode_groups n (map key_value s)))"

section \<open>Bits\<close>

lemma masks:
  "(0xFC :: u8) = NOT (mask 2)" "(0x03 :: u8) = mask 2" "(0xF0 :: u8) = NOT (mask 4)" "(0x0F :: u8) = mask 4"
  "(0xC0 :: u8) = NOT (mask 6)" "(0x3F :: u8) = mask 6" "(0x30 :: u8) = push_bit 4 (mask 2)" "(0x3C :: u8) = push_bit 2 (mask 4)"
  by (simp_all add: mask_eq_exp_minus_1 not_eq_complement)

lemmas bits = masks bit_and_iff bit_or_iff bit_not_iff bit_mask_iff bit_drop_bit_eq bit_push_bit_iff

lemma below_8: "n < 8 \<Longrightarrow> n = 0 \<or> n = 1 \<or> n = 2 \<or> n = 3 \<or> n = 4 \<or> n = 5 \<or> n = 6 \<or> n = (7 :: nat)"
  by presburger

lemma bit8I:
  fixes a b :: u8
  assumes "bit a 0 = bit b 0" "bit a 1 = bit b 1" "bit a 2 = bit b 2" "bit a 3 = bit b 3"
    "bit a 4 = bit b 4" "bit a 5 = bit b 5" "bit a 6 = bit b 6" "bit a 7 = bit b 7"
  shows "a = b"
proof (rule bit_word_eqI)
  fix n :: nat
  assume "n < LENGTH(8)"
  then have "n < 8" by simp
  from below_8 [OF this] assms show "bit a n = bit b n" by (elim disjE) simp_all
qed

lemma groups:
  "byte1 (index1 a) (index2 a b) = a" "byte2 (index2 a b) (index3 b c) = b" "byte3 (index3 b c) (index4 c) = c"
  "byte1 (index1 a) (h1 a) = a" "byte2 (index2 a b) (h2 b) = b"
  unfolding byte1_def byte2_def byte3_def index1_def index2_def index3_def index4_def h1_def h2_def
  by (rule bit8I; simp add: bits)+

lemma of_nat_unat_id: "of_nat (unat w) = (w :: u8)"
  by simp

lemma below_64I: "\<not> bit a 6 \<Longrightarrow> \<not> bit a 7 \<Longrightarrow> unat (a :: u8) < 64"
proof -
  assume "\<not> bit a 6" "\<not> bit a 7"
  then have "take_bit 6 a = a" by (intro bit8I) (simp_all add: bit_take_bit_iff)
  then have "unat a = take_bit 6 (unat a)" by (metis unsigned_take_bit_eq)
  then show ?thesis using take_bit_nat_less_exp [of 6 "unat a"] by simp
qed

lemma six_bits:
  "unat (index1 a) < 64" "unat (index2 a b) < 64" "unat (index3 b c) < 64" "unat (index4 c) < 64" "unat (h1 a) < 64" "unat (h2 b) < 64"
  unfolding index1_def index2_def index3_def index4_def h1_def h2_def
  by (rule below_64I; simp add: bits)+

definition alphabet :: "string \<Rightarrow> bool" where
  "alphabet key \<longleftrightarrow> key = standard_key \<or> key = urlsafe_key"

lemma alphabet_values:
  "map key_value standard_key = map of_nat [0..<64]" "map key_value urlsafe_key = map of_nat [0..<64]"
  by (simp_all add: standard_key_def urlsafe_key_def key_value_def code_def is_digit_def upt_conv_Cons)

lemma alphabet_key:
  assumes "alphabet key" "i < 64"
  shows "key_value (key ! i) = of_nat i" "key ! i \<noteq> CHR ''=''"
proof -
  have m: "map key_value key = map of_nat [0..<64]" using assms(1) alphabet_values by (auto simp: alphabet_def)
  from arg_cong [OF m, of length] have l: "length key = 64" by simp
  with arg_cong [OF m, of "\<lambda>xs. xs ! i"] assms(2) show "key_value (key ! i) = of_nat i" by simp
  have "CHR ''='' \<notin> set key" using assms(1) by (auto simp: alphabet_def standard_key_def urlsafe_key_def)
  then show "key ! i \<noteq> CHR ''=''" using nth_mem [of i key] l assms(2) by metis
qed

section \<open>Round trip\<close>

definition unpadded :: "string \<Rightarrow> u8 list \<Rightarrow> string" where
  "unpadded key s = filter (\<lambda>c. c \<noteq> CHR ''='') (base64encode key s)"

lemma key_values:
  assumes "alphabet key" "unat i < 64"
  shows "key_value (key ! unat i) = i" "key ! unat i \<noteq> CHR ''=''"
  using alphabet_key [OF assms] by (simp_all add: of_nat_unat_id)

lemma encode_unpadded:
  assumes "alphabet key"
  shows "base64encode key s = unpadded key s @ replicate ((3 - length s mod 3) mod 3) CHR ''=''
    \<and> length (unpadded key s) = length s div 3 * 4 + (if length s mod 3 = 0 then 0 else length s mod 3 + 1)"
  using assms
proof (induction key s rule: base64encode.induct)
  case (1 key a b c ds)
  have "length (a # b # c # ds) = length ds + 3" by simp
  then have "length (a # b # c # ds) mod 3 = length ds mod 3" "length (a # b # c # ds) div 3 = length ds div 3 + 1" by presburger+
  with 1 show ?case by (simp add: unpadded_def key_values six_bits)
qed (simp_all add: unpadded_def key_values six_bits numeral_2_eq_2)

lemma decode_groups_encode:
  assumes "alphabet key"
  shows "decode_groups (length s) (map key_value (base64encode key s)) = s \<and> decode_groups (length s) (map key_value (unpadded key s)) = s"
  using assms
  by (induction key s rule: base64encode.induct) (simp_all add: unpadded_def key_values six_bits groups)

lemma decoded_size_encode:
  assumes "alphabet key"
  shows "decoded_size (base64encode key s) = Some (length s) \<and> decoded_size (unpadded key s) = Some (length s)"
proof -
  let ?E = "unpadded key s"
  obtain q r where len: "length s = 3 * q + r" "r < 3" using mult_div_mod_eq [of 3 "length s"] mod_less_divisor [of 3 "length s"] by (metis zero_less_numeral)
  then have m: "length s mod 3 = r" "length s div 3 = q" by simp_all
  have e: "base64encode key s = ?E @ replicate ((3 - r) mod 3) CHR ''=''"
    and l: "length ?E = 4 * q + (if r = 0 then 0 else r + 1)"
    using encode_unpadded [OF assms, of s] by (simp_all add: m)
  have ne: "?E ! i \<noteq> CHR ''=''" if "i < length ?E" for i
    using nth_mem [OF that] by (auto simp: unpadded_def)
  consider (0) "r = 0" | (1) "r = 1" | (2) "r = 2" using len(2) by linarith
  then show ?thesis
  proof cases
    case 0
    then have "length ?E = 4 * q" "base64encode key s = ?E" using e l by simp_all
    then show ?thesis using ne [of "4 * q - 2"] ne [of "4 * q - 1"] len 0 by (auto simp: decoded_size_def Let_def)
  next
    case 1
    then have E: "length ?E = 4 * q + 2" "base64encode key s = ?E @ ''==''" using e l by (simp_all add: numeral_2_eq_2)
    have "(4 * q + 4) mod 4 = 0" "(4 * q + 4) div 4 = q + 1" "(4 * q + 2) mod 4 = 2" "(4 * q + 2) div 4 = q" by presburger+
    with E show ?thesis using len 1 by (simp add: decoded_size_def Let_def nth_append)
  next
    case 2
    then have E: "length ?E = 4 * q + 3" "base64encode key s = ?E @ ''=''" using e l by simp_all
    have "(4 * q + 4) mod 4 = 0" "(4 * q + 4) div 4 = q + 1" "(4 * q + 3) mod 4 = 3" "(4 * q + 3) div 4 = q" by presburger+
    with E show ?thesis using ne [of "4 * q + 2"] len 2 by (simp add: decoded_size_def Let_def nth_append)
  qed
qed

lemma base64_decode_encode:
  assumes "alphabet key"
  shows "base64decode (base64encode key s) = Inr s" "base64decode (unpadded key s) = Inr s"
  using decoded_size_encode [OF assms, of s] decode_groups_encode [OF assms, of s] by (simp_all add: base64decode_def)

end
