(* ===== verification/Sha1.thy ===== *)
theory Sha1
  imports Prelude "HOL-Library.While_Combinator"
begin

text \<open>
  The class \<open>sha1::SHA1\<close> of \<open>crow.h\<close>: bytes are collected in a block of 64, and a full block is
  compressed into the digest.  \<open>reset\<close> leaves the block as it was, so the block of a new object is
  arbitrary; \<open>size_t\<close> is 64 bit.
\<close>

unbundle bit_operations_syntax

definition LeftRotate :: "u32 \<Rightarrow> nat \<Rightarrow> u32" where
  "LeftRotate v n = push_bit n v XOR drop_bit (32 - n) v"

record sha1 =
  m_digest :: "u32 list"
  m_block :: "u8 list"
  m_blockByteIndex :: nat
  m_byteCount :: u64

definition initial_digest :: "u32 list" where
  "initial_digest = [0x67452301, 0xEFCDAB89, 0x98BADCFE, 0x10325476, 0xC3D2E1F0]"

definition sha1_reset :: "sha1 \<Rightarrow> sha1" where
  "sha1_reset s = s\<lparr>m_digest := initial_digest, m_blockByteIndex := 0, m_byteCount := 0\<rparr>"

section \<open>Compression\<close>

definition block_word :: "u8 list \<Rightarrow> nat \<Rightarrow> u32" where
  "block_word b i =
     push_bit 24 (ucast (b ! (i * 4))) OR push_bit 16 (ucast (b ! (i * 4 + 1))) OR push_bit 8 (ucast (b ! (i * 4 + 2)))
       OR ucast (b ! (i * 4 + 3))"

text \<open>The second loop, which fills \<open>w[16]\<close> to \<open>w[79]\<close>.\<close>

definition next_word :: "u32 list \<Rightarrow> u32 list" where
  "next_word w =
     (let i = length w in w @ [LeftRotate (w ! (i - 3) XOR w ! (i - 8) XOR w ! (i - 14) XOR w ! (i - 16)) 1])"

definition block_words :: "u8 list \<Rightarrow> u32 list" where
  "block_words b = (next_word ^^ 64) (map (block_word b) [0..<16])"

text \<open>One round, on the variables \<open>a\<close> to \<open>e\<close>.\<close>

definition sha1_round :: "u32 list \<Rightarrow> nat \<Rightarrow> u32 \<times> u32 \<times> u32 \<times> u32 \<times> u32 \<Rightarrow> u32 \<times> u32 \<times> u32 \<times> u32 \<times> u32" where
  "sha1_round w i = (\<lambda>(a, b, c, d, e).
     (let (f, k) =
            (if i < 20 then ((b AND c) OR (NOT b AND d), 0x5A827999)
             else if i < 40 then (b XOR c XOR d, 0x6ED9EBA1)
             else if i < 60 then ((b AND c) OR (b AND d) OR (c AND d), 0x8F1BBCDC)
             else (b XOR c XOR d, 0xCA62C1D6));
          temp = LeftRotate a 5 + f + e + k + w ! i
      in (temp, a, LeftRotate b 30, c, d)))"

definition processBlock :: "sha1 \<Rightarrow> sha1" where
  "processBlock s =
     (let w = block_words (m_block s); h = m_digest s;
          (a, b, c, d, e) = fold (sha1_round w) [0..<80] (h ! 0, h ! 1, h ! 2, h ! 3, h ! 4)
      in s\<lparr>m_digest := [h ! 0 + a, h ! 1 + b, h ! 2 + c, h ! 3 + d, h ! 4 + e]\<rparr>)"

section \<open>Bytes\<close>

definition processByte :: "u8 \<Rightarrow> sha1 \<Rightarrow> sha1" where
  "processByte octet s =
     (let s1 = s\<lparr>m_block := (m_block s)[m_blockByteIndex s := octet], m_blockByteIndex := m_blockByteIndex s + 1,
                m_byteCount := m_byteCount s + 1\<rparr>
      in if m_blockByteIndex s1 = 64 then processBlock (s1\<lparr>m_blockByteIndex := 0\<rparr>) else s1)"

definition processBytes :: "u8 list \<Rightarrow> sha1 \<Rightarrow> sha1" where
  "processBytes = fold processByte"

section \<open>The digest\<close>

text \<open>The three padding loops.\<close>

definition pad_to_56 :: "sha1 \<Rightarrow> sha1" where
  "pad_to_56 = while (\<lambda>s. m_blockByteIndex s < 56) (processByte 0)"

definition pad_block :: "sha1 \<Rightarrow> sha1" where
  "pad_block = while (\<lambda>s. m_blockByteIndex s \<noteq> 0) (processByte 0)"

definition getDigest :: "sha1 \<Rightarrow> u32 list \<times> sha1" where
  "getDigest s =
     (let bitCount = m_byteCount s * 8;
          s1 = processByte 0x80 s;
          s2 = (if 56 < m_blockByteIndex s1 then pad_to_56 (pad_block s1) else pad_to_56 s1);
          s3 = processBytes [0, 0, 0, 0, ucast (drop_bit 24 bitCount), ucast (drop_bit 16 bitCount),
                             ucast (drop_bit 8 bitCount), ucast bitCount] s2
      in (m_digest s3, s3))"

definition word_bytes :: "u32 \<Rightarrow> u8 list" where
  "word_bytes d = [ucast (drop_bit 24 d), ucast (drop_bit 16 d), ucast (drop_bit 8 d), ucast d]"

definition getDigestBytes :: "sha1 \<Rightarrow> u8 list" where
  "getDigestBytes s = concat (map word_bytes (fst (getDigest s)))"

section \<open>The reference\<close>

text \<open>SHA-1 as the standard (FIPS 180-4) defines it, on a whole message.\<close>

function schedule :: "u8 list \<Rightarrow> nat \<Rightarrow> u32" where
  "schedule b t =
     (if t < 16 then block_word b t
      else word_rotl 1 (schedule b (t - 3) XOR schedule b (t - 8) XOR schedule b (t - 14) XOR schedule b (t - 16)))"
  by pat_completeness auto
termination by (relation "measure snd") auto

declare schedule.simps [simp del]

definition Ch :: "u32 \<Rightarrow> u32 \<Rightarrow> u32 \<Rightarrow> u32" where "Ch x y z = (x AND y) XOR (NOT x AND z)"
definition Parity :: "u32 \<Rightarrow> u32 \<Rightarrow> u32 \<Rightarrow> u32" where "Parity x y z = x XOR y XOR z"
definition Maj :: "u32 \<Rightarrow> u32 \<Rightarrow> u32 \<Rightarrow> u32" where "Maj x y z = (x AND y) XOR (x AND z) XOR (y AND z)"

definition ref_f :: "nat \<Rightarrow> u32 \<Rightarrow> u32 \<Rightarrow> u32 \<Rightarrow> u32" where
  "ref_f t = (if t < 20 then Ch else if t < 40 then Parity else if t < 60 then Maj else Parity)"

definition ref_K :: "nat \<Rightarrow> u32" where
  "ref_K t = (if t < 20 then 0x5A827999 else if t < 40 then 0x6ED9EBA1 else if t < 60 then 0x8F1BBCDC else 0xCA62C1D6)"

definition ref_round :: "u8 list \<Rightarrow> nat \<Rightarrow> u32 \<times> u32 \<times> u32 \<times> u32 \<times> u32 \<Rightarrow> u32 \<times> u32 \<times> u32 \<times> u32 \<times> u32" where
  "ref_round b t = (\<lambda>(A, B, C, D, E). (word_rotl 5 A + ref_f t B C D + E + ref_K t + schedule b t, A, word_rotl 30 B, C, D))"

definition ref_compress :: "u8 list \<Rightarrow> u32 list \<Rightarrow> u32 list" where
  "ref_compress b h =
     (case fold (ref_round b) [0..<80] (h ! 0, h ! 1, h ! 2, h ! 3, h ! 4) of
        (a, b, c, d, e) \<Rightarrow> [a + h ! 0, b + h ! 1, c + h ! 2, d + h ! 3, e + h ! 4])"

fun blocks :: "u8 list \<Rightarrow> u8 list list" where
  "blocks [] = []"
| "blocks (x # xs) = take 64 (x # xs) # blocks (drop 64 (x # xs))"

definition ref_pad :: "u8 list \<Rightarrow> u8 list" where
  "ref_pad m = m @ [0x80] @ replicate ((119 - length m mod 64) mod 64) 0 @ rev (le_bytes 8 (of_nat (8 * length m) :: u64))"

definition ref_sha1 :: "u8 list \<Rightarrow> u8 list" where
  "ref_sha1 m = concat (map word_bytes (fold ref_compress (blocks (ref_pad m)) initial_digest))"

section \<open>Equivalence of the compression\<close>

lemma LeftRotate_rotl:
  assumes "0 < n" "n < 32"
  shows "LeftRotate v n = word_rotl n v"
proof (rule bit_word_eqI)
  fix i :: nat
  assume "i < LENGTH(32)"
  then have i: "i < 32" by simp
  have L: "bit (LeftRotate v n) i \<longleftrightarrow> (n \<le> i \<and> bit v (i - n)) \<noteq> bit v (i + (32 - n))"
    using i by (auto simp: LeftRotate_def bit_xor_iff bit_push_bit_iff bit_drop_bit_eq add.commute)
  have R: "bit (word_rotl n v) i \<longleftrightarrow> bit v ((i + (32 - n)) mod 32)"
    using assms i by (simp only: bit_word_rotl_iff) simp
  show "bit (LeftRotate v n) i = bit (word_rotl n v) i"
  proof (cases "n \<le> i")
    case True
    then have s: "i + (32 - n) = (i - n) + 32" using assms by simp
    then have "(i + (32 - n)) mod 32 = i - n" using i by (metis less_imp_diff_less mod_add_self2 mod_less)
    moreover have "\<not> bit v (i + (32 - n))" unfolding s by (auto dest: bit_imp_le_length)
    ultimately show ?thesis using True L R by simp
  next
    case False
    then have "i + (32 - n) < 32" using assms by simp
    with False L R show ?thesis by simp
  qed
qed

lemma next_word_nth:
  "t < length w \<Longrightarrow> next_word w ! t = w ! t"
  "next_word w ! length w = LeftRotate (w ! (length w - 3) XOR w ! (length w - 8) XOR w ! (length w - 14) XOR w ! (length w - 16)) 1"
  by (simp_all add: next_word_def Let_def nth_append)

lemma length_next_words: "length ((next_word ^^ k) w) = length w + k"
  by (induction k) (simp_all add: next_word_def Let_def)

lemma next_words_schedule:
  "k \<le> 64 \<Longrightarrow> t < 16 + k \<Longrightarrow> (next_word ^^ k) (map (block_word b) [0..<16]) ! t = schedule b t"
proof (induction k arbitrary: t)
  case 0
  then show ?case by (simp add: schedule.simps [of b t])
next
  case (Suc k)
  let ?w = "(next_word ^^ k) (map (block_word b) [0..<16])"
  have l: "length ?w = 16 + k" by (simp add: length_next_words)
  show ?case
  proof (cases "t < 16 + k")
    case True
    with Suc l show ?thesis by (simp add: next_word_nth)
  next
    case False
    with Suc.prems have t: "t = 16 + k" by simp
    have "?w ! (t - j) = schedule b (t - j)" if "0 < j" "j \<le> 16" for j using Suc t that by simp
    from this [of 3] this [of 8] this [of 14] this [of 16]
    have "?w ! (16 + k - 3) = schedule b (16 + k - 3)" "?w ! (16 + k - 8) = schedule b (16 + k - 8)"
      "?w ! (16 + k - 14) = schedule b (16 + k - 14)" "?w ! (16 + k - 16) = schedule b (16 + k - 16)" using t by simp_all
    moreover have "schedule b (16 + k) = word_rotl 1 (schedule b (16 + k - 3) XOR schedule b (16 + k - 8) XOR schedule b (16 + k - 14) XOR schedule b (16 + k - 16))"
      by (subst schedule.simps) simp
    ultimately show ?thesis using next_word_nth(2) [of ?w] by (simp add: LeftRotate_rotl t l)
  qed
qed

lemma block_words_schedule: "t < 80 \<Longrightarrow> block_words b ! t = schedule b t"
  by (simp add: block_words_def next_words_schedule)

lemma choice_bits: "(b AND c) OR (NOT b AND d) = Ch b c d" "(b AND c) OR (b AND d) OR (c AND d) = Maj b c d"
  by (rule bit_word_eqI, auto simp: Ch_def Maj_def bit_simps)+

lemma round_ref: "t < 80 \<Longrightarrow> sha1_round (block_words b) t = ref_round b t"
  by (auto simp: fun_eq_iff sha1_round_def ref_round_def ref_f_def ref_K_def Parity_def choice_bits LeftRotate_rotl block_words_schedule)

lemma processBlock_ref:
  "processBlock s = s\<lparr>m_digest := ref_compress (m_block s) (m_digest s)\<rparr>"
proof -
  have "fold (sha1_round (block_words b)) [0..<80] = fold (ref_round b) [0..<80]" for b
    by (intro ext fold_cong refl) (simp add: round_ref)
  then show ?thesis
    by (simp add: processBlock_def ref_compress_def Let_def add.commute del: upt_rec_numeral split: prod.split)
qed

section \<open>Blocks of bytes\<close>

definition after :: "u8 list \<Rightarrow> sha1 \<Rightarrow> sha1 \<Rightarrow> bool" where
  "after m s s' \<longleftrightarrow>
     (\<exists>full r. m = concat full @ r \<and> (\<forall>b \<in> set full. length b = 64) \<and> length r < 64
        \<and> m_digest s' = fold ref_compress full (m_digest s) \<and> m_blockByteIndex s' = length r
        \<and> take (length r) (m_block s') = r \<and> length (m_block s') = 64 \<and> m_byteCount s' = m_byteCount s + of_nat (length m))"

lemma after_byte:
  assumes "after m s s'"
  shows "after (m @ [x]) s (processByte x s')"
proof -
  obtain full r where a: "m = concat full @ r" "\<forall>b \<in> set full. length b = 64" "length r < 64"
      "m_digest s' = fold ref_compress full (m_digest s)" "m_blockByteIndex s' = length r"
      "take (length r) (m_block s') = r" "length (m_block s') = 64" "m_byteCount s' = m_byteCount s + of_nat (length m)"
    using assms unfolding after_def by blast
  let ?b = "(m_block s')[length r := x]"
  have t: "take (Suc (length r)) ?b = r @ [x]" using a by (simp add: take_Suc_conv_app_nth)
  show ?thesis
  proof (cases "length r = 63")
    case True
    then have "?b = r @ [x]" using t a(7) by simp
    with True a show ?thesis unfolding after_def
      by (intro exI [of _ "full @ [r @ [x]]"] exI [of _ "[]"]) (simp add: processByte_def Let_def processBlock_ref add.assoc)
  next
    case False
    with t a show ?thesis unfolding after_def
      by (intro exI [of _ full] exI [of _ "r @ [x]"]) (simp add: processByte_def Let_def add.assoc)
  qed
qed

lemma after_bytes: "after m s s' \<Longrightarrow> after (m @ xs) s (processBytes xs s')"
proof (induction xs arbitrary: m s')
  case (Cons x xs)
  from Cons.IH [OF after_byte [OF Cons.prems, of x]] show ?case by (simp add: processBytes_def)
qed (simp add: processBytes_def)

lemma after_start: "length (m_block s) = 64 \<Longrightarrow> m_blockByteIndex s = 0 \<Longrightarrow> after [] s s"
  unfolding after_def by (intro exI [of _ "[]"]) simp

lemma index_after:
  assumes "after m s s'"
  shows "m_blockByteIndex s' = length m mod 64"
proof -
  obtain full r where "m = concat full @ r" "\<forall>b \<in> set full. length b = 64" "length r < 64" "m_blockByteIndex s' = length r"
    using assms unfolding after_def by blast
  moreover have "\<forall>b \<in> set full. length b = 64 \<Longrightarrow> length (concat full) = 64 * length full" for full :: "u8 list list"
    by (induction full) auto
  ultimately show ?thesis by simp
qed

lemma blocks_concat: "\<forall>b \<in> set full. length b = 64 \<Longrightarrow> blocks (concat full) = full"
proof (induction full)
  case (Cons b full)
  then obtain y ys where b: "b = y # ys" by (cases b) auto
  have "blocks (b @ concat full) = take 64 (b @ concat full) # blocks (drop 64 (b @ concat full))" by (simp add: b)
  with Cons show ?case by simp
qed simp

lemma digest_after:
  assumes "after m s s'" "length m mod 64 = 0"
  shows "m_digest s' = fold ref_compress (blocks m) (m_digest s)"
proof -
  obtain full r where "m = concat full @ r" "\<forall>b \<in> set full. length b = 64" "m_blockByteIndex s' = length r"
      "m_digest s' = fold ref_compress full (m_digest s)"
    using assms(1) unfolding after_def by blast
  with index_after [OF assms(1)] assms(2) show ?thesis by (simp add: blocks_concat)
qed

section \<open>Padding\<close>

lemma index_processByte:
  "m_blockByteIndex s < 64 \<Longrightarrow> m_blockByteIndex (processByte x s) = (if m_blockByteIndex s = 63 then 0 else m_blockByteIndex s + 1)"
  by (simp add: processByte_def Let_def processBlock_ref)

lemma pad_to_56_zeros:
  "m_blockByteIndex s \<le> 56 \<Longrightarrow> pad_to_56 s = processBytes (replicate (56 - m_blockByteIndex s) 0) s"
proof (induction "56 - m_blockByteIndex s" arbitrary: s)
  case 0
  then show ?case unfolding pad_to_56_def by (subst while_unfold) (simp add: processBytes_def)
next
  case (Suc k)
  have i: "m_blockByteIndex (processByte 0 s) = m_blockByteIndex s + 1" using Suc by (simp add: index_processByte)
  have "pad_to_56 s = pad_to_56 (processByte 0 s)"
    using Suc(2) unfolding pad_to_56_def by (subst while_unfold) simp
  also have "\<dots> = processBytes (replicate (56 - m_blockByteIndex (processByte 0 s)) 0) (processByte 0 s)"
    using Suc(2) i by (intro Suc(1)) simp_all
  also have "56 - m_blockByteIndex (processByte 0 s) = k" using Suc(2) i by simp
  finally show ?case using Suc(2) [symmetric] by (simp add: processBytes_def)
qed

lemma pad_block_zeros:
  "0 < m_blockByteIndex s \<Longrightarrow> m_blockByteIndex s < 64 \<Longrightarrow> pad_block s = processBytes (replicate (64 - m_blockByteIndex s) 0) s"
proof (induction "63 - m_blockByteIndex s" arbitrary: s)
  case 0
  have "pad_block s = pad_block (processByte 0 s)"
    using 0 unfolding pad_block_def by (subst while_unfold) simp
  also have "\<dots> = processByte 0 s"
    using 0 index_processByte [of s 0] unfolding pad_block_def by (subst while_unfold) simp
  moreover have "64 - m_blockByteIndex s = Suc 0" using 0 by simp
  ultimately show ?case by (simp add: processBytes_def)
next
  case (Suc k)
  have i: "m_blockByteIndex (processByte 0 s) = m_blockByteIndex s + 1" using Suc by (simp add: index_processByte)
  have "pad_block s = pad_block (processByte 0 s)"
    using Suc(3) unfolding pad_block_def by (subst while_unfold) simp
  also have "\<dots> = processBytes (replicate (64 - m_blockByteIndex (processByte 0 s)) 0) (processByte 0 s)"
    using Suc(2) i by (intro Suc(1)) simp_all
  also have "64 - m_blockByteIndex (processByte 0 s) = Suc k" using Suc(2) i by simp
  finally have "pad_block s = processBytes (replicate (Suc k) 0) (processByte 0 s)" .
  moreover have "64 - m_blockByteIndex s = Suc (Suc k)" using Suc(2,4) by simp
  ultimately show ?case by (simp add: processBytes_def)
qed

lemma processBytes_append: "processBytes (xs @ ys) s = processBytes ys (processBytes xs s)"
  by (simp add: processBytes_def)

lemma processBytes_one: "processBytes [x] s = processByte x s"
  by (simp add: processBytes_def)

lemma padding_zeros:
  assumes "after m s s'"
  shows "(let s1 = processByte 0x80 s' in if 56 < m_blockByteIndex s1 then pad_to_56 (pad_block s1) else pad_to_56 s1)
    = processBytes ([0x80] @ replicate ((119 - length m mod 64) mod 64) 0) s'"
proof -
  let ?r = "length m mod 64" and ?s1 = "processByte 0x80 s'"
  have i: "m_blockByteIndex ?s1 = (?r + 1) mod 64" using index_after [OF after_byte [OF assms]] by (simp add: mod_Suc)
  have r: "?r < 64" by simp
  show ?thesis
  proof (cases "56 < m_blockByteIndex ?s1")
    case True
    then have m: "m_blockByteIndex ?s1 = ?r + 1" "56 \<le> ?r" "?r < 63" using i r by (auto simp: mod_Suc split: if_splits)
    have b: "pad_block ?s1 = processBytes (replicate (63 - ?r) 0) ?s1" using pad_block_zeros [of ?s1] m by simp
    have "after (m @ [0x80] @ replicate (63 - ?r) 0) s (pad_block ?s1)"
      using after_bytes [OF after_byte [OF assms, of "0x80"], of "replicate (63 - ?r) 0"] b by simp
    from index_after [OF this] have "m_blockByteIndex (pad_block ?s1) = (length m + 1 + (63 - ?r)) mod 64" by simp
    also have "length m + 1 + (63 - ?r) = 64 * (length m div 64 + 1)" proof -
      have "(63 - ?r) + ?r = 63" using m(3) by simp
      moreover have "n + 1 + z = 64 * (q + 1)" if "64 * q + r = n" "z + r = 63" for n q r z :: nat using that by simp
      ultimately show ?thesis using mult_div_mod_eq [of 64 "length m"] by blast
    qed
    finally have z: "m_blockByteIndex (pad_block ?s1) = 0" by simp
    have n: "(119 - ?r) mod 64 = (63 - ?r) + 56" using m(2,3) by simp
    have "pad_to_56 (pad_block ?s1) = processBytes (replicate 56 0) (pad_block ?s1)" using z pad_to_56_zeros [of "pad_block ?s1"] by simp
    also have "\<dots> = processBytes (replicate ((63 - ?r) + 56) 0) ?s1" by (simp only: b replicate_add processBytes_append)
    finally show ?thesis using True by (simp only: Let_def if_True n processBytes_append processBytes_one)
  next
    case False
    have "(119 - ?r) mod 64 = 56 - (?r + 1) mod 64"
    proof (cases "?r = 63")
      case False
      then have "(?r + 1) mod 64 = ?r + 1" using r by simp
      moreover have "119 - ?r = (55 - ?r) + 64" using False \<open>\<not> 56 < m_blockByteIndex ?s1\<close> i calculation by simp
      ultimately show ?thesis by (simp only: mod_add_self2) simp
    qed simp
    then show ?thesis using False i pad_to_56_zeros [of ?s1] by (simp add: Let_def processBytes_def)
  qed
qed

lemma count_after: "after m s s' \<Longrightarrow> m_byteCount s' = m_byteCount s + of_nat (length m)"
  unfolding after_def by blast

lemma length_bytes:
  assumes "8 * n < 2 ^ 32"
  shows "rev (le_bytes 8 (of_nat (8 * n) :: u64))
    = [0, 0, 0, 0, ucast (drop_bit 24 (of_nat n * 8 :: u64)), ucast (drop_bit 16 (of_nat n * 8 :: u64)),
       ucast (drop_bit 8 (of_nat n * 8 :: u64)), ucast (of_nat n * 8 :: u64)]"
proof -
  let ?w = "of_nat (8 * n) :: u64"
  have w: "?w = of_nat n * 8" by (simp add: mult.commute)
  have "unat ?w = 8 * n" using assms by (simp only: unsigned_of_nat) (simp add: take_bit_nat_eq_self)
  then have "unat ?w < 2 ^ 32" using assms by simp
  then have "unat (take_bit 32 ?w) = unat ?w" by (simp only: unsigned_take_bit_eq) (simp add: take_bit_nat_eq_self)
  then have "take_bit 32 ?w = ?w" by (simp only: unsigned_word_eqI)
  then have h: "\<not> bit ?w k" if "32 \<le> k" for k using that by (metis bit_take_bit_iff not_less)
  have z: "ucast (drop_bit k ?w) = (0 :: u8)" if "32 \<le> k" for k
    using h that by (intro bit_word_eqI) (simp add: bit_ucast_iff bit_drop_bit_eq)
  have "le_bytes 8 ?w = map (\<lambda>k. ucast (drop_bit (8 * k) ?w)) [0..<8]"
    by (intro nth_equalityI) (simp_all add: le_bytes_nth)
  then show ?thesis unfolding w [symmetric] using z [of 32] z [of 40] z [of 48] z [of 56] by (simp add: upt_conv_Cons)
qed

lemma sha1_reference:
  assumes "length (m_block s) = 64" "8 * length m < 2 ^ 32"
  shows "getDigestBytes (processBytes m (sha1_reset s)) = ref_sha1 m"
proof -
  let ?s0 = "sha1_reset s"
  have a0: "after [] ?s0 ?s0" using assms(1) by (intro after_start) (simp_all add: sha1_reset_def)
  have a: "after m ?s0 (processBytes m ?s0)" using after_bytes [OF a0, of m] by simp
  have c: "m_byteCount (processBytes m ?s0) = of_nat (length m)" using count_after [OF a] by (simp add: sha1_reset_def)
  let ?z = "[0x80] @ replicate ((119 - length m mod 64) mod 64) 0 @ rev (le_bytes 8 (of_nat (8 * length m) :: u64))"
  have g: "fst (getDigest (processBytes m ?s0)) = m_digest (processBytes (m @ ?z) ?s0)"
    unfolding getDigest_def Let_def processBytes_append [of m] processBytes_append [of "[0x80] @ _" "rev _", unfolded append_assoc]
    using padding_zeros [OF a] c length_bytes [OF assms(2)] by (simp only: Let_def fst_conv)
  have "length (m @ ?z) = 64 * (length m div 64) + (length m mod 64 + (119 - length m mod 64) mod 64 + 9)"
    using mult_div_mod_eq [of 64 "length m"] by simp
  also have "(length m mod 64 + (119 - length m mod 64) mod 64 + 9) mod 64 = 0"
  proof -
    have "(length m mod 64 + (119 - length m mod 64) mod 64 + 9) mod 64 = (length m mod 64 + (119 - length m mod 64) + 9) mod 64"
      by (metis mod_add_left_eq mod_add_right_eq)
    also have "length m mod 64 + (119 - length m mod 64) + 9 = 128" using mod_less_divisor [of 64 "length m"] by linarith
    finally show ?thesis by simp
  qed
  then have "length (m @ ?z) mod 64 = 0" using calculation by (metis add.right_neutral mod_add_right_eq mod_mult_self1_is_0)
  from digest_after [OF after_bytes [OF a0, of "m @ ?z", simplified append_Nil] this]
  moreover have "m_digest ?s0 = initial_digest" by (simp add: sha1_reset_def)
  ultimately show ?thesis unfolding getDigestBytes_def ref_sha1_def ref_pad_def g by simp
qed

end
