(* ===== verification/Websocket.thy ===== *)
theory Websocket
  imports Base64 Sha1 Utility
begin

text \<open>
  The WebSocket connection of \<open>crow.h\<close> (\<open>crow::websocket::Connection\<close>): frame headers, the reader's
  state machine, fragments and control frames, the closing handshake and the write queue.  The
  network is the environment: a completion of the pending read or write is an input of \<open>ws_step\<close>,
  as is the run of a task that \<open>send_data\<close> has posted; what the connection does to the outside is
  logged.  The application's message handler is a parameter that answers each message with calls of
  \<open>send_*\<close> and \<open>close\<close>; the close and error handlers only observe.
\<close>

unbundle bit_operations_syntax

section \<open>Byte order\<close>

definition bytes_of :: "string \<Rightarrow> u8 list" where
  "bytes_of s = map (\<lambda>c. of_nat (code c)) s"

definition htons :: "u16 \<Rightarrow> u16" where
  "htons w = le_word (rev (le_bytes 2 w))"

definition htonl :: "u32 \<Rightarrow> u32" where
  "htonl w = le_word (rev (le_bytes 4 w))"

text \<open>The expression both \<open>build_header\<close> and the reader use for 64 bit lengths on a little-endian host.\<close>

definition swap64 :: "u64 \<Rightarrow> u64" where
  "swap64 w = push_bit 32 (ucast (htonl (ucast (w AND 0xFFFFFFFF)))) OR ucast (htonl (ucast (drop_bit 32 w)))"

section \<open>Frames\<close>

text \<open>\<open>build_header\<close> for an opcode below 16.\<close>

definition build_header :: "u8 \<Rightarrow> nat \<Rightarrow> u8 list" where
  "build_header op n =
     (if n < 126 then [0x80 + op, of_nat n]
      else if n < 0x10000 then [0x80 + op, 126] @ le_bytes 2 (htons (of_nat n))
      else [0x80 + op, 127] @ le_bytes 8 (swap64 (of_nat n)))"

text \<open>The mask is the four bytes in the order in which they came.\<close>

definition unmask :: "u8 list \<Rightarrow> u8 list \<Rightarrow> u8 list" where
  "unmask key p = map (\<lambda>i. p ! i XOR key ! (i mod 4)) [0..<length p]"

section \<open>The connection\<close>

datatype read_state = MiniHeader | Len16 | Len64 | Mask | Payload

text \<open>What the pending read asks for: some bytes up to a bound, or an exact number.\<close>

datatype read_request = At_Most nat | Exactly nat

datatype ws_log =
    On_Message "u8 list" bool
  | On_Close "u8 list" u16
  | On_Error string
  | Removed
  | Socket_Closed
  | Wrote "u8 list"

datatype ws_action = Send u8 "u8 list" | Close "u8 list" u16

type_synonym ws_app = "u8 list \<Rightarrow> bool \<Rightarrow> ws_action list"

record ws =
  read_state :: read_state
  pending :: "read_request option"
  mini_header :: u16
  remaining_length16 :: u16
  remaining_length :: u64
  max_payload :: u64
  has_mask :: bool
  mask_key :: "u8 list"
  fragment :: "u8 list"
  ws_message :: "u8 list"
  is_binary :: bool
  close_flag :: bool
  has_sent_close :: bool
  has_recv_close :: bool
  pong_received :: bool
  close_handler_called :: bool
  write_buffers :: "u8 list list"
  sending_buffers :: "u8 list list"
  posted :: "(u8 \<times> u8 list) list"
  ws_log :: "ws_log list"

definition normal_closure :: u16 where "normal_closure = 1000"
definition message_too_big :: u16 where "message_too_big = 1009"
definition no_status_code :: u16 where "no_status_code = 1005"
definition closed_abnormally :: u16 where "closed_abnormally = 1006"

definition emit :: "ws_log \<Rightarrow> ws \<Rightarrow> ws" where
  "emit l w = w\<lparr>ws_log := ws_log w @ [l]\<rparr>"

definition is_FIN :: "ws \<Rightarrow> bool" where
  "is_FIN w \<longleftrightarrow> mini_header w AND 0x8000 \<noteq> 0"

definition opcode :: "ws \<Rightarrow> u16" where
  "opcode w = drop_bit 8 (mini_header w AND 0x0f00)"

section \<open>Writing\<close>

definition do_write :: "ws \<Rightarrow> ws" where
  "do_write w =
     (if sending_buffers w \<noteq> [] \<or> write_buffers w = [] then w
      else emit (Wrote (concat (write_buffers w))) (w\<lparr>sending_buffers := write_buffers w, write_buffers := []\<rparr>))"

definition send_data_impl :: "u8 \<Rightarrow> u8 list \<Rightarrow> ws \<Rightarrow> ws" where
  "send_data_impl op payload w =
     do_write (w\<lparr>write_buffers := write_buffers w @ [build_header op (length payload), payload]\<rparr>)"

text \<open>\<open>send_data\<close> posts; the task runs \<open>send_data_impl\<close> later.\<close>

definition send_data :: "u8 \<Rightarrow> u8 list \<Rightarrow> ws \<Rightarrow> ws" where
  "send_data op payload w = w\<lparr>posted := posted w @ [(op, payload)]\<rparr>"

section \<open>Closing\<close>

definition check_destroy :: "u16 \<Rightarrow> ws \<Rightarrow> ws" where
  "check_destroy status w =
     emit Removed (if close_handler_called w then w else emit (On_Close (bytes_of ''uncleanly'') status) w)"

text \<open>\<open>close\<close>, called on the thread of the connection, so that \<open>dispatch\<close> runs its body at once.\<close>

definition ws_close :: "u8 list \<Rightarrow> u16 \<Rightarrow> ws \<Rightarrow> ws" where
  "ws_close msg status w =
     (let w1 = w\<lparr>has_sent_close := True\<rparr>;
          w2 = (if has_recv_close w1 \<and> \<not> close_handler_called w1
                then emit (On_Close msg status) (w1\<lparr>close_handler_called := True\<rparr>) else w1)
      in do_write (w2\<lparr>write_buffers := write_buffers w2 @ [build_header 8 (length msg + 2), le_bytes 2 (htons status), msg]\<rparr>))"

text \<open>What follows a failed read; the two later states report the error before they close the socket.\<close>

definition read_failed :: "string \<Rightarrow> ws \<Rightarrow> ws" where
  "read_failed msg w =
     (let w1 = w\<lparr>close_flag := True\<rparr>
      in check_destroy closed_abnormally
           (if read_state w \<in> {Mask, Payload} then emit Socket_Closed (emit (On_Error msg) w1)
            else emit (On_Error msg) (emit Socket_Closed w1)))"

definition run_action :: "ws_action \<Rightarrow> ws \<Rightarrow> ws" where
  "run_action a w = (case a of Send op payload \<Rightarrow> send_data op payload w | Close msg status \<Rightarrow> ws_close msg status w)"

section \<open>Reading\<close>

definition read_payload :: "ws \<Rightarrow> ws" where
  "read_payload w = w\<lparr>pending := Some (At_Most (min 4096 (unat (remaining_length w))))\<rparr>"

definition do_read :: "ws \<Rightarrow> ws" where
  "do_read w =
     (if has_sent_close w \<and> has_recv_close w
      then check_destroy closed_abnormally (emit Socket_Closed (w\<lparr>close_flag := True\<rparr>))
      else (case read_state w of
              MiniHeader \<Rightarrow> w\<lparr>mini_header := 0, pending := Some (At_Most 2)\<rparr>
            | Len16 \<Rightarrow> w\<lparr>remaining_length := 0, remaining_length16 := 0, pending := Some (Exactly 2)\<rparr>
            | Len64 \<Rightarrow> w\<lparr>pending := Some (Exactly 8)\<rparr>
            | Mask \<Rightarrow>
                (if max_payload w < remaining_length w
                 then check_destroy message_too_big (emit (On_Error ''Message length exceeds maximum payload.'')
                        (emit Socket_Closed (w\<lparr>close_flag := True\<rparr>)))
                 else if has_mask w then w\<lparr>pending := Some (Exactly 4)\<rparr>
                 else read_payload (w\<lparr>read_state := Payload\<rparr>))
            | Payload \<Rightarrow> read_payload w))"

text \<open>Bytes of the network that overwrite an integer of zeros, read back in network order.\<close>

definition got_mini_header :: "u8 list \<Rightarrow> ws \<Rightarrow> ws" where
  "got_mini_header bs w =
     (let h = htons (le_word bs); w1 = w\<lparr>mini_header := h, has_mask := h AND 0x80 = 0x80\<rparr>
      in do_read
           (if h AND 0x7f = 127 then w1\<lparr>read_state := Len64\<rparr>
            else if h AND 0x7f = 126 then w1\<lparr>read_state := Len16\<rparr>
            else w1\<lparr>remaining_length := ucast (h AND 0x7f), read_state := Mask\<rparr>))"

definition deliver :: "ws_app \<Rightarrow> ws \<Rightarrow> ws" where
  "deliver app w =
     (let w1 = w\<lparr>ws_message := ws_message w @ fragment w\<rparr>
      in if is_FIN w1
         then (fold run_action (app (ws_message w1) (is_binary w1)) (emit (On_Message (ws_message w1) (is_binary w1)) w1))
                \<lparr>ws_message := []\<rparr>
         else w1)"

text \<open>The result is false when the reader stops.\<close>

definition handle_fragment :: "ws_app \<Rightarrow> ws \<Rightarrow> ws \<times> bool" where
  "handle_fragment app w0 =
     (let w = (if has_mask w0 then w0\<lparr>fragment := unmask (mask_key w0) (fragment w0)\<rparr> else w0); f = fragment w;
          go = (\<lambda>w. (w\<lparr>fragment := []\<rparr>, True))
      in if opcode w = 0 then go (deliver app w)
         else if opcode w = 1 then go (deliver app (w\<lparr>is_binary := False\<rparr>))
         else if opcode w = 2 then go (deliver app (w\<lparr>is_binary := True\<rparr>))
         else if opcode w = 8 then
           (let w1 = w\<lparr>has_recv_close := True\<rparr>;
                status = (if 2 \<le> length f then htons (le_word (take 2 f)) else no_status_code);
                msg = (if 2 \<le> length f then drop 2 f else f)
            in if \<not> has_sent_close w1 then go (ws_close msg status w1)
               else (let w2 = w1\<lparr>close_flag := True\<rparr>;
                         w3 = (if close_handler_called w2 then w2 else (emit (On_Close msg status) w2)\<lparr>close_handler_called := True\<rparr>)
                     in (check_destroy closed_abnormally (emit Socket_Closed w3), False)))
         else if opcode w = 9 then go (send_data 10 f w)
         else if opcode w = 10 then go (w\<lparr>pong_received := True\<rparr>)
         else go w)"

definition got_payload :: "ws_app \<Rightarrow> u8 list \<Rightarrow> ws \<Rightarrow> ws" where
  "got_payload app bs w =
     (let w1 = w\<lparr>fragment := fragment w @ bs, remaining_length := remaining_length w - of_nat (length bs)\<rparr>
      in if remaining_length w1 = 0
         then (case handle_fragment app w1 of (w2, on) \<Rightarrow> if on then do_read (w2\<lparr>read_state := MiniHeader\<rparr>) else w2)
         else do_read w1)"

definition got :: "ws_app \<Rightarrow> u8 list \<Rightarrow> ws \<Rightarrow> ws" where
  "got app bs w =
     (case read_state w of
        MiniHeader \<Rightarrow> got_mini_header bs w
      | Len16 \<Rightarrow>
          (let l = htons (le_word bs)
           in do_read (w\<lparr>remaining_length16 := l, remaining_length := ucast l, read_state := Mask\<rparr>))
      | Len64 \<Rightarrow> do_read (w\<lparr>remaining_length := swap64 (le_word bs), read_state := Mask\<rparr>)
      | Mask \<Rightarrow> do_read (w\<lparr>mask_key := bs, read_state := Payload\<rparr>)
      | Payload \<Rightarrow> got_payload app bs w)"

section \<open>Steps\<close>

datatype ws_input =
    Got "u8 list"
  | Read_Error string
  | Run_Posted
  | Write_Done bool
  | Call ws_action

text \<open>What a pending read may be completed with.\<close>

definition completes :: "read_request \<Rightarrow> u8 list \<Rightarrow> bool" where
  "completes r bs \<longleftrightarrow> (case r of At_Most n \<Rightarrow> length bs \<le> n \<and> (bs = [] \<longrightarrow> n = 0) | Exactly n \<Rightarrow> length bs = n)"

definition write_done :: "bool \<Rightarrow> ws \<Rightarrow> ws" where
  "write_done ok w =
     (if ok \<and> \<not> close_flag w
      then (let w1 = do_write (w\<lparr>sending_buffers := []\<rparr>) in if has_sent_close w1 then w1\<lparr>close_flag := True\<rparr> else w1)
      else check_destroy closed_abnormally (w\<lparr>sending_buffers := [], close_flag := True\<rparr>))"

definition ws_step :: "ws_app \<Rightarrow> ws_input \<Rightarrow> ws \<Rightarrow> ws option" where
  "ws_step app i w =
     (case i of
        Got bs \<Rightarrow>
          (case pending w of None \<Rightarrow> None | Some r \<Rightarrow> if completes r bs then Some (got app bs (w\<lparr>pending := None\<rparr>)) else None)
      | Read_Error msg \<Rightarrow> (case pending w of None \<Rightarrow> None | Some _ \<Rightarrow> Some (read_failed msg (w\<lparr>pending := None\<rparr>)))
      | Run_Posted \<Rightarrow>
          (case posted w of [] \<Rightarrow> None | (op, payload) # ps \<Rightarrow> Some (send_data_impl op payload (w\<lparr>posted := ps\<rparr>)))
      | Write_Done ok \<Rightarrow> if sending_buffers w = [] then None else Some (write_done ok w)
      | Call a \<Rightarrow> Some (run_action a w))"

fun ws_run :: "ws_app \<Rightarrow> ws_input list \<Rightarrow> ws \<Rightarrow> ws option" where
  "ws_run app [] w = Some w"
| "ws_run app (i # is) w = (case ws_step app i w of None \<Rightarrow> None | Some w' \<Rightarrow> ws_run app is w')"

section \<open>The handshake\<close>

definition magic_guid :: string where "magic_guid = ''258EAFA5-E914-47DA-95CA-C5AB0DC85B11''"

text \<open>\<open>Sec-WebSocket-Accept\<close>; \<open>s\<close> is the SHA-1 object before its constructor has run \<open>reset\<close>.\<close>

definition accept_key :: "sha1 \<Rightarrow> string \<Rightarrow> string" where
  "accept_key s key = base64encode standard_key (getDigestBytes (processBytes (bytes_of (key @ magic_guid)) (sha1_reset s)))"

text \<open>The subprotocol: the first of the server's that the client asks for, or what the client asked for when mirroring.\<close>

definition choose_subprotocol :: "string list \<Rightarrow> string \<Rightarrow> bool \<Rightarrow> string" where
  "choose_subprotocol protocols requested mirror =
     (let chosen = (if protocols \<noteq> [] \<or> requested \<noteq> []
                    then (case find (\<lambda>p. p \<in> set (split_at requested '', '')) protocols of Some p \<Rightarrow> p | None \<Rightarrow> [])
                    else [])
      in if mirror \<and> requested \<noteq> [] then requested else chosen)"

definition upgrade_response :: "string \<Rightarrow> string \<Rightarrow> string list" where
  "upgrade_response hello subprotocol =
     [''HTTP/1.1 101 Switching Protocols'' @ crlf @ ''Upgrade: websocket'' @ crlf @ ''Connection: Upgrade'' @ crlf @ ''Sec-WebSocket-Accept: '',
      hello, crlf]
     @ (if subprotocol \<noteq> [] then [''Sec-WebSocket-Protocol: '', subprotocol, crlf] else []) @ [crlf]"

text \<open>The constructor; the members \<open>is_binary_\<close>, \<open>mini_header_\<close> and \<open>mask_\<close>, which it leaves alone, start as zeros here.\<close>

definition new_connection :: "u64 \<Rightarrow> ws" where
  "new_connection limit =
     \<lparr>read_state = MiniHeader, pending = None, mini_header = 0, remaining_length16 = 0, remaining_length = 0,
       max_payload = limit, has_mask = False, mask_key = [0, 0, 0, 0], fragment = [], ws_message = [], is_binary = False,
       close_flag = False, has_sent_close = False, has_recv_close = False, pong_received = False,
       close_handler_called = False, write_buffers = [], sending_buffers = [], posted = [], ws_log = []\<rparr>"

text \<open>\<open>start\<close>; \<open>opened\<close> is what the open handler does.\<close>

definition ws_start :: "ws_action list \<Rightarrow> string \<Rightarrow> string \<Rightarrow> ws \<Rightarrow> ws" where
  "ws_start opened hello subprotocol w =
     do_read (fold run_action opened
       (do_write (w\<lparr>write_buffers := write_buffers w @ map bytes_of (upgrade_response hello subprotocol)\<rparr>)))"

text \<open>
  \<open>create\<close> without an accept handler, from the headers \<open>Upgrade\<close>, \<open>Sec-WebSocket-Protocol\<close> and
  \<open>Sec-WebSocket-Key\<close> of the request; \<open>None\<close> when the connection is closed at once.
\<close>

definition ws_create :: "ws_action list \<Rightarrow> sha1 \<Rightarrow> u64 \<Rightarrow> string list \<Rightarrow> bool \<Rightarrow> string \<Rightarrow> string \<Rightarrow> string \<Rightarrow> ws option" where
  "ws_create opened s limit protocols mirror upgrade requested key =
     (if \<not> string_equals upgrade ''websocket'' False then None
      else Some (ws_start opened (accept_key s key) (choose_subprotocol protocols requested mirror) (new_connection limit)))"

end
