(* ===== verification/Websocket_Facts.thy ===== *)
theory Websocket_Facts
  imports Websocket
begin

text \<open>
  Facts about the WebSocket connection: byte order, the header fields, and what reading one frame does.
\<close>

unbundle bit_operations_syntax

section \<open>Byte order\<close>

lemma bit_reversed:
  "bit (le_word (rev (le_bytes n (w :: 'b::len word))) :: 'a::len word) i
    \<longleftrightarrow> i < LENGTH('a) \<and> i < 8 * n \<and> bit w (8 * (n - Suc (i div 8)) + i mod 8)"
proof (cases "i < 8 * n")
  case True
  then have k: "i div 8 < n" by (simp add: less_mult_imp_div_less mult.commute)
  then have "rev (le_bytes n w) ! (i div 8) = ucast (drop_bit (8 * (n - Suc (i div 8))) w)"
    by (simp add: rev_nth le_bytes_nth)
  then show ?thesis using True by (simp add: bit_le_word bit_ucast_iff bit_drop_bit_eq)
next
  case False
  then show ?thesis by (simp add: bit_le_word)
qed

lemma htons_network: "htons (le_word (rev (le_bytes 2 w))) = w"
  unfolding htons_def by (subst le_bytes_le_word [of "rev (le_bytes 2 w)", simplified]) (simp_all add: le_word_le_bytes)

lemma swap64_reversed: "swap64 w = le_word (rev (le_bytes 8 w))"
proof (rule bit_word_eqI)
  fix i :: nat
  assume "i < LENGTH(64)"
  then have i: "i < 64" by simp
  have m: "(0xFFFFFFFF :: u64) = mask 32" by (simp add: mask_eq_exp_minus_1)
  show "bit (swap64 w) i = bit (le_word (rev (le_bytes 8 w)) :: u64) i"
  proof (cases "i < 32")
    case True
    have idx: "32 + (8 * (3 - i div 8) + i mod 8) = 8 * (7 - i div 8) + i mod 8" using True by auto
    have "8 * (3 - i div 8) + i mod 8 < 32" using True by auto
    then have "bit (swap64 w) i = bit w (32 + (8 * (3 - i div 8) + i mod 8))" using True i
      by (simp add: swap64_def htonl_def m bit_reversed bit_simps)
    moreover have "bit (le_word (rev (le_bytes 8 w)) :: u64) i = bit w (8 * (7 - i div 8) + i mod 8)"
      using i by (simp add: bit_reversed)
    ultimately show ?thesis by (simp only: idx)
  next
    case False
    then obtain j where j: "i = j + 4 * 8" using le_Suc_ex [of 32 i] by (auto simp: add.commute)
    then have d: "i div 8 = j div 8 + 4" "i mod 8 = j mod 8" by (simp_all only: div_mult_self1 mod_mult_self1)
    have "8 * (3 - j div 8) + j mod 8 < 32" using i j by auto
    moreover have "\<not> bit (ucast (htonl (ucast (drop_bit 32 w))) :: u64) i" using False by (auto simp: bit_ucast_iff dest: bit_imp_le_length)
    ultimately have "bit (swap64 w) i = bit w (8 * (3 - j div 8) + j mod 8)" using i j
      by (simp add: swap64_def htonl_def m bit_reversed bit_simps)
    moreover have "bit (le_word (rev (le_bytes 8 w)) :: u64) i = bit w (8 * (3 - j div 8) + j mod 8)"
      using i by (simp add: bit_reversed d)
    ultimately show ?thesis by simp
  qed
qed

lemma swap64_network: "swap64 (le_word (rev (le_bytes 8 w))) = w"
  unfolding swap64_reversed
  by (subst le_bytes_le_word [of "rev (le_bytes 8 w)", simplified]) (simp_all add: le_word_le_bytes)

section \<open>Header fields\<close>

lemma header_word: "htons (le_word [a, b]) = le_word [b, a]"
  unfolding htons_def using le_bytes_le_word [of "[a, b]", where ?'a = 16] by (simp add: numeral_2_eq_2 del: le_bytes.simps le_word.simps)

lemma header_bits:
  "bit (0x7f :: u16) n \<longleftrightarrow> n < 7" "bit (0x80 :: u16) n \<longleftrightarrow> n = 7" "bit (0x8000 :: u16) n \<longleftrightarrow> n = 15" "bit (0x0f00 :: u16) n \<longleftrightarrow> 8 \<le> n \<and> n < 12"
  "bit (0x0f :: u16) n \<longleftrightarrow> n < 4" "bit (0x7f :: u8) n \<longleftrightarrow> n < 7" "bit (0x80 :: u8) n \<longleftrightarrow> n = 7" "bit (0x0f :: u8) n \<longleftrightarrow> n < 4"
proof -
  have m: "(0x7f :: u16) = mask 7" "(0x0f00 :: u16) = push_bit 8 (mask 4)" "(0x7f :: u8) = mask 7" "(0x0f :: u8) = mask 4" "(0x0f :: u16) = mask 4"
    by (simp_all add: mask_eq_exp_minus_1)
  show "bit (0x7f :: u16) n \<longleftrightarrow> n < 7" "bit (0x7f :: u8) n \<longleftrightarrow> n < 7" "bit (0x0f :: u8) n \<longleftrightarrow> n < 4" "bit (0x0f :: u16) n \<longleftrightarrow> n < 4"
    unfolding m by (auto simp: bit_mask_iff)
  show "bit (0x0f00 :: u16) n \<longleftrightarrow> 8 \<le> n \<and> n < 12" unfolding m(2) bit_push_bit_iff bit_mask_iff by auto
  show "bit (0x80 :: u16) n \<longleftrightarrow> n = 7" using bit_exp_iff [of 7 n, where ?'a = "16 word"] by auto
  show "bit (0x80 :: u8) n \<longleftrightarrow> n = 7" using bit_exp_iff [of 7 n, where ?'a = "8 word"] by auto
  show "bit (0x8000 :: u16) n \<longleftrightarrow> n = 15" using bit_exp_iff [of 15 n, where ?'a = "16 word"] by auto
qed

lemma bit_header_word: "bit (le_word [b, a] :: u16) n \<longleftrightarrow> (if n < 8 then bit b n else bit a (n - 8))"
  by (auto simp: bit_simps dest: bit_imp_le_length)

lemma header_fields:
  fixes a b :: u8
  shows "(le_word [b, a] :: u16) AND 0x7f = ucast (b AND 0x7f)"
    "(le_word [b, a] :: u16) AND 0x80 = ucast (b AND 0x80)"
    "drop_bit 8 ((le_word [b, a] :: u16) AND 0x0f00) = ucast (a AND 0x0f)"
    "(le_word [b, a] :: u16) AND 0x8000 = push_bit 8 (ucast (a AND 0x80))"
  by (rule bit_word_eqI, simp only: bit_and_iff bit_drop_bit_eq bit_push_bit_iff bit_ucast_iff bit_header_word header_bits o_apply,
      auto simp del: le_word.simps simp: bit_header_word dest: bit_imp_le_length)+

section \<open>Frames of a client\<close>

text \<open>
  A masked frame as the network delivers it to the reads of the connection: the two header bytes,
  the extended length in network order, the mask, and the masked payload in pieces.
\<close>

record frag =
  masking :: "u8 list"
  body :: "u8 list"
  pieces :: "u8 list list"

definition first_byte :: "bool \<Rightarrow> u8 \<Rightarrow> u8" where
  "first_byte fin op = (if fin then 0x80 else 0) OR op"

definition head :: "bool \<Rightarrow> u8 \<Rightarrow> nat \<Rightarrow> u8 list" where
  "head fin op l = [first_byte fin op, 0x80 OR of_nat l]"

definition head_reads :: "bool \<Rightarrow> u8 \<Rightarrow> nat \<Rightarrow> u8 list list" where
  "head_reads fin op n =
     (if n < 126 then [head fin op n]
      else if n < 0x10000 then [head fin op 126, rev (le_bytes 2 (of_nat n :: u16))]
      else [head fin op 127, rev (le_bytes 8 (of_nat n :: u64))])"

definition frame_reads :: "bool \<Rightarrow> u8 \<Rightarrow> frag \<Rightarrow> u8 list list" where
  "frame_reads fin op f = head_reads fin op (length (body f)) @ masking f # pieces f"

definition valid_frag :: "u64 \<Rightarrow> frag \<Rightarrow> bool" where
  "valid_frag limit f \<longleftrightarrow>
     length (masking f) = 4 \<and> length (body f) \<le> unat limit \<and> concat (pieces f) = unmask (masking f) (body f)
     \<and> (if body f = [] then pieces f = [[]] else \<forall>c \<in> set (pieces f). c \<noteq> [] \<and> length c \<le> 4096)"

lemma length_unmask [simp]: "length (unmask k p) = length p"
  by (simp add: unmask_def)

lemma unmask_unmask: "unmask k (unmask k p) = p"
  by (rule nth_equalityI) (simp_all add: unmask_def xor.assoc)

text \<open>The connection between two frames.\<close>

definition idle :: "ws \<Rightarrow> bool" where
  "idle w \<longleftrightarrow> read_state w = MiniHeader \<and> pending w = Some (At_Most 2) \<and> fragment w = [] \<and> \<not> has_recv_close w"

lemma header_flags:
  assumes "op < 16" "l < 128"
  shows "(0x80 OR of_nat l :: u8) AND 0x7f = of_nat l" "(0x80 OR x :: u8) AND 0x80 = 0x80"
    "first_byte fin op AND 0x0f = op" "first_byte fin op AND 0x80 = (if fin then 0x80 else 0)"
proof -
  have "take_bit 7 (of_nat l :: u8) = of_nat l" using assms(2) by (simp add: take_bit_of_nat take_bit_nat_eq_self)
  then have l: "bit (of_nat l :: u8) n \<Longrightarrow> n < 7" for n by (metis bit_take_bit_iff)
  have "unat op < 16" using assms(1) by (simp add: word_less_nat_alt)
  then have "unat (take_bit 4 op) = unat op" by (simp only: unsigned_take_bit_eq) (simp add: take_bit_nat_eq_self)
  then have "take_bit 4 op = op" by (simp only: unsigned_word_eqI)
  then have o: "bit op n \<Longrightarrow> n < 4" for n by (metis bit_take_bit_iff)
  show "(0x80 OR of_nat l :: u8) AND 0x7f = of_nat l"
    by (rule bit_word_eqI, simp only: bit_and_iff bit_or_iff header_bits, use l in auto)
  show "(0x80 OR x :: u8) AND 0x80 = 0x80"
    by (rule bit_word_eqI, simp only: bit_and_iff bit_or_iff header_bits, auto)
  have b: "bit (if fin then 0x80 else 0 :: u8) n \<longleftrightarrow> fin \<and> n = 7" for n
    by (cases fin; simp only: if_True if_False header_bits bit_0_eq bot_fun_def; simp)
  have o7: "\<not> bit op 7" using o [of 7] by auto
  show "first_byte fin op AND 0x0f = op" unfolding first_byte_def
    by (rule bit_word_eqI, simp only: bit_and_iff bit_or_iff b header_bits, use o in auto)
  show "first_byte fin op AND 0x80 = (if fin then 0x80 else 0)" unfolding first_byte_def
    by (rule bit_word_eqI, simp only: bit_and_iff bit_or_iff b header_bits, use o7 in auto)
qed

lemma ws_run_append: "ws_run app (is @ js) w = (case ws_run app is w of None \<Rightarrow> None | Some w' \<Rightarrow> ws_run app js w')"
  by (induction "is" arbitrary: w) (auto split: option.splits)

definition head_word :: "bool \<Rightarrow> u8 \<Rightarrow> nat \<Rightarrow> u16" where
  "head_word fin op l = htons (le_word (head fin op l))"

lemma head_word_fields:
  assumes "op < 16" "l < 128"
  shows "head_word fin op l AND 0x7f = of_nat l" "head_word fin op l AND 0x80 = 0x80"
    "drop_bit 8 (head_word fin op l AND 0x0f00) = ucast op" "head_word fin op l AND 0x8000 \<noteq> 0 \<longleftrightarrow> fin"
proof -
  note h = header_flags [OF assms] header_fields [of "0x80 OR of_nat l" "first_byte fin op"]
  show "head_word fin op l AND 0x7f = of_nat l" unfolding head_word_def head_def header_word h
    using assms(2) by (simp add: unsigned_of_nat take_bit_nat_eq_self)
  show "head_word fin op l AND 0x80 = 0x80" unfolding head_word_def head_def header_word h by simp
  show "drop_bit 8 (head_word fin op l AND 0x0f00) = ucast op" unfolding head_word_def head_def header_word h by simp
  show "head_word fin op l AND 0x8000 \<noteq> 0 \<longleftrightarrow> fin" unfolding head_word_def head_def header_word h by simp
qed

lemma got_head:
  assumes "idle w" "op < 16" "l < 128"
  shows "ws_step app (Got (head fin op l)) w =
    Some (do_read (let w1 = w\<lparr>pending := None, mini_header := head_word fin op l, has_mask := True\<rparr> in
      if l = 127 then w1\<lparr>read_state := Len64\<rparr> else if l = 126 then w1\<lparr>read_state := Len16\<rparr>
      else w1\<lparr>remaining_length := of_nat l, read_state := Mask\<rparr>))"
proof -
  have "length (head fin op l) = 2" "head fin op l \<noteq> []" by (simp_all add: head_def)
  moreover have "of_nat l = (127 :: u16) \<longleftrightarrow> l = 127" "of_nat l = (126 :: u16) \<longleftrightarrow> l = 126" "ucast (of_nat l :: u16) = (of_nat l :: u64)"
    using assms(3) by (simp_all add: word_unat_eq_iff unsigned_of_nat unsigned_ucast_eq take_bit_nat_eq_self)
  moreover define h where "h = head_word fin op l"
  moreover have "htons (le_word (head fin op l)) = h" by (simp add: h_def head_word_def)
  ultimately show ?thesis using assms(1) head_word_fields(1,2) [OF assms(2, 3), of fin, folded h_def]
    unfolding h_def [symmetric] by (simp add: ws_step_def idle_def completes_def got_def got_mini_header_def Let_def)
qed

lemma do_read_mask:
  assumes "read_state w = Mask" "\<not> has_recv_close w" "has_mask w" "\<not> max_payload w < remaining_length w"
  shows "do_read w = w\<lparr>pending := Some (Exactly 4)\<rparr>"
  using assms by (simp add: do_read_def)

lemma head_run:
  assumes i: "idle w" and n: "n \<le> unat (max_payload w)" and o: "op < 16"
  shows "\<exists>l r. l < 128 \<and> ws_run app (map Got (head_reads fin op n)) w =
    Some (w\<lparr>pending := Some (Exactly 4), mini_header := head_word fin op l, has_mask := True, remaining_length := of_nat n,
      remaining_length16 := r, read_state := Mask\<rparr>)"
proof -
  have s: "\<not> has_recv_close w" using i by (simp add: idle_def)
  have "n < 2 ^ 64" using n unsigned_less [of "max_payload w", where ?'a = nat] by simp
  then have big: "\<not> max_payload w < of_nat n" using n by (simp add: word_less_nat_alt unsigned_of_nat take_bit_nat_eq_self)
  consider "n < 126" | "126 \<le> n" "n < 0x10000" | "0x10000 \<le> n" by linarith
  then show ?thesis
  proof cases
    case 1
    then have "ws_run app (map Got (head_reads fin op n)) w =
      Some (w\<lparr>pending := Some (Exactly 4), mini_header := head_word fin op n, has_mask := True, remaining_length := of_nat n,
        remaining_length16 := remaining_length16 w, read_state := Mask\<rparr>)" using s big
      by (simp add: head_reads_def got_head [OF i o] Let_def do_read_mask)
    then show ?thesis using 1 by (intro exI [of _ n] exI [of _ "remaining_length16 w"]) simp
  next
    case 2
    have "ucast (of_nat n :: u16) = (of_nat n :: u64)" using 2 by (simp add: word_unat_eq_iff unsigned_of_nat unsigned_ucast_eq take_bit_nat_eq_self)
    then have "ws_run app (map Got (head_reads fin op n)) w =
      Some (w\<lparr>pending := Some (Exactly 4), mini_header := head_word fin op 126, has_mask := True, remaining_length := of_nat n,
        remaining_length16 := of_nat n, read_state := Mask\<rparr>)" using 2 s big
      by (simp add: head_reads_def got_head [OF i o] Let_def) (simp add: do_read_def ws_step_def completes_def got_def htons_network Let_def del: le_bytes.simps le_word.simps)
    then show ?thesis by (intro exI [of _ 126] exI) simp
  next
    case 3
    then have "ws_run app (map Got (head_reads fin op n)) w =
      Some (w\<lparr>pending := Some (Exactly 4), mini_header := head_word fin op 127, has_mask := True, remaining_length := of_nat n,
        remaining_length16 := remaining_length16 w, read_state := Mask\<rparr>)" using s big
      by (simp add: head_reads_def got_head [OF i o] Let_def) (simp add: do_read_def ws_step_def completes_def got_def swap64_network Let_def del: le_bytes.simps le_word.simps)
    then show ?thesis by (intro exI [of _ 127] exI [of _ "remaining_length16 w"]) simp
  qed
qed

definition handled :: "ws_app \<Rightarrow> ws \<Rightarrow> ws" where
  "handled app w = (case handle_fragment app w of (w2, on) \<Rightarrow> if on then do_read (w2\<lparr>read_state := MiniHeader\<rparr>) else w2)"

lemma payload_run:
  assumes "cs \<noteq> []" "read_state w = Payload" "pending w = Some (At_Most (min 4096 (unat (remaining_length w))))"
    "length (concat cs) = unat (remaining_length w)" "cs = [[]] \<or> (\<forall>c \<in> set cs. c \<noteq> [] \<and> length c \<le> 4096)" "\<not> has_recv_close w"
  shows "ws_run app (map Got cs) w =
    Some (handled app (w\<lparr>pending := None, fragment := fragment w @ concat cs, remaining_length := 0\<rparr>))"
  using assms
proof (induction cs arbitrary: w)
  case Nil
  then show ?case by simp
next
  case (Cons c cs)
  let ?r = "remaining_length w"
  have c: "length c \<le> unat ?r" "length c \<le> 4096" "c = [] \<Longrightarrow> ?r = 0" using Cons.prems(4,5) by (auto simp: unat_eq_zero)
  have l: "unat (?r - of_nat (length c)) = unat ?r - length c"
    using c(1) unsigned_less [of ?r, where ?'a = nat] by (subst unat_sub) (simp_all add: word_le_nat_alt unsigned_of_nat take_bit_nat_eq_self)
  have "completes (At_Most (min 4096 (unat ?r))) c" using c by (auto simp: completes_def)
  then have step: "ws_step app (Got c) w = Some (got_payload app c (w\<lparr>pending := None\<rparr>))"
    using Cons.prems(2,3) by (simp add: ws_step_def got_def)
  show ?case
  proof (cases "cs = []")
    case True
    then have "unat (?r - of_nat (length c)) = 0" using Cons.prems(4) l by simp
    then show ?thesis using True step by (simp add: got_payload_def Let_def handled_def unat_eq_zero)
  next
    case False
    let ?w = "w\<lparr>pending := None, fragment := fragment w @ c, remaining_length := ?r - of_nat (length c)\<rparr>"
    have ne: "\<forall>c \<in> set cs. c \<noteq> [] \<and> length c \<le> 4096" using Cons.prems(5) False by auto
    then have "concat cs \<noteq> []" using False by (cases cs) auto
    then have "0 < length (concat cs)" by (simp only: length_greater_0_conv) simp
    moreover have "length c + length (concat cs) = unat ?r" using Cons.prems(4) by simp
    ultimately have "length c < unat ?r" by linarith
    then have "?r - of_nat (length c) \<noteq> 0" using l by (metis unat_0 zero_less_diff less_numeral_extra(3))
    then have "got_payload app c (w\<lparr>pending := None\<rparr>) = read_payload ?w"
      using Cons.prems(2,6) by (simp add: got_payload_def Let_def do_read_def)
    moreover have "ws_run app (map Got cs) (read_payload ?w) =
      Some (handled app ((read_payload ?w)\<lparr>pending := None, fragment := fragment (read_payload ?w) @ concat cs, remaining_length := 0\<rparr>))"
      using Cons.prems False ne l by (intro Cons.IH) (simp_all add: read_payload_def)
    ultimately show ?thesis using step by (simp add: read_payload_def)
  qed
qed

lemma frame_run:
  assumes i: "idle w" and o: "op < 16" and v: "valid_frag (max_payload w) f"
  shows "\<exists>l r. l < 128 \<and> ws_run app (map Got (frame_reads fin op f)) w =
    Some (handled app (w\<lparr>pending := None, mini_header := head_word fin op l, has_mask := True, remaining_length := 0,
      remaining_length16 := r, read_state := Payload, mask_key := masking f, fragment := unmask (masking f) (body f)\<rparr>))"
proof -
  let ?n = "length (body f)"
  have n: "?n \<le> unat (max_payload w)" "length (masking f) = 4" and p: "concat (pieces f) = unmask (masking f) (body f)"
    "if body f = [] then pieces f = [[]] else \<forall>c \<in> set (pieces f). c \<noteq> [] \<and> length c \<le> 4096"
    using v by (simp_all add: valid_frag_def)
  obtain l r where l: "l < 128" and h: "ws_run app (map Got (head_reads fin op ?n)) w =
    Some (w\<lparr>pending := Some (Exactly 4), mini_header := head_word fin op l, has_mask := True, remaining_length := of_nat ?n,
      remaining_length16 := r, read_state := Mask\<rparr>)" (is "_ = Some ?m")
    using head_run [OF i n(1) o, of app fin] by blast
  let ?p = "read_payload (w\<lparr>pending := None, mini_header := head_word fin op l, has_mask := True, remaining_length := of_nat ?n,
      remaining_length16 := r, read_state := Payload, mask_key := masking f\<rparr>)"
  have s: "\<not> has_recv_close w" "fragment w = []" using i by (simp_all add: idle_def)
  have k: "ws_step app (Got (masking f)) ?m = Some ?p"
    using n(2) s by (simp add: ws_step_def completes_def got_def do_read_def) (simp add: read_payload_def)
  have "?n < 2 ^ 64" using n(1) unsigned_less [of "max_payload w", where ?'a = nat] by simp
  then have u: "unat (of_nat ?n :: u64) = ?n" by (simp add: unsigned_of_nat take_bit_nat_eq_self)
  have "pieces f \<noteq> []" using p by (cases "body f") (auto dest: arg_cong [of _ _ length])
  then have "ws_run app (map Got (pieces f)) ?p = Some (handled app (?p\<lparr>pending := None, fragment := fragment ?p @ concat (pieces f), remaining_length := 0\<rparr>))"
    using p s u by (intro payload_run) (auto simp: read_payload_def split: if_splits)
  moreover have "?p\<lparr>pending := None, fragment := fragment ?p @ concat (pieces f), remaining_length := 0\<rparr> =
    w\<lparr>pending := None, mini_header := head_word fin op l, has_mask := True, remaining_length := 0,
      remaining_length16 := r, read_state := Payload, mask_key := masking f, fragment := unmask (masking f) (body f)\<rparr>"
    using s p by (simp add: read_payload_def)
  ultimately show ?thesis using h k l
    by (intro exI [of _ l] exI [of _ r]) (simp add: frame_reads_def ws_run_append)
qed

section \<open>Messages\<close>

definition messages :: "ws \<Rightarrow> (u8 list \<times> bool) list" where
  "messages w = concat (map (\<lambda>l. case l of On_Message m b \<Rightarrow> [(m, b)] | _ \<Rightarrow> []) (ws_log w))"

definition sends :: "ws_action list \<Rightarrow> (u8 \<times> u8 list) list" where
  "sends as = concat (map (\<lambda>a. case a of Send op p \<Rightarrow> [(op, p)] | _ \<Rightarrow> []) as)"

lemma messages_update [simp]:
  "messages (w\<lparr>read_state := a1\<rparr>) = messages w" "messages (w\<lparr>pending := a2\<rparr>) = messages w" "messages (w\<lparr>mini_header := a3\<rparr>) = messages w"
  "messages (w\<lparr>remaining_length16 := a4\<rparr>) = messages w" "messages (w\<lparr>remaining_length := a5\<rparr>) = messages w" "messages (w\<lparr>has_mask := a6\<rparr>) = messages w"
  "messages (w\<lparr>mask_key := a7\<rparr>) = messages w" "messages (w\<lparr>fragment := a8\<rparr>) = messages w" "messages (w\<lparr>ws_message := a9\<rparr>) = messages w"
  "messages (w\<lparr>is_binary := b1\<rparr>) = messages w" "messages (w\<lparr>has_sent_close := b2\<rparr>) = messages w" "messages (w\<lparr>posted := b3\<rparr>) = messages w"
  "messages (w\<lparr>write_buffers := b4\<rparr>) = messages w" "messages (w\<lparr>sending_buffers := b5\<rparr>) = messages w" "messages (w\<lparr>pong_received := b6\<rparr>) = messages w"
  by (simp_all add: messages_def)

lemma do_write_fields [simp]:
  "read_state (do_write w) = read_state w" "pending (do_write w) = pending w" "fragment (do_write w) = fragment w"
  "has_recv_close (do_write w) = has_recv_close w" "has_sent_close (do_write w) = has_sent_close w"
  "ws_message (do_write w) = ws_message w" "max_payload (do_write w) = max_payload w" "is_binary (do_write w) = is_binary w"
  "posted (do_write w) = posted w" "messages (do_write w) = messages w" "remaining_length (do_write w) = remaining_length w"
  "close_handler_called (do_write w) = close_handler_called w" "mini_header (do_write w) = mini_header w" "has_mask (do_write w) = has_mask w"
  "close_flag (do_write w) = close_flag w"
  by (simp_all add: do_write_def emit_def messages_def)

lemma run_action_fields:
  assumes "\<not> has_recv_close w"
  shows "read_state (run_action a w) = read_state w" "pending (run_action a w) = pending w" "fragment (run_action a w) = fragment w"
    "\<not> has_recv_close (run_action a w)" "ws_message (run_action a w) = ws_message w" "max_payload (run_action a w) = max_payload w"
    "posted (run_action a w) = posted w @ sends [a]" "messages (run_action a w) = messages w"
  using assms by (cases a; simp add: run_action_def send_data_def ws_close_def sends_def Let_def)+

lemma run_actions_fields:
  assumes "\<not> has_recv_close w"
  shows "read_state (fold run_action as w) = read_state w \<and> pending (fold run_action as w) = pending w \<and> fragment (fold run_action as w) = fragment w
    \<and> \<not> has_recv_close (fold run_action as w) \<and> ws_message (fold run_action as w) = ws_message w \<and> max_payload (fold run_action as w) = max_payload w
    \<and> posted (fold run_action as w) = posted w @ sends as \<and> messages (fold run_action as w) = messages w"
  using assms
proof (induction as arbitrary: w)
  case Nil
  then show ?case by (simp add: sends_def)
next
  case (Cons a as)
  show ?case using Cons.IH [OF run_action_fields(4) [OF Cons.prems]] run_action_fields [OF Cons.prems, of a] by (simp add: sends_def)
qed

lemma emit_fields [simp]:
  "read_state (emit l w) = read_state w" "pending (emit l w) = pending w" "fragment (emit l w) = fragment w"
  "has_recv_close (emit l w) = has_recv_close w" "has_sent_close (emit l w) = has_sent_close w"
  "ws_message (emit l w) = ws_message w" "max_payload (emit l w) = max_payload w" "posted (emit l w) = posted w"
  "messages (emit (On_Message m b) w) = messages w @ [(m, b)]"
  by (simp_all add: emit_def messages_def)

text \<open>What an application sees of the connection between two frames.\<close>

definition view :: "ws \<Rightarrow> bool \<times> u64 \<times> u8 list \<times> (u8 list \<times> bool) list \<times> (u8 \<times> u8 list) list" where
  "view w = (idle w, max_payload w, ws_message w, messages w, posted w)"

lemma do_read_idle:
  assumes "\<not> has_recv_close w" "fragment w = []"
  shows "view (do_read (w\<lparr>read_state := MiniHeader\<rparr>)) = (True, max_payload w, ws_message w, messages w, posted w)"
    "is_binary (do_read (w\<lparr>read_state := MiniHeader\<rparr>)) = is_binary w"
  using assms by (simp_all add: do_read_def view_def idle_def)

lemma deliver_view:
  assumes "\<not> has_recv_close w"
  shows "\<not> has_recv_close (deliver app w) \<and> max_payload (deliver app w) = max_payload w \<and>
    (if is_FIN w
     then ws_message (deliver app w) = [] \<and> messages (deliver app w) = messages w @ [(ws_message w @ fragment w, is_binary w)]
       \<and> posted (deliver app w) = posted w @ sends (app (ws_message w @ fragment w) (is_binary w))
     else deliver app w = w\<lparr>ws_message := ws_message w @ fragment w\<rparr>)"
proof -
  have f: "is_FIN (w\<lparr>ws_message := m\<rparr>) = is_FIN w" for m by (simp add: is_FIN_def)
  let ?m = "ws_message w @ fragment w"
  show ?thesis
    using run_actions_fields [of "emit (On_Message ?m (is_binary w)) (w\<lparr>ws_message := ?m\<rparr>)" "app ?m (is_binary w)"] assms
    by (simp add: deliver_def Let_def f)
qed

lemma data_frame:
  assumes i: "idle w" and o: "op \<in> {0, 1, 2}" and v: "valid_frag (max_payload w) f"
    and b: "b = (if op = 0 then is_binary w else op = 2)" and m: "m = ws_message w @ body f"
  shows "\<exists>w'. ws_run app (map Got (frame_reads fin op f)) w = Some w' \<and>
    view w' = (True, max_payload w, if fin then [] else m, messages w @ (if fin then [(m, b)] else []),
      posted w @ (if fin then sends (app m b) else [])) \<and> (\<not> fin \<longrightarrow> is_binary w' = b)"
proof -
  have o16: "op < 16" using o by auto
  obtain l r where l: "l < 128" and run: "ws_run app (map Got (frame_reads fin op f)) w =
    Some (handled app (w\<lparr>pending := None, mini_header := head_word fin op l, has_mask := True, remaining_length := 0,
      remaining_length16 := r, read_state := Payload, mask_key := masking f, fragment := unmask (masking f) (body f)\<rparr>))" (is "_ = Some (handled app ?h)")
    using frame_run [OF i o16 v] by blast
  define d where "d = ?h\<lparr>fragment := body f, is_binary := b\<rparr>"
  have n: "\<not> has_recv_close d" using i by (simp add: idle_def d_def)
  have op: "opcode (?h\<lparr>fragment := body f\<rparr>) = ucast op" and fin: "is_FIN d \<longleftrightarrow> fin"
    using head_word_fields [OF o16 l, of fin] by (simp_all add: opcode_def is_FIN_def d_def)
  have "?h\<lparr>fragment := body f\<rparr> = d" if "op = 0" using that b by (simp add: d_def)
  then have "handle_fragment app ?h = ((deliver app d)\<lparr>fragment := []\<rparr>, True)"
    using o op b by (auto simp: handle_fragment_def Let_def unmask_unmask d_def)
  then have h: "handled app ?h = do_read ((deliver app d)\<lparr>fragment := [], read_state := MiniHeader\<rparr>)" by (simp add: handled_def)
  have d: "ws_message d = ws_message w" "fragment d = body f" "is_binary d = b" "messages d = messages w" "posted d = posted w" "max_payload d = max_payload w"
    by (simp_all add: d_def)
  note dv = deliver_view [OF n, of app, unfolded fin d, folded m]
  show ?thesis
    using run h do_read_idle [of "(deliver app d)\<lparr>fragment := []\<rparr>"] dv d n by (cases fin) simp_all
qed

lemma control_frame:
  assumes i: "idle w" and v: "valid_frag (max_payload w) f" and o: "op \<in> {9, 10}"
  shows "\<exists>w'. ws_run app (map Got (frame_reads True op f)) w = Some w' \<and>
    view w' = (True, max_payload w, ws_message w, messages w, posted w @ (if op = 9 then [(10, body f)] else [])) \<and> is_binary w' = is_binary w"
proof -
  have o16: "op < 16" using o by auto
  obtain l r where l: "l < 128" and run: "ws_run app (map Got (frame_reads True op f)) w =
    Some (handled app (w\<lparr>pending := None, mini_header := head_word True op l, has_mask := True, remaining_length := 0,
      remaining_length16 := r, read_state := Payload, mask_key := masking f, fragment := unmask (masking f) (body f)\<rparr>))" (is "_ = Some (handled app ?h)")
    using frame_run [OF i o16 v] by blast
  define d where "d = ?h\<lparr>fragment := body f\<rparr>"
  have n: "\<not> has_recv_close d" using i by (simp add: idle_def d_def)
  have op: "opcode d = ucast op" using head_word_fields [OF o16 l, of True] by (simp add: opcode_def d_def)
  define c where "c = (if op = 9 then send_data 10 (body f) d else d\<lparr>pong_received := True\<rparr>)\<lparr>fragment := []\<rparr>"
  have "handle_fragment app ?h = (c, True)"
  proof (cases "op = 9")
    case True
    then have "opcode d = 9" using op by simp
    then show ?thesis using True unfolding c_def by (simp add: handle_fragment_def Let_def unmask_unmask d_def)
  next
    case False
    then have "opcode d = 10" using o op by simp
    then show ?thesis using False unfolding c_def by (simp add: handle_fragment_def Let_def unmask_unmask d_def)
  qed
  then have h: "handled app ?h = do_read (c\<lparr>read_state := MiniHeader\<rparr>)" by (simp add: handled_def)
  have dd: "ws_message d = ws_message w" "is_binary d = is_binary w" "messages d = messages w" "posted d = posted w" "max_payload d = max_payload w"
    by (simp_all add: d_def)
  have c: "\<not> has_recv_close c" "fragment c = []" "ws_message c = ws_message w" "is_binary c = is_binary w" "messages c = messages w"
    "posted c = posted w @ (if op = 9 then [(10, body f)] else [])" "max_payload c = max_payload w"
    using n dd by (cases "op = 9"; simp add: c_def send_data_def)+
  show ?thesis using run do_read_idle [OF c(1,2), unfolded c] unfolding h by blast
qed

text \<open>A client's message: data frames, the last with FIN, with control frames between them.\<close>

datatype client_frame = Data frag | Ping frag | Pong frag

fun client_frag :: "client_frame \<Rightarrow> frag" where
  "client_frag (Data f) = f"
| "client_frag (Ping f) = f"
| "client_frag (Pong f) = f"

fun data_of :: "client_frame \<Rightarrow> u8 list" where
  "data_of (Data f) = body f"
| "data_of _ = []"

fun pongs_of :: "client_frame \<Rightarrow> (u8 \<times> u8 list) list" where
  "pongs_of (Ping f) = [(10, body f)]"
| "pongs_of _ = []"

fun message_reads :: "u8 \<Rightarrow> client_frame list \<Rightarrow> frag \<Rightarrow> u8 list list" where
  "message_reads op [] lst = frame_reads True op lst"
| "message_reads op (Data f # fs) lst = frame_reads False op f @ message_reads 0 fs lst"
| "message_reads op (Ping f # fs) lst = frame_reads True 9 f @ message_reads op fs lst"
| "message_reads op (Pong f # fs) lst = frame_reads True 10 f @ message_reads op fs lst"

lemma message_run:
  assumes "idle w" "\<forall>f \<in> set fs. valid_frag (max_payload w) (client_frag f)" "valid_frag (max_payload w) lst"
    "op \<in> {0, 1, 2}" "b = (if op = 0 then is_binary w else op = 2)" "m = ws_message w @ concat (map data_of fs) @ body lst"
  shows "\<exists>w'. ws_run app (map Got (message_reads op fs lst)) w = Some w' \<and>
    view w' = (True, max_payload w, [], messages w @ [(m, b)], posted w @ concat (map pongs_of fs) @ sends (app m b))"
  using assms
proof (induction op fs lst arbitrary: w rule: message_reads.induct)
  case (1 op lst)
  then show ?case using data_frame [OF 1(1) 1(4) 1(3) 1(5), of m app True] by auto
next
  case (2 op f fs lst)
  have v: "valid_frag (max_payload w) f" using 2(3) by simp
  obtain w1 where r: "ws_run app (map Got (frame_reads False op f)) w = Some w1" and
    w1: "view w1 = (True, max_payload w, ws_message w @ body f, messages w, posted w)" "is_binary w1 = b"
    using data_frame [OF 2(2) 2(5) v 2(6) refl, of app False] by auto
  have "\<exists>w'. ws_run app (map Got (message_reads 0 fs lst)) w1 = Some w' \<and>
    view w' = (True, max_payload w1, [], messages w1 @ [(m, b)], posted w1 @ concat (map pongs_of fs) @ sends (app m b))"
    using 2(3,4,7) w1 by (intro 2(1)) (auto simp: view_def)
  then show ?case using r w1 by (auto simp: ws_run_append view_def)
next
  case (3 op f fs lst)
  have v: "valid_frag (max_payload w) f" using 3(3) by simp
  obtain w1 where r: "ws_run app (map Got (frame_reads True 9 f)) w = Some w1" and
    w1: "view w1 = (True, max_payload w, ws_message w, messages w, posted w @ [(10, body f)])" "is_binary w1 = is_binary w"
    using control_frame [OF 3(2) v, of 9 app] by auto
  have "\<exists>w'. ws_run app (map Got (message_reads op fs lst)) w1 = Some w' \<and>
    view w' = (True, max_payload w1, [], messages w1 @ [(m, b)], posted w1 @ concat (map pongs_of fs) @ sends (app m b))"
    using 3(3,4,5,6,7) w1 by (intro 3(1)) (auto simp: view_def)
  then show ?case using r w1 by (auto simp: ws_run_append view_def)
next
  case (4 op f fs lst)
  have v: "valid_frag (max_payload w) f" using 4(3) by simp
  obtain w1 where r: "ws_run app (map Got (frame_reads True 10 f)) w = Some w1" and
    w1: "view w1 = (True, max_payload w, ws_message w, messages w, posted w)" "is_binary w1 = is_binary w"
    using control_frame [OF 4(2) v, of 10 app] by auto
  have "\<exists>w'. ws_run app (map Got (message_reads op fs lst)) w1 = Some w' \<and>
    view w' = (True, max_payload w1, [], messages w1 @ [(m, b)], posted w1 @ concat (map pongs_of fs) @ sends (app m b))"
    using 4(3,4,5,6,7) w1 by (intro 4(1)) (auto simp: view_def)
  then show ?case using r w1 by (auto simp: ws_run_append view_def)
qed

section \<open>The reader's buffer\<close>

definition core :: "ws \<Rightarrow> read_state \<times> read_request option \<times> u8 list \<times> u64 \<times> u64" where
  "core w = (read_state w, pending w, fragment w, remaining_length w, max_payload w)"

lemma core_emit [simp]: "core (emit l w) = core w"
  by (simp add: core_def emit_def)

lemma core_do_write [simp]: "core (do_write w) = core w"
  by (simp add: core_def)

lemma core_check_destroy [simp]: "core (check_destroy s w) = core w"
  by (simp add: check_destroy_def)

lemma core_update [simp]:
  "core (w\<lparr>has_sent_close := b1\<rparr>) = core w" "core (w\<lparr>close_handler_called := b2\<rparr>) = core w" "core (w\<lparr>write_buffers := b3\<rparr>) = core w"
  "core (w\<lparr>posted := b4\<rparr>) = core w" "core (w\<lparr>close_flag := b5\<rparr>) = core w" "core (w\<lparr>sending_buffers := b6\<rparr>) = core w"
  "core (w\<lparr>ws_message := b7\<rparr>) = core w" "core (w\<lparr>is_binary := b8\<rparr>) = core w" "core (w\<lparr>has_recv_close := b9\<rparr>) = core w"
  "core (w\<lparr>pong_received := c1\<rparr>) = core w"
  by (simp_all add: core_def)

lemma core_ws_close [simp]: "core (ws_close m s w) = core w"
  by (simp add: ws_close_def Let_def)

lemma core_run_action [simp]: "core (run_action a w) = core w"
  by (cases a) (simp_all add: run_action_def send_data_def)

lemma core_run_actions [simp]: "core (fold run_action as w) = core w"
  by (induction as arbitrary: w) simp_all

lemma core_deliver [simp]: "core (deliver app w) = core w"
  by (simp add: deliver_def Let_def)

lemma core_read_failed: "core (read_failed m w) = core w"
  by (simp add: read_failed_def Let_def)

text \<open>Between a completion and the next read, and while a read is pending.\<close>

definition between_reads :: "u64 \<Rightarrow> ws \<Rightarrow> bool" where
  "between_reads limit w \<longleftrightarrow> max_payload w = limit \<and> pending w = None \<and> length (fragment w) \<le> unat limit"

definition ready :: "u64 \<Rightarrow> ws \<Rightarrow> bool" where
  "ready limit w \<longleftrightarrow> between_reads limit w \<and>
     (if read_state w = Payload then length (fragment w) + unat (remaining_length w) \<le> unat limit else fragment w = [])"

definition reading :: "u64 \<Rightarrow> ws \<Rightarrow> bool" where
  "reading limit w \<longleftrightarrow> between_reads limit w \<or> (max_payload w = limit \<and>
     (case read_state w of
        Payload \<Rightarrow> pending w = Some (At_Most (min 4096 (unat (remaining_length w)))) \<and> length (fragment w) + unat (remaining_length w) \<le> unat limit
      | Mask \<Rightarrow> fragment w = [] \<and> unat (remaining_length w) \<le> unat limit
      | _ \<Rightarrow> fragment w = []))"

lemma reading_core: "core w = core w' \<Longrightarrow> reading limit w \<longleftrightarrow> reading limit w'"
  by (cases "read_state w'") (simp_all add: core_def reading_def between_reads_def)

lemma between_reads_core: "core w = core w' \<Longrightarrow> between_reads limit w \<longleftrightarrow> between_reads limit w'"
  by (simp add: core_def between_reads_def)

lemma reading_do_read:
  assumes "ready limit w"
  shows "reading limit (do_read w)"
proof (cases "has_sent_close w \<and> has_recv_close w")
  case True
  have "core (do_read w) = core w" using True by (simp add: do_read_def)
  then show ?thesis using assms reading_core by (simp add: ready_def reading_def)
next
  case False
  show ?thesis
  proof (cases "read_state w = Mask \<and> max_payload w < remaining_length w")
    case True
    then have "core (do_read w) = core w" using False by (auto simp: do_read_def)
    then show ?thesis using assms reading_core by (simp add: ready_def reading_def)
  next
    case fits: False
    have d: "do_read w = (case read_state w of
        MiniHeader \<Rightarrow> w\<lparr>mini_header := 0, pending := Some (At_Most 2)\<rparr>
      | Len16 \<Rightarrow> w\<lparr>remaining_length := 0, remaining_length16 := 0, pending := Some (Exactly 2)\<rparr>
      | Len64 \<Rightarrow> w\<lparr>pending := Some (Exactly 8)\<rparr>
      | Mask \<Rightarrow> if has_mask w then w\<lparr>pending := Some (Exactly 4)\<rparr> else read_payload (w\<lparr>read_state := Payload\<rparr>)
      | Payload \<Rightarrow> read_payload w)"
      unfolding do_read_def if_not_P [OF False] using fits by (cases "read_state w"; simp)
    have m: "max_payload w = limit" using assms by (simp add: ready_def between_reads_def)
    have f: "if read_state w = Payload then length (fragment w) + unat (remaining_length w) \<le> unat limit else fragment w = []"
      using assms by (simp add: ready_def)
    have r: "read_state w = Mask \<Longrightarrow> unat (remaining_length w) \<le> unat limit" using fits m by (simp add: word_le_nat_alt linorder_not_less)
    show ?thesis unfolding d using m f r
      by (cases "read_state w"; cases "has_mask w"; simp add: read_payload_def reading_def)
  qed
qed

lemma handle_fragment_reading:
  assumes "between_reads limit w"
  shows "let (w', on) = handle_fragment app w in between_reads limit w' \<and> (on \<longrightarrow> fragment w' = [])"
proof -
  have go: "between_reads limit x \<Longrightarrow> between_reads limit (x\<lparr>fragment := []\<rparr>)" for x by (simp add: between_reads_def)
  define v where "v = (if has_mask w then w\<lparr>fragment := unmask (mask_key w) (fragment w)\<rparr> else w)"
  have "between_reads limit v" using assms by (simp add: v_def between_reads_def)
  then have "core x = core v \<Longrightarrow> between_reads limit (x\<lparr>fragment := []\<rparr>)" "core x = core v \<Longrightarrow> between_reads limit x" for x
    using go between_reads_core by blast+
  then show ?thesis unfolding handle_fragment_def v_def [symmetric] by (simp add: Let_def send_data_def)
qed

lemma reading_got_payload:
  assumes "between_reads limit w" "read_state w = Payload" "length (fragment w) + unat (remaining_length w) \<le> unat limit"
    "length bs \<le> unat (remaining_length w)"
  shows "reading limit (got_payload app bs w)"
proof -
  let ?r = "remaining_length w"
  define v where "v = w\<lparr>fragment := fragment w @ bs, remaining_length := ?r - of_nat (length bs)\<rparr>"
  have l: "unat (?r - of_nat (length bs)) = unat ?r - length bs"
    using assms(4) unsigned_less [of ?r, where ?'a = nat] by (subst unat_sub) (simp_all add: word_le_nat_alt unsigned_of_nat take_bit_nat_eq_self)
  have v: "ready limit v" "between_reads limit v" using assms l by (simp_all add: v_def ready_def between_reads_def)
  obtain w' on where h: "handle_fragment app v = (w', on)" by fastforce
  have "between_reads limit w'" "on \<Longrightarrow> fragment w' = []" using handle_fragment_reading [OF v(2), of app] h by simp_all
  then have "reading limit (if on then do_read (w'\<lparr>read_state := MiniHeader\<rparr>) else w')"
    using reading_do_read [of limit "w'\<lparr>read_state := MiniHeader\<rparr>"] by (simp add: ready_def between_reads_def reading_def)
  then show ?thesis using reading_do_read [OF v(1)] h by (simp add: got_payload_def v_def [symmetric])
qed

lemma reading_got:
  assumes "reading limit w" "pending w = Some r" "completes r bs"
  shows "reading limit (got app bs (w\<lparr>pending := None\<rparr>))"
proof -
  let ?w = "w\<lparr>pending := None\<rparr>"
  have m: "max_payload w = limit" and f: "length (fragment w) \<le> unat limit"
    using assms(1,2) by (auto simp: reading_def between_reads_def split: read_state.splits)
  show ?thesis
  proof (cases "read_state w")
    case Payload
    then have "length bs \<le> unat (remaining_length w)" "length (fragment w) + unat (remaining_length w) \<le> unat limit"
      using assms by (auto simp: reading_def between_reads_def completes_def)
    then show ?thesis using Payload reading_got_payload [of limit ?w bs app] m f by (simp add: got_def between_reads_def)
  next
    case MiniHeader
    then have "fragment w = []" using assms by (simp add: reading_def between_reads_def)
    then show ?thesis using MiniHeader m unfolding got_def by (auto simp: got_mini_header_def Let_def ready_def between_reads_def intro!: reading_do_read)
  next
    case Len16
    then have "fragment w = []" using assms by (simp add: reading_def between_reads_def)
    then show ?thesis using Len16 m unfolding got_def by (auto simp: Let_def ready_def between_reads_def intro!: reading_do_read)
  next
    case Len64
    then have "fragment w = []" using assms by (simp add: reading_def between_reads_def)
    then show ?thesis using Len64 m unfolding got_def by (auto simp: ready_def between_reads_def intro!: reading_do_read)
  next
    case Mask
    then have "fragment w = []" "unat (remaining_length w) \<le> unat limit" using assms by (simp_all add: reading_def between_reads_def)
    then show ?thesis using Mask m unfolding got_def by (auto simp: ready_def between_reads_def intro!: reading_do_read)
  qed
qed

lemma reading_step:
  assumes "reading limit w" "ws_step app i w = Some w'"
  shows "reading limit w'"
proof (cases i)
  case (Got bs)
  then show ?thesis using assms reading_got by (auto simp: ws_step_def split: option.splits if_splits)
next
  case (Read_Error m)
  have "reading limit (w\<lparr>pending := None\<rparr>)" using assms(1) by (auto simp: reading_def between_reads_def split: read_state.splits)
  then show ?thesis using assms Read_Error reading_core [OF core_read_failed] by (auto simp: ws_step_def split: option.splits)
next
  case Run_Posted
  then have "core w' = core w" using assms(2) by (auto simp: ws_step_def send_data_impl_def split: list.splits)
  then show ?thesis using assms(1) reading_core by blast
next
  case (Write_Done ok)
  then have "core w' = core w" using assms(2) by (auto simp: ws_step_def write_done_def Let_def split: if_splits)
  then show ?thesis using assms(1) reading_core by blast
next
  case (Call a)
  then have "core w' = core w" using assms(2) by (auto simp: ws_step_def)
  then show ?thesis using assms(1) reading_core by blast
qed

lemma reading_run: "reading limit w \<Longrightarrow> ws_run app is w = Some w' \<Longrightarrow> reading limit w'"
  by (induction "is" arbitrary: w) (auto split: option.splits dest: reading_step)

lemma reading_start: "reading limit (ws_start opened hello sub (new_connection limit))"
proof -
  let ?w = "fold run_action opened (do_write ((new_connection limit)\<lparr>write_buffers := write_buffers (new_connection limit) @ map bytes_of (upgrade_response hello sub)\<rparr>))"
  have "core ?w = core (new_connection limit)" by simp
  then have "ready limit ?w" by (simp add: core_def ready_def between_reads_def new_connection_def)
  then show ?thesis unfolding ws_start_def by (rule reading_do_read)
qed

end
