(* ===== verification/Websocket_Properties.thy ===== *)
theory Websocket_Properties
  imports Websocket_Facts
begin

text \<open>
  Properties of the WebSocket connection and of the SHA-1 and Base64 code its handshake uses.
\<close>

unbundle bit_operations_syntax

section \<open>A decoder for frame headers after RFC 6455\<close>

definition be_nat :: "u8 list \<Rightarrow> nat" where
  "be_nat bs = foldl (\<lambda>a b. a * 256 + unat b) 0 bs"

text \<open>FIN, mask flag, opcode, payload length and what follows.\<close>

definition rfc_head :: "u8 list \<Rightarrow> (bool \<times> bool \<times> u8 \<times> nat \<times> u8 list) option" where
  "rfc_head bs =
     (case bs of
        b0 # b1 # r \<Rightarrow>
          (let l = unat (b1 AND 0x7f); k = (if l = 126 then 2 else if l = 127 then 8 else 0)
           in if length r < k then None
              else Some (b0 AND 0x80 \<noteq> 0, b1 AND 0x80 \<noteq> 0, b0 AND 0x0f, if k = 0 then l else be_nat (take k r), drop k r))
      | _ \<Rightarrow> None)"

fun le_nat :: "u8 list \<Rightarrow> nat" where
  "le_nat [] = 0"
| "le_nat (b # bs) = unat b + 256 * le_nat bs"

lemma be_nat_rev: "be_nat (rev bs) = le_nat bs"
proof -
  have "foldr (\<lambda>b a. a * 256 + unat b) bs 0 = le_nat bs" by (induction bs) auto
  then show ?thesis by (simp add: be_nat_def foldl_conv_foldr)
qed

lemma le_nat_le_bytes: "le_nat (le_bytes k w) = unat w mod 256 ^ k"
proof (induction k arbitrary: w)
  case 0
  then show ?case by simp
next
  case (Suc k)
  have "unat (ucast w :: u8) = unat w mod 256" by (simp add: unsigned_ucast_eq take_bit_eq_mod)
  moreover have "unat (drop_bit 8 w) = unat w div 256" by (subst unat_drop_bit_eq) (simp add: drop_bit_eq_div)
  ultimately show ?case using Suc.IH [of "drop_bit 8 w"] by (simp add: mod_mult2_eq)
qed

lemma htons_bytes: "le_bytes 2 (htons w) = rev (le_bytes 2 w)"
  unfolding htons_def using le_bytes_le_word [of "rev (le_bytes 2 w)", where ?'a = 16] by simp

lemma swap64_bytes: "le_bytes 8 (swap64 w) = rev (le_bytes 8 w)"
  unfolding swap64_reversed using le_bytes_le_word [of "rev (le_bytes 8 w)", where ?'a = 64] by simp

lemma first_byte_plus:
  assumes "op < 16"
  shows "0x80 + op = first_byte True op"
proof -
  have "unat op < 16" using assms by (simp add: word_less_nat_alt)
  then have "unat (take_bit 4 op) = unat op" by (simp only: unsigned_take_bit_eq) (simp add: take_bit_nat_eq_self)
  then have "take_bit 4 op = op" by (simp only: unsigned_word_eqI)
  then have b: "bit op n \<Longrightarrow> n < 4" for n by (metis bit_take_bit_iff)
  have "\<not> bit op 7" using b [of 7] by auto
  then have "(0x80 :: u8) AND op = 0" by (intro bit_word_eqI) (simp only: bit_and_iff header_bits, auto)
  then show ?thesis using word_plus_and_or [of "0x80 :: u8" op] by (simp add: first_byte_def)
qed

lemma short_length:
  assumes "l < 128"
  shows "unat ((of_nat l :: u8) AND 0x7f) = l" "(of_nat l :: u8) AND 0x80 = 0"
proof -
  have t: "unat (of_nat l :: u8) = l" using assms by (simp add: unsigned_of_nat take_bit_nat_eq_self)
  have m: "(0x7f :: u8) = mask 7" by (simp add: mask_eq_exp_minus_1)
  have "unat ((of_nat l :: u8) AND 0x7f) = unat (take_bit 7 (of_nat l :: u8))" by (simp only: m take_bit_eq_mask)
  also have "\<dots> = l" using assms by (simp only: unsigned_take_bit_eq t) (simp add: take_bit_nat_eq_self)
  finally show "unat ((of_nat l :: u8) AND 0x7f) = l" .
  have "take_bit 7 (of_nat l :: u8) = of_nat l" using assms by (simp add: take_bit_of_nat take_bit_nat_eq_self)
  then have "\<not> bit (of_nat l :: u8) 7" by (metis bit_take_bit_iff less_irrefl)
  then show "(of_nat l :: u8) AND 0x80 = 0" by (intro bit_word_eqI) (simp only: bit_and_iff header_bits, auto)
qed

text \<open>C17: The header that \<open>build_header\<close> writes is read by a decoder after RFC 6455 as the header of one final, unmasked frame with the given opcode and payload length, for every length of a string and in the shortest form for it; what follows the header is not touched.\<close>

theorem header_decoded:
  assumes "op < 16" "n < 2 ^ 64"
  shows "rfc_head (build_header op n @ rest) = Some (True, False, op, n, rest) \<and>
    length (build_header op n) = (if n < 126 then 2 else if n < 65536 then 4 else 10)"
proof -
  note f = first_byte_plus [OF assms(1)] header_flags(3,4) [OF assms(1), of 0 True]
  consider "n < 126" | "126 \<le> n" "n < 65536" | "65536 \<le> n" by linarith
  then show ?thesis
  proof cases
    case 1
    then show ?thesis using f short_length [of n] by (simp add: build_header_def rfc_head_def Let_def)
  next
    case 2
    have "unat (of_nat n :: u16) mod 256 ^ 2 = n" using 2 by (simp add: unsigned_of_nat take_bit_nat_eq_self)
    then have "be_nat (le_bytes 2 (htons (of_nat n))) = n" by (simp only: htons_bytes be_nat_rev le_nat_le_bytes)
    then show ?thesis using 2 f short_length [of 126] by (simp add: build_header_def rfc_head_def Let_def del: le_bytes.simps)
  next
    case 3
    have "unat (of_nat n :: u64) mod 256 ^ 8 = n" using assms(2) by (simp add: unsigned_of_nat take_bit_nat_eq_self)
    then have "be_nat (le_bytes 8 (swap64 (of_nat n))) = n" by (simp only: swap64_bytes be_nat_rev le_nat_le_bytes)
    then show ?thesis using 3 f short_length [of 127] by (simp add: build_header_def rfc_head_def Let_def del: le_bytes.simps)
  qed
qed

lemma header_decoded_witness: "rfc_head (build_header 2 70000 @ [7]) = Some (True, False, 2, 70000, [7])"
  using header_decoded [of 2 70000 "[7]"] by simp

section \<open>Messages\<close>

text \<open>C18: A client's message arrives as it was sent, whatever number of frames it takes, whatever the sizes of the reads that bring their payloads, and with pings and pongs between the frames: the message handler is called once, with the concatenation of the unmasked payloads and the type of the first frame, each ping is answered by a pong with its payload, posted in order and before what the handler sends, and the connection is ready for the next frame with nothing of the message left.\<close>

theorem message_delivered:
  assumes "idle w" "ws_message w = []" "op \<in> {1, 2}"
    "\<forall>f \<in> set fs. valid_frag (max_payload w) (client_frag f)" "valid_frag (max_payload w) lst"
  shows "\<exists>w'. ws_run app (map Got (message_reads op fs lst)) w = Some w' \<and> idle w' \<and> ws_message w' = [] \<and>
    messages w' = messages w @ [(concat (map data_of fs) @ body lst, op = 2)] \<and>
    posted w' = posted w @ concat (map pongs_of fs) @ sends (app (concat (map data_of fs) @ body lst) (op = 2))"
  using message_run [OF assms(1,4,5), of op "op = 2" "concat (map data_of fs) @ body lst" app] assms(2,3) by (auto simp: view_def)

definition sample_frag :: "u8 list \<Rightarrow> frag" where
  "sample_frag b = \<lparr>masking = [1, 2, 3, 4], body = b, pieces = [take 1 (unmask [1, 2, 3, 4] b), drop 1 (unmask [1, 2, 3, 4] b)]\<rparr>"

lemma sample_valid: "2 \<le> length b \<Longrightarrow> length b \<le> 1000 \<Longrightarrow> valid_frag 1000 (sample_frag b)"
  by (cases b) (auto simp: valid_frag_def sample_frag_def unmask_def)

lemma sample_idle: "idle (do_read (new_connection 1000)) \<and> ws_message (do_read (new_connection 1000)) = []"
  by (simp add: idle_def do_read_def new_connection_def)

lemma message_delivered_witness:
  "\<exists>w'. ws_run (\<lambda>m b. [Send 1 m]) (map Got (message_reads 1 [Data (sample_frag [72, 105]), Ping (sample_frag [1, 2])] (sample_frag [33, 33]))) (do_read (new_connection 1000)) = Some w' \<and>
    messages w' = [([72, 105, 33, 33], False)] \<and> posted w' = [(10, [1, 2]), (1, [72, 105, 33, 33])]"
proof -
  have "max_payload (do_read (new_connection 1000)) = 1000" "messages (do_read (new_connection 1000)) = []" "posted (do_read (new_connection 1000)) = []"
    by (simp_all add: do_read_def new_connection_def messages_def)
  then show ?thesis
    using message_delivered [of "do_read (new_connection 1000)" 1 "[Data (sample_frag [72, 105]), Ping (sample_frag [1, 2])]" "sample_frag [33, 33]" "\<lambda>m b. [Send 1 m]"]
      sample_idle sample_valid [of "[72, 105]"] sample_valid [of "[1, 2]"] sample_valid [of "[33, 33]"]
    by (auto simp: sends_def sample_frag_def)
qed

section \<open>Bounds\<close>

lemma start_idle:
  "idle (ws_start [] hello sub (new_connection limit)) \<and> max_payload (ws_start [] hello sub (new_connection limit)) = limit
    \<and> ws_message (ws_start [] hello sub (new_connection limit)) = []"
proof -
  have "core (do_write ((new_connection limit)\<lparr>write_buffers := b\<rparr>)) = core (new_connection limit)" for b by simp
  then show ?thesis by (simp add: ws_start_def do_read_def idle_def core_def new_connection_def)
qed

text \<open>In every state a connection reaches, whatever the client sends in whatever pieces, whatever the handlers do and in whatever order reads, writes and tasks complete, the buffer of the frame being read is no longer than the payload limit.\<close>

theorem frame_bounded:
  assumes "ws_run app is (ws_start opened hello sub (new_connection limit)) = Some w"
  shows "max_payload w = limit \<and> length (fragment w) \<le> unat limit"
proof -
  have "reading limit w" by (rule reading_run [OF reading_start assms])
  then show ?thesis by (auto simp: reading_def between_reads_def split: read_state.splits)
qed

lemma frame_bounded_witness:
  "length (fragment (the (ws_run (\<lambda>m b. []) (map Got (frame_reads True 1 (sample_frag [72, 105]))) (ws_start [] [] [] (new_connection 1000))))) \<le> 1000"
proof -
  let ?w = "ws_start [] [] [] (new_connection 1000)"
  obtain w where "ws_run (\<lambda>m b. []) (map Got (frame_reads True 1 (sample_frag [72, 105]))) ?w = Some w"
    using data_frame [of ?w 1 "sample_frag [72, 105]", OF _ _ _ refl refl, of "\<lambda>m b. []" True] start_idle [of "[]" "[]" 1000] sample_valid [of "[72, 105]"] by auto
  then show ?thesis using frame_bounded [of "\<lambda>m b. []" "map Got (frame_reads True 1 (sample_frag [72, 105]))" "[]" "[]" "[]" 1000 w] by simp
qed

text \<open>The limit does not bound a message: a client that sends \<open>n\<close> payloads in frames without FIN makes the connection hold all of them, for every \<open>n\<close> and every positive limit.\<close>

theorem message_unbounded:
  assumes "0 < limit"
  shows "\<exists>is w. ws_run app is (ws_start [] hello sub (new_connection limit)) = Some w \<and> length (ws_message w) = n"
proof -
  let ?f = "\<lparr>masking = [0, 0, 0, 0], body = [65], pieces = [[65]]\<rparr>"
  let ?w = "ws_start [] hello sub (new_connection limit)"
  have v: "valid_frag limit ?f" using assms by (simp add: valid_frag_def unmask_def word_less_nat_alt)
  have "idle ?w \<and> max_payload ?w = limit \<and> ws_message ?w = []" by (rule start_idle)
  moreover have "idle w \<and> max_payload w = limit \<and> ws_message w = [] \<Longrightarrow>
      \<exists>is w'. ws_run app is w = Some w' \<and> idle w' \<and> max_payload w' = limit \<and> length (ws_message w') = n" for w
  proof (induction n)
    case 0
    then show ?case by (intro exI [of _ "[]"]) simp
  next
    case (Suc n)
    obtain "is" w1 where w1: "ws_run app is w = Some w1" "idle w1" "max_payload w1 = limit" "length (ws_message w1) = n"
      using Suc by blast
    obtain w2 where "ws_run app (map Got (frame_reads False 0 ?f)) w1 = Some w2"
      "view w2 = (True, max_payload w1, ws_message w1 @ body ?f, messages w1, posted w1)"
      using data_frame [OF w1(2) _ v [folded w1(3)] refl refl, of 0 app False] by auto
    then show ?case using w1 by (intro exI [of _ "is @ map Got (frame_reads False 0 ?f)"] exI [of _ w2]) (simp add: ws_run_append view_def)
  qed
  ultimately show ?thesis by blast
qed

lemma message_unbounded_witness:
  "\<exists>is w. ws_run (\<lambda>m b. []) is (ws_start [] ''k'' [] (new_connection 1)) = Some w \<and> length (ws_message w) = 1000000"
  by (rule message_unbounded) simp

section \<open>Closing\<close>

text \<open>A close that the application asks for while an earlier write is in progress ends the connection as an unclean one: its frame is written next, and when that write has succeeded the connection reports the abnormal status to the close handler and is removed, without waiting for the answer of the client; with nothing in progress the same close is written at once, and the connection stays open for the answer.\<close>

theorem queued_close_aborts:
  assumes "\<not> close_flag w" "\<not> has_recv_close w" "\<not> close_handler_called w" "write_buffers w = []"
    and "frame = build_header 8 (length msg + 2) @ le_bytes 2 (htons status) @ msg"
  shows "(sending_buffers w \<noteq> [] \<longrightarrow> (\<exists>w'. ws_run app [Call (Close msg status), Write_Done True, Write_Done True] w = Some w' \<and>
      ws_log w' = ws_log w @ [Wrote frame, On_Close (bytes_of ''uncleanly'') closed_abnormally, Removed])) \<and>
    (sending_buffers w = [] \<longrightarrow> (\<exists>w'. ws_run app [Call (Close msg status), Write_Done True] w = Some w' \<and>
      ws_log w' = ws_log w @ [Wrote frame]))"
  using assms
  by (cases "sending_buffers w = []")
    (simp_all add: ws_step_def run_action_def ws_close_def Let_def do_write_def write_done_def emit_def check_destroy_def del: le_bytes.simps)

lemma queued_close_aborts_witness:
  "\<exists>w'. ws_run (\<lambda>m b. []) [Call (Close [] 1000), Write_Done True, Write_Done True] ((new_connection 9)\<lparr>sending_buffers := [[1]]\<rparr>) = Some w' \<and>
    ws_log w' = [Wrote (build_header 8 2 @ le_bytes 2 (htons 1000)), On_Close (bytes_of ''uncleanly'') closed_abnormally, Removed]"
  using queued_close_aborts [of "(new_connection 9)\<lparr>sending_buffers := [[1]]\<rparr>", OF _ _ _ _ refl, where msg = "[]" and status = 1000 and app = "\<lambda>m b. []"]
  by (simp add: new_connection_def numeral_2_eq_2)

section \<open>Short reads\<close>

text \<open>The reader takes what the first read of a frame brings for both header bytes.  When the network brings the first byte of a masked text frame alone, the connection takes it for a whole unmasked empty frame: the message handler is called with what had been collected before, and the second byte of the header is then read as the first of another frame.\<close>

theorem split_header_misread:
  assumes "idle w" "fragment w = []"
  shows "\<exists>w'. ws_run app [Got [0x81], Got []] w = Some w' \<and> idle w' \<and> messages w' = messages w @ [(ws_message w, False)]"
proof -
  have s: "read_state w = MiniHeader" "pending w = Some (At_Most 2)" "\<not> has_recv_close w" using assms(1) by (simp_all add: idle_def)
  have "le_word [0x81] = (le_word [0x81, 0] :: u16)" by simp
  moreover have "le_word [0, 0x81] = (0x8100 :: u16)" by code_simp
  ultimately have h: "htons (le_word [0x81]) = 0x8100" by (simp only: header_word)
  let ?h = "w\<lparr>pending := None, mini_header := 0x8100, has_mask := False, remaining_length := 0, read_state := Payload\<rparr>"
  have 1: "ws_step app (Got [0x81]) w = Some (?h\<lparr>pending := Some (At_Most 0)\<rparr>)"
    using s by (simp add: ws_step_def completes_def got_def got_mini_header_def h Let_def do_read_def read_payload_def del: le_word.simps)
  have f: "is_FIN (?h\<lparr>is_binary := False\<rparr>)" "opcode ?h = 1" by (simp_all add: is_FIN_def opcode_def)
  let ?p = "?h\<lparr>pending := Some (At_Most 0)\<rparr>"
  have g: "?p\<lparr>pending := None, fragment := fragment ?p @ concat [[]], remaining_length := 0\<rparr> = ?h"
    using assms(2) by (intro ws.equality) simp_all
  have p: "ws_run app (map Got [[]]) ?p = Some (handled app (?p\<lparr>pending := None, fragment := fragment ?p @ concat [[]], remaining_length := 0\<rparr>))"
    using s by (intro payload_run) simp_all
  have "handle_fragment app ?h = ((deliver app (?h\<lparr>is_binary := False\<rparr>))\<lparr>fragment := []\<rparr>, True)"
    using f(2) by (simp add: handle_fragment_def Let_def)
  then have "handled app ?h = do_read ((deliver app (?h\<lparr>is_binary := False\<rparr>))\<lparr>fragment := [], read_state := MiniHeader\<rparr>)"
    by (simp add: handled_def)
  then have 2: "ws_run app [Got []] (?h\<lparr>pending := Some (At_Most 0)\<rparr>) = Some (do_read ((deliver app (?h\<lparr>is_binary := False\<rparr>))\<lparr>fragment := [], read_state := MiniHeader\<rparr>))"
    using p [unfolded g] by (simp only: list.map)
  define d where "d = ?h\<lparr>is_binary := False\<rparr>"
  have d: "\<not> has_recv_close d" "is_FIN d" "ws_message d = ws_message w" "fragment d = []" "is_binary d = False" "messages d = messages w"
    using s f(1) assms(2) by (simp_all add: d_def)
  have v: "\<not> has_recv_close ((deliver app d)\<lparr>fragment := []\<rparr>)" "messages ((deliver app d)\<lparr>fragment := []\<rparr>) = messages w @ [(ws_message w, False)]"
    using deliver_view [OF d(1), of app] d by simp_all
  have "ws_run app [Got [0x81], Got []] w = Some (do_read ((deliver app d)\<lparr>fragment := [], read_state := MiniHeader\<rparr>))"
    using 1 2 unfolding d_def [symmetric] by simp
  then show ?thesis using do_read_idle(1) [OF v(1)] v(2) by (simp add: view_def)
qed

lemma split_header_misread_witness:
  "\<exists>w'. ws_run (\<lambda>m b. []) [Got [0x81], Got []] (do_read (new_connection 1000)) = Some w' \<and> idle w' \<and> messages w' = [([], False)]"
  using split_header_misread [of "do_read (new_connection 1000)" "\<lambda>m b. []"] sample_idle
  by (simp add: do_read_def new_connection_def messages_def)

section \<open>The handshake\<close>

text \<open>C19: A request to upgrade to a WebSocket, with the token compared without case, is answered by one write, the response that accepts the key with the Base64 text of the SHA-1 digest, by the definition of FIPS 180-4, of the key followed by the protocol's identifier; then the first two bytes of a frame are awaited.  Any other request is refused.\<close>

theorem handshake_answered:
  assumes "length (m_block s) = 64" "8 * (length key + 36) < 2 ^ 32"
  shows "if map to_upper upgrade = ''WEBSOCKET''
    then \<exists>w. ws_create [] s limit [] False upgrade requested key = Some w \<and> pending w = Some (At_Most 2) \<and> read_state w = MiniHeader \<and>
      ws_log w = [Wrote (bytes_of (''HTTP/1.1 101 Switching Protocols'' @ crlf @ ''Upgrade: websocket'' @ crlf @ ''Connection: Upgrade'' @ crlf @
        ''Sec-WebSocket-Accept: '' @ base64encode standard_key (ref_sha1 (bytes_of (key @ magic_guid))) @ crlf @ crlf))]
    else ws_create [] s limit [] False upgrade requested key = None"
proof -
  have l: "8 * length (bytes_of (key @ magic_guid)) < 2 ^ 32" using assms(2) by (simp add: bytes_of_def magic_guid_def)
  have a: "accept_key s key = base64encode standard_key (ref_sha1 (bytes_of (key @ magic_guid)))"
    using sha1_reference [OF assms(1) l] by (simp add: accept_key_def)
  have e: "string_equals upgrade ''websocket'' False \<longleftrightarrow> map to_upper upgrade = ''WEBSOCKET''"
  proof -
    have "map to_upper ''websocket'' = ''WEBSOCKET''" by code_simp
    then show ?thesis unfolding string_equals_upper by simp
  qed
  have b: "concat (map bytes_of xs) = bytes_of (concat xs)" for xs by (induction xs) (simp_all add: bytes_of_def)
  have r: "concat (map bytes_of (upgrade_response h [])) = bytes_of (''HTTP/1.1 101 Switching Protocols'' @ crlf @ ''Upgrade: websocket'' @ crlf @ ''Connection: Upgrade'' @ crlf @
        ''Sec-WebSocket-Accept: '' @ h @ crlf @ crlf)" and n: "upgrade_response h [] \<noteq> []" for h
    unfolding b by (simp_all add: upgrade_response_def)
  show ?thesis
    by (simp add: ws_create_def e a choose_subprotocol_def ws_start_def do_write_def emit_def do_read_def new_connection_def r n del: append_Cons append_Nil)
qed

lemma handshake_answered_witness:
  "map to_upper ''WebSocket'' = ''WEBSOCKET'' \<and> (\<exists>w. ws_create [] \<lparr>m_digest = [], m_block = replicate 64 0, m_blockByteIndex = 0, m_byteCount = 0\<rparr> 9 [] False ''WebSocket'' [] ''dGhlIHNhbXBsZSBub25jZQ=='' = Some w
    \<and> pending w = Some (At_Most 2))"
proof -
  have "map to_upper ''WebSocket'' = ''WEBSOCKET''" by code_simp
  then show ?thesis
    using handshake_answered [of "\<lparr>m_digest = [], m_block = replicate 64 0, m_blockByteIndex = 0, m_byteCount = 0\<rparr>" "''dGhlIHNhbXBsZSBub25jZQ==''" "''WebSocket''" 9 "[]"] by auto
qed

text \<open>C20: The SHA-1 object computes the function that FIPS 180-4 defines, from the padding of the whole message and the message schedule, for every message of less than 2 to the 29 bytes, whatever a previous use of the object has left in it.\<close>

theorem sha1_correct:
  assumes "length (m_block s) = 64" "8 * length m < 2 ^ 32"
  shows "getDigestBytes (processBytes m (sha1_reset s)) = ref_sha1 m"
  using assms by (rule sha1_reference)

lemma sha1_correct_witness:
  "getDigestBytes (processBytes [97, 98, 99] (sha1_reset \<lparr>m_digest = [], m_block = replicate 64 7, m_blockByteIndex = 5, m_byteCount = 9\<rparr>)) = ref_sha1 [97, 98, 99]"
  by (rule sha1_correct) simp_all

text \<open>Decoding gives back what was encoded, for the standard and the URL-safe alphabet and with or without the padding; but padding alone makes the decoder ask for a string of a size that has wrapped around, which throws.\<close>

theorem base64_round_trip:
  "base64decode (base64encode standard_key s) = Inr s \<and> base64decode (base64encode urlsafe_key s) = Inr s \<and>
   base64decode (filter (\<lambda>c. c \<noteq> CHR ''='') (base64encode standard_key s)) = Inr s \<and>
   base64decode (filter (\<lambda>c. c \<noteq> CHR ''='') (base64encode urlsafe_key s)) = Inr s \<and>
   base64decode ''='' = Inl Length_Error"
  using base64_decode_encode [of standard_key s] base64_decode_encode [of urlsafe_key s]
  by (simp add: alphabet_def unpadded_def) (simp add: base64decode_def decoded_size_def)

end
