(* ===== verification/Json_Properties.thy ===== *)
theory Json_Properties
  imports Json_Write
begin

text \<open>
  The properties of the JSON component: the reader is total and bounds the nesting of what it
  accepts, it inverts the writer, member lookup finds the first member with the key, and the
  writer's removal of trailing zeros is characterised for every text with a decimal point.
\<close>

section \<open>The reader\<close>

text \<open>C6: the parser returns on every input: the fuel computed from the length of the text is never used up.\<close>

theorem json_parse_total: "parse s \<noteq> No_Fuel"
  by (rule parse_total)

text \<open>no accepted document nests containers more than 5000 deep, whatever its length.\<close>

theorem json_nesting_bounded: "load s = Some v \<Longrightarrow> nesting v \<le> 5000"
  by (auto simp: load_def dest: parse_nesting split: parsed.splits)

lemma json_nesting_bounded_witness: "load ''[[1],[]]'' = Some (R_List [R_List [R_Number ''1''], R_List []])
  \<and> nesting (R_List [R_List [R_Number ''1''], R_List []]) \<le> 5000"
proof -
  have "load ''[[1],[]]'' = Some (R_List [R_List [R_Number ''1''], R_List []])" by code_simp
  with json_nesting_bounded [OF this] show ?thesis by blast
qed



text \<open>any byte string survives a trip through \<open>dump\<close> and \<open>load\<close>: \<open>s()\<close> of the read value is the string written.\<close>

theorem json_string_round_trip: "\<exists>v. load (dump (W_String s) indent CHR '' '') = Some v \<and> r_s v = Inr s"
  using load_dump [of "CHR '' ''" "W_String s" indent]
  by (simp add: is_ws_def r_s_def string_text_escape)

text \<open>every 64 bit integer survives the same trip, unsigned through \<open>u()\<close> and signed through \<open>i()\<close>.\<close>

theorem json_integer_round_trip:
  "(\<exists>v. load (dump (W_Unsigned ui) indent CHR '' '') = Some v \<and> r_u v = Inr ui) \<and>
   (\<exists>v. load (dump (W_Signed si) indent CHR '' '') = Some v \<and> r_i v = Inr (sint si))"
  using load_dump [of "CHR '' ''" "W_Unsigned ui" indent] load_dump [of "CHR '' ''" "W_Signed si" indent]
  by (simp add: is_ws_def r_u_def r_i_def lexical_cast_to_string_u64 lexical_cast_to_string_i64)

section \<open>Members\<close>

text \<open>on an object of any order of members, repeated keys included, \<open>has\<close> tells whether the key occurs and
  \<open>operator[]\<close> returns the first member with the key in the document, or throws.\<close>

theorem json_member_lookup:
  "r_has (R_Object kvs) str = Inr (str \<in> fst ` set kvs) \<and>
   r_member (R_Object kvs) str =
     (case map_of kvs str of None \<Rightarrow> Inl (Throws (''cannot find key: '' @ str)) | Some v \<Rightarrow> Inr v)"
  by (simp add: r_has_eq r_member_eq)

section \<open>Trailing zeros of doubles\<close>

text \<open>in any text with a decimal point, the writer removes exactly the trailing zeros after the first
  character behind the point; in fixed notation (digits only) that leaves the number unchanged.\<close>

theorem json_trim_float:
  assumes "CHR ''.'' \<notin> set a" "c \<noteq> NUL"
  shows "trim_float (a @ CHR ''.'' # c # f) = a @ CHR ''.'' # c # drop_zeros f"
  using assms by (rule trim_float_point)

lemma json_trim_float_witness: "trim_float ''1.2500'' = ''1.25''"
proof -
  have "drop_zeros ''500'' = ''5''" by (simp add: drop_zeros_def)
  then show ?thesis using json_trim_float [of "''1''" "CHR ''2''" "''500''"] by (simp add: NUL_def)
qed

text \<open>In exponent notation the same rule eats zeros of the exponent: 1.5e+20 is written as 1.5e+2.\<close>

lemma trim_float_exponent: "trim_float ''1.5e+20'' = ''1.5e+2''"
  using trim_float_point [of "''1''" "CHR ''5''" "''e+20''"] by (simp add: NUL_def drop_zeros_def)

end
