(* ===== verification/Query_String.thy ===== *)
theory Query_String
  imports Chars
begin

text \<open>
  The query string functions of \<open>crow.h\<close> (\<open>qs_parse\<close>, \<open>qs_decode\<close>, \<open>qs_strncmp\<close>, \<open>qs_k2v\<close>,
  \<open>qs_dict_name2kv\<close>) and the class \<open>query_string\<close>.  The C code keeps one buffer, the URL with its
  terminator, cuts it into C strings in place and decodes the values in place; a \<open>char *\<close> into it
  is an offset here, and the buffer is a list of characters that includes the terminator.
\<close>

section \<open>C strings\<close>

definition byte_at :: "string \<Rightarrow> nat \<Rightarrow> char" where
  "byte_at m i = (if i < length m then m ! i else NUL)"

definition c_string :: "string \<Rightarrow> nat \<Rightarrow> string" where
  "c_string m p = takeWhile (\<lambda>c. c \<noteq> NUL) (drop p m)"

definition strcspn :: "string \<Rightarrow> string \<Rightarrow> nat" where
  "strcspn s set_of = length (takeWhile (\<lambda>c. c \<notin> set set_of) s)"

definition starts_with :: "string \<Rightarrow> string \<Rightarrow> bool" where
  "starts_with s pre \<longleftrightarrow> take (length pre) s = pre"

section \<open>Characters\<close>

definition hex2dec :: "char \<Rightarrow> nat" where
  "hex2dec c =
     (if is_digit c then code c - 48 else if 65 \<le> code c \<and> code c \<le> 70 then code c - 55
      else if 97 \<le> code c \<and> code c \<le> 102 then code c - 87 else 0)"

definition is_qschr :: "char \<Rightarrow> bool" where
  "is_qschr c \<longleftrightarrow> c \<noteq> CHR ''='' \<and> c \<noteq> CHR ''#'' \<and> c \<noteq> CHR ''&'' \<and> c \<noteq> NUL"

section \<open>Comparison\<close>

text \<open>
  One side of a round of \<open>qs_strncmp\<close>: the character read, with \<open>+\<close> and percent escapes decoded, and
  the rest of the C string.  After a terminator the comparison stops, so that it is never passed.
\<close>

definition next_char :: "string \<Rightarrow> char \<times> string" where
  "next_char s =
     (case s of
        [] \<Rightarrow> (NUL, [])
      | c # r \<Rightarrow>
          (let u = (if \<not> is_qschr c then NUL else if c = CHR ''+'' then CHR '' '' else c)
           in if u = CHR ''%'' then
                (case r of
                   a # b # r' \<Rightarrow> if is_hex a \<and> is_hex b then (char_of (hex2dec a * 16 + hex2dec b), r') else (NUL, r)
                 | _ \<Rightarrow> (NUL, r))
              else (u, r)))"

fun qs_strncmp :: "string \<Rightarrow> string \<Rightarrow> nat \<Rightarrow> int" where
  "qs_strncmp s qs 0 = (case qs of c # _ \<Rightarrow> if is_qschr c then - 1 else 0 | [] \<Rightarrow> 0)"
| "qs_strncmp s qs (Suc n) =
     (let (u1, s') = next_char s; (u2, qs') = next_char qs
      in if u1 \<noteq> u2 then int (code u1) - int (code u2)
         else if u1 = NUL then 0
         else qs_strncmp s' qs' n)"

section \<open>Decoding in place\<close>

text \<open>\<open>i\<close> is where the next character is written, \<open>j\<close> where it is read; both count from the start of the buffer.\<close>

function decode_loop :: "string \<Rightarrow> nat \<Rightarrow> nat \<Rightarrow> string \<times> nat" where
  "decode_loop m i j =
     (if \<not> is_qschr (byte_at m j) then (m[i := NUL], i)
      else if byte_at m j = CHR ''+'' then decode_loop (m[i := CHR '' '']) (i + 1) (j + 1)
      else if byte_at m j = CHR ''%'' then
        (if byte_at m (j + 1) = NUL \<or> byte_at m (j + 2) = NUL \<or> \<not> is_hex (byte_at m (j + 1)) \<or> \<not> is_hex (byte_at m (j + 2))
         then (m[i := NUL], i)
         else decode_loop (m[i := char_of (hex2dec (byte_at m (j + 1)) * 16 + hex2dec (byte_at m (j + 2)))]) (i + 1) (j + 3))
      else decode_loop (m[i := byte_at m j]) (i + 1) (j + 1))"
  by pat_completeness auto
termination
  by (relation "measure (\<lambda>(m, i, j). length m - j)") (auto simp: is_qschr_def byte_at_def split: if_splits)

declare decode_loop.simps [simp del]

text \<open>\<open>qs_decode\<close> on the string at offset \<open>p\<close>: the new buffer and the length of the value.\<close>

definition qs_decode :: "string \<Rightarrow> nat \<Rightarrow> string \<times> nat" where
  "qs_decode m p = (case decode_loop m p p of (m', i) \<Rightarrow> (m', i - p))"

section \<open>Cutting into pairs\<close>

fun pair_starts :: "string \<Rightarrow> nat \<Rightarrow> nat \<Rightarrow> nat list" where
  "pair_starts m 0 p = []"
| "pair_starts m (Suc n) p =
     (let j = strcspn (c_string m p) ''&''
      in p # (if byte_at m (p + j) = NUL then [] else pair_starts m n (p + j + 1)))"

definition decode_pair :: "nat \<Rightarrow> string \<Rightarrow> string" where
  "decode_pair kv m =
     (let p = kv + strcspn (c_string m kv) ''=&#''
      in if byte_at m p = CHR ''&'' \<or> byte_at m p = NUL then m[p := NUL] else fst (qs_decode m (p + 1)))"

definition qs_parse :: "string \<Rightarrow> nat \<Rightarrow> bool \<Rightarrow> string \<times> nat list" where
  "qs_parse m kv_size parse_url =
     (let start = (if parse_url then strcspn (c_string m 0) ''?#'' else 0)
      in if parse_url \<and> byte_at m start = NUL then (m, [])
         else (let kvs = pair_starts m kv_size (if parse_url then start + 1 else start)
               in (fold decode_pair kvs m, kvs)))"

section \<open>Lookup\<close>

definition value_offset :: "string \<Rightarrow> nat \<Rightarrow> nat" where
  "value_offset m kv =
     (let skip = strcspn (c_string m kv) ''='' in if byte_at m (kv + skip) = CHR ''='' then kv + skip + 1 else kv + skip)"

fun qs_k2v :: "string \<Rightarrow> string \<Rightarrow> nat list \<Rightarrow> nat \<Rightarrow> nat option" where
  "qs_k2v m key [] k = None"
| "qs_k2v m key (kv # kvs) k =
     (if qs_strncmp key (c_string m kv) (length key) = 0
      then (if k = 0 then Some (value_offset m kv) else qs_k2v m key kvs (k - 1))
      else qs_k2v m key kvs k)"

text \<open>The counter \<open>k\<close> is a C \<open>int\<close> that an item without usable brackets takes below zero.\<close>

fun qs_dict_name2kv :: "string \<Rightarrow> string \<Rightarrow> nat list \<Rightarrow> int \<Rightarrow> (string \<times> string) option" where
  "qs_dict_name2kv m name [] k = None"
| "qs_dict_name2kv m name (kv # kvs) k =
     (let s = c_string m kv
      in if starts_with s name then
           (let after = (\<lambda>c. let j = strcspn s [c] in if j < length s then j + 1 else j);
                val = after CHR ''=''; open_brace = after CHR ''[''; close_brace = strcspn s '']''
            in if open_brace \<le> close_brace \<and> 0 < open_brace \<and> 0 < close_brace \<and> k = 0
               then Some (take (close_brace - open_brace) (drop open_brace s), drop val s)
               else qs_dict_name2kv m name kvs (k - 1))
         else qs_dict_name2kv m name kvs k)"

section \<open>The class\<close>

record query_string =
  qs_url :: string
  key_value_pairs :: "nat list"

definition max_key_value_pairs :: nat where "max_key_value_pairs = 256"

text \<open>The buffer holds the terminator of \<open>url_.c_str()\<close>.\<close>

definition query_string_of :: "string \<Rightarrow> bool \<Rightarrow> query_string" where
  "query_string_of params url =
     (if params = [] then \<lparr>qs_url = [NUL], key_value_pairs = []\<rparr>
      else (case qs_parse (params @ [NUL]) max_key_value_pairs url of
              (m, kvs) \<Rightarrow> \<lparr>qs_url = m, key_value_pairs = kvs\<rparr>))"

definition qs_clear :: "query_string \<Rightarrow> query_string" where
  "qs_clear qs = \<lparr>qs_url = [NUL], key_value_pairs = []\<rparr>"

definition item :: "query_string \<Rightarrow> nat \<Rightarrow> string" where
  "item qs kv = c_string (qs_url qs) kv"

text \<open>\<open>get\<close> returns a pointer; what the caller reads through it is \<open>item qs\<close> of the offset.\<close>

definition qs_get :: "query_string \<Rightarrow> string \<Rightarrow> nat option" where
  "qs_get qs name = qs_k2v (qs_url qs) (c_string name 0) (key_value_pairs qs) 0"

fun erase_first :: "('a \<Rightarrow> bool) \<Rightarrow> 'a list \<Rightarrow> 'a list" where
  "erase_first P [] = []"
| "erase_first P (x # xs) = (if P x then xs else x # erase_first P xs)"

definition qs_pop :: "query_string \<Rightarrow> string \<Rightarrow> nat option \<times> query_string" where
  "qs_pop qs name =
     (case qs_get qs name of
        None \<Rightarrow> (None, qs)
      | Some p \<Rightarrow> (Some p, qs\<lparr>key_value_pairs := erase_first (\<lambda>kv. starts_with (item qs kv) (name @ ''='')) (key_value_pairs qs)\<rparr>))"

lemma qs_k2v_bound: "qs_k2v m key kvs k = Some p \<Longrightarrow> k < length kvs"
  by (induction kvs arbitrary: k) (fastforce split: if_splits)+

function get_from :: "query_string \<Rightarrow> string \<Rightarrow> nat \<Rightarrow> nat list" where
  "get_from qs name count =
     (case qs_k2v (qs_url qs) (c_string name 0) (key_value_pairs qs) count of None \<Rightarrow> [] | Some p \<Rightarrow> p # get_from qs name (count + 1))"
  by pat_completeness auto
termination
  by (relation "measure (\<lambda>(qs, name, count). length (key_value_pairs qs) - count)") (auto dest: qs_k2v_bound)

declare get_from.simps [simp del]

definition get_list :: "query_string \<Rightarrow> string \<Rightarrow> bool \<Rightarrow> nat list" where
  "get_list qs name use_brackets = get_from qs (name @ (if use_brackets then ''[]'' else [])) 0"

definition pop_list :: "query_string \<Rightarrow> string \<Rightarrow> bool \<Rightarrow> nat list \<times> query_string" where
  "pop_list qs name use_brackets =
     (let ret = get_list qs name use_brackets;
          erased = (\<lambda>kv. starts_with (item qs kv) (name @ (if use_brackets then ''[]='' else ''='')))
      in if ret = [] then (ret, qs) else (ret, qs\<lparr>key_value_pairs := filter (\<lambda>kv. \<not> erased kv) (key_value_pairs qs)\<rparr>))"

lemma qs_dict_bound: "qs_dict_name2kv m name kvs k = Some kv \<Longrightarrow> 0 \<le> k \<and> k < int (length kvs)"
  by (induction kvs arbitrary: k) (fastforce simp: Let_def split: if_splits)+

function dict_from :: "query_string \<Rightarrow> string \<Rightarrow> nat \<Rightarrow> (string \<times> string) list" where
  "dict_from qs name count =
     (case qs_dict_name2kv (qs_url qs) (c_string name 0) (key_value_pairs qs) (int count) of
        None \<Rightarrow> [] | Some kv \<Rightarrow> kv # dict_from qs name (count + 1))"
  by pat_completeness auto
termination
  by (relation "measure (\<lambda>(qs, name, count). length (key_value_pairs qs) - count)") (auto dest: qs_dict_bound)

declare dict_from.simps [simp del]

text \<open>\<open>insert\<close> into an \<open>unordered_map\<close> keeps the first value of a key.\<close>

definition get_dict :: "query_string \<Rightarrow> string \<Rightarrow> (string \<rightharpoonup> string)" where
  "get_dict qs name = map_of (dict_from qs name 0)"

definition pop_dict :: "query_string \<Rightarrow> string \<Rightarrow> (string \<rightharpoonup> string) \<times> query_string" where
  "pop_dict qs name =
     (if dict_from qs name 0 = [] then (get_dict qs name, qs)
      else (get_dict qs name, qs\<lparr>key_value_pairs := filter (\<lambda>kv. \<not> starts_with (item qs kv) (name @ ''['')) (key_value_pairs qs)\<rparr>))"

definition qs_keys :: "query_string \<Rightarrow> string list" where
  "qs_keys qs = map (\<lambda>kv. takeWhile (\<lambda>c. c \<noteq> CHR ''='') (item qs kv)) (key_value_pairs qs)"

end
