(* ===== verification/Query_Facts.thy ===== *)
theory Query_Facts
  imports Query_String
begin

text \<open>
  How a query string that was written by the usual encoder looks in the buffer of \<open>query_string\<close>
  before and after \<open>qs_parse\<close>, and which items \<open>qs_k2v\<close> finds there.
\<close>

section \<open>C strings inside a buffer\<close>

lemma byte_at_append [simp]: "byte_at (a @ c # r) (length a) = c"
  by (simp add: byte_at_def)

lemma c_string_append: "c_string (a @ r) (length a) = takeWhile (\<lambda>c. c \<noteq> NUL) r"
  by (simp add: c_string_def)

lemma takeWhile_dropWhile [simp]: "takeWhile P (dropWhile P xs) = []"
  by (induction xs) simp_all

lemma c_string_drop:
  assumes "c_string m p = xs @ ys"
  shows "c_string m (p + length xs) = ys"
proof -
  let ?P = "\<lambda>c. c \<noteq> NUL" and ?d = "drop p m"
  have t: "takeWhile ?P ?d = xs @ ys" using assms by (simp only: c_string_def)
  then have P: "\<forall>c \<in> set ys. ?P c" by (metis UnCI set_append set_takeWhileD)
  have "?d = xs @ ys @ dropWhile ?P ?d" using takeWhile_dropWhile_id [of ?P ?d] t by simp
  then have "drop (p + length xs) m = ys @ dropWhile ?P ?d" by (metis add.commute append_eq_conv_conj drop_drop)
  with P show ?thesis by (simp add: c_string_def takeWhile_append2)
qed

lemma NUL_distinct [simp]:
  "NUL \<noteq> CHR ''&''" "NUL \<noteq> CHR ''=''" "NUL \<noteq> CHR ''#''" "NUL \<noteq> CHR ''?''" "NUL \<noteq> CHR ''+''" "NUL \<noteq> CHR ''%''" "NUL \<noteq> CHR '' ''"
  "CHR ''&'' \<noteq> NUL" "CHR ''='' \<noteq> NUL" "CHR ''#'' \<noteq> NUL" "CHR ''?'' \<noteq> NUL" "CHR ''+'' \<noteq> NUL" "CHR ''%'' \<noteq> NUL" "CHR '' '' \<noteq> NUL"
  by (simp_all add: NUL_def)

lemma byte_at_c_string:
  assumes "c_string m p = y # ys"
  shows "byte_at m p = y"
proof -
  obtain r where "drop p m = y # r" using assms by (cases "drop p m") (auto simp: c_string_def split: if_splits)
  then show ?thesis by (metis byte_at_def drop_eq_Nil hd_drop_conv_nth leI list.distinct(1) list.sel(1))
qed

lemma strcspn_append:
  "\<forall>c \<in> set xs. c \<notin> set cs \<Longrightarrow> y \<in> set cs \<Longrightarrow> strcspn (xs @ y # ys) cs = length xs"
  "\<forall>c \<in> set xs. c \<notin> set cs \<Longrightarrow> strcspn xs cs = length xs"
  by (simp_all add: strcspn_def takeWhile_append2 takeWhile_eq_all_conv [THEN iffD2])

section \<open>The encoder\<close>

definition unreserved :: "char \<Rightarrow> bool" where
  "unreserved c \<longleftrightarrow> is_digit c \<or> 65 \<le> code c \<and> code c \<le> 90 \<or> 97 \<le> code c \<and> code c \<le> 122 \<or> c \<in> set ''-._~''"

definition hex_digit :: "nat \<Rightarrow> char" where
  "hex_digit n = char_of (if n < 10 then 48 + n else 55 + n)"

definition encode_char :: "char \<Rightarrow> string" where
  "encode_char c =
     (if unreserved c then [c] else if c = CHR '' '' then ''+''
      else [CHR ''%'', hex_digit (code c div 16), hex_digit (code c mod 16)])"

definition encode :: "string \<Rightarrow> string" where
  "encode v = concat (map encode_char v)"

lemma encode_simps [simp]: "encode [] = []" "encode (c # v) = encode_char c @ encode v"
  by (simp_all add: encode_def)

definition clean_key :: "string \<Rightarrow> bool" where
  "clean_key k \<longleftrightarrow> (\<forall>c \<in> set k. is_qschr c \<and> c \<noteq> CHR ''+'' \<and> c \<noteq> CHR ''%'')"

definition pair_text :: "string \<times> string \<Rightarrow> string" where
  "pair_text kv = fst kv @ CHR ''='' # encode (snd kv)"

fun query_text :: "(string \<times> string) list \<Rightarrow> string" where
  "query_text [] = []"
| "query_text [p] = pair_text p"
| "query_text (p # q # ps) = pair_text p @ CHR ''&'' # query_text (q # ps)"

lemma hex_digit_facts:
  assumes "n < 16"
  shows "is_hex (hex_digit n)" "hex2dec (hex_digit n) = n" "is_qschr (hex_digit n)" "hex_digit n \<noteq> NUL"
proof -
  have c: "code (hex_digit n) = (if n < 10 then 48 + n else 55 + n)" using assms by (simp add: hex_digit_def)
  then show "is_hex (hex_digit n)" "hex2dec (hex_digit n) = n" using assms by (auto simp: is_hex_def hex2dec_def is_digit_def)
  have "hex_digit n \<noteq> d" if "code d < 48 \<or> code d = 61" for d using c that assms by (cases "n < 10") auto
  then show "is_qschr (hex_digit n)" "hex_digit n \<noteq> NUL" by (simp_all add: is_qschr_def, simp_all add: code_def NUL_def)
qed

lemma hex_pair: "char_of (hex2dec (hex_digit (code c div 16)) * 16 + hex2dec (hex_digit (code c mod 16))) = c"
proof -
  have "code c div 16 < 16" using code_less [of c] by simp
  then show ?thesis by (simp add: hex_digit_facts)
qed

lemma unreserved_plain: "unreserved c \<Longrightarrow> is_qschr c \<and> c \<noteq> CHR ''+'' \<and> c \<noteq> CHR ''%''"
proof -
  have "\<not> unreserved (CHR ''='')" "\<not> unreserved (CHR ''#'')" "\<not> unreserved (CHR ''&'')" "\<not> unreserved NUL"
    "\<not> unreserved (CHR ''+'')" "\<not> unreserved (CHR ''%'')"
    by (simp_all add: unreserved_def is_digit_def code_def NUL_def)
  then show "unreserved c \<Longrightarrow> is_qschr c \<and> c \<noteq> CHR ''+'' \<and> c \<noteq> CHR ''%''" by (auto simp: is_qschr_def)
qed

lemma is_qschr_sample [simp]: "is_qschr (CHR ''%'')" "is_qschr (CHR ''+'')" "\<not> is_qschr (CHR ''='')" "\<not> is_qschr (CHR ''&'')" "\<not> is_qschr NUL"
  by (simp_all add: is_qschr_def NUL_def)

lemma encode_qschr: "c \<in> set (encode v) \<Longrightarrow> is_qschr c"
proof (induction v)
  case (Cons d v)
  have "code d div 16 < 16" "code d mod 16 < 16" using code_less [of d] by auto
  then have "\<forall>c \<in> set (encode_char d). is_qschr c"
    using unreserved_plain [of d] by (auto simp: encode_char_def hex_digit_facts)
  with Cons show ?case by auto
qed simp

section \<open>Decoding in place\<close>

text \<open>The gap between the cell written and the cell read is \<open>g\<close>.\<close>

lemma write_at: "es \<noteq> [] \<Longrightarrow> (a @ (g @ es) @ r)[length a := c] = (a @ [c]) @ tl (g @ es) @ r"
  by (cases "g @ es") simp_all

lemma decode_loop_encode:
  assumes "\<not> is_qschr t"
  shows "\<exists>x. decode_loop (a @ g @ encode v @ t # r) (length a) (length a + length g) = (a @ v @ NUL # x @ r, length a + length v)
    \<and> length v + length x = length g + length (encode v)"
proof (induction v arbitrary: a g)
  case Nil
  have b: "byte_at (a @ g @ t # r) (length a + length g) = t" using byte_at_append [of "a @ g" t r] by simp
  show ?case
    using write_at [of "[t]" a g r NUL] b assms by (intro exI [of _ "tl (g @ [t])"]) (subst decode_loop.simps, simp)
next
  case (Cons c v)
  let ?m = "a @ g @ encode (c # v) @ t # r"
  let ?es = "encode_char c" and ?j = "length a + length g"
  have ne: "?es \<noteq> []" by (simp add: encode_char_def)
  have step: "decode_loop ?m (length a) ?j = decode_loop (?m[length a := c]) (length (a @ [c])) (?j + length ?es)"
  proof -
    have b: "byte_at ?m ?j = hd ?es" using ne byte_at_append [of "a @ g" "hd ?es" "tl ?es @ encode v @ t # r"]
      by (cases ?es) simp_all
    consider (plain) "unreserved c" | (space) "\<not> unreserved c" "c = CHR '' ''" | (hex) "\<not> unreserved c" "c \<noteq> CHR '' ''" by blast
    then show ?thesis
    proof cases
      case plain
      with b unreserved_plain [OF plain] show ?thesis by (subst decode_loop.simps) (simp add: encode_char_def)
    next
      case space
      with b show ?thesis by (subst decode_loop.simps) (simp add: encode_char_def)
    next
      case hex
      let ?h = "hex_digit (code c div 16)" and ?l = "hex_digit (code c mod 16)"
      have n: "code c div 16 < 16" "code c mod 16 < 16" using code_less [of c] by auto
      have "byte_at ?m (?j + 1) = ?h" "byte_at ?m (?j + 2) = ?l"
        using hex byte_at_append [of "a @ g @ ''%''" ?h "?l # encode v @ t # r"]
          byte_at_append [of "a @ g @ [CHR ''%'', ?h]" ?l "encode v @ t # r"] by (simp_all add: encode_char_def)
      with hex b n show ?thesis by (subst decode_loop.simps) (simp add: encode_char_def hex_digit_facts hex_pair numeral_3_eq_3)
    qed
  qed
  have m: "?m[length a := c] = (a @ [c]) @ tl (g @ ?es) @ encode v @ t # r"
    using ne write_at [of ?es a g "encode v @ t # r" c] by simp
  have len: "?j + length ?es = length (a @ [c]) + length (tl (g @ ?es))" using ne by (cases ?es) auto
  from Cons [of "a @ [c]" "tl (g @ ?es)"] obtain x where
    "decode_loop ((a @ [c]) @ tl (g @ ?es) @ encode v @ t # r) (length (a @ [c])) (length (a @ [c]) + length (tl (g @ ?es)))
       = ((a @ [c]) @ v @ NUL # x @ r, length (a @ [c]) + length v)"
    "length v + length x = length (tl (g @ ?es)) + length (encode v)" by blast
  then have "decode_loop ?m (length a) ?j = ((a @ [c]) @ v @ NUL # x @ r, length (a @ [c]) + length v)"
    "length v + length x = length (tl (g @ ?es)) + length (encode v)"
    by (simp_all only: step m len)
  then show ?case using ne by (intro exI [of _ x]) (cases ?es; simp)
qed

section \<open>Cutting\<close>

fun starts :: "nat \<Rightarrow> (string \<times> string) list \<Rightarrow> nat list" where
  "starts a [] = []"
| "starts a (p # ps) = a # starts (a + length (pair_text p) + 1) ps"

lemma starts_length [simp]: "length (starts a ps) = length ps"
  by (induction ps arbitrary: a) auto

definition clean_pair :: "string \<times> string \<Rightarrow> bool" where
  "clean_pair p \<longleftrightarrow> clean_key (fst p) \<and> NUL \<notin> set (snd p)"

lemma pair_text_chars: "clean_pair p \<Longrightarrow> c \<in> set (pair_text p) \<Longrightarrow> c \<noteq> NUL \<and> c \<noteq> CHR ''&''"
  using encode_qschr [of c "snd p"] by (auto simp: clean_pair_def clean_key_def pair_text_def is_qschr_def NUL_def)

text \<open>The buffer around the first pair: \<open>t\<close> ends it, \<open>r\<close> is what follows.\<close>

lemma first_pair:
  obtains (last) "ps = []" "query_text (p # ps) @ [NUL] = pair_text p @ NUL # []"
  | (more) "ps \<noteq> []" "query_text (p # ps) @ [NUL] = pair_text p @ CHR ''&'' # query_text ps @ [NUL]"
  by (cases ps) auto

lemma pair_text_in:
  assumes "clean_pair p" "t = NUL \<or> t = CHR ''&''"
  shows "strcspn (c_string (a @ pair_text p @ t # r) (length a)) ''&'' = length (pair_text p)"
    "byte_at (a @ pair_text p @ t # r) (length a + length (pair_text p)) = t"
proof -
  have "c_string (a @ pair_text p @ t # r) (length a) = pair_text p @ (if t = NUL then [] else takeWhile (\<lambda>c. c \<noteq> NUL) (t # r))"
    using pair_text_chars [OF assms(1)] by (simp add: c_string_append takeWhile_append2)
  then show "strcspn (c_string (a @ pair_text p @ t # r) (length a)) ''&'' = length (pair_text p)"
    using pair_text_chars [OF assms(1)] assms(2) by (auto intro!: strcspn_append)
  show "byte_at (a @ pair_text p @ t # r) (length a + length (pair_text p)) = t"
    using byte_at_append [of "a @ pair_text p" t r] by simp
qed

lemma pair_starts_query:
  assumes "\<forall>p \<in> set ps. clean_pair p" "ps \<noteq> []" "length ps \<le> n"
  shows "pair_starts (a @ query_text ps @ [NUL]) n (length a) = starts (length a) ps"
  using assms
proof (induction ps arbitrary: a n)
  case (Cons p ps)
  then obtain n' where n: "n = Suc n'" by (cases n) auto
  have p: "clean_pair p" using Cons.prems by simp
  show ?case
  proof (cases ps p rule: first_pair)
    case last
    have "pair_starts (a @ pair_text p @ NUL # []) n (length a) = [length a]"
      using pair_text_in [OF p, of NUL a "[]"] unfolding n pair_starts.simps Let_def by simp
    with last show ?thesis by simp
  next
    case more
    let ?m = "a @ pair_text p @ CHR ''&'' # query_text ps @ [NUL]" and ?a = "a @ pair_text p @ ''&''"
    have "pair_starts (?a @ query_text ps @ [NUL]) n' (length ?a) = starts (length ?a) ps"
      using Cons.prems more n by (intro Cons.IH) auto
    then have IH: "pair_starts ?m n' (length a + length (pair_text p) + 1) = starts (length a + length (pair_text p) + 1) ps" by simp
    have "pair_starts ?m n (length a) = length a # starts (length a + length (pair_text p) + 1) ps"
      using pair_text_in [OF p, of "CHR ''&''" a "query_text ps @ [NUL]"] IH unfolding n pair_starts.simps Let_def by simp
    then show ?thesis using more(2) by simp
  qed
qed simp

definition item_text :: "string \<times> string \<Rightarrow> string" where
  "item_text p = fst p @ CHR ''='' # snd p"

lemma decode_first:
  assumes p: "clean_pair p" and t: "t = NUL \<or> t = CHR ''&''"
  shows "\<exists>x. decode_pair (length a) (a @ pair_text p @ t # r) = a @ item_text p @ NUL # x @ r
    \<and> length (item_text p) + length x = length (pair_text p)"
proof -
  let ?m = "a @ pair_text p @ t # r" and ?p = "length a + length (fst p)"
  have k: "\<forall>c \<in> set (fst p). is_qschr c" using p by (simp add: clean_pair_def clean_key_def)
  then have "c_string ?m (length a) = fst p @ CHR ''='' # takeWhile (\<lambda>c. c \<noteq> NUL) (encode (snd p) @ t # r)"
    by (simp add: c_string_append pair_text_def is_qschr_def takeWhile_append2)
  then have j: "strcspn (c_string ?m (length a)) ''=&#'' = length (fst p)"
    using strcspn_append(1) [of "fst p" "''=&#''" "CHR ''=''"] k by (simp add: is_qschr_def)
  have b: "byte_at ?m ?p = CHR ''=''"
    using byte_at_append [of "a @ fst p"] by (simp add: pair_text_def)
  have m: "?m = (a @ fst p @ ''='') @ [] @ encode (snd p) @ t # r" by (simp add: pair_text_def)
  have "\<not> is_qschr t" using t by auto
  then obtain x where x: "decode_loop ((a @ fst p @ ''='') @ [] @ encode (snd p) @ t # r) (length (a @ fst p @ ''='')) (length (a @ fst p @ ''=''))
      = ((a @ fst p @ ''='') @ snd p @ NUL # x @ r, length (a @ fst p @ ''='') + length (snd p))"
    "length (snd p) + length x = length (encode (snd p))"
    using decode_loop_encode [of t "a @ fst p @ ''=''" "[]" "snd p" r] by auto
  have "fst (qs_decode ?m (?p + 1)) = a @ item_text p @ NUL # x @ r"
    using x(1) unfolding m qs_decode_def by (simp add: item_text_def)
  with b j x(2) show ?thesis by (intro exI [of _ x]) (simp add: decode_pair_def item_text_def pair_text_def)
qed

lemma decode_pairs:
  assumes "\<forall>p \<in> set ps. clean_pair p" "ps \<noteq> []"
  shows "\<exists>m. fold decode_pair (starts (length a) ps) (a @ query_text ps @ [NUL]) = a @ m
    \<and> map (c_string (a @ m)) (starts (length a) ps) = map item_text ps"
  using assms
proof (induction ps arbitrary: a)
  case (Cons p ps)
  have p: "clean_pair p" using Cons.prems by simp
  have go: ?case if t: "query_text (p # ps) @ [NUL] = pair_text p @ t # r" "t = NUL \<or> t = CHR ''&''"
    and rest: "ps \<noteq> [] \<Longrightarrow> r = query_text ps @ [NUL]" for t r
  proof -
    obtain x where x: "decode_pair (length a) (a @ pair_text p @ t # r) = a @ item_text p @ NUL # x @ r"
      "length (item_text p) + length x = length (pair_text p)"
      using decode_first [OF p t(2)] by blast
    let ?a = "a @ item_text p @ NUL # x"
    have len: "length ?a = length a + length (pair_text p) + 1" using x(2) by simp
    have "\<exists>m. fold decode_pair (starts (length ?a) ps) (?a @ r) = ?a @ m \<and> map (c_string (?a @ m)) (starts (length ?a) ps) = map item_text ps"
      using Cons.IH [of ?a] Cons.prems rest by (cases "ps = []") auto
    then obtain m' where m': "fold decode_pair (starts (length ?a) ps) (?a @ r) = ?a @ m'"
      "map (c_string (?a @ m')) (starts (length ?a) ps) = map item_text ps" by blast
    have "\<forall>c \<in> set (item_text p). c \<noteq> NUL"
      using p by (auto simp: item_text_def clean_pair_def clean_key_def is_qschr_def)
    then have "c_string (?a @ m') (length a) = item_text p"
      by (simp add: c_string_append takeWhile_append2)
    with m' x(1) len t(1) show ?case
      by (intro exI [of _ "item_text p @ NUL # x @ m'"]) simp
  qed
  show ?case
  proof (cases ps p rule: first_pair)
    case last
    from go [OF last(2)] last(1) show ?thesis by simp
  next
    case more
    from go [OF more(2)] show ?thesis by simp
  qed
qed simp

section \<open>Lookup\<close>

lemma clean_next: "is_qschr c \<Longrightarrow> c \<noteq> CHR ''+'' \<Longrightarrow> c \<noteq> CHR ''%'' \<Longrightarrow> next_char (c # s) = (c, s)"
  by (simp add: next_char_def)

lemma strncmp_clean:
  assumes "clean_key key" "clean_key k"
  shows "qs_strncmp key (k @ CHR ''='' # v) (length key) = 0 \<longleftrightarrow> key = k"
  using assms
proof (induction key arbitrary: k)
  case Nil
  then show ?case by (cases k) (auto simp: clean_key_def)
next
  case (Cons c key)
  have c: "next_char (c # key) = (c, key)" "c \<noteq> NUL" 
    using Cons.prems(1) clean_next [of c key] by (simp_all add: clean_key_def is_qschr_def)
  show ?case
  proof (cases k)
    case Nil
    have "next_char (CHR ''='' # v) = (NUL, v)" by (simp add: next_char_def)
    then have "qs_strncmp (c # key) (k @ CHR ''='' # v) (length (c # key)) = int (code c) - int (code NUL)" using Nil c by simp
    with Nil c(2) show ?thesis using code_inj [of c NUL] by auto
  next
    case (Cons d k')
    have "next_char (d # k' @ CHR ''='' # v) = (d, k' @ CHR ''='' # v)" using Cons.prems Cons by (intro clean_next) (auto simp: clean_key_def)
    then have "qs_strncmp (c # key) (k @ CHR ''='' # v) (length (c # key)) =
        (if c \<noteq> d then int (code c) - int (code d) else qs_strncmp key (k' @ CHR ''='' # v) (length key))" using Cons c by simp
    moreover have "qs_strncmp key (k' @ CHR ''='' # v) (length key) = 0 \<longleftrightarrow> key = k'"
      using Cons.prems Cons by (intro Cons.IH) (auto simp: clean_key_def)
    ultimately show ?thesis using Cons code_inj [of c d] by auto
  qed
qed

lemma k2v_filter:
  "qs_k2v m key kvs n =
     (let ms = filter (\<lambda>kv. qs_strncmp key (c_string m kv) (length key) = 0) kvs
      in if n < length ms then Some (value_offset m (ms ! n)) else None)"
  by (induction kvs arbitrary: n) (auto simp: Let_def nth_Cons split: nat.split)

lemma get_from_filter:
  "get_from qs name n =
     (let ms = filter (\<lambda>kv. qs_strncmp (c_string name 0) (item qs kv) (length (c_string name 0)) = 0) (key_value_pairs qs)
      in map (value_offset (qs_url qs)) (drop n ms))"
proof (induction qs name n rule: get_from.induct)
  case (1 qs name n)
  let ?ms = "filter (\<lambda>kv. qs_strncmp (c_string name 0) (item qs kv) (length (c_string name 0)) = 0) (key_value_pairs qs)"
  show ?case
  proof (cases "n < length ?ms")
    case True
    then have k: "qs_k2v (qs_url qs) (c_string name 0) (key_value_pairs qs) n = Some (value_offset (qs_url qs) (?ms ! n))"
      by (simp add: k2v_filter Let_def item_def)
    show ?thesis using 1 [OF k] True k
      by (subst get_from.simps) (simp add: Let_def Cons_nth_drop_Suc [symmetric])
  next
    case False
    then show ?thesis by (subst get_from.simps) (simp add: k2v_filter Let_def item_def)
  qed
qed

lemma value_offset_item:
  assumes "c_string m kv = k @ CHR ''='' # v" "clean_key k"
  shows "c_string m (value_offset m kv) = v"
proof -
  have "strcspn (c_string m kv) ''='' = length k"
    using strcspn_append(1) [of k "''=''" "CHR ''=''" v] assms by (simp add: clean_key_def is_qschr_def)
  moreover have "byte_at m (kv + length k) = CHR ''=''" using c_string_drop [OF assms(1)] by (rule byte_at_c_string)
  moreover have "c_string m (kv + length k + 1) = v"
    using c_string_drop [of m kv "k @ ''=''" v] assms(1) by (simp add: add.assoc)
  ultimately show ?thesis by (simp add: value_offset_def)
qed

end
