(* ===== verification/Query_Properties.thy ===== *)
theory Query_Properties
  imports Query_Facts
begin

text \<open>The properties of the query string component.\<close>

section \<open>Lookup\<close>

lemma query_string_items:
  assumes "ps \<noteq> []" "length ps \<le> 256" "\<forall>p \<in> set ps. clean_pair p" "\<forall>c \<in> set path. c \<notin> {CHR ''?'', CHR ''#'', NUL}"
  shows "\<exists>kvs. key_value_pairs (query_string_of (path @ CHR ''?'' # query_text ps) True) = kvs
    \<and> map (item (query_string_of (path @ CHR ''?'' # query_text ps) True)) kvs = map item_text ps"
proof -
  let ?a = "path @ ''?''"
  let ?m = "?a @ query_text ps @ [NUL]"
  have s: "strcspn (c_string ?m 0) ''?#'' = length path"
  proof -
    have "c_string ?m 0 = path @ CHR ''?'' # takeWhile (\<lambda>c. c \<noteq> NUL) (query_text ps @ [NUL])"
      using assms(4) by (simp add: c_string_def takeWhile_append2)
    then show ?thesis using strcspn_append(1) [of path "''?#''" "CHR ''?''"] assms(4) by simp
  qed
  have b: "byte_at ?m (length path) = CHR ''?''" using byte_at_append [of path] by simp
  have k: "pair_starts ?m 256 (length path + 1) = starts (length path + 1) ps"
    using pair_starts_query [OF assms(3,1,2), of ?a] by simp
  obtain m where m: "fold decode_pair (starts (length path + 1) ps) ?m = ?a @ m"
    "map (c_string (?a @ m)) (starts (length path + 1) ps) = map item_text ps"
    using decode_pairs [OF assms(3,1), of ?a] by auto
  have q: "query_string_of (path @ CHR ''?'' # query_text ps) True = \<lparr>qs_url = ?a @ m, key_value_pairs = starts (length path + 1) ps\<rparr>"
    using s b k m(1) by (simp add: query_string_of_def qs_parse_def max_key_value_pairs_def Let_def)
  show ?thesis using m(2) unfolding q by (simp add: item_def [abs_def])
qed

text \<open>C15: A URL whose query was written by the standard encoder (up to 256 pairs, keys of plain
  characters, values of any characters other than the terminator) gives back exactly its pairs: the
  keys in order, for each key all its values in order, and the first value or none for \<open>get\<close>.
\<close>
theorem query_lookup:
  assumes ps: "ps \<noteq> []" "length ps \<le> 256" "\<forall>p \<in> set ps. clean_pair p"
    and path: "\<forall>c \<in> set path. c \<notin> {CHR ''?'', CHR ''#'', NUL}" and key: "clean_key key"
    and qs: "qs = query_string_of (path @ CHR ''?'' # query_text ps) True"
  shows "qs_keys qs = map fst ps
    \<and> map (item qs) (get_list qs key False) = map snd (filter (\<lambda>p. fst p = key) ps)
    \<and> map_option (item qs) (qs_get qs key) = map_of ps key"
proof -
  let ?kvs = "key_value_pairs qs"
  have items: "map (item qs) ?kvs = map item_text ps" using query_string_items [OF ps path] qs by simp
  have len: "length ?kvs = length ps" using arg_cong [OF items, of length] by simp
  have it: "item qs (?kvs ! i) = item_text (ps ! i)" if "i < length ps" for i
    using arg_cong [OF items, of "\<lambda>xs. xs ! i"] that len by simp
  have k: "c_string key 0 = key" using key by (auto simp: c_string_def clean_key_def is_qschr_def takeWhile_eq_all_conv)
  have match: "qs_strncmp key (item qs (?kvs ! i)) (length key) = 0 \<longleftrightarrow> fst (ps ! i) = key"
    and val: "item qs (value_offset (qs_url qs) (?kvs ! i)) = snd (ps ! i)" if "i < length ps" for i
  proof -
    have c: "clean_key (fst (ps ! i))" using ps(3) that by (simp add: clean_pair_def)
    show "qs_strncmp key (item qs (?kvs ! i)) (length key) = 0 \<longleftrightarrow> fst (ps ! i) = key"
      using strncmp_clean [OF key c] it [OF that] by (auto simp: item_text_def)
    show "item qs (value_offset (qs_url qs) (?kvs ! i)) = snd (ps ! i)"
      using value_offset_item [OF _ c] it [OF that] by (simp add: item_text_def item_def)
  qed
  have rel: "list_all2 (\<lambda>kv p. (qs_strncmp key (item qs kv) (length key) = 0 \<longleftrightarrow> fst p = key)
      \<and> item qs (value_offset (qs_url qs) kv) = snd p) ?kvs ps"
    using len match val by (simp add: list_all2_conv_all_nth)
  let ?ms = "filter (\<lambda>kv. qs_strncmp key (item qs kv) (length key) = 0) ?kvs"
  from rel have f: "map (item qs \<circ> value_offset (qs_url qs)) ?ms = map snd (filter (\<lambda>p. fst p = key) ps)"
    by (induction rule: list_all2_induct) auto
  have list: "map (item qs) (get_list qs key False) = map snd (filter (\<lambda>p. fst p = key) ps)"
    using f by (simp add: get_list_def get_from_filter Let_def k)
  have "map_of ps key = (case map snd (filter (\<lambda>p. fst p = key) ps) of [] \<Rightarrow> None | v # _ \<Rightarrow> Some v)"
    by (induction ps) auto
  then have get: "map_option (item qs) (qs_get qs key) = map_of ps key"
    unfolding f [symmetric] by (cases ?ms) (simp_all add: qs_get_def k2v_filter Let_def k item_def)
  have "qs_keys qs = map (takeWhile (\<lambda>c. c \<noteq> CHR ''='') \<circ> item_text) ps"
    unfolding qs_keys_def using arg_cong [OF items, of "map (takeWhile (\<lambda>c. c \<noteq> CHR ''=''))"] by (simp add: comp_def)
  moreover have "takeWhile (\<lambda>c. c \<noteq> CHR ''='') (item_text p) = fst p" if "p \<in> set ps" for p
    using ps(3) that by (auto simp: item_text_def clean_pair_def clean_key_def is_qschr_def takeWhile_append2)
  ultimately show ?thesis using list get by simp
qed

lemma query_lookup_witness:
  "map_option (item (query_string_of ''/p?b=2&a=%26+x'' True)) (qs_get (query_string_of ''/p?b=2&a=%26+x'' True) ''a'') = Some ''& x''"
proof -
  let ?ps = "[(''b'', ''2''), (''a'', ''& x'')]"
  have e: "''/p'' @ CHR ''?'' # query_text ?ps = ''/p?b=2&a=%26+x''" by code_simp
  have c: "\<forall>p \<in> set ?ps. clean_pair p" "clean_key ''a''" by (simp_all add: clean_pair_def clean_key_def is_qschr_def NUL_def)
  have "map_option (item (query_string_of (''/p'' @ CHR ''?'' # query_text ?ps) True))
      (qs_get (query_string_of (''/p'' @ CHR ''?'' # query_text ?ps) True) ''a'') = map_of ?ps ''a''"
    using query_lookup [OF _ _ c(1) _ c(2) refl, of "''/p''"] by (simp add: NUL_def)
  then show ?thesis by (simp only: e) simp
qed

section \<open>The buffer\<close>
















section \<open>Removal\<close>

text \<open>\<open>pop\<close> can return the value of one item and remove another: in \<open>?a&a=1\<close> the value returned
  is that of the first, valueless item, and the item removed is the second one.
\<close>
theorem pop_removes_another:
  "(let qs = query_string_of ''?a&a=1'' True; (v, qs') = qs_pop qs ''a''
    in (map_option (item qs) v, map (item qs) (key_value_pairs qs), map (item qs') (key_value_pairs qs')))
   = (Some [], [''a'', ''a=1''], [''a''])"
  by code_simp

end
