(* ===== verification/Http_Types.thy ===== *)
theory Http_Types
  imports Chars
begin

text \<open>
  The vocabulary of the HTTP request parser of \<open>crow.h\<close> (derived from \<open>nodejs/http-parser\<close>):
  methods, error numbers, flags, the states of the machine and of the header matcher, the parser
  record, and the character classes.  The seven flag bits are a set.
\<close>

section \<open>Methods\<close>

datatype http_method =
    Delete | Get | Head | Post | Put | Connect | Options | Trace | Patch | Purge | Copy | Lock | MkCol | Move
  | Propfind | Proppatch | Search | Unlock | Bind | Rebind | Unbind | Acl | Report | MkActivity | Checkout
  | Merge | MSearch | Notify | Subscribe | Unsubscribe | MkCalendar | Link | Unlink | Source

primrec method_strings :: "http_method \<Rightarrow> string" where
  "method_strings Delete = ''DELETE''"
| "method_strings Get = ''GET''"
| "method_strings Head = ''HEAD''"
| "method_strings Post = ''POST''"
| "method_strings Put = ''PUT''"
| "method_strings Connect = ''CONNECT''"
| "method_strings Options = ''OPTIONS''"
| "method_strings Trace = ''TRACE''"
| "method_strings Patch = ''PATCH''"
| "method_strings Purge = ''PURGE''"
| "method_strings Copy = ''COPY''"
| "method_strings Lock = ''LOCK''"
| "method_strings MkCol = ''MKCOL''"
| "method_strings Move = ''MOVE''"
| "method_strings Propfind = ''PROPFIND''"
| "method_strings Proppatch = ''PROPPATCH''"
| "method_strings Search = ''SEARCH''"
| "method_strings Unlock = ''UNLOCK''"
| "method_strings Bind = ''BIND''"
| "method_strings Rebind = ''REBIND''"
| "method_strings Unbind = ''UNBIND''"
| "method_strings Acl = ''ACL''"
| "method_strings Report = ''REPORT''"
| "method_strings MkActivity = ''MKACTIVITY''"
| "method_strings Checkout = ''CHECKOUT''"
| "method_strings Merge = ''MERGE''"
| "method_strings MSearch = ''M-SEARCH''"
| "method_strings Notify = ''NOTIFY''"
| "method_strings Subscribe = ''SUBSCRIBE''"
| "method_strings Unsubscribe = ''UNSUBSCRIBE''"
| "method_strings MkCalendar = ''MKCALENDAR''"
| "method_strings Link = ''LINK''"
| "method_strings Unlink = ''UNLINK''"
| "method_strings Source = ''SOURCE''"

section \<open>Errors, flags and states\<close>

datatype http_errno =
    CHPE_OK | CHPE_CB_message_begin | CHPE_CB_method | CHPE_CB_url | CHPE_CB_header_field | CHPE_CB_header_value
  | CHPE_CB_headers_complete | CHPE_CB_body | CHPE_CB_message_complete | CHPE_CB_status | CHPE_INVALID_EOF_STATE
  | CHPE_HEADER_OVERFLOW | CHPE_CLOSED_CONNECTION | CHPE_INVALID_VERSION | CHPE_INVALID_STATUS | CHPE_INVALID_METHOD
  | CHPE_INVALID_URL | CHPE_INVALID_HOST | CHPE_INVALID_PORT | CHPE_INVALID_PATH | CHPE_INVALID_QUERY_STRING
  | CHPE_INVALID_FRAGMENT | CHPE_LF_EXPECTED | CHPE_INVALID_HEADER_TOKEN | CHPE_INVALID_CONTENT_LENGTH
  | CHPE_UNEXPECTED_CONTENT_LENGTH | CHPE_INVALID_CHUNK_SIZE | CHPE_INVALID_CONSTANT | CHPE_INVALID_INTERNAL_STATE
  | CHPE_STRICT | CHPE_UNKNOWN | CHPE_INVALID_TRANSFER_ENCODING

datatype http_flag =
  F_CHUNKED | F_CONNECTION_KEEP_ALIVE | F_CONNECTION_CLOSE | F_TRAILING | F_UPGRADE | F_SKIPBODY | F_CONTENTLENGTH

datatype pstate =
    s_dead | s_start_req | s_req_method | s_req_spaces_before_url | s_req_schema | s_req_schema_slash
  | s_req_schema_slash_slash | s_req_server_start | s_req_server | s_req_server_with_at | s_req_path
  | s_req_query_string_start | s_req_query_string | s_req_http_start | s_req_http_H | s_req_http_HT | s_req_http_HTT
  | s_req_http_HTTP | s_req_http_I | s_req_http_IC | s_req_http_major | s_req_http_dot | s_req_http_minor
  | s_req_http_end | s_req_line_almost_done | s_header_field_start | s_header_field | s_header_value_discard_ws
  | s_header_value_discard_ws_almost_done | s_header_value_discard_lws | s_header_value_start | s_header_value
  | s_header_value_lws | s_header_almost_done | s_chunk_size_start | s_chunk_size | s_chunk_parameters
  | s_chunk_size_almost_done | s_headers_almost_done | s_headers_done | s_chunk_data | s_chunk_data_almost_done
  | s_chunk_data_done | s_body_identity | s_body_identity_eof | s_message_done

text \<open>\<open>CROW_PARSING_HEADER\<close>: the states up to \<open>s_headers_done\<close>.\<close>

definition parsing_header :: "pstate \<Rightarrow> bool" where
  "parsing_header s \<longleftrightarrow>
     (case s of
        s_chunk_data \<Rightarrow> False | s_chunk_data_almost_done \<Rightarrow> False | s_chunk_data_done \<Rightarrow> False
      | s_body_identity \<Rightarrow> False | s_body_identity_eof \<Rightarrow> False | s_message_done \<Rightarrow> False
      | _ \<Rightarrow> True)"

datatype header_states =
    h_general | h_C | h_CO | h_CON | h_matching_connection | h_matching_proxy_connection | h_matching_content_length
  | h_matching_transfer_encoding | h_matching_upgrade | h_connection | h_content_length | h_content_length_num
  | h_content_length_ws | h_transfer_encoding | h_upgrade | h_matching_transfer_encoding_token_start
  | h_matching_transfer_encoding_chunked | h_matching_transfer_encoding_token | h_matching_connection_keep_alive
  | h_matching_connection_close | h_transfer_encoding_chunked | h_connection_keep_alive | h_connection_close

record http_parser =
  p_flags :: "http_flag set"
  p_state :: pstate
  p_header_state :: header_states
  p_index :: nat
  p_uses_transfer_encoding :: bool
  p_allow_chunked_length :: bool
  p_lenient :: bool
  p_nread :: u32
  p_content_length :: u64
  p_qs_point :: nat
  p_http_major :: nat
  p_http_minor :: nat
  p_method :: http_method
  p_errno :: http_errno
  p_upgrade :: bool

text \<open>\<open>http_parser_init\<close>: all zero, in the start state.\<close>

definition http_parser_init :: http_parser where
  "http_parser_init =
     \<lparr>p_flags = {}, p_state = s_start_req, p_header_state = h_general, p_index = 0, p_uses_transfer_encoding = False,
      p_allow_chunked_length = False, p_lenient = False, p_nread = 0, p_content_length = 0, p_qs_point = 0,
      p_http_major = 0, p_http_minor = 0, p_method = Delete, p_errno = CHPE_OK, p_upgrade = False\<rparr>"

definition max_header_size :: nat where
  "max_header_size = 80 * 1024"

definition ULLONG_MAX :: u64 where
  "ULLONG_MAX = - 1"

section \<open>Character classes\<close>

abbreviation CR :: char where "CR \<equiv> CHR 0x0D"
abbreviation LF :: char where "LF \<equiv> CHR 0x0A"
abbreviation TAB :: char where "TAB \<equiv> CHR 0x09"

definition lower :: "char \<Rightarrow> char" where
  "lower c = char_of (or (code c) 0x20)"

definition is_alpha :: "char \<Rightarrow> bool" where
  "is_alpha c \<longleftrightarrow> 97 \<le> code (lower c) \<and> code (lower c) \<le> 122"

definition is_mark :: "char \<Rightarrow> bool" where
  "is_mark c \<longleftrightarrow> c \<in> set ''-_.!~*()'' \<or> c = CHR 0x27"

definition is_userinfo_char :: "char \<Rightarrow> bool" where
  "is_userinfo_char c \<longleftrightarrow> is_alpha c \<or> is_digit c \<or> is_mark c \<or> c \<in> set ''%;:&=+$,''"

text \<open>The tables: \<open>tokens\<close> (also lowercases), \<open>normal_url_char\<close>, and \<open>unhex\<close>, whose initialiser gives only the
  first 128 of the 256 entries, so that the others are zero.\<close>

definition token :: "char \<Rightarrow> char" where
  "token c =
     (if 65 \<le> code c \<and> code c \<le> 90 then char_of (code c + 32)
      else if 97 \<le> code c \<and> code c \<le> 122 \<or> is_digit c \<or> c \<in> set ''!#$%&*+-.^_|~'' \<or> c = CHR 0x27 \<or> c = CHR 0x60 then c
      else NUL)"

definition is_url_char :: "char \<Rightarrow> bool" where
  "is_url_char c \<longleftrightarrow> 33 \<le> code c \<and> code c \<le> 126 \<and> c \<noteq> CHR ''#'' \<and> c \<noteq> CHR ''?''"

definition unhex :: "char \<Rightarrow> int" where
  "unhex c =
     (if 128 \<le> code c then 0
      else if is_digit c then int (code c) - 48
      else if 65 \<le> code c \<and> code c \<le> 70 then int (code c) - 55
      else if 97 \<le> code c \<and> code c \<le> 102 then int (code c) - 87
      else - 1)"

definition is_header_char :: "char \<Rightarrow> bool" where
  "is_header_char ch \<longleftrightarrow> ch = CR \<or> ch = LF \<or> ch = TAB \<or> 31 < code ch \<and> code ch \<noteq> 127"

section \<open>URLs\<close>

text \<open>
  \<open>parse_url_char\<close> returns the next state and, through the parser, the offset of the query string
  when it meets the question mark; \<open>off\<close> is the distance \<open>p - url_mark\<close> of its last two arguments.
\<close>

definition url_server :: "char \<Rightarrow> nat \<Rightarrow> http_parser \<Rightarrow> pstate \<times> http_parser" where
  "url_server ch off q =
     (if ch = CHR ''/'' then (s_req_path, q)
      else if ch = CHR ''?'' then (s_req_query_string_start, q\<lparr>p_qs_point := off\<rparr>)
      else if ch = CHR ''@'' then (s_req_server_with_at, q)
      else if is_userinfo_char ch \<or> ch = CHR ''['' \<or> ch = CHR '']'' then (s_req_server, q)
      else (s_dead, q))"

definition parse_url_char :: "pstate \<Rightarrow> char \<Rightarrow> nat \<Rightarrow> http_parser \<Rightarrow> pstate \<times> http_parser" where
  "parse_url_char s ch off q =
     (if ch = CHR '' '' \<or> ch = CR \<or> ch = LF \<or> ch = TAB \<or> ch = CHR 0x0C then (s_dead, q)
      else (case s of
        s_req_spaces_before_url \<Rightarrow>
          (if ch = CHR ''/'' \<or> ch = CHR ''*'' then (s_req_path, q)
           else if is_alpha ch then (s_req_schema, q) else (s_dead, q))
      | s_req_schema \<Rightarrow>
          (if is_alpha ch then (s, q) else if ch = CHR '':'' then (s_req_schema_slash, q) else (s_dead, q))
      | s_req_schema_slash \<Rightarrow> (if ch = CHR ''/'' then (s_req_schema_slash_slash, q) else (s_dead, q))
      | s_req_schema_slash_slash \<Rightarrow> (if ch = CHR ''/'' then (s_req_server_start, q) else (s_dead, q))
      | s_req_server_with_at \<Rightarrow> (if ch = CHR ''@'' then (s_dead, q) else url_server ch off q)
      | s_req_server_start \<Rightarrow> url_server ch off q
      | s_req_server \<Rightarrow> url_server ch off q
      | s_req_path \<Rightarrow>
          (if is_url_char ch then (s, q)
           else if ch = CHR ''?'' then (s_req_query_string_start, q\<lparr>p_qs_point := off\<rparr>)
           else (s_dead, q))
      | s_req_query_string_start \<Rightarrow> (if is_url_char ch \<or> ch = CHR ''?'' then (s_req_query_string, q) else (s_dead, q))
      | s_req_query_string \<Rightarrow> (if is_url_char ch \<or> ch = CHR ''?'' then (s_req_query_string, q) else (s_dead, q))
      | _ \<Rightarrow> (s_dead, q)))"

end
