(* ===== verification/Http_Execute.thy ===== *)
theory Http_Execute
  imports Http_Types
begin

text \<open>
  \<open>http_parser_execute\<close> of \<open>crow.h\<close>, one definition per state (or group of states that share a case
  label).  \<open>xstate\<close> holds the parser and the local variables: the cursor \<open>p\<close> as an index into the
  buffer, \<open>nread\<close>, and the marks.  A handler ends with \<open>Next\<close> (\<open>break\<close>, so that the loop advances),
  \<open>Again\<close> (\<open>goto reexecute\<close>), \<open>Stop n\<close> (\<open>return n\<close>), \<open>Fail\<close> (\<open>goto error\<close>) or \<open>Abort\<close> (a failed
  \<open>assert\<close>).

  The callbacks of \<open>settings\<close> are a parameter: they see the log of the calls so far, the parser at each
  of them included, and the parser now, and return
  a code.  A callback may also change the parser it was called from: Crow's connection calls
  \<open>done()\<close>, which sets \<open>http_errno\<close>, and \<open>clear()\<close>, which resets \<open>qs_point\<close> and the state.
\<close>

datatype event =
  Message_Begin | On_Method | Url string | Header_Field string | Header_Value string | Headers_Complete | Body string
| Message_Complete

record reaction =
  rc :: int
  cb_errno :: http_errno
  cb_clear :: bool

type_synonym call_log = "(event \<times> http_parser) list"

type_synonym callbacks = "call_log \<Rightarrow> http_parser \<Rightarrow> reaction"

record buffer =
  data :: string
  data_addr :: nat

record xstate =
  parser :: http_parser
  pos :: nat
  cur :: char
  nread :: u32
  field_mark :: "nat option"
  value_mark :: "nat option"
  url_mark :: "nat option"
  url_start_mark :: "nat option"
  body_mark :: "nat option"
  events :: call_log

datatype flow = Next xstate | Again xstate | Stop nat xstate | Fail xstate | Abort

section \<open>Macros\<close>

definition upd :: "(http_parser \<Rightarrow> http_parser) \<Rightarrow> xstate \<Rightarrow> xstate" where
  "upd f x = x\<lparr>parser := f (parser x)\<rparr>"

definition goto_state :: "pstate \<Rightarrow> xstate \<Rightarrow> xstate" where
  "goto_state s = upd (\<lambda>q. q\<lparr>p_state := s\<rparr>)"

definition set_errno :: "http_errno \<Rightarrow> xstate \<Rightarrow> xstate" where
  "set_errno e x = x\<lparr>parser := (parser x)\<lparr>p_nread := nread x, p_errno := e\<rparr>\<rparr>"

definition fail :: "http_errno \<Rightarrow> xstate \<Rightarrow> flow" where
  "fail e x = Fail (set_errno e x)"

definition strict_check :: "bool \<Rightarrow> (xstate \<Rightarrow> flow) \<Rightarrow> xstate \<Rightarrow> flow" where
  "strict_check c k x = (if c then fail CHPE_STRICT x else k x)"

definition assertion :: "bool \<Rightarrow> (xstate \<Rightarrow> flow) \<Rightarrow> xstate \<Rightarrow> flow" where
  "assertion c k x = (if c then k x else Abort)"

definition react :: "reaction \<Rightarrow> http_parser \<Rightarrow> http_parser" where
  "react r q =
     (let q1 = (if cb_errno r \<noteq> CHPE_OK then q\<lparr>p_errno := cb_errno r\<rparr> else q)
      in if cb_clear r then q1\<lparr>p_qs_point := 0, p_state := s_start_req\<rparr> else q1)"

text \<open>The call of one callback; \<open>ret\<close> is what \<open>http_parser_execute\<close> returns when it fails.\<close>

definition call :: "callbacks \<Rightarrow> event \<Rightarrow> http_errno \<Rightarrow> nat \<Rightarrow> (xstate \<Rightarrow> flow) \<Rightarrow> xstate \<Rightarrow> flow" where
  "call cb ev er ret k x =
     (let evs = events x @ [(ev, parser x)];
          r = cb evs (parser x);
          x1 = x\<lparr>events := evs, parser := react r (parser x)\<rparr>;
          x2 = (if rc r \<noteq> 0 then set_errno er x1 else x1)
      in if p_errno (parser x2) \<noteq> CHPE_OK then Stop ret x2 else k x2)"

text \<open>\<open>CROW_CALLBACK_NOTIFY_\<close>, with the byte consumed and not consumed.\<close>

definition notify_ret :: "callbacks \<Rightarrow> event \<Rightarrow> http_errno \<Rightarrow> nat \<Rightarrow> (xstate \<Rightarrow> flow) \<Rightarrow> xstate \<Rightarrow> flow" where
  "notify_ret cb ev er ret k x = assertion (p_errno (parser x) = CHPE_OK) (call cb ev er ret k) x"

definition notify :: "callbacks \<Rightarrow> event \<Rightarrow> http_errno \<Rightarrow> (xstate \<Rightarrow> flow) \<Rightarrow> xstate \<Rightarrow> flow" where
  "notify cb ev er k x = notify_ret cb ev er (pos x + 1) k x"

definition notify_noadvance :: "callbacks \<Rightarrow> event \<Rightarrow> http_errno \<Rightarrow> (xstate \<Rightarrow> flow) \<Rightarrow> xstate \<Rightarrow> flow" where
  "notify_noadvance cb ev er k x = notify_ret cb ev er (pos x) k x"

text \<open>\<open>CROW_CALLBACK_DATA_\<close>: the bytes from the mark up to \<open>hi\<close>; without a mark there is no call.\<close>

definition data_callback :: "callbacks \<Rightarrow> buffer \<Rightarrow> (string \<Rightarrow> event) \<Rightarrow> http_errno \<Rightarrow> (xstate \<Rightarrow> nat option)
    \<Rightarrow> (xstate \<Rightarrow> xstate) \<Rightarrow> nat \<Rightarrow> nat \<Rightarrow> (xstate \<Rightarrow> flow) \<Rightarrow> xstate \<Rightarrow> flow" where
  "data_callback cb buf ev er mark clr hi ret k x =
     assertion (p_errno (parser x) = CHPE_OK)
       (\<lambda>x. case mark x of
              None \<Rightarrow> k x
            | Some m \<Rightarrow> call cb (ev (take (hi - m) (drop m (data buf)))) er ret (\<lambda>x. k (clr x)) x) x"

definition data_field :: "callbacks \<Rightarrow> buffer \<Rightarrow> nat \<Rightarrow> nat \<Rightarrow> (xstate \<Rightarrow> flow) \<Rightarrow> xstate \<Rightarrow> flow" where
  "data_field cb buf =
     data_callback cb buf Header_Field CHPE_CB_header_field field_mark (\<lambda>x. x\<lparr>field_mark := None\<rparr>)"

definition data_value :: "callbacks \<Rightarrow> buffer \<Rightarrow> nat \<Rightarrow> nat \<Rightarrow> (xstate \<Rightarrow> flow) \<Rightarrow> xstate \<Rightarrow> flow" where
  "data_value cb buf =
     data_callback cb buf Header_Value CHPE_CB_header_value value_mark (\<lambda>x. x\<lparr>value_mark := None\<rparr>)"

definition data_url :: "callbacks \<Rightarrow> buffer \<Rightarrow> nat \<Rightarrow> nat \<Rightarrow> (xstate \<Rightarrow> flow) \<Rightarrow> xstate \<Rightarrow> flow" where
  "data_url cb buf = data_callback cb buf Url CHPE_CB_url url_mark (\<lambda>x. x\<lparr>url_mark := None\<rparr>)"

definition data_body :: "callbacks \<Rightarrow> buffer \<Rightarrow> nat \<Rightarrow> nat \<Rightarrow> (xstate \<Rightarrow> flow) \<Rightarrow> xstate \<Rightarrow> flow" where
  "data_body cb buf = data_callback cb buf Body CHPE_CB_body body_mark (\<lambda>x. x\<lparr>body_mark := None\<rparr>)"

text \<open>\<open>CROW_MARK\<close> keeps a mark that is set.\<close>

definition set_mark :: "nat \<Rightarrow> nat option \<Rightarrow> nat option" where
  "set_mark p m = (case m of None \<Rightarrow> Some p | Some _ \<Rightarrow> m)"

definition count_header_size :: "nat \<Rightarrow> (xstate \<Rightarrow> flow) \<Rightarrow> xstate \<Rightarrow> flow" where
  "count_header_size v k x =
     (let x' = x\<lparr>nread := nread x + of_nat v\<rparr>
      in if unat (nread x') > max_header_size then fail CHPE_HEADER_OVERFLOW x' else k x')"

definition bump :: "nat \<Rightarrow> nat" where
  "bump i = (i + 1) mod 32"

section \<open>The request line\<close>

definition st_dead :: "xstate \<Rightarrow> flow" where
  "st_dead x = (if cur x = CR \<or> cur x = LF then Next x else fail CHPE_CLOSED_CONNECTION x)"

definition first_method :: "char \<Rightarrow> http_method option" where
  "first_method ch =
     (if ch = CHR ''A'' then Some Acl else if ch = CHR ''B'' then Some Bind else if ch = CHR ''C'' then Some Connect
      else if ch = CHR ''D'' then Some Delete else if ch = CHR ''G'' then Some Get else if ch = CHR ''H'' then Some Head
      else if ch = CHR ''L'' then Some Lock else if ch = CHR ''M'' then Some MkCol else if ch = CHR ''N'' then Some Notify
      else if ch = CHR ''O'' then Some Options else if ch = CHR ''P'' then Some Post else if ch = CHR ''R'' then Some Report
      else if ch = CHR ''S'' then Some Subscribe else if ch = CHR ''T'' then Some Trace
      else if ch = CHR ''U'' then Some Unlock else None)"

definition st_start_req :: "callbacks \<Rightarrow> xstate \<Rightarrow> flow" where
  "st_start_req cb x =
     (if cur x = CR \<or> cur x = LF then Next x
      else (let x1 = upd (\<lambda>q. q\<lparr>p_flags := {}, p_uses_transfer_encoding := False, p_content_length := ULLONG_MAX\<rparr>) x
            in if \<not> is_alpha (cur x) then fail CHPE_INVALID_METHOD x1
               else (let x2 = upd (\<lambda>q. q\<lparr>p_method := Delete, p_index := 1\<rparr>) x1
                     in (case first_method (cur x) of
                           None \<Rightarrow> fail CHPE_INVALID_METHOD x2
                         | Some m \<Rightarrow>
                             notify cb Message_Begin CHPE_CB_message_begin Next
                               (upd (\<lambda>q. q\<lparr>p_method := m, p_state := s_req_method\<rparr>) x2)))))"

text \<open>The table of methods that share a prefix with another one.\<close>

definition switch_method :: "http_method \<Rightarrow> nat \<Rightarrow> char \<Rightarrow> http_method option" where
  "switch_method m i ch =
     (if m = Post \<and> i = 1 \<and> ch = CHR ''U'' then Some Put
      else if m = Post \<and> i = 1 \<and> ch = CHR ''A'' then Some Patch
      else if m = Post \<and> i = 1 \<and> ch = CHR ''R'' then Some Propfind
      else if m = Put \<and> i = 2 \<and> ch = CHR ''R'' then Some Purge
      else if m = Connect \<and> i = 1 \<and> ch = CHR ''H'' then Some Checkout
      else if m = Connect \<and> i = 2 \<and> ch = CHR ''P'' then Some Copy
      else if m = MkCol \<and> i = 1 \<and> ch = CHR ''O'' then Some Move
      else if m = MkCol \<and> i = 1 \<and> ch = CHR ''E'' then Some Merge
      else if m = MkCol \<and> i = 1 \<and> ch = CHR ''-'' then Some MSearch
      else if m = MkCol \<and> i = 2 \<and> ch = CHR ''A'' then Some MkActivity
      else if m = MkCol \<and> i = 3 \<and> ch = CHR ''A'' then Some MkCalendar
      else if m = Subscribe \<and> i = 1 \<and> ch = CHR ''E'' then Some Search
      else if m = Subscribe \<and> i = 1 \<and> ch = CHR ''O'' then Some Source
      else if m = Report \<and> i = 2 \<and> ch = CHR ''B'' then Some Rebind
      else if m = Propfind \<and> i = 4 \<and> ch = CHR ''P'' then Some Proppatch
      else if m = Lock \<and> i = 1 \<and> ch = CHR ''I'' then Some Link
      else if m = Unlock \<and> i = 2 \<and> ch = CHR ''S'' then Some Unsubscribe
      else if m = Unlock \<and> i = 2 \<and> ch = CHR ''B'' then Some Unbind
      else if m = Unlock \<and> i = 3 \<and> ch = CHR ''I'' then Some Unlink
      else None)"

text \<open>Reading \<open>matcher\<close> past its terminator would be undefined; it is \<open>Abort\<close> here.\<close>

definition st_req_method :: "callbacks \<Rightarrow> xstate \<Rightarrow> flow" where
  "st_req_method cb x =
     (if cur x = NUL then fail CHPE_INVALID_METHOD x
      else (let q = parser x; ch = cur x; matcher = method_strings (p_method q) @ [NUL];
                after = notify_noadvance cb On_Method CHPE_CB_method (\<lambda>x. Next (upd (\<lambda>q. q\<lparr>p_index := bump (p_index q)\<rparr>) x))
            in if length matcher \<le> p_index q then Abort
               else if ch = CHR '' '' \<and> matcher ! p_index q = NUL then after (goto_state s_req_spaces_before_url x)
               else if ch = matcher ! p_index q then after x
               else if (65 \<le> code ch \<and> code ch \<le> 90) \<or> ch = CHR ''-'' then
                 (case switch_method (p_method q) (p_index q) ch of
                    None \<Rightarrow> fail CHPE_INVALID_METHOD x
                  | Some m \<Rightarrow> after (upd (\<lambda>q. q\<lparr>p_method := m\<rparr>) x))
               else fail CHPE_INVALID_METHOD x))"

text \<open>The argument \<open>p - url_mark\<close> of \<open>parse_url_char\<close>; a null \<open>url_start_mark\<close> leaves the address \<open>p\<close>.\<close>

definition url_offset :: "buffer \<Rightarrow> xstate \<Rightarrow> nat" where
  "url_offset buf x = (case url_start_mark x of None \<Rightarrow> data_addr buf + pos x | Some m \<Rightarrow> pos x - m)"

definition url_step :: "buffer \<Rightarrow> xstate \<Rightarrow> flow" where
  "url_step buf x =
     (case parse_url_char (p_state (parser x)) (cur x) (url_offset buf x) (parser x) of
        (s, q) \<Rightarrow>
          (let x' = x\<lparr>parser := q\<lparr>p_state := s\<rparr>\<rparr>
           in if s = s_dead then fail CHPE_INVALID_URL x' else Next x'))"

definition st_req_spaces_before_url :: "buffer \<Rightarrow> xstate \<Rightarrow> flow" where
  "st_req_spaces_before_url buf x =
     (if cur x = CHR '' '' then Next x
      else (let x1 = x\<lparr>url_mark := set_mark (pos x) (url_mark x), url_start_mark := set_mark (pos x) (url_start_mark x)\<rparr>
            in url_step buf (if p_method (parser x) = Connect then goto_state s_req_server_start x1 else x1)))"

definition st_req_schema :: "buffer \<Rightarrow> xstate \<Rightarrow> flow" where
  "st_req_schema buf x =
     (if cur x = CHR '' '' \<or> cur x = CR \<or> cur x = LF then fail CHPE_INVALID_URL x else url_step buf x)"

definition st_req_url :: "callbacks \<Rightarrow> buffer \<Rightarrow> xstate \<Rightarrow> flow" where
  "st_req_url cb buf x =
     (if cur x = CHR '' '' then
        data_url cb buf (pos x) (pos x + 1) Next (goto_state s_req_http_start x)
      else if cur x = CR \<or> cur x = LF then
        (if p_method (parser x) \<noteq> Get then fail CHPE_INVALID_VERSION (goto_state s_dead x)
         else data_url cb buf (pos x) (pos x + 1) Next
                (upd (\<lambda>q. q\<lparr>p_http_major := 0, p_http_minor := 9,
                            p_state := (if cur x = CR then s_req_line_almost_done else s_header_field_start)\<rparr>) x))
      else url_step buf x)"

definition st_req_http_start :: "xstate \<Rightarrow> flow" where
  "st_req_http_start x =
     (if cur x = CHR '' '' then Next x
      else if cur x = CHR ''H'' then Next (goto_state s_req_http_H x)
      else if cur x = CHR ''I'' \<and> p_method (parser x) = Source then Next (goto_state s_req_http_I x)
      else fail CHPE_INVALID_CONSTANT x)"

text \<open>The states that expect one character of \<open>HTTP/\<close> or \<open>ICE/\<close>.\<close>

definition expect :: "char \<Rightarrow> pstate \<Rightarrow> xstate \<Rightarrow> flow" where
  "expect c s x = strict_check (cur x \<noteq> c) (\<lambda>x. Next (goto_state s x)) x"

definition st_req_http_major :: "xstate \<Rightarrow> flow" where
  "st_req_http_major x =
     (if \<not> is_digit (cur x) then fail CHPE_INVALID_VERSION x
      else Next (upd (\<lambda>q. q\<lparr>p_http_major := code (cur x) - 48, p_state := s_req_http_dot\<rparr>) x))"

definition st_req_http_dot :: "xstate \<Rightarrow> flow" where
  "st_req_http_dot x =
     (if cur x \<noteq> CHR ''.'' then fail CHPE_INVALID_VERSION x else Next (goto_state s_req_http_minor x))"

definition st_req_http_minor :: "xstate \<Rightarrow> flow" where
  "st_req_http_minor x =
     (if \<not> is_digit (cur x) then fail CHPE_INVALID_VERSION x
      else Next (upd (\<lambda>q. q\<lparr>p_http_minor := code (cur x) - 48, p_state := s_req_http_end\<rparr>) x))"

definition st_req_http_end :: "xstate \<Rightarrow> flow" where
  "st_req_http_end x =
     (if cur x = CR then Next (goto_state s_req_line_almost_done x)
      else if cur x = LF then Next (goto_state s_header_field_start x)
      else fail CHPE_INVALID_VERSION x)"

definition st_req_line_almost_done :: "xstate \<Rightarrow> flow" where
  "st_req_line_almost_done x =
     (if cur x \<noteq> LF then fail CHPE_LF_EXPECTED x else Next (goto_state s_header_field_start x))"

end
