(* ===== verification/Http_Headers.thy ===== *)
theory Http_Headers
  imports Http_Execute
begin

text \<open>
  The header states of \<open>http_parser_execute\<close>: field names, values, folding, and the matching of the
  four header fields the parser interprets itself (\<open>connection\<close>, \<open>content-length\<close>,
  \<open>transfer-encoding\<close>, \<open>upgrade\<close>).
\<close>

section \<open>Field names\<close>

definition st_header_field_start :: "xstate \<Rightarrow> flow" where
  "st_header_field_start x =
     (if cur x = CR then Next (goto_state s_headers_almost_done x)
      else if cur x = LF then Again (goto_state s_headers_almost_done x)
      else (let c = token (cur x);
                h = (if c = CHR ''c'' then h_C else if c = CHR ''p'' then h_matching_proxy_connection
                     else if c = CHR ''t'' then h_matching_transfer_encoding else if c = CHR ''u'' then h_matching_upgrade
                     else h_general)
            in if c = NUL then fail CHPE_INVALID_HEADER_TOKEN x
               else Next (upd (\<lambda>q. q\<lparr>p_index := 0, p_state := s_header_field, p_header_state := h\<rparr>)
                      (x\<lparr>field_mark := set_mark (pos x) (field_mark x)\<rparr>))))"

text \<open>
  Matching of a keyword \<open>w\<close> against the character at the new index: a mismatch gives \<open>gen\<close>, the last
  character gives \<open>done\<close>, otherwise the state stays \<open>h\<close>.  The C string has a NUL after its last
  character.
\<close>

definition match_word :: "string \<Rightarrow> nat \<Rightarrow> char \<Rightarrow> 'a \<Rightarrow> 'a \<Rightarrow> 'a \<Rightarrow> 'a" where
  "match_word w i c h done gen =
     (if length w < i \<or> c \<noteq> (w @ [NUL]) ! i then gen else if i = length w - 1 then done else h)"

definition field_word :: "string \<Rightarrow> char \<Rightarrow> header_states \<Rightarrow> http_parser \<Rightarrow> http_parser" where
  "field_word w c done q =
     (let i = bump (p_index q)
      in q\<lparr>p_index := i, p_header_state := match_word w i c (p_header_state q) done h_general\<rparr>)"

text \<open>One character of a field name in the matcher; \<open>None\<close> is the failed assertion.\<close>

definition header_field_char :: "char \<Rightarrow> char \<Rightarrow> http_parser \<Rightarrow> http_parser option" where
  "header_field_char ch c q =
     (case p_header_state q of
        h_general \<Rightarrow> Some q
      | h_C \<Rightarrow> Some (q\<lparr>p_index := bump (p_index q), p_header_state := (if c = CHR ''o'' then h_CO else h_general)\<rparr>)
      | h_CO \<Rightarrow> Some (q\<lparr>p_index := bump (p_index q), p_header_state := (if c = CHR ''n'' then h_CON else h_general)\<rparr>)
      | h_CON \<Rightarrow>
          Some (q\<lparr>p_index := bump (p_index q),
                  p_header_state := (if c = CHR ''n'' then h_matching_connection
                                     else if c = CHR ''t'' then h_matching_content_length else h_general)\<rparr>)
      | h_matching_connection \<Rightarrow> Some (field_word ''connection'' c h_connection q)
      | h_matching_proxy_connection \<Rightarrow> Some (field_word ''proxy-connection'' c h_connection q)
      | h_matching_content_length \<Rightarrow> Some (field_word ''content-length'' c h_content_length q)
      | h_matching_transfer_encoding \<Rightarrow>
          (let q' = field_word ''transfer-encoding'' c h_transfer_encoding q
           in Some (if p_header_state q' = h_transfer_encoding then q'\<lparr>p_uses_transfer_encoding := True\<rparr> else q'))
      | h_matching_upgrade \<Rightarrow> Some (field_word ''upgrade'' c h_upgrade q)
      | h_connection \<Rightarrow> Some (if ch \<noteq> CHR '' '' then q\<lparr>p_header_state := h_general\<rparr> else q)
      | h_content_length \<Rightarrow> Some (if ch \<noteq> CHR '' '' then q\<lparr>p_header_state := h_general\<rparr> else q)
      | h_transfer_encoding \<Rightarrow> Some (if ch \<noteq> CHR '' '' then q\<lparr>p_header_state := h_general\<rparr> else q)
      | h_upgrade \<Rightarrow> Some (if ch \<noteq> CHR '' '' then q\<lparr>p_header_state := h_general\<rparr> else q)
      | _ \<Rightarrow> None)"

text \<open>In \<open>h_general\<close> the token characters that follow are skipped, up to \<open>max_header_size\<close> at a time.\<close>

definition skip_token :: "buffer \<Rightarrow> nat \<Rightarrow> nat" where
  "skip_token buf p =
     p + length (takeWhile (\<lambda>c. token c \<noteq> NUL) (take (min (length (data buf) - p) max_header_size - 1) (drop (p + 1) (data buf))))"

function header_field_loop :: "buffer \<Rightarrow> xstate \<Rightarrow> xstate option" where
  "header_field_loop buf x =
     (if length (data buf) \<le> pos x then Some x
      else (let ch = data buf ! pos x; c = token ch
            in if c = NUL then Some (x\<lparr>cur := ch\<rparr>)
               else (case header_field_char ch c (parser x) of
                       None \<Rightarrow> None
                     | Some q \<Rightarrow>
                         (let p' = (if p_header_state (parser x) = h_general then skip_token buf (pos x) else pos x)
                          in header_field_loop buf (x\<lparr>cur := ch, parser := q, pos := p' + 1\<rparr>)))))"
  by pat_completeness auto
termination
  by (relation "measure (\<lambda>(buf, x). length (data buf) - pos x)") (auto simp: skip_token_def)

declare header_field_loop.simps [simp del]

definition st_header_field :: "callbacks \<Rightarrow> buffer \<Rightarrow> xstate \<Rightarrow> flow" where
  "st_header_field cb buf x =
     (case header_field_loop buf x of
        None \<Rightarrow> Abort
      | Some y \<Rightarrow>
          (if length (data buf) \<le> pos y then
             (let y' = y\<lparr>pos := pos y - 1\<rparr> in count_header_size (pos y' - pos x) Next y')
           else
             count_header_size (pos y - pos x)
               (\<lambda>y. if cur y = CHR '':'' then
                      data_field cb buf (pos y) (pos y + 1) Next (goto_state s_header_value_discard_ws y)
                    else fail CHPE_INVALID_HEADER_TOKEN y) y))"

section \<open>Field values\<close>

definition value_start :: "buffer \<Rightarrow> xstate \<Rightarrow> flow" where
  "value_start buf x =
     (let ch = cur x; c = lower ch; q = parser x
      in (case p_header_state q of
            h_upgrade \<Rightarrow>
              Next (upd (\<lambda>q. q\<lparr>p_flags := (if ch \<noteq> CHR ''h'' \<or> pos x + 1 = length (data buf) \<or> data buf ! (pos x + 1) \<noteq> CHR ''2''
                                       then insert F_UPGRADE (p_flags q) else p_flags q),
                               p_header_state := h_general\<rparr>) x)
          | h_transfer_encoding \<Rightarrow>
              Next (upd (\<lambda>q. q\<lparr>p_header_state := (if c = CHR ''c'' then h_matching_transfer_encoding_chunked
                                                  else h_matching_transfer_encoding_token)\<rparr>) x)
          | h_matching_transfer_encoding_token_start \<Rightarrow> Next x
          | h_content_length \<Rightarrow>
              (if \<not> is_digit ch then fail CHPE_INVALID_CONTENT_LENGTH x
               else if F_CONTENTLENGTH \<in> p_flags q then fail CHPE_UNEXPECTED_CONTENT_LENGTH x
               else Next (upd (\<lambda>q. q\<lparr>p_flags := insert F_CONTENTLENGTH (p_flags q),
                                     p_content_length := of_nat (code ch - 48), p_header_state := h_content_length_num\<rparr>) x))
          | h_content_length_ws \<Rightarrow> Next x
          | h_connection \<Rightarrow>
              Next (upd (\<lambda>q. q\<lparr>p_header_state :=
                  (if c = CHR ''k'' then h_matching_connection_keep_alive
                   else if c = CHR ''c'' then h_matching_connection_close
                   else if c = CHR '' '' \<or> c = TAB then h_connection else h_general)\<rparr>) x)
          | _ \<Rightarrow> Next (upd (\<lambda>q. q\<lparr>p_header_state := h_general\<rparr>) x)))"

definition st_header_value_start :: "buffer \<Rightarrow> xstate \<Rightarrow> flow" where
  "st_header_value_start buf x =
     value_start buf (upd (\<lambda>q. q\<lparr>p_state := s_header_value, p_index := 0\<rparr>) (x\<lparr>value_mark := set_mark (pos x) (value_mark x)\<rparr>))"

definition st_header_value_discard_ws :: "buffer \<Rightarrow> xstate \<Rightarrow> flow" where
  "st_header_value_discard_ws buf x =
     (if cur x = CHR '' '' \<or> cur x = TAB then Next x
      else if cur x = CR then Next (goto_state s_header_value_discard_ws_almost_done x)
      else if cur x = LF then Next (goto_state s_header_value_discard_lws x)
      else st_header_value_start buf x)"

text \<open>One character of a value in the matcher: the new local \<open>h_state\<close> and the parser, an error, or an assertion.\<close>

datatype value_result = V_ok header_states http_parser | V_error header_states http_errno | V_abort

definition content_length_digit :: "char \<Rightarrow> http_parser \<Rightarrow> value_result" where
  "content_length_digit ch q =
     (if ch = CHR '' '' then V_ok h_content_length_ws q
      else if \<not> is_digit ch then V_error h_content_length_num CHPE_INVALID_CONTENT_LENGTH
      else if p_content_length q > (ULLONG_MAX - 10) div 10 then V_error h_content_length_num CHPE_INVALID_CONTENT_LENGTH
      else V_ok h_content_length_num (q\<lparr>p_content_length := p_content_length q * 10 + of_nat (code ch - 48)\<rparr>))"

definition value_word :: "string \<Rightarrow> char \<Rightarrow> header_states \<Rightarrow> header_states \<Rightarrow> header_states \<Rightarrow> http_parser \<Rightarrow> value_result" where
  "value_word w c h done gen q =
     (let i = bump (p_index q) in V_ok (match_word w i c h done gen) (q\<lparr>p_index := i\<rparr>))"

definition header_value_char :: "char \<Rightarrow> char \<Rightarrow> header_states \<Rightarrow> http_parser \<Rightarrow> value_result" where
  "header_value_char ch c h q =
     (case h of
        h_general \<Rightarrow> V_ok h_general q
      | h_connection \<Rightarrow> V_abort
      | h_transfer_encoding \<Rightarrow> V_abort
      | h_content_length \<Rightarrow> (if ch = CHR '' '' then V_ok h q else content_length_digit ch q)
      | h_content_length_num \<Rightarrow> content_length_digit ch q
      | h_content_length_ws \<Rightarrow> (if ch = CHR '' '' then V_ok h q else V_error h CHPE_INVALID_CONTENT_LENGTH)
      | h_matching_transfer_encoding_token_start \<Rightarrow>
          V_ok (if c = CHR ''c'' then h_matching_transfer_encoding_chunked
                else if token c \<noteq> NUL then h_matching_transfer_encoding_token
                else if c = CHR '' '' \<or> c = TAB then h else h_general) q
      | h_matching_transfer_encoding_chunked \<Rightarrow>
          value_word ''chunked'' c h h_transfer_encoding_chunked h_matching_transfer_encoding_token q
      | h_matching_transfer_encoding_token \<Rightarrow>
          (if ch = CHR '','' then V_ok h_matching_transfer_encoding_token_start (q\<lparr>p_index := 0\<rparr>) else V_ok h q)
      | h_matching_connection_keep_alive \<Rightarrow> value_word ''keep-alive'' c h h_connection_keep_alive h_general q
      | h_matching_connection_close \<Rightarrow> value_word ''close'' c h h_connection_close h_general q
      | h_transfer_encoding_chunked \<Rightarrow> V_ok (if ch \<noteq> CHR '' '' then h_matching_transfer_encoding_token else h) q
      | h_connection_keep_alive \<Rightarrow> V_ok (if ch \<noteq> CHR '' '' then h_general else h) q
      | h_connection_close \<Rightarrow> V_ok (if ch \<noteq> CHR '' '' then h_general else h) q
      | _ \<Rightarrow> V_ok h_general (q\<lparr>p_state := s_header_value\<rparr>))"

text \<open>
  The inner loop for \<open>h_general\<close>: it looks at no more than \<open>max_header_size\<close> bytes and returns the
  position the outer loop goes on from, or the position of an invalid character.
\<close>

definition skip_value :: "bool \<Rightarrow> buffer \<Rightarrow> nat \<Rightarrow> nat + nat" where
  "skip_value lenient buf p =
     (let seg = take max_header_size (drop p (data buf));
          n = length (takeWhile (\<lambda>c. c \<noteq> CR \<and> c \<noteq> LF \<and> (lenient \<or> is_header_char c)) seg)
      in if n = length seg then Inr (if p + n = length (data buf) then p + n - 1 else p + n)
         else if seg ! n = CR \<or> seg ! n = LF then Inr (p + n - 1)
         else Inl (p + n))"

lemma skip_value_advances:
  assumes "p < length (data buf)" "data buf ! p \<noteq> CR" "data buf ! p \<noteq> LF" "lenient \<or> is_header_char (data buf ! p)"
    and skip: "skip_value lenient buf p = Inr p'"
  shows "p \<le> p' \<and> p' \<le> length (data buf)"
proof -
  let ?P = "\<lambda>c. c \<noteq> CR \<and> c \<noteq> LF \<and> (lenient \<or> is_header_char c)"
  let ?seg = "take max_header_size (drop p (data buf))"
  obtain n where n: "n = length (takeWhile ?P ?seg)" by blast
  obtain r where "?seg = data buf ! p # r"
    using assms(1) by (simp add: Cons_nth_drop_Suc [symmetric] take_Cons' max_header_size_def)
  then have "0 < n" using assms(2-4) by (simp add: n)
  moreover have "n \<le> length (data buf) - p" using length_takeWhile_le [of ?P ?seg] by (simp add: n)
  ultimately show ?thesis
    using skip assms(1) unfolding skip_value_def Let_def n [symmetric] by (auto split: if_splits)
qed

text \<open>What follows the loop.\<close>

definition value_tail :: "nat \<Rightarrow> header_states \<Rightarrow> xstate \<Rightarrow> flow" where
  "value_tail start h x = count_header_size (pos x - start) Next (upd (\<lambda>q. q\<lparr>p_header_state := h\<rparr>) x)"

function header_value_loop :: "callbacks \<Rightarrow> buffer \<Rightarrow> bool \<Rightarrow> nat \<Rightarrow> header_states \<Rightarrow> xstate \<Rightarrow> flow" where
  "header_value_loop cb buf lenient start h x =
     (if length (data buf) \<le> pos x then value_tail start h (x\<lparr>pos := pos x - 1\<rparr>)
      else (let ch = data buf ! pos x; c = lower ch; x1 = x\<lparr>cur := ch\<rparr>
            in if ch = CR then
                 data_value cb buf (pos x) (pos x + 1) (value_tail start h)
                   (upd (\<lambda>q. q\<lparr>p_state := s_header_almost_done, p_header_state := h\<rparr>) x1)
               else if ch = LF then
                 count_header_size (pos x - start)
                   (\<lambda>x. data_value cb buf (pos x) (pos x) Again (upd (\<lambda>q. q\<lparr>p_header_state := h\<rparr>) x))
                   (goto_state s_header_almost_done x1)
               else if \<not> lenient \<and> \<not> is_header_char ch then fail CHPE_INVALID_HEADER_TOKEN x1
               else (case header_value_char ch c h (parser x) of
                       V_abort \<Rightarrow> Abort
                     | V_error h' e \<Rightarrow> Fail (upd (\<lambda>q. q\<lparr>p_header_state := h'\<rparr>) (set_errno e x1))
                     | V_ok h' q \<Rightarrow>
                         (case (if h = h_general then skip_value lenient buf (pos x) else Inr (pos x)) of
                            Inl p' \<Rightarrow> fail CHPE_INVALID_HEADER_TOKEN (x1\<lparr>pos := p'\<rparr>)
                          | Inr p' \<Rightarrow> header_value_loop cb buf lenient start h' (x1\<lparr>parser := q, pos := p' + 1\<rparr>)))))"
  by pat_completeness auto
termination
proof (relation "measure (\<lambda>(cb, buf, lenient, start, h, x). length (data buf) - pos x)", goal_cases)
  case (2 cb buf lenient start h x ch c x1 h' q p')
  have "pos x \<le> p'"
  proof (cases "h = h_general")
    case True
    then show ?thesis using skip_value_advances [of "pos x" buf lenient p'] 2 by auto
  qed (use 2 in simp)
  with 2 show ?case by simp
qed simp

declare header_value_loop.simps [simp del]

definition st_header_value :: "callbacks \<Rightarrow> buffer \<Rightarrow> xstate \<Rightarrow> flow" where
  "st_header_value cb buf x =
     header_value_loop cb buf (p_lenient (parser x)) (pos x) (p_header_state (parser x)) x"

definition st_header_almost_done :: "xstate \<Rightarrow> flow" where
  "st_header_almost_done x = (if cur x \<noteq> LF then fail CHPE_LF_EXPECTED x else Next (goto_state s_header_value_lws x))"

definition st_header_value_lws :: "xstate \<Rightarrow> flow" where
  "st_header_value_lws x =
     (if cur x = CHR '' '' \<or> cur x = TAB then
        Again (upd (\<lambda>q. q\<lparr>p_header_state := (if p_header_state q = h_content_length_num then h_content_length_ws else p_header_state q),
                         p_state := s_header_value_start\<rparr>) x)
      else Again (upd (\<lambda>q. q\<lparr>p_flags :=
               (case p_header_state q of
                  h_connection_keep_alive \<Rightarrow> insert F_CONNECTION_KEEP_ALIVE (p_flags q)
                | h_connection_close \<Rightarrow> insert F_CONNECTION_CLOSE (p_flags q)
                | h_transfer_encoding_chunked \<Rightarrow> insert F_CHUNKED (p_flags q)
                | _ \<Rightarrow> p_flags q), p_state := s_header_field_start\<rparr>) x))"

definition st_header_value_discard_ws_almost_done :: "xstate \<Rightarrow> flow" where
  "st_header_value_discard_ws_almost_done x =
     strict_check (cur x \<noteq> LF) (\<lambda>x. Next (goto_state s_header_value_discard_lws x)) x"

definition st_header_value_discard_lws :: "callbacks \<Rightarrow> buffer \<Rightarrow> xstate \<Rightarrow> flow" where
  "st_header_value_discard_lws cb buf x =
     (if cur x = CHR '' '' \<or> cur x = TAB then Next (goto_state s_header_value_discard_ws x)
      else data_value cb buf (pos x) (pos x) Again
             (goto_state s_header_field_start (x\<lparr>value_mark := set_mark (pos x) (value_mark x)\<rparr>)))"

end
