(* ===== verification/Http_Loop.thy ===== *)
theory Http_Loop
  imports Http_Body
begin

text \<open>
  The main loop of \<open>http_parser_execute\<close> and the function itself.  The loop is shown to terminate
  for every buffer, every parser state and every behaviour of the callbacks: a handler never moves the
  cursor back, and it executes a byte again only in a state of smaller rank.
\<close>

section \<open>Progress of every handler\<close>

text \<open>States that execute the same byte again do so in a state of smaller rank.\<close>

definition rank :: "pstate \<Rightarrow> nat" where
  "rank s =
     (case s of
        s_header_value_lws \<Rightarrow> 6 | s_header_value_discard_lws \<Rightarrow> 6 | s_header_field_start \<Rightarrow> 4 | s_header_value \<Rightarrow> 2
      | s_headers_almost_done \<Rightarrow> 3 | s_body_identity \<Rightarrow> 2 | s_start_req \<Rightarrow> 0 | _ \<Rightarrow> 1)"

definition moves :: "buffer \<Rightarrow> xstate \<Rightarrow> flow \<Rightarrow> bool" where
  "moves buf x fl \<longleftrightarrow>
     (case fl of
        Next y \<Rightarrow> pos x < length (data buf) \<longrightarrow> pos x \<le> pos y
      | Again y \<Rightarrow> rank (p_state (parser y)) < rank (p_state (parser x)) \<and>
          (pos x < length (data buf) \<longrightarrow> pos x \<le> pos y \<and> pos y < length (data buf))
      | _ \<Rightarrow> True)"

lemma moves_simps [simp]:
  "moves buf x (Next y) \<longleftrightarrow> (pos x < length (data buf) \<longrightarrow> pos x \<le> pos y)"
  "moves buf x (Again y) \<longleftrightarrow> rank (p_state (parser y)) < rank (p_state (parser x)) \<and>
     (pos x < length (data buf) \<longrightarrow> pos x \<le> pos y \<and> pos y < length (data buf))"
  "moves buf x (Stop n y)" "moves buf x (Fail y)" "moves buf x Abort" "moves buf x (fail e y)"
  by (simp_all add: moves_def fail_def)

lemma upd_local [simp]:
  "pos (upd f x) = pos x" "pos (goto_state s x) = pos x" "parser (upd f x) = f (parser x)"
  "p_state (parser (goto_state s x)) = s" "pos (set_errno e x) = pos x" "p_state (parser (set_errno e x)) = p_state (parser x)"
  by (simp_all add: upd_def goto_state_def set_errno_def)

lemma moves_call:
  assumes "\<And>x'. pos x' = pos x \<Longrightarrow> p_state (parser x') = p_state (parser x) \<or> p_state (parser x') = s_start_req \<Longrightarrow> moves buf z (k x')"
  shows "moves buf z (call cb ev er ret k x)"
  unfolding call_def Let_def by (auto simp: react_def Let_def intro!: assms)

lemma moves_strict: "moves buf z (strict_check c k x) \<longleftrightarrow> c \<or> moves buf z (k x)"
  by (simp add: strict_check_def)

lemma moves_assertion: "moves buf z (assertion c k x) \<longleftrightarrow> (c \<longrightarrow> moves buf z (k x))"
  by (simp add: assertion_def)

lemma moves_count: "(\<And>n. moves buf z (k (x\<lparr>nread := n\<rparr>))) \<Longrightarrow> moves buf z (count_header_size v k x)"
  by (simp add: count_header_size_def Let_def)

lemma moves_notify:
  assumes "\<And>x'. pos x' = pos x \<Longrightarrow> p_state (parser x') = p_state (parser x) \<or> p_state (parser x') = s_start_req \<Longrightarrow> moves buf z (k x')"
  shows "moves buf z (notify cb ev er k x)" "moves buf z (notify_noadvance cb ev er k x)"
  using assms by (auto simp: notify_def notify_noadvance_def notify_ret_def moves_assertion intro: moves_call)

lemma moves_data:
  assumes "moves buf z (k x)"
    and "\<And>x'. pos x' = pos x \<Longrightarrow> p_state (parser x') = p_state (parser x) \<or> p_state (parser x') = s_start_req \<Longrightarrow> moves buf z (k (clr x'))"
  shows "moves buf z (data_callback cb buf ev er mark clr hi ret k x)"
  using assms by (auto simp: data_callback_def moves_assertion split: option.split intro: moves_call)

lemmas data_defs = data_field_def data_value_def data_url_def data_body_def
lemmas moves_intros = moves_notify moves_data moves_count

lemma moves_url_step: "moves buf x (url_step buf x)"
  by (simp add: url_step_def Let_def split: prod.split)

lemma moves_line:
  "moves buf x (st_dead x)" "moves buf x (st_start_req cb x)" "moves buf x (st_req_method cb x)" "moves buf x (st_req_spaces_before_url buf x)"
  "moves buf x (st_req_schema buf x)" "moves buf x (st_req_url cb buf x)" "moves buf x (st_req_http_start x)" "moves buf x (expect c s x)"
  "moves buf x (st_req_http_major x)" "moves buf x (st_req_http_dot x)" "moves buf x (st_req_http_minor x)" "moves buf x (st_req_http_end x)"
  "moves buf x (st_req_line_almost_done x)"
proof -
  have "moves buf x (url_step buf y)" if "pos y = pos x" for y
    using that by (simp add: url_step_def Let_def split: prod.split)
  then show "moves buf x (st_req_spaces_before_url buf x)" by (simp add: st_req_spaces_before_url_def Let_def)
  show "moves buf x (st_start_req cb x)" by (simp add: st_start_req_def Let_def moves_notify split: option.split)
  show "moves buf x (st_req_method cb x)" by (simp add: st_req_method_def Let_def moves_notify split: option.split)
  show "moves buf x (st_req_url cb buf x)" by (simp add: st_req_url_def data_defs moves_data moves_url_step)
qed (simp_all add: st_dead_def st_req_schema_def moves_url_step st_req_http_start_def expect_def moves_strict
  st_req_http_major_def st_req_http_dot_def st_req_http_minor_def st_req_http_end_def st_req_line_almost_done_def)

lemma header_field_loop_pos: "header_field_loop buf x = Some y \<Longrightarrow> pos x \<le> pos y"
proof (induction buf x rule: header_field_loop.induct)
  case (1 buf x)
  have skip: "p \<le> skip_token buf p" for p by (simp add: skip_token_def)
  let ?ch = "data buf ! pos x"
  show ?case
  proof (cases "length (data buf) \<le> pos x \<or> token ?ch = NUL")
    case True
    with 1(2) show ?thesis by (subst (asm) header_field_loop.simps) (auto simp: Let_def split: if_splits)
  next
    case False
    then obtain q where q: "header_field_char ?ch (token ?ch) (parser x) = Some q"
      using 1(2) by (subst (asm) header_field_loop.simps) (auto simp: Let_def split: option.splits)
    define p' where "p' = (if p_header_state (parser x) = h_general then skip_token buf (pos x) else pos x)"
    have "header_field_loop buf (x\<lparr>cur := ?ch, parser := q, pos := p' + 1\<rparr>) = Some y"
      using 1(2) False q by (subst (asm) header_field_loop.simps) (simp add: Let_def p'_def)
    then have "p' + 1 \<le> pos y" using 1(1) [OF _ refl refl _ q, of p'] False by (simp add: p'_def)
    then show ?thesis using skip [of "pos x"] by (auto simp: p'_def split: if_splits)
  qed
qed

lemma moves_value_tail: "pos x \<le> pos y \<Longrightarrow> moves buf x (value_tail start h y)"
  by (simp add: value_tail_def moves_count)

lemma moves_value_loop:
  assumes "start = pos z" "pos z \<le> pos x" "p_state (parser z) = s_header_value"
  shows "moves buf z (header_value_loop cb buf lenient start h x)"
  using assms
proof (induction cb buf lenient start h x rule: header_value_loop.induct)
  case (1 cb buf lenient start h x)
  let ?ch = "data buf ! pos x"
  show ?case
  proof (cases "length (data buf) \<le> pos x")
    case True
    have "moves buf z (value_tail start h (x\<lparr>pos := pos x - 1\<rparr>))"
      using True unfolding value_tail_def by (intro moves_count) auto
    with True show ?thesis by (subst header_value_loop.simps) simp
  next
    case False
    have loop: "moves buf z (header_value_loop cb buf lenient start h' (x\<lparr>cur := ?ch, parser := q, pos := p' + 1\<rparr>))"
      if "?ch \<noteq> CR" "?ch \<noteq> LF" "lenient \<or> is_header_char ?ch" "header_value_char ?ch (lower ?ch) h (parser x) = V_ok h' q"
        "(if h = h_general then skip_value lenient buf (pos x) else Inr (pos x)) = Inr p'" for h' q p'
    proof (rule 1(1))
      have "pos x \<le> p'" using skip_value_advances [of "pos x" buf lenient p'] False that by (auto split: if_splits)
      then show "pos z \<le> pos (x\<lparr>cur := ?ch, parser := q, pos := p' + 1\<rparr>)" using 1(3) by simp
    qed (use False that 1 in auto)
    have r: "rank s_header_almost_done < rank s_header_value" "rank s_start_req < rank s_header_value" by (simp_all add: rank_def)
    consider (cr) "?ch = CR" | (lf) "?ch = LF" | (bad) "?ch \<noteq> CR" "?ch \<noteq> LF" "\<not> lenient \<and> \<not> is_header_char ?ch"
      | (char) "?ch \<noteq> CR" "?ch \<noteq> LF" "lenient \<or> is_header_char ?ch" by blast
    then show ?thesis
    proof cases
      case cr
      have "moves buf z (data_value cb buf (pos x) (pos x + 1) (value_tail start h)
          (upd (\<lambda>q. q\<lparr>p_state := s_header_almost_done, p_header_state := h\<rparr>) (x\<lparr>cur := ?ch\<rparr>)))"
        unfolding data_value_def using 1(3) by (intro moves_data moves_value_tail) auto
      with cr False show ?thesis by (subst header_value_loop.simps) (simp add: Let_def)
    next
      case lf
      have "moves buf z (count_header_size (pos x - start)
          (\<lambda>x. data_value cb buf (pos x) (pos x) Again (upd (\<lambda>q. q\<lparr>p_header_state := h\<rparr>) x)) (goto_state s_header_almost_done (x\<lparr>cur := ?ch\<rparr>)))"
        unfolding data_value_def using 1(3,4) r False by (intro moves_count moves_data) auto
      with lf False show ?thesis by (subst header_value_loop.simps) (simp add: Let_def)
    next
      case bad
      with False show ?thesis by (subst header_value_loop.simps) (simp add: Let_def)
    next
      case char
      with False loop show ?thesis
        by (subst header_value_loop.simps) (simp add: Let_def split: value_result.split sum.split)
    qed
  qed
qed

lemma moves_headers:
  "moves buf x (st_header_field_start x) \<or> p_state (parser x) \<noteq> s_header_field_start"
  "moves buf x (st_header_field cb buf x)"
  "moves buf x (st_header_value_start buf x)" "moves buf x (st_header_value_discard_ws buf x)"
  "p_state (parser x) = s_header_value \<Longrightarrow> moves buf x (st_header_value cb buf x)"
  "moves buf x (st_header_almost_done x)" "moves buf x (st_header_value_discard_ws_almost_done x)"
  "p_state (parser x) = s_header_value_lws \<Longrightarrow> moves buf x (st_header_value_lws x)"
  "p_state (parser x) = s_header_value_discard_lws \<Longrightarrow> moves buf x (st_header_value_discard_lws cb buf x)"
proof -
  show start: "moves buf x (st_header_value_start buf x)"
    by (simp add: st_header_value_start_def value_start_def Let_def split: header_states.split)
  then show "moves buf x (st_header_value_discard_ws buf x)" by (simp add: st_header_value_discard_ws_def)
  show "p_state (parser x) = s_header_value \<Longrightarrow> moves buf x (st_header_value cb buf x)"
    unfolding st_header_value_def by (rule moves_value_loop) simp_all
  show "moves buf x (st_header_field cb buf x)"
  proof (cases "header_field_loop buf x")
    case (Some y)
    from header_field_loop_pos [OF this] show ?thesis using Some
      by (auto simp: st_header_field_def Let_def data_field_def intro!: moves_intros)
  qed (simp add: st_header_field_def)
qed (auto simp: st_header_field_start_def st_header_almost_done_def st_header_value_discard_ws_almost_done_def moves_strict
  st_header_value_lws_def st_header_value_discard_lws_def data_value_def rank_def Let_def intro!: moves_data)

lemma moves_body:
  "p_state (parser x) = s_headers_almost_done \<Longrightarrow> moves buf x (st_headers_almost_done cb x)" "moves buf x (st_headers_done cb x)"
  "p_state (parser x) = s_body_identity \<Longrightarrow> moves buf x (st_body_identity cb buf x)" "moves buf x (st_body_identity_eof buf x)"
  "moves buf x (st_message_done cb x)" "moves buf x (st_chunk_size_start x)" "moves buf x (st_chunk_size x)"
  "moves buf x (st_chunk_parameters x)" "moves buf x (st_chunk_size_almost_done x)" "moves buf x (st_chunk_data buf x)"
  "moves buf x (st_chunk_data_almost_done cb buf x)" "moves buf x (st_chunk_data_done x)"
proof -
  have n: "pos x \<le> pos x + to_read buf x - 1 \<and> pos x + to_read buf x - 1 < length (data buf)"
    if "p_content_length (parser x) \<noteq> 0" "pos x < length (data buf)"
    using that unat_eq_zero [of "p_content_length (parser x)"] by (auto simp: to_read_def)
  show "p_state (parser x) = s_body_identity \<Longrightarrow> moves buf x (st_body_identity cb buf x)"
    using n by (auto simp: st_body_identity_def moves_assertion Let_def take_body_def data_body_def rank_def intro!: moves_data)
  show "moves buf x (st_chunk_data buf x)"
    using n by (auto simp: st_chunk_data_def moves_assertion Let_def take_body_def)
  have "moves buf x (headers_complete cb y)" if "p_state (parser x) = s_headers_almost_done" "pos y = pos x"
      "p_state (parser y) = s_headers_done" for y
    using that by (auto simp: headers_complete_def Let_def react_def rank_def)
  then show "p_state (parser x) = s_headers_almost_done \<Longrightarrow> moves buf x (st_headers_almost_done cb x)"
    by (auto simp: st_headers_almost_done_def moves_strict intro!: moves_notify)
qed (auto simp: st_headers_done_def st_body_identity_eof_def st_message_done_def st_chunk_size_start_def st_chunk_size_def
  st_chunk_parameters_def st_chunk_size_almost_done_def st_chunk_data_almost_done_def st_chunk_data_done_def data_body_def
  moves_strict moves_assertion Let_def intro!: moves_notify moves_data)

lemma moves_exec_state: "moves buf x (exec_state cb buf x)"
proof -
  have "p_state (parser x) = s_header_field_start \<Longrightarrow> moves buf x (st_header_field_start x)" using moves_headers(1) by blast
  then show ?thesis
    by (cases "p_state (parser x)") (simp_all add: exec_state_def moves_line moves_headers(2-) moves_body)
qed

section \<open>The main loop\<close>

text \<open>\<open>reexecute\<close>: the states that look at one byte.\<close>

function reexecute :: "callbacks \<Rightarrow> buffer \<Rightarrow> xstate \<Rightarrow> flow" where
  "reexecute cb buf x = (case exec_state cb buf x of Again y \<Rightarrow> reexecute cb buf y | fl \<Rightarrow> fl)"
  by pat_completeness auto
termination
proof (relation "measure (\<lambda>(cb, buf, x). rank (p_state (parser x)))", goal_cases)
  case (2 cb buf x y)
  with moves_exec_state [of buf x cb] show ?case by simp
qed simp

declare reexecute.simps [simp del]

lemma reexecute_pos: "reexecute cb buf x = Next y \<Longrightarrow> pos x < length (data buf) \<Longrightarrow> pos x \<le> pos y"
proof (induction cb buf x rule: reexecute.induct)
  case (1 cb buf x)
  show ?case
  proof (cases "exec_state cb buf x")
    case (Again z)
    with moves_exec_state [of buf x cb] 1 show ?thesis by (auto simp: reexecute.simps [of cb buf x] intro: order_trans)
  qed (use 1 moves_exec_state [of buf x cb] in \<open>auto simp: reexecute.simps [of cb buf x]\<close>)
qed

text \<open>One round of the loop: read the byte, count it in the header states, execute.\<close>

definition exec_byte :: "callbacks \<Rightarrow> buffer \<Rightarrow> xstate \<Rightarrow> flow" where
  "exec_byte cb buf x =
     (let x1 = x\<lparr>cur := data buf ! pos x\<rparr>
      in if parsing_header (p_state (parser x1)) then count_header_size 1 (reexecute cb buf) x1
         else reexecute cb buf x1)"

lemma exec_byte_pos: "exec_byte cb buf x = Next y \<Longrightarrow> pos x < length (data buf) \<Longrightarrow> pos x \<le> pos y"
  using reexecute_pos [of cb buf "x\<lparr>cur := data buf ! pos x\<rparr>" y]
    reexecute_pos [of cb buf "x\<lparr>cur := data buf ! pos x, nread := nread x + 1\<rparr>" y]
  by (auto simp: exec_byte_def Let_def count_header_size_def fail_def split: if_splits)

function exec_loop :: "callbacks \<Rightarrow> buffer \<Rightarrow> xstate \<Rightarrow> flow" where
  "exec_loop cb buf x =
     (if length (data buf) \<le> pos x then Next x
      else (case exec_byte cb buf x of Next y \<Rightarrow> exec_loop cb buf (y\<lparr>pos := pos y + 1\<rparr>) | fl \<Rightarrow> fl))"
  by pat_completeness auto
termination
proof (relation "measure (\<lambda>(cb, buf, x). length (data buf) - pos x)", goal_cases)
  case (2 cb buf x y)
  with exec_byte_pos [of cb buf x y] show ?case by simp
qed simp

declare exec_loop.simps [simp del]

section \<open>The function\<close>

text \<open>\<open>Executed n q evs\<close>: the return value, the parser afterwards, and the log of all calls so far.\<close>

datatype outcome = Executed nat http_parser call_log | Assertion_Failed

definition marks_left :: "xstate \<Rightarrow> nat" where
  "marks_left x =
     of_bool (field_mark x \<noteq> None) + of_bool (value_mark x \<noteq> None) + of_bool (url_mark x \<noteq> None) + of_bool (body_mark x \<noteq> None)"

text \<open>After the loop the marks that are left are delivered.\<close>

definition finish :: "callbacks \<Rightarrow> buffer \<Rightarrow> xstate \<Rightarrow> flow" where
  "finish cb buf x =
     (let n = length (data buf)
      in assertion (marks_left x \<le> 1)
           (data_field cb buf n n (data_value cb buf n n (data_url cb buf n n (data_body cb buf n n
              (\<lambda>x. Stop n (upd (\<lambda>q. q\<lparr>p_nread := nread x\<rparr>) x)))))) x)"

text \<open>The label \<open>error\<close>.\<close>

definition on_error :: "xstate \<Rightarrow> xstate" where
  "on_error x =
     (let x1 = (if p_errno (parser x) = CHPE_OK then set_errno CHPE_UNKNOWN x else x)
      in upd (\<lambda>q. q\<lparr>p_nread := nread x\<rparr>) x1)"

definition outcome_of :: "flow \<Rightarrow> outcome" where
  "outcome_of fl =
     (case fl of
        Stop n y \<Rightarrow> Executed n (parser y) (events y)
      | Fail y \<Rightarrow> Executed (pos y) (parser (on_error y)) (events y)
      | _ \<Rightarrow> Assertion_Failed)"

definition initial_xstate :: "http_parser \<Rightarrow> call_log \<Rightarrow> xstate" where
  "initial_xstate q evs =
     \<lparr>parser = q, pos = 0, cur = NUL, nread = p_nread q,
      field_mark = (if p_state q = s_header_field then Some 0 else None),
      value_mark = (if p_state q = s_header_value then Some 0 else None),
      url_mark =
        (case p_state q of
           s_req_path \<Rightarrow> Some 0 | s_req_schema \<Rightarrow> Some 0 | s_req_schema_slash \<Rightarrow> Some 0
         | s_req_schema_slash_slash \<Rightarrow> Some 0 | s_req_server_start \<Rightarrow> Some 0 | s_req_server \<Rightarrow> Some 0
         | s_req_server_with_at \<Rightarrow> Some 0 | s_req_query_string_start \<Rightarrow> Some 0 | s_req_query_string \<Rightarrow> Some 0
         | _ \<Rightarrow> None),
      url_start_mark = None, body_mark = None, events = evs\<rparr>"

text \<open>A call with \<open>len = 0\<close> tells the end of the stream.\<close>

definition at_eof :: "callbacks \<Rightarrow> xstate \<Rightarrow> flow" where
  "at_eof cb x =
     (case p_state (parser x) of
        s_body_identity_eof \<Rightarrow> notify_noadvance cb Message_Complete CHPE_CB_message_complete (Stop 0) x
      | s_dead \<Rightarrow> Stop 0 x
      | s_start_req \<Rightarrow> Stop 0 x
      | _ \<Rightarrow> Stop 1 (set_errno CHPE_INVALID_EOF_STATE x))"

definition http_parser_execute :: "callbacks \<Rightarrow> http_parser \<Rightarrow> call_log \<Rightarrow> buffer \<Rightarrow> outcome" where
  "http_parser_execute cb q evs buf =
     (let x = initial_xstate q evs
      in if p_errno q \<noteq> CHPE_OK then Executed 0 q evs
         else if data buf = [] then outcome_of (at_eof cb x)
         else (case exec_loop cb buf x of Next y \<Rightarrow> outcome_of (finish cb buf y) | fl \<Rightarrow> outcome_of fl))"

end
