(* ===== verification/Http_Safety.thy ===== *)
theory Http_Safety
  imports Http_Loop
begin

text \<open>
  The invariant of the HTTP parser and its preservation by every state handler: no assertion of
  the source fails, the cursor stays inside the buffer and never moves back, the header bytes seen stay
  within the limit, and the error number is only set on a failing path.  Bytes are assumed not to be NUL;
  the assumption is needed (see \<open>Http_Properties\<close>).
\<close>

section \<open>Flows\<close>

definition flow_all :: "(xstate \<Rightarrow> bool) \<Rightarrow> (xstate \<Rightarrow> bool) \<Rightarrow> (nat \<Rightarrow> xstate \<Rightarrow> bool) \<Rightarrow> (xstate \<Rightarrow> bool) \<Rightarrow> flow \<Rightarrow> bool" where
  "flow_all N A S F fl \<longleftrightarrow>
     (case fl of Next y \<Rightarrow> N y | Again y \<Rightarrow> A y | Stop n y \<Rightarrow> S n y | Fail y \<Rightarrow> F y | Abort \<Rightarrow> False)"

lemma flow_all_simps [simp]:
  "flow_all N A S F (Next y) = N y" "flow_all N A S F (Again y) = A y"
  "flow_all N A S F (Stop n y) = S n y" "flow_all N A S F (Fail y) = F y" "\<not> flow_all N A S F Abort"
  "flow_all N A S F (fail e x) = F (set_errno e x)"
  by (simp_all add: flow_all_def fail_def)

text \<open>What a callback that lets the parser go on can have done: nothing, or \<open>clear()\<close>.\<close>

definition reacted :: "xstate \<Rightarrow> xstate \<Rightarrow> bool" where
  "reacted x x' \<longleftrightarrow>
     (\<exists>evs. x' = x\<lparr>events := evs\<rparr> \<or> x' = x\<lparr>events := evs, parser := (parser x)\<lparr>p_qs_point := 0, p_state := s_start_req\<rparr>\<rparr>)"

lemma flow_all_call:
  assumes ok: "p_errno (parser x) = CHPE_OK" and er: "er \<noteq> CHPE_OK"
    and k: "\<And>x'. reacted x x' \<Longrightarrow> flow_all N A S F (k x')"
    and stop: "\<And>y. pos y = pos x \<Longrightarrow> p_errno (parser y) \<noteq> CHPE_OK \<Longrightarrow> S ret y"
  shows "flow_all N A S F (call cb ev er ret k x)"
proof -
  let ?r = "cb (events x @ [(ev, parser x)]) (parser x)"
  let ?x1 = "x\<lparr>events := events x @ [(ev, parser x)], parser := react ?r (parser x)\<rparr>"
  show ?thesis
  proof (cases "rc ?r = 0 \<and> cb_errno ?r = CHPE_OK")
    case True
    then have "reacted x ?x1" 
      unfolding reacted_def react_def Let_def by (intro exI [of _ "events x @ [(ev, parser x)]"]) simp
    then have "flow_all N A S F (k ?x1)" by (rule k)
    moreover have "p_errno (react ?r (parser x)) = CHPE_OK" using True ok by (simp add: react_def Let_def)
    ultimately show ?thesis using True by (simp add: call_def Let_def)
  next
    case False
    then have "call cb ev er ret k x = Stop ret (if rc ?r \<noteq> 0 then set_errno er ?x1 else ?x1)"
      using er by (auto simp: call_def react_def set_errno_def Let_def)
    moreover have "p_errno (parser (if rc ?r \<noteq> 0 then set_errno er ?x1 else ?x1)) \<noteq> CHPE_OK"
      using False er by (auto simp: react_def set_errno_def Let_def)
    ultimately show ?thesis using stop by (simp add: set_errno_def)
  qed
qed

lemma flow_all_notify:
  assumes "p_errno (parser x) = CHPE_OK" "er \<noteq> CHPE_OK" "\<And>x'. reacted x x' \<Longrightarrow> flow_all N A S F (k x')"
    and "\<And>n y. n \<le> pos x + 1 \<Longrightarrow> p_errno (parser y) \<noteq> CHPE_OK \<Longrightarrow> S n y"
  shows "flow_all N A S F (notify cb ev er k x)" "flow_all N A S F (notify_noadvance cb ev er k x)"
  using assms by (auto simp: notify_def notify_noadvance_def notify_ret_def assertion_def intro: flow_all_call)

lemma flow_all_data:
  assumes "p_errno (parser x) = CHPE_OK" "er \<noteq> CHPE_OK" "mark x = None \<Longrightarrow> flow_all N A S F (k x)"
    and "\<And>x'. mark x \<noteq> None \<Longrightarrow> reacted x x' \<Longrightarrow> flow_all N A S F (k (clr x'))"
    and "\<And>y. p_errno (parser y) \<noteq> CHPE_OK \<Longrightarrow> S ret y"
  shows "flow_all N A S F (data_callback cb buf ev er mark clr hi ret k x)"
  using assms by (auto simp: data_callback_def assertion_def split: option.split intro: flow_all_call)

lemma flow_all_count:
  assumes "\<And>x'. x' = x\<lparr>nread := nread x + of_nat v\<rparr> \<Longrightarrow> unat (nread x') \<le> max_header_size \<Longrightarrow> flow_all N A S F (k x')"
    and "F (set_errno CHPE_HEADER_OVERFLOW (x\<lparr>nread := nread x + of_nat v\<rparr>))"
  shows "flow_all N A S F (count_header_size v k x)"
  using assms by (auto simp: count_header_size_def Let_def)

lemma flow_all_strict: "flow_all N A S F (strict_check c k x) \<longleftrightarrow> (if c then F (set_errno CHPE_STRICT x) else flow_all N A S F (k x))"
  by (simp add: strict_check_def)

lemma flow_all_assertion: "flow_all N A S F (assertion c k x) \<longleftrightarrow> c \<and> flow_all N A S F (k x)"
  by (simp add: assertion_def)

section \<open>The invariant\<close>

definition url_state :: "pstate \<Rightarrow> bool" where
  "url_state s \<longleftrightarrow>
     (case s of
        s_req_path \<Rightarrow> True | s_req_schema \<Rightarrow> True | s_req_schema_slash \<Rightarrow> True | s_req_schema_slash_slash \<Rightarrow> True
      | s_req_server_start \<Rightarrow> True | s_req_server \<Rightarrow> True | s_req_server_with_at \<Rightarrow> True
      | s_req_query_string_start \<Rightarrow> True | s_req_query_string \<Rightarrow> True | _ \<Rightarrow> False)"

definition body_state :: "pstate \<Rightarrow> bool" where
  "body_state s \<longleftrightarrow>
     (case s of s_body_identity \<Rightarrow> True | s_body_identity_eof \<Rightarrow> True | s_chunk_data \<Rightarrow> True | s_chunk_data_almost_done \<Rightarrow> True | _ \<Rightarrow> False)"

definition name_state :: "header_states \<Rightarrow> bool" where
  "name_state h \<longleftrightarrow>
     (case h of
        h_content_length_num \<Rightarrow> False | h_content_length_ws \<Rightarrow> False | h_matching_transfer_encoding_token_start \<Rightarrow> False
      | h_matching_transfer_encoding_chunked \<Rightarrow> False | h_matching_transfer_encoding_token \<Rightarrow> False
      | h_matching_connection_keep_alive \<Rightarrow> False | h_matching_connection_close \<Rightarrow> False
      | h_transfer_encoding_chunked \<Rightarrow> False | h_connection_keep_alive \<Rightarrow> False | h_connection_close \<Rightarrow> False | _ \<Rightarrow> True)"

definition value_state :: "header_states \<Rightarrow> bool" where
  "value_state h \<longleftrightarrow> h \<noteq> h_connection \<and> h \<noteq> h_transfer_encoding"

text \<open>What each state requires of the parser; \<open>nr\<close> is the number of bytes counted before a chunk size.\<close>

definition state_ok :: "u32 \<Rightarrow> u32 \<Rightarrow> http_parser \<Rightarrow> bool" where
  "state_ok nr n q \<longleftrightarrow>
     (case p_state q of
        s_req_method \<Rightarrow> p_index q \<le> length (method_strings (p_method q))
      | s_header_field \<Rightarrow> name_state (p_header_state q)
      | s_header_value_start \<Rightarrow> value_state (p_header_state q)
      | s_header_value \<Rightarrow> value_state (p_header_state q)
      | s_header_almost_done \<Rightarrow> value_state (p_header_state q)
      | s_header_value_lws \<Rightarrow> value_state (p_header_state q)
      | s_chunk_size_start \<Rightarrow> F_CHUNKED \<in> p_flags q \<and> n = nr
      | s_chunk_size \<Rightarrow> F_CHUNKED \<in> p_flags q \<and> p_content_length q \<noteq> ULLONG_MAX
      | s_chunk_parameters \<Rightarrow> F_CHUNKED \<in> p_flags q \<and> p_content_length q \<noteq> ULLONG_MAX
      | s_chunk_size_almost_done \<Rightarrow> F_CHUNKED \<in> p_flags q \<and> p_content_length q \<noteq> ULLONG_MAX
      | s_chunk_data \<Rightarrow> F_CHUNKED \<in> p_flags q \<and> p_content_length q \<noteq> 0 \<and> p_content_length q \<noteq> ULLONG_MAX
      | s_chunk_data_almost_done \<Rightarrow> F_CHUNKED \<in> p_flags q \<and> p_content_length q = 0
      | s_chunk_data_done \<Rightarrow> F_CHUNKED \<in> p_flags q
      | s_body_identity \<Rightarrow> p_content_length q \<noteq> 0 \<and> p_content_length q \<noteq> ULLONG_MAX
      | _ \<Rightarrow> True)"

text \<open>A mark is only set in the states that collect its data.\<close>

definition marks_ok :: "xstate \<Rightarrow> bool" where
  "marks_ok x \<longleftrightarrow>
     (field_mark x \<noteq> None \<longrightarrow> p_state (parser x) = s_header_field) \<and>
     (value_mark x \<noteq> None \<longrightarrow> p_state (parser x) = s_header_value) \<and>
     (url_mark x \<noteq> None \<longrightarrow> url_state (p_state (parser x))) \<and>
     (body_mark x \<noteq> None \<longrightarrow> body_state (p_state (parser x)))"

definition xinv :: "u32 \<Rightarrow> xstate \<Rightarrow> bool" where
  "xinv nr x \<longleftrightarrow>
     p_errno (parser x) = CHPE_OK \<and> unat (nread x) \<le> max_header_size \<and> state_ok nr (nread x) (parser x) \<and> marks_ok x"

text \<open>The invariant of the parser between two calls; after an error nothing is required.\<close>

definition parser_ok :: "http_parser \<Rightarrow> bool" where
  "parser_ok q \<longleftrightarrow> p_errno q = CHPE_OK \<longrightarrow> unat (p_nread q) \<le> max_header_size \<and> state_ok 0 (p_nread q) q"

lemma parser_ok_error [simp]: "p_errno q \<noteq> CHPE_OK \<Longrightarrow> parser_ok q"
  by (simp add: parser_ok_def)

lemma set_errno_errno [simp]: "p_errno (parser (set_errno e x)) = e"
  by (simp add: set_errno_def)

definition handles :: "buffer \<Rightarrow> xstate \<Rightarrow> flow \<Rightarrow> bool" where
  "handles buf x fl \<longleftrightarrow>
     flow_all
       (\<lambda>y. xinv 0 y \<and> pos x \<le> pos y \<and> pos y < length (data buf))
       (\<lambda>y. xinv 1 y \<and> pos x \<le> pos y \<and> pos y < length (data buf) \<and> cur y \<noteq> NUL \<and> rank (p_state (parser y)) < rank (p_state (parser x)))
       (\<lambda>n y. n \<le> length (data buf) \<and> parser_ok (parser y))
       (\<lambda>y. pos y < length (data buf) \<and> p_errno (parser y) \<noteq> CHPE_OK)
       fl"

section \<open>The request line\<close>

lemmas vc = handles_def xinv_def marks_ok_def state_ok_def

lemma reactedE:
  assumes "reacted x x'"
  obtains evs where "x' = x\<lparr>events := evs\<rparr>"
  | evs where "x' = x\<lparr>events := evs, parser := (parser x)\<lparr>p_qs_point := 0, p_state := s_start_req\<rparr>\<rparr>"
  using assms by (auto simp: reacted_def)

lemma set_mark_Some [simp]: "set_mark p m \<noteq> None"
  by (simp add: set_mark_def split: option.split)

lemma upd_simps [simp]:
  "parser (upd f x) = f (parser x)" "pos (upd f x) = pos x" "cur (upd f x) = cur x" "nread (upd f x) = nread x"
  "field_mark (upd f x) = field_mark x" "value_mark (upd f x) = value_mark x" "url_mark (upd f x) = url_mark x"
  "url_start_mark (upd f x) = url_start_mark x" "body_mark (upd f x) = body_mark x"
  "parser (goto_state s x) = (parser x)\<lparr>p_state := s\<rparr>" "pos (goto_state s x) = pos x" "cur (goto_state s x) = cur x"
  "nread (goto_state s x) = nread x" "field_mark (goto_state s x) = field_mark x" "value_mark (goto_state s x) = value_mark x"
  "url_mark (goto_state s x) = url_mark x" "body_mark (goto_state s x) = body_mark x" "pos (set_errno e x) = pos x"
  by (simp_all add: upd_def goto_state_def set_errno_def)

text \<open>States that carry no mark, and moves between them.\<close>

definition plain :: "pstate \<Rightarrow> bool" where
  "plain s \<longleftrightarrow> s \<noteq> s_header_field \<and> s \<noteq> s_header_value \<and> \<not> url_state s \<and> \<not> body_state s"

definition no_marks :: "xstate \<Rightarrow> bool" where
  "no_marks x \<longleftrightarrow> field_mark x = None \<and> value_mark x = None \<and> url_mark x = None \<and> body_mark x = None"

lemma no_marks_plain: "xinv nr x \<Longrightarrow> plain (p_state (parser x)) \<Longrightarrow> no_marks x"
  by (auto simp: xinv_def marks_ok_def plain_def no_marks_def)

lemma marks_ok_no_marks: "no_marks x \<Longrightarrow> marks_ok x"
  by (simp add: marks_ok_def no_marks_def)

lemma no_marks_upd [simp]: "no_marks (upd f x) = no_marks x" "no_marks (goto_state s x) = no_marks x"
  "no_marks (x\<lparr>nread := n\<rparr>) = no_marks x"
  by (simp_all add: no_marks_def)

lemma handles_next:
  assumes "no_marks x" "pos x < length (data buf)" "p_errno (f (parser x)) = CHPE_OK" "unat (nread x) \<le> max_header_size"
    "state_ok 0 (nread x) (f (parser x))"
  shows "handles buf x (Next (upd f x))"
  using assms by (simp add: handles_def xinv_def marks_ok_no_marks)

lemma handles_fail [simp]: "handles buf x (fail e x') \<longleftrightarrow> pos x' < length (data buf) \<and> e \<noteq> CHPE_OK"
  by (simp add: handles_def)

lemma handles_strict: "handles buf x (strict_check c k x') \<longleftrightarrow> (if c then pos x' < length (data buf) else handles buf x (k x'))"
  by (simp add: handles_def flow_all_strict)

lemma handles_assertion: "handles buf x (assertion c k x') \<longleftrightarrow> c \<and> handles buf x (k x')"
  by (simp add: handles_def flow_all_assertion)

lemma ctx:
  assumes "xinv nr x" "pos x < length (data buf)"
  shows "p_errno (parser x) = CHPE_OK" "n \<le> pos x + 1 \<Longrightarrow> n \<le> length (data buf)"
  using assms by (auto simp: xinv_def)

lemma handles_dead: "xinv 1 x \<Longrightarrow> p_state (parser x) = s_dead \<Longrightarrow> pos x < length (data buf) \<Longrightarrow> handles buf x (st_dead x)"
  by (simp add: vc st_dead_def)

lemma method_lengths: "Suc 0 \<le> length (method_strings m)" "length (method_strings m) < 31"
  by (cases m; simp)+

lemma handles_start_req:
  assumes x: "xinv 1 x" "p_state (parser x) = s_start_req" "pos x < length (data buf)"
  shows "handles buf x (st_start_req cb x)"
  using x unfolding handles_def st_start_req_def Let_def
  by (auto simp: xinv_def marks_ok_def state_ok_def url_state_def body_state_def method_lengths
      intro!: flow_all_notify elim!: reactedE split: option.split)

lemma switch_method_length: "switch_method m i ch = Some m' \<Longrightarrow> i < length (method_strings m')"
  by (auto simp: switch_method_def split: if_splits)

lemma reacted_no_marks: "reacted x x' \<Longrightarrow> no_marks x' = no_marks x \<and> pos x' = pos x \<and> nread x' = nread x \<and> cur x' = cur x"
  by (auto simp: reacted_def no_marks_def)

lemma bump_le: "i < length (method_strings m) \<Longrightarrow> bump i \<le> length (method_strings m)"
  using method_lengths(2) [of m] by (simp add: bump_def)

lemma handles_req_method:
  assumes x: "xinv 1 x" "p_state (parser x) = s_req_method" "pos x < length (data buf)"
  shows "handles buf x (st_req_method cb x)"
proof -
  let ?q = "parser x"
  have i: "p_index ?q \<le> length (method_strings (p_method ?q))" using x by (simp add: xinv_def state_ok_def)
  have m: "no_marks x" "p_errno ?q = CHPE_OK" "unat (nread x) \<le> max_header_size"
    using x no_marks_plain [OF x(1)] by (auto simp: plain_def url_state_def body_state_def xinv_def)
  have lt: "cur x = (method_strings (p_method ?q) @ [NUL]) ! p_index ?q \<Longrightarrow> cur x \<noteq> NUL \<Longrightarrow> p_index ?q < length (method_strings (p_method ?q))"
    using i by (auto simp: nth_append split: if_splits)
  have after: "handles buf x (notify_noadvance cb On_Method CHPE_CB_method (\<lambda>x. Next (upd (\<lambda>q. q\<lparr>p_index := bump (p_index q)\<rparr>) x)) (upd f x))"
    if "p_errno (f ?q) = CHPE_OK"
      "p_state (f ?q) = s_req_spaces_before_url \<or> p_state (f ?q) = s_req_method \<and> p_index (f ?q) < length (method_strings (p_method (f ?q)))" for f
    unfolding handles_def
  proof (intro flow_all_notify)
    fix x' assume r: "reacted (upd f x) x'"
    then have "no_marks x'" "pos x' = pos x" "nread x' = nread x" using reacted_no_marks m by auto
    moreover have "state_ok 0 (nread x) ((parser x')\<lparr>p_index := bump (p_index (parser x'))\<rparr>)" "p_errno (parser x') = CHPE_OK"
      using r that by (auto simp: reacted_def state_ok_def bump_le)
    ultimately show "flow_all (\<lambda>y. xinv 0 y \<and> pos x \<le> pos y \<and> pos y < length (data buf))
       (\<lambda>y. xinv 1 y \<and> pos x \<le> pos y \<and> pos y < length (data buf) \<and> cur y \<noteq> NUL \<and> rank (p_state (parser y)) < rank (p_state (parser x)))
       (\<lambda>n y. n \<le> length (data buf) \<and> parser_ok (parser y)) (\<lambda>y. pos y < length (data buf) \<and> p_errno (parser y) \<noteq> CHPE_OK) (Next (upd (\<lambda>q. q\<lparr>p_index := bump (p_index q)\<rparr>) x'))"
      using x(3) m by (simp add: xinv_def marks_ok_no_marks)
  qed (use that x(3) in auto)
  show ?thesis
    using after [of "\<lambda>q. q\<lparr>p_state := s_req_spaces_before_url\<rparr>"] after [of "\<lambda>q. q"] x m lt i
      after [of "\<lambda>q. q\<lparr>p_method := _\<rparr>"] switch_method_length [of "p_method ?q" "p_index ?q" "cur x"]
    by (simp add: st_req_method_def Let_def goto_state_def upd_def split: option.split)
qed

text \<open>A step of the URL automaton stays in URL states or dies, and touches only the query string offset.\<close>

definition url_result :: "http_parser \<Rightarrow> nat \<Rightarrow> pstate \<times> http_parser \<Rightarrow> bool" where
  "url_result q off r \<longleftrightarrow> (fst r = s_dead \<or> url_state (fst r)) \<and> (snd r = q \<or> snd r = q\<lparr>p_qs_point := off\<rparr>)"

lemma url_result_simps [simp]:
  "url_result q off (s_dead, q)" "url_result q off (s_req_path, q)" "url_result q off (s_req_schema, q)"
  "url_result q off (s_req_schema_slash, q)" "url_result q off (s_req_schema_slash_slash, q)"
  "url_result q off (s_req_server_start, q)" "url_result q off (s_req_server_with_at, q)" "url_result q off (s_req_server, q)"
  "url_result q off (s_req_query_string, q)" "url_result q off (s_req_query_string_start, q\<lparr>p_qs_point := off\<rparr>)"
  by (simp_all add: url_result_def url_state_def)

lemma url_server_result: "url_result q off (url_server ch off q)"
  by (simp add: url_server_def)

lemma parse_url_char_result:
  assumes "parse_url_char s ch off q = (s', q')"
  shows "s' = s_dead \<or> url_state s'" "q' = q \<or> q' = q\<lparr>p_qs_point := off\<rparr>"
proof -
  have "url_result q off (parse_url_char s ch off q)"
    by (cases s) (simp_all add: parse_url_char_def url_server_result)
  then show "s' = s_dead \<or> url_state s'" "q' = q \<or> q' = q\<lparr>p_qs_point := off\<rparr>"
    using assms by (simp_all add: url_result_def)
qed

lemma url_state_ok: "url_state s \<Longrightarrow> state_ok nr n (q\<lparr>p_state := s\<rparr>)"
  by (cases s) (simp_all add: url_state_def state_ok_def)

lemma handles_url_step:
  assumes "p_errno (parser x) = CHPE_OK" "unat (nread x) \<le> max_header_size" "field_mark x = None" "value_mark x = None" "body_mark x = None"
    and "pos x < length (data buf)" "pos z = pos x"
  shows "handles buf z (url_step buf x)"
proof -
  obtain s q where p: "parse_url_char (p_state (parser x)) (cur x) (url_offset buf x) (parser x) = (s, q)"
    by (cases "parse_url_char (p_state (parser x)) (cur x) (url_offset buf x) (parser x)")
  have q: "p_errno q = CHPE_OK" using parse_url_char_result(2) [OF p] assms(1) by auto
  show ?thesis
  proof (cases "s = s_dead")
    case True
    with p assms show ?thesis by (simp add: url_step_def handles_def)
  next
    case False
    then have "url_state s" using parse_url_char_result(1) [OF p] by blast
    with p q assms False show ?thesis
      by (simp add: url_step_def handles_def xinv_def marks_ok_def url_state_ok)
  qed
qed

lemma marks_None:
  assumes "xinv nr x"
  shows "p_state (parser x) \<noteq> s_header_field \<Longrightarrow> field_mark x = None" "p_state (parser x) \<noteq> s_header_value \<Longrightarrow> value_mark x = None"
    "\<not> url_state (p_state (parser x)) \<Longrightarrow> url_mark x = None" "\<not> body_state (p_state (parser x)) \<Longrightarrow> body_mark x = None"
    "p_errno (parser x) = CHPE_OK" "unat (nread x) \<le> max_header_size"
  using assms by (auto simp: xinv_def marks_ok_def)

lemma handles_req_spaces_before_url:
  assumes x: "xinv 1 x" "p_state (parser x) = s_req_spaces_before_url" "pos x < length (data buf)"
  shows "handles buf x (st_req_spaces_before_url buf x)"
proof (cases "cur x = CHR '' ''")
  case True
  with x show ?thesis by (simp add: st_req_spaces_before_url_def handles_def xinv_def state_ok_def)
next
  case False
  note m = marks_None [OF x(1)]
  show ?thesis using False x(2,3) m
    by (auto simp: st_req_spaces_before_url_def Let_def body_state_def intro!: handles_url_step)
qed

lemma handles_req_schema:
  assumes x: "xinv 1 x" "url_state (p_state (parser x))" "pos x < length (data buf)"
  shows "handles buf x (st_req_schema buf x)"
proof -
  have "p_state (parser x) \<noteq> s_header_field" "p_state (parser x) \<noteq> s_header_value" "\<not> body_state (p_state (parser x))"
    using x(2) by (auto simp: url_state_def body_state_def split: pstate.splits)
  then show ?thesis using x(3) marks_None [OF x(1)]
    by (auto simp: st_req_schema_def handles_def [of _ _ "fail _ _"] intro!: handles_url_step)
qed

lemma handles_req_url:
  assumes x: "xinv 1 x" "url_state (p_state (parser x))" "pos x < length (data buf)"
  shows "handles buf x (st_req_url cb buf x)"
proof -
  have s: "p_state (parser x) \<noteq> s_header_field" "p_state (parser x) \<noteq> s_header_value" "\<not> body_state (p_state (parser x))"
    using x(2) by (auto simp: url_state_def body_state_def split: pstate.splits)
  note m = marks_None(1) [OF x(1) s(1)] marks_None(2) [OF x(1) s(2)] marks_None(4) [OF x(1) s(3)] marks_None(5,6) [OF x(1)]
  have "handles buf x (data_url cb buf (pos x) (pos x + 1) Next y)"
    if "p_state (parser y) \<in> {s_req_http_start, s_req_line_almost_done, s_header_field_start}" "y\<lparr>parser := parser x\<rparr> = x"
      "p_errno (parser y) = CHPE_OK" for y
  proof -
    have y: "y = x\<lparr>parser := parser y\<rparr>" using that(2) by (cases y; cases x) simp
    show ?thesis
      unfolding handles_def data_url_def
      using that m x(3)
      by (subst y, intro flow_all_data) (auto simp: xinv_def marks_ok_def state_ok_def elim!: reactedE)
  qed
  then show ?thesis using x(3) m
    by (auto simp: st_req_url_def handles_def [of _ _ "fail _ _"] intro!: handles_url_step simp: goto_state_def upd_def)
qed

lemma handles_line:
  assumes x: "xinv 1 x" "pos x < length (data buf)"
  shows "p_state (parser x) = s_req_http_start \<Longrightarrow> handles buf x (st_req_http_start x)"
    "plain (p_state (parser x)) \<Longrightarrow> s \<in> {s_req_http_HT, s_req_http_HTT, s_req_http_HTTP, s_req_http_IC, s_req_http_major} \<Longrightarrow>
       handles buf x (expect c s x)"
    "p_state (parser x) = s_req_http_major \<Longrightarrow> handles buf x (st_req_http_major x)"
    "p_state (parser x) = s_req_http_dot \<Longrightarrow> handles buf x (st_req_http_dot x)"
    "p_state (parser x) = s_req_http_minor \<Longrightarrow> handles buf x (st_req_http_minor x)"
    "p_state (parser x) = s_req_http_end \<Longrightarrow> handles buf x (st_req_http_end x)"
    "p_state (parser x) = s_req_line_almost_done \<Longrightarrow> handles buf x (st_req_line_almost_done x)"
proof -
  note m = marks_None(5,6) [OF x(1)]
  note defs = plain_def url_state_def body_state_def state_ok_def goto_state_def
  have keep: "handles buf x (Next x)" if "p_state (parser x) = s_req_http_start"
    using x that by (simp add: handles_def xinv_def state_ok_def)
  show "handles buf x (st_req_http_start x)" if "p_state (parser x) = s_req_http_start"
    using x no_marks_plain [OF x(1)] that m keep by (auto simp: st_req_http_start_def defs intro!: handles_next)
  show "handles buf x (expect c s x)" if "plain (p_state (parser x))"
      "s \<in> {s_req_http_HT, s_req_http_HTT, s_req_http_HTTP, s_req_http_IC, s_req_http_major}"
    using x no_marks_plain [OF x(1) that(1)] that(2) m by (auto simp: expect_def handles_strict state_ok_def goto_state_def intro!: handles_next)
  show "handles buf x (st_req_http_major x)" if "p_state (parser x) = s_req_http_major"
    using x no_marks_plain [OF x(1)] that m by (auto simp: st_req_http_major_def defs intro!: handles_next)
  show "handles buf x (st_req_http_dot x)" if "p_state (parser x) = s_req_http_dot"
    using x no_marks_plain [OF x(1)] that m by (auto simp: st_req_http_dot_def defs intro!: handles_next)
  show "handles buf x (st_req_http_minor x)" if "p_state (parser x) = s_req_http_minor"
    using x no_marks_plain [OF x(1)] that m by (auto simp: st_req_http_minor_def defs intro!: handles_next)
  show "handles buf x (st_req_http_end x)" if "p_state (parser x) = s_req_http_end"
    using x no_marks_plain [OF x(1)] that m by (auto simp: st_req_http_end_def defs intro!: handles_next)
  show "handles buf x (st_req_line_almost_done x)" if "p_state (parser x) = s_req_line_almost_done"
    using x no_marks_plain [OF x(1)] that m by (auto simp: st_req_line_almost_done_def defs intro!: handles_next)
qed

end
