(* ===== verification/Http_Safety_Headers.thy ===== *)
theory Http_Safety_Headers
  imports Http_Safety
begin

text \<open>The invariant of the HTTP parser is preserved by the header states.\<close>

section \<open>Field names\<close>

lemma name_state_simps [simp]:
  "name_state h_general"
  "name_state h_C"
  "name_state h_CO"
  "name_state h_CON"
  "name_state h_matching_connection"
  "name_state h_matching_proxy_connection"
  "name_state h_matching_content_length"
  "name_state h_matching_transfer_encoding"
  "name_state h_matching_upgrade"
  "name_state h_connection"
  "name_state h_content_length"
  "name_state h_transfer_encoding"
  "name_state h_upgrade"
  "\<not> name_state h_content_length_num"
  "\<not> name_state h_content_length_ws"
  "\<not> name_state h_matching_transfer_encoding_token_start"
  "\<not> name_state h_matching_transfer_encoding_chunked"
  "\<not> name_state h_matching_transfer_encoding_token"
  "\<not> name_state h_matching_connection_keep_alive"
  "\<not> name_state h_matching_connection_close"
  "\<not> name_state h_transfer_encoding_chunked"
  "\<not> name_state h_connection_keep_alive"
  "\<not> name_state h_connection_close"
  by (simp_all add: name_state_def)

lemma match_word_cases: "match_word w i c h done gen \<in> {h, done, gen}"
  by (simp add: match_word_def)

lemma field_word_simps [simp]:
  "p_state (field_word w c d q) = p_state q" "p_errno (field_word w c d q) = p_errno q"
  by (simp_all add: field_word_def Let_def)

lemma field_word_name_state:
  "name_state (p_header_state q) \<Longrightarrow> name_state d \<Longrightarrow> name_state (p_header_state (field_word w c d q))"
  using match_word_cases [of w "bump (p_index q)" c "p_header_state q" d h_general]
  by (auto simp: field_word_def Let_def)

lemma header_field_char_ok:
  assumes "name_state (p_header_state q)"
  shows "\<exists>q'. header_field_char ch c q = Some q' \<and> name_state (p_header_state q') \<and> p_state q' = p_state q \<and> p_errno q' = p_errno q"
proof (cases "p_header_state q")
qed (use assms in \<open>simp_all add: header_field_char_def field_word_name_state Let_def\<close>)

lemma skip_token_bound: "p < length (data buf) \<Longrightarrow> p \<le> skip_token buf p \<and> skip_token buf p < length (data buf)"
proof -
  assume p: "p < length (data buf)"
  let ?s = "take (min (length (data buf) - p) max_header_size - 1) (drop (p + 1) (data buf))"
  have "length (takeWhile (\<lambda>c. token c \<noteq> NUL) ?s) \<le> length ?s" by (rule length_takeWhile_le)
  then show ?thesis using p by (simp add: skip_token_def)
qed

text \<open>The part of the local state the loop leaves alone.\<close>

definition same_marks :: "xstate \<Rightarrow> xstate \<Rightarrow> bool" where
  "same_marks x y \<longleftrightarrow> nread y = nread x \<and> field_mark y = field_mark x \<and> value_mark y = value_mark x \<and>
     url_mark y = url_mark x \<and> body_mark y = body_mark x"

lemma same_marks_refl [simp]: "same_marks x x" "same_marks x (x\<lparr>cur := c\<rparr>)" "same_marks x (x\<lparr>cur := c, pos := p, parser := q\<rparr>)"
  by (simp_all add: same_marks_def)

lemma same_marks_trans: "same_marks x y \<Longrightarrow> same_marks y z \<Longrightarrow> same_marks x z"
  by (simp add: same_marks_def)

lemma header_field_loop_ok:
  assumes "name_state (p_header_state (parser x))" "pos x \<le> length (data buf)"
  shows "\<exists>y. header_field_loop buf x = Some y \<and> name_state (p_header_state (parser y)) \<and> pos x \<le> pos y \<and>
    pos y \<le> length (data buf) \<and> p_state (parser y) = p_state (parser x) \<and> p_errno (parser y) = p_errno (parser x) \<and> same_marks x y"
  using assms
proof (induction buf x rule: header_field_loop.induct)
  case (1 buf x)
  show ?case
  proof (cases "length (data buf) \<le> pos x \<or> token (data buf ! pos x) = NUL")
    case True
    with 1(2,3) show ?thesis by (subst header_field_loop.simps) (auto simp: Let_def)
  next
    case False
    let ?ch = "data buf ! pos x"
    obtain q where q: "header_field_char ?ch (token ?ch) (parser x) = Some q" "name_state (p_header_state q)"
        "p_state q = p_state (parser x)" "p_errno q = p_errno (parser x)"
      using header_field_char_ok [OF 1(2)] by blast
    define p' where "p' = (if p_header_state (parser x) = h_general then skip_token buf (pos x) else pos x)"
    let ?x = "x\<lparr>cur := ?ch, parser := q, pos := p' + 1\<rparr>"
    have p': "pos x \<le> p'" "p' < length (data buf)"
      using skip_token_bound [of "pos x" buf] False by (auto simp: p'_def)
    have loop: "header_field_loop buf x = header_field_loop buf ?x"
      using False q(1) by (subst header_field_loop.simps) (simp add: Let_def p'_def)
    have "\<exists>y. header_field_loop buf ?x = Some y \<and> name_state (p_header_state (parser y)) \<and> pos ?x \<le> pos y \<and>
        pos y \<le> length (data buf) \<and> p_state (parser y) = p_state (parser ?x) \<and> p_errno (parser y) = p_errno (parser ?x) \<and> same_marks ?x y"
      using False q p' by (intro 1(1)) (auto simp: p'_def)
    then show ?thesis using q p' by (auto simp: loop same_marks_def)
  qed
qed

lemma handlesD: "handles buf y fl \<Longrightarrow> pos x \<le> pos y \<Longrightarrow> p_state (parser y) = p_state (parser x) \<Longrightarrow> handles buf x fl"
  by (cases fl) (auto simp: handles_def)

lemma handles_count:
  assumes "pos y < length (data buf)"
    and "\<And>n. unat n \<le> max_header_size \<Longrightarrow> handles buf x (k (y\<lparr>nread := n\<rparr>))"
  shows "handles buf x (count_header_size v k y)"
  using assms unfolding handles_def by (intro flow_all_count) auto

text \<open>A data callback that leads to a state without marks.\<close>

lemma handles_data:
  assumes "p_errno (parser y) = CHPE_OK" "er \<noteq> CHPE_OK" "ret \<le> length (data buf)"
    and "mark y = None \<Longrightarrow> handles buf x (k y)" "\<And>y'. reacted y y' \<Longrightarrow> handles buf x (k (clr y'))"
  shows "handles buf x (data_callback cb buf ev er mark clr hi ret k y)"
  using assms unfolding handles_def by (intro flow_all_data) auto

lemma handles_header_field:
  assumes x: "xinv 1 x" "p_state (parser x) = s_header_field" "pos x < length (data buf)"
  shows "handles buf x (st_header_field cb buf x)"
proof -
  have n: "name_state (p_header_state (parser x))" using x by (simp add: xinv_def state_ok_def)
  obtain y where y: "header_field_loop buf x = Some y" "name_state (p_header_state (parser y))" "pos x \<le> pos y"
      "pos y \<le> length (data buf)" "p_state (parser y) = s_header_field" "p_errno (parser y) = CHPE_OK" "same_marks x y"
    using header_field_loop_ok [OF n, of buf] x by (auto simp: xinv_def)
  have m: "value_mark y = None" "url_mark y = None" "body_mark y = None"
    using y(7) x(1,2) by (auto simp: same_marks_def xinv_def marks_ok_def url_state_def body_state_def)
  have s: "url_state s_header_field = False" "body_state s_header_field = False" by (simp_all add: url_state_def body_state_def)
  show ?thesis
  proof (cases "length (data buf) \<le> pos y")
    case True
    then have "pos x \<le> pos y - 1" "pos y - 1 < length (data buf)" using x(3) y(3,4) by auto
    with True y m s show ?thesis
      by (auto simp: st_header_field_def Let_def intro!: handles_count) (simp add: handles_def xinv_def marks_ok_def state_ok_def)
  next
    case False
    have "handles buf x (data_field cb buf (pos y) (pos y + 1) Next (goto_state s_header_value_discard_ws (y\<lparr>nread := n\<rparr>)))"
      if "unat n \<le> max_header_size" for n
      unfolding data_field_def using False y m that
      by (intro handles_data) (auto simp: handles_def xinv_def marks_ok_def state_ok_def elim!: reactedE)
    then show ?thesis using False y by (auto simp: st_header_field_def Let_def intro!: handles_count)
  qed
qed

lemma handles_header_field_start:
  assumes x: "xinv 1 x" "p_state (parser x) = s_header_field_start" "pos x < length (data buf)" "cur x \<noteq> NUL"
  shows "handles buf x (st_header_field_start x)"
proof -
  have "no_marks x" using no_marks_plain [OF x(1)] x(2) by (simp add: plain_def url_state_def body_state_def)
  then show ?thesis using x
    by (auto simp: st_header_field_start_def Let_def handles_def xinv_def marks_ok_def no_marks_def state_ok_def name_state_def rank_def)
qed

section \<open>Field values\<close>

text \<open>
  \<open>CROW_LOWER\<close> sets the bit 0x20, so it maps NUL to a blank as well.  This is why the connection
  header needs bytes other than NUL.
\<close>

lemma code_lower: "code (lower c) = or (code c) 32"
proof -
  have "code (lower c) = take_bit 8 (or (code c) 32)" by (simp add: lower_def take_bit_eq_mod)
  also have "\<dots> = or (code c) 32"
    using code_less [of c] by (simp add: take_bit_nat_eq_self)
  finally show ?thesis .
qed

lemma lower_facts: "(lower c = CHR '' '' \<longrightarrow> c = CHR '' '' \<or> c = NUL) \<and> lower c \<noteq> TAB"
proof (intro conjI impI notI)
  have b32: "bit (32 :: nat) i \<longleftrightarrow> i = 5" for i using bit_exp_iff [of 5 i, where ?'a = nat] by simp
  {
    assume "lower c = CHR '' ''"
    then have "or (code c) 32 = 32" using code_lower [of c] by (simp add: code_def)
    then have i: "bit (code c) i \<Longrightarrow> i = 5" for i using b32 [of i] by (metis bit_or_iff)
    have "code c = 0 \<or> code c = 32"
    proof (cases "bit (code c) 5")
      case True
      then have "bit (code c) n = bit (32 :: nat) n" for n using i [of n] b32 [of n] by blast
      then have "code c = 32" by (simp add: bit_eq_iff)
      then show ?thesis ..
    next
      case False
      then have "code c = 0" by (intro bit_eqI) (use i in auto)
      then show ?thesis ..
    qed
    then show "c = CHR '' '' \<or> c = NUL" using code_inj [of c NUL] code_inj [of c "CHR '' ''"] by (auto simp: NUL_def code_def)
  }
  assume "lower c = TAB"
  then have "or (code c) 32 = 9" using code_lower [of c] by (simp add: code_def)
  then have "bit (9 :: nat) 5" using b32 [of 5] by (metis bit_or_iff)
  then show False by (simp add: bit_numeral_rec)
qed

lemma value_state_simps [simp]:
  "\<not> value_state h_connection" "\<not> value_state h_transfer_encoding" "value_state h_general"
  "value_state h_content_length_num" "value_state h_content_length_ws" "value_state h_content_length"
  "value_state h_matching_transfer_encoding_token_start" "value_state h_matching_transfer_encoding_chunked"
  "value_state h_matching_transfer_encoding_token" "value_state h_matching_connection_keep_alive"
  "value_state h_matching_connection_close" "value_state h_transfer_encoding_chunked"
  "value_state h_connection_keep_alive" "value_state h_connection_close"
  by (simp_all add: value_state_def)

definition value_ok :: "http_parser \<Rightarrow> value_result \<Rightarrow> bool" where
  "value_ok q r \<longleftrightarrow>
     (case r of
        V_ok h' q' \<Rightarrow> value_state h' \<and> p_errno q' = p_errno q \<and> (p_state q = s_header_value \<longrightarrow> p_state q' = s_header_value)
      | V_error h' e \<Rightarrow> e \<noteq> CHPE_OK
      | V_abort \<Rightarrow> False)"

lemma value_ok_simps [simp]:
  "value_ok q (V_ok h' q') \<longleftrightarrow>
     value_state h' \<and> p_errno q' = p_errno q \<and> (p_state q = s_header_value \<longrightarrow> p_state q' = s_header_value)"
  "value_ok q (V_error h' e) \<longleftrightarrow> e \<noteq> CHPE_OK"
  by (simp_all add: value_ok_def)

lemma value_word_ok: "value_state h \<Longrightarrow> value_state d \<Longrightarrow> value_state g \<Longrightarrow> value_ok q (value_word w c h d g q)"
  using match_word_cases [of w "bump (p_index q)" c h d g] by (auto simp: value_word_def Let_def)

lemma content_length_digit_ok: "value_ok q (content_length_digit ch q)"
  by (simp add: content_length_digit_def)

lemma header_value_char_ok: "value_state h \<Longrightarrow> value_ok q (header_value_char ch c h q)"
  by (cases h) (simp_all add: header_value_char_def value_word_ok content_length_digit_ok)

text \<open>The local state in the loop over a value.\<close>

definition in_value :: "xstate \<Rightarrow> bool" where
  "in_value x \<longleftrightarrow> p_errno (parser x) = CHPE_OK \<and> p_state (parser x) = s_header_value \<and> unat (nread x) \<le> max_header_size \<and>
     field_mark x = None \<and> url_mark x = None \<and> body_mark x = None"

lemma url_body_state_simps [simp]:
  "\<not> url_state s_header_value" "\<not> body_state s_header_value" "\<not> url_state s_header_almost_done" "\<not> body_state s_header_almost_done"
  "\<not> url_state s_start_req" "\<not> body_state s_start_req" "\<not> url_state s_header_field" "\<not> body_state s_header_field"
  "\<not> url_state s_header_field_start" "\<not> body_state s_header_field_start"
  "\<not> url_state s_header_value_discard_lws" "\<not> body_state s_header_value_discard_lws"
  "\<not> url_state s_header_value_discard_ws" "\<not> body_state s_header_value_discard_ws"
  "\<not> url_state s_header_value_start" "\<not> body_state s_header_value_start"
  by (simp_all add: url_state_def body_state_def)

lemma handles_value_tail:
  assumes "p_errno (parser y) = CHPE_OK" "value_state h" "pos x \<le> pos y" "pos y < length (data buf)"
    and "in_value y \<or> no_marks y \<and> p_state (parser y) \<in> {s_header_almost_done, s_start_req}"
  shows "handles buf x (value_tail start h y)"
  unfolding value_tail_def
proof (rule handles_count)
  fix n :: u32 assume "unat n \<le> max_header_size"
  then show "handles buf x (Next ((upd (\<lambda>q. q\<lparr>p_header_state := h\<rparr>) y)\<lparr>nread := n\<rparr>))"
    using assms by (auto simp: handles_def xinv_def marks_ok_def no_marks_def in_value_def state_ok_def)
qed (use assms in simp)

lemma skip_value_error:
  assumes "skip_value lenient buf p = Inl p'" "p < length (data buf)"
  shows "p' < length (data buf)"
proof -
  let ?P = "\<lambda>c. c \<noteq> CR \<and> c \<noteq> LF \<and> (lenient \<or> is_header_char c)"
  let ?seg = "take max_header_size (drop p (data buf))"
  obtain n where n: "n = length (takeWhile ?P ?seg)" by blast
  have "n \<le> length ?seg" unfolding n by (rule length_takeWhile_le)
  then show ?thesis
    using assms unfolding skip_value_def Let_def n [symmetric] by (auto split: if_splits)
qed

text \<open>The loop never leaves the buffer: a run that fills \<open>max_header_size\<close> bytes may end at the end of the buffer.\<close>

lemma skip_value_inside:
  assumes "skip_value lenient buf p = Inr p'" "p < length (data buf)"
  shows "p' < length (data buf)"
proof -
  let ?P = "\<lambda>c. c \<noteq> CR \<and> c \<noteq> LF \<and> (lenient \<or> is_header_char c)"
  let ?seg = "take max_header_size (drop p (data buf))"
  obtain n where n: "n = length (takeWhile ?P ?seg)" by blast
  have "n \<le> length ?seg" unfolding n by (rule length_takeWhile_le)
  then show ?thesis
    using assms unfolding skip_value_def Let_def n [symmetric] by (auto split: if_splits)
qed

lemma handles_value_loop:
  assumes "in_value x" "value_state h" "start < length (data buf)" "start \<le> pos x" "pos x \<le> length (data buf)"
    and "pos z = start" "p_state (parser z) = s_header_value"
  shows "handles buf z (header_value_loop cb buf lenient start h x)"
  using assms
proof (induction cb buf lenient start h x rule: header_value_loop.induct)
  case (1 cb buf lenient start h x)
  note z = 1(7,8)
  let ?ch = "data buf ! pos x"
  let ?x = "x\<lparr>cur := ?ch\<rparr>"
  have x: "p_errno (parser x) = CHPE_OK" "p_state (parser x) = s_header_value" "unat (nread x) \<le> max_header_size"
      "field_mark x = None" "url_mark x = None" "body_mark x = None"
    using 1(2) by (auto simp: in_value_def)
  show ?case
  proof (cases "length (data buf) \<le> pos x")
    case True
    have "start \<le> pos x - 1" "pos x - 1 < length (data buf)" using True 1(4,5,6) by auto
    then have "handles buf z (value_tail start h (x\<lparr>pos := pos x - 1\<rparr>))"
      using 1(3) x by (intro handles_value_tail) (simp_all add: in_value_def z(1))
    with True show ?thesis by (subst header_value_loop.simps) simp
  next
    case False
    then have p: "pos x < length (data buf)" "start \<le> pos x" using 1(5) by auto
    consider (cr) "?ch = CR" | (lf) "?ch = LF" | (bad) "?ch \<noteq> CR" "?ch \<noteq> LF" "\<not> lenient \<and> \<not> is_header_char ?ch"
      | (char) "?ch \<noteq> CR" "?ch \<noteq> LF" "lenient \<or> is_header_char ?ch" by blast
    then show ?thesis
    proof cases
      case cr
      have "handles buf z (data_value cb buf (pos x) (pos x + 1) (value_tail start h)
          (upd (\<lambda>q. q\<lparr>p_state := s_header_almost_done, p_header_state := h\<rparr>) ?x))"
        unfolding data_value_def using p x z 1(3)
        by (intro handles_data handles_value_tail) (auto simp: no_marks_def reacted_def)
      with cr False show ?thesis by (subst header_value_loop.simps) (simp add: Let_def)
    next
      case lf
      have "handles buf z (count_header_size (pos x - start)
          (\<lambda>x. data_value cb buf (pos x) (pos x) Again (upd (\<lambda>q. q\<lparr>p_header_state := h\<rparr>) x)) (goto_state s_header_almost_done ?x))"
        using p x z lf 1(3) unfolding data_value_def
        by (intro handles_count handles_data)
          (auto simp: handles_def xinv_def marks_ok_def state_ok_def rank_def NUL_def elim!: reactedE)
      with lf False show ?thesis by (subst header_value_loop.simps) (simp add: Let_def)
    next
      case bad
      with False p show ?thesis by (subst header_value_loop.simps) (simp add: Let_def)
    next
      case char
      note c = header_value_char_ok [OF 1(3), of "parser x" ?ch "lower ?ch"]
      show ?thesis
      proof (cases "header_value_char ?ch (lower ?ch) h (parser x)")
        case (V_ok h' q)
        show ?thesis
        proof (cases "if h = h_general then skip_value lenient buf (pos x) else Inr (pos x)")
          case (Inl p')
          then have "p' < length (data buf)" using skip_value_error [of lenient buf "pos x" p'] p by (auto split: if_splits)
          with V_ok char False Inl show ?thesis by (subst header_value_loop.simps) (simp add: Let_def)
        next
          case (Inr p')
          then have p': "pos x \<le> p'" "p' \<le> length (data buf)" "p' < length (data buf)"
            using skip_value_advances [of "pos x" buf lenient p'] p char skip_value_inside [of lenient buf "pos x" p'] by (auto split: if_splits)
          have "handles buf z (header_value_loop cb buf lenient start h' (?x\<lparr>parser := q, pos := p' + 1\<rparr>))"
            using False char V_ok Inr p' p x c z 1(4) by (intro 1(1)) (auto simp: in_value_def)
          with V_ok char False Inr show ?thesis by (subst header_value_loop.simps) (simp add: Let_def)
        qed
      next
        case (V_error h' e)
        with c have "e \<noteq> CHPE_OK" by simp
        with V_error char False p show ?thesis by (subst header_value_loop.simps) (simp add: Let_def handles_def)
      next
        case V_abort
        with c show ?thesis by (simp add: value_ok_def)
      qed
    qed
  qed
qed

lemma handles_header_value:
  assumes x: "xinv 1 x" "p_state (parser x) = s_header_value" "pos x < length (data buf)"
  shows "handles buf x (st_header_value cb buf x)"
  unfolding st_header_value_def
  using x by (intro handles_value_loop) (auto simp: in_value_def xinv_def marks_ok_def state_ok_def)

section \<open>Start and end of a value\<close>

lemma handles_value_start:
  assumes y: "p_errno (parser y) = CHPE_OK" "unat (nread y) \<le> max_header_size" "no_marks y" "pos y < length (data buf)"
    and c: "p_header_state (parser y) = h_connection \<longrightarrow> cur y \<noteq> CHR '' ''" "cur y \<noteq> NUL" and z: "pos z = pos y"
  shows "handles buf z (st_header_value_start buf y)"
proof -
  let ?y = "upd (\<lambda>q. q\<lparr>p_state := s_header_value, p_index := 0\<rparr>) (y\<lparr>value_mark := set_mark (pos y) (value_mark y)\<rparr>)"
  have ok: "handles buf z (Next (upd f ?y))"
    if "p_state (f (parser ?y)) = s_header_value" "p_errno (f (parser ?y)) = CHPE_OK" "value_state (p_header_state (f (parser ?y)))" for f
    using that y z by (simp add: handles_def xinv_def marks_ok_def state_ok_def no_marks_def)
  have keep: "value_state (p_header_state (parser y)) \<Longrightarrow> handles buf z (Next ?y)"
    using y z by (simp add: handles_def xinv_def marks_ok_def state_ok_def no_marks_def)
  have low: "p_header_state (parser y) = h_connection \<longrightarrow> lower (cur y) \<noteq> CHR '' '' \<and> lower (cur y) \<noteq> TAB"
    using lower_facts [of "cur y"] c by blast
  show ?thesis
    unfolding st_header_value_start_def value_start_def Let_def
    using y low ok z
    by (cases "p_header_state (parser y)") (auto intro!: ok keep)
qed

lemma handles_discard_ws:
  assumes x: "xinv 1 x" "p_state (parser x) = s_header_value_discard_ws" "pos x < length (data buf)" "cur x \<noteq> NUL"
  shows "handles buf x (st_header_value_discard_ws buf x)"
proof -
  have m: "no_marks x" using no_marks_plain [OF x(1)] x(2) by (simp add: plain_def)
  have "handles buf x (st_header_value_start buf x)" if "cur x \<noteq> CHR '' ''"
    using x m that by (intro handles_value_start) (auto simp: xinv_def)
  moreover have "handles buf x (Next x)"
    using x m by (simp add: handles_def xinv_def marks_ok_no_marks state_ok_def)
  moreover have "handles buf x (Next (goto_state s x))" if "s \<in> {s_header_value_discard_ws_almost_done, s_header_value_discard_lws}" for s
    using x m that unfolding goto_state_def by (intro handles_next) (auto simp: xinv_def state_ok_def)
  ultimately show ?thesis by (simp add: st_header_value_discard_ws_def)
qed

lemma handles_value_start_state:
  assumes x: "xinv 1 x" "p_state (parser x) = s_header_value_start" "pos x < length (data buf)" "cur x \<noteq> NUL"
  shows "handles buf x (st_header_value_start buf x)"
proof -
  have "no_marks x" using no_marks_plain [OF x(1)] x(2) by (simp add: plain_def)
  then show ?thesis using x by (intro handles_value_start) (auto simp: xinv_def state_ok_def)
qed

lemma handles_header_almost_done:
  assumes x: "xinv 1 x" "p_state (parser x) = s_header_almost_done" "pos x < length (data buf)"
  shows "handles buf x (st_header_almost_done x)"
proof -
  have "no_marks x" using no_marks_plain [OF x(1)] x(2) by (simp add: plain_def)
  then show ?thesis using x
    by (auto simp: st_header_almost_done_def goto_state_def xinv_def state_ok_def intro!: handles_next)
qed

lemma handles_header_value_lws:
  assumes x: "xinv 1 x" "p_state (parser x) = s_header_value_lws" "pos x < length (data buf)" "cur x \<noteq> NUL"
  shows "handles buf x (st_header_value_lws x)"
proof -
  have "no_marks x" using no_marks_plain [OF x(1)] x(2) by (simp add: plain_def url_state_def body_state_def)
  then show ?thesis using x
    by (simp add: st_header_value_lws_def handles_def xinv_def state_ok_def marks_ok_no_marks rank_def)
qed

lemma handles_discard_ws_almost_done:
  assumes x: "xinv 1 x" "p_state (parser x) = s_header_value_discard_ws_almost_done" "pos x < length (data buf)"
  shows "handles buf x (st_header_value_discard_ws_almost_done x)"
proof -
  have "no_marks x" using no_marks_plain [OF x(1)] x(2) by (simp add: plain_def url_state_def body_state_def)
  then show ?thesis using x
    by (auto simp: st_header_value_discard_ws_almost_done_def handles_strict goto_state_def xinv_def state_ok_def intro!: handles_next)
qed

lemma handles_discard_lws:
  assumes x: "xinv 1 x" "p_state (parser x) = s_header_value_discard_lws" "pos x < length (data buf)" "cur x \<noteq> NUL"
  shows "handles buf x (st_header_value_discard_lws cb buf x)"
proof -
  have m: "no_marks x" using no_marks_plain [OF x(1)] x(2) by (simp add: plain_def)
  have "handles buf x (data_value cb buf (pos x) (pos x) Again
      (goto_state s_header_field_start (x\<lparr>value_mark := set_mark (pos x) (value_mark x)\<rparr>)))"
    unfolding data_value_def using x m
    by (intro handles_data) (auto simp: handles_def xinv_def marks_ok_def no_marks_def state_ok_def rank_def elim!: reactedE)
  then show ?thesis using x m
    by (auto simp: st_header_value_discard_lws_def goto_state_def xinv_def state_ok_def intro!: handles_next)
qed

end
