(* ===== verification/Http_Safety_Body.thy ===== *)
theory Http_Safety_Body
  imports Http_Safety_Headers
begin

text \<open>
  The invariant of the HTTP parser is preserved by the body states, hence by the loop and by whole
  calls of \<open>http_parser_execute\<close>, in any number of reads.
\<close>

section \<open>End of the headers\<close>

lemma handles_Next:
  assumes "no_marks y" "pos x \<le> pos y" "pos y < length (data buf)" "p_errno (parser y) = CHPE_OK" "unat (nread y) \<le> max_header_size"
    "state_ok 0 (nread y) (parser y)"
  shows "handles buf x (Next y)"
  using assms by (simp add: handles_def xinv_def marks_ok_no_marks)

lemma handles_notify:
  assumes "p_errno (parser y) = CHPE_OK" "er \<noteq> CHPE_OK" "pos y < length (data buf)" "\<And>y'. reacted y y' \<Longrightarrow> handles buf x (k y')"
  shows "handles buf x (notify cb ev er k y)"
  using assms unfolding handles_def by (intro flow_all_notify) auto

lemma handles_headers_complete:
  assumes "p_errno (parser y) = CHPE_OK" "p_state (parser y) = s_headers_done" "no_marks y" "pos y < length (data buf)"
    "unat (nread y) \<le> max_header_size" "cur y \<noteq> NUL" "pos x = pos y" "p_state (parser x) = s_headers_almost_done"
  shows "handles buf x (headers_complete cb y)"
proof -
  have "state_ok 1 n (q\<lparr>p_state := s_headers_done\<rparr>)" "state_ok 1 n (q\<lparr>p_state := s_start_req\<rparr>)" for n q by (simp_all add: state_ok_def)
  then show ?thesis
    using assms
    by (simp add: headers_complete_def Let_def handles_def xinv_def marks_ok_def no_marks_def rank_def react_def state_ok_def)
qed

lemma handles_headers_almost_done:
  assumes x: "xinv 1 x" "p_state (parser x) = s_headers_almost_done" "pos x < length (data buf)" "cur x \<noteq> NUL"
  shows "handles buf x (st_headers_almost_done cb x)"
proof -
  have m: "no_marks x" using no_marks_plain [OF x(1)] x(2) by (simp add: plain_def url_state_def body_state_def)
  have "handles buf x (notify cb Message_Complete CHPE_CB_message_complete Next x)"
    using x m by (intro handles_notify)
      (auto simp: xinv_def handles_def marks_ok_no_marks state_ok_def no_marks_def elim!: reactedE)
  then show ?thesis using x m
    by (auto simp: st_headers_almost_done_def handles_strict xinv_def no_marks_def intro!: handles_headers_complete)
qed

lemma handles_headers_done:
  assumes x: "xinv 1 x" "p_state (parser x) = s_headers_done" "pos x < length (data buf)"
  shows "handles buf x (st_headers_done cb x)"
proof -
  have m: "no_marks x" using no_marks_plain [OF x(1)] x(2) by (simp add: plain_def url_state_def body_state_def)
  let ?x1 = "upd (\<lambda>q. q\<lparr>p_nread := 0\<rparr>) (x\<lparr>nread := 0\<rparr>)"
  have c: "handles buf x (notify cb Message_Complete CHPE_CB_message_complete k ?x1)"
    if "k = Next \<or> k = (\<lambda>x. Stop (pos x + 1) (upd (\<lambda>q. q\<lparr>p_nread := nread x\<rparr>) x))" for k
    using x m that by (intro handles_notify)
      (auto simp: xinv_def handles_def marks_ok_no_marks state_ok_def no_marks_def parser_ok_def elim!: reactedE)
  have "handles buf x (Next (goto_state s ?x1))"
    if "s = s_chunk_size_start \<and> F_CHUNKED \<in> p_flags (parser x) \<or> s = s_body_identity_eof
      \<or> s = s_body_identity \<and> p_content_length (parser x) \<noteq> 0 \<and> p_content_length (parser x) \<noteq> ULLONG_MAX" for s
    using x m that by (intro handles_Next) (auto simp: state_ok_def xinv_def no_marks_def)
  moreover have "handles buf x (Stop (pos ?x1) (set_errno CHPE_INVALID_TRANSFER_ENCODING ?x1))"
    using x by (simp add: handles_def)
  ultimately show ?thesis using c x
    by (simp add: st_headers_done_def handles_strict Let_def)
qed

section \<open>Bodies\<close>

lemma to_read_pos:
  assumes "p_content_length (parser x) \<noteq> 0" "pos x < length (data buf)"
  shows "0 < to_read buf x" "pos x + to_read buf x - 1 < length (data buf)" "to_read buf x \<le> unat (p_content_length (parser x))"
  using assms unat_eq_zero [of "p_content_length (parser x)"] by (auto simp: to_read_def)

lemma unat_ULLONG_MAX: "unat ULLONG_MAX = 2 ^ 64 - 1"
  by (simp add: ULLONG_MAX_def unsigned_minus_1_eq_mask mask_eq_exp_minus_1)

text \<open>What is left of a length after a read is smaller than the length, so it is not the maximum either.\<close>

lemma content_length_left:
  assumes "0 < n" "n \<le> unat (c :: u64)"
  shows "c - of_nat n \<noteq> ULLONG_MAX" "unat (c - of_nat n) = unat c - n"
proof -
  have u: "unat (of_nat n :: u64) = n"
    using assms(2) unsigned_less [where ?'a = nat, of c] by (simp add: unsigned_of_nat take_bit_nat_eq_self)
  have le: "of_nat n \<le> c" using assms u by (simp add: word_le_nat_alt)
  show d: "unat (c - of_nat n) = unat c - n" using unat_sub [OF le] u by simp
  have "unat (c - of_nat n) < 2 ^ 64 - 1" using d assms unsigned_less [where ?'a = nat, of c] by simp
  then show "c - of_nat n \<noteq> ULLONG_MAX" using unat_ULLONG_MAX by (metis less_irrefl)
qed

lemma take_body_simps [simp]:
  "pos (take_body buf x) = pos x + to_read buf x - 1" "nread (take_body buf x) = nread x"
  "parser (take_body buf x) = (parser x)\<lparr>p_content_length := p_content_length (parser x) - of_nat (to_read buf x)\<rparr>"
  "field_mark (take_body buf x) = field_mark x" "value_mark (take_body buf x) = value_mark x"
  "url_mark (take_body buf x) = url_mark x" "cur (take_body buf x) = cur x"
  by (simp_all add: take_body_def Let_def)

lemma handles_body_identity:
  assumes x: "xinv 1 x" "p_state (parser x) = s_body_identity" "pos x < length (data buf)" "cur x \<noteq> NUL"
  shows "handles buf x (st_body_identity cb buf x)"
proof -
  have cl: "p_content_length (parser x) \<noteq> 0" "p_content_length (parser x) \<noteq> ULLONG_MAX"
    using x by (auto simp: xinv_def state_ok_def)
  note n = to_read_pos [OF cl(1) x(3)]
  have p: "pos x \<le> pos x + to_read buf x - 1" using n(1) by simp
  have m: "field_mark x = None" "value_mark x = None" "url_mark x = None"
    using x by (auto simp: xinv_def marks_ok_def url_state_def)
  have "handles buf x (data_body cb buf (pos (take_body buf x) + 1) (pos (take_body buf x)) Again (goto_state s_message_done (take_body buf x)))"
    unfolding data_body_def using x n m p
    by (intro handles_data)
      (auto simp: handles_def xinv_def marks_ok_def state_ok_def rank_def body_state_def take_body_def Let_def elim!: reactedE)
  moreover have "handles buf x (Next (take_body buf x))"
    if "p_content_length (parser x) - of_nat (to_read buf x) \<noteq> 0"
    using x n(2) m p that content_length_left(1) [OF n(1,3)]
    by (simp add: handles_def xinv_def marks_ok_def state_ok_def body_state_def)
  ultimately show ?thesis
    using cl by (simp add: st_body_identity_def handles_assertion Let_def)
qed

lemma handles_body_identity_eof:
  assumes x: "xinv 1 x" "p_state (parser x) = s_body_identity_eof" "pos x < length (data buf)"
  shows "handles buf x (st_body_identity_eof buf x)"
proof -
  have "pos x \<le> length (data buf) - 1" using x by simp
  then show ?thesis using x
    by (auto simp: st_body_identity_eof_def handles_def xinv_def marks_ok_def state_ok_def body_state_def)
qed

lemma handles_message_done:
  assumes x: "xinv 1 x" "p_state (parser x) = s_message_done" "pos x < length (data buf)"
  shows "handles buf x (st_message_done cb x)"
proof -
  have m: "no_marks x" using no_marks_plain [OF x(1)] x(2) by (simp add: plain_def url_state_def body_state_def)
  show ?thesis unfolding st_message_done_def using x m
    by (intro handles_notify) (auto simp: xinv_def handles_def marks_ok_no_marks state_ok_def no_marks_def elim!: reactedE)
qed

section \<open>Chunks\<close>

lemma small_not_max: "unat (w :: u64) < 2 ^ 64 - 1 \<Longrightarrow> w \<noteq> ULLONG_MAX"
  using unat_ULLONG_MAX by (metis less_irrefl)

lemma unhex_range: "unhex c \<noteq> - 1 \<Longrightarrow> 0 \<le> unhex c \<and> unhex c < 16"
  by (auto simp: unhex_def is_digit_def split: if_splits)

lemma unat_hex_digit: "unhex c \<noteq> - 1 \<Longrightarrow> unat (of_int (unhex c) :: u64) = nat (unhex c)"
  using unhex_range [of c] by (simp add: unat_eq_nat_uint uint_word_of_int_eq take_bit_int_eq_self)

text \<open>The overflow test of the chunk size is conservative: the new value is exact and never the maximum.\<close>

lemma chunk_digit:
  assumes "\<not> cl > (ULLONG_MAX - 16) div 16" "unhex c \<noteq> - 1"
  shows "unat (cl * 16 + of_int (unhex c)) = unat cl * 16 + nat (unhex c)" "cl * 16 + of_int (unhex c) \<noteq> ULLONG_MAX"
proof -
  have "unat ((ULLONG_MAX - 16) div 16) = 1152921504606846974"
    by (simp add: ULLONG_MAX_def unat_div)
  then have cl: "unat cl \<le> 1152921504606846974" using assms(1) by (simp add: word_less_nat_alt not_less)
  have v: "nat (unhex c) < 16" using unhex_range [OF assms(2)] by (simp add: nat_less_iff)
  have m: "unat (cl * 16) = unat cl * 16"
    using cl by (simp add: unat_word_ariths mod_less)
  show u: "unat (cl * 16 + of_int (unhex c)) = unat cl * 16 + nat (unhex c)"
    using cl v m unat_hex_digit [OF assms(2)] by (simp add: unat_word_ariths mod_less)
  show "cl * 16 + of_int (unhex c) \<noteq> ULLONG_MAX"
    by (rule small_not_max) (use u cl v in simp)
qed

lemma handles_chunk:
  assumes x: "xinv 1 x" "pos x < length (data buf)"
  shows "p_state (parser x) = s_chunk_size_start \<Longrightarrow> handles buf x (st_chunk_size_start x)"
    "p_state (parser x) = s_chunk_size \<Longrightarrow> handles buf x (st_chunk_size x)"
    "p_state (parser x) = s_chunk_parameters \<Longrightarrow> handles buf x (st_chunk_parameters x)"
    "p_state (parser x) = s_chunk_size_almost_done \<Longrightarrow> handles buf x (st_chunk_size_almost_done x)"
    "p_state (parser x) = s_chunk_data_done \<Longrightarrow> handles buf x (st_chunk_data_done x)"
proof -
  note pl = no_marks_plain [OF x(1)]
  note defs = plain_def url_state_def body_state_def
  have e: "p_errno (parser x) = CHPE_OK" "unat (nread x) \<le> max_header_size" using x by (auto simp: xinv_def)
  show "handles buf x (st_chunk_size_start x)" if s: "p_state (parser x) = s_chunk_size_start"
  proof -
    have "of_int (unhex (cur x)) \<noteq> ULLONG_MAX" if "unhex (cur x) \<noteq> - 1"
      by (rule small_not_max) (use unat_hex_digit [OF that] unhex_range [OF that] in \<open>simp add: nat_less_iff\<close>)
    then show ?thesis using x s e pl
      by (auto simp: st_chunk_size_start_def handles_assertion Let_def defs xinv_def state_ok_def intro!: handles_Next)
  qed
  show "handles buf x (st_chunk_size x)" if "p_state (parser x) = s_chunk_size"
    using x that e pl chunk_digit(2) [of "p_content_length (parser x)" "cur x"]
    by (auto simp: st_chunk_size_def handles_assertion Let_def defs xinv_def state_ok_def intro!: handles_Next)
  show "handles buf x (st_chunk_parameters x)" if "p_state (parser x) = s_chunk_parameters"
    using x that e pl
    by (auto simp: st_chunk_parameters_def handles_assertion defs xinv_def state_ok_def intro!: handles_Next)
  show "handles buf x (st_chunk_size_almost_done x)" if "p_state (parser x) = s_chunk_size_almost_done"
    using x that e pl
    by (auto simp: st_chunk_size_almost_done_def handles_assertion handles_strict Let_def defs xinv_def state_ok_def intro!: handles_Next)
  show "handles buf x (st_chunk_data_done x)" if "p_state (parser x) = s_chunk_data_done"
    using x that e pl
    by (auto simp: st_chunk_data_done_def handles_assertion handles_strict defs xinv_def state_ok_def intro!: handles_Next)
qed

lemma handles_chunk_data:
  assumes x: "xinv 1 x" "p_state (parser x) = s_chunk_data" "pos x < length (data buf)"
  shows "handles buf x (st_chunk_data buf x)"
proof -
  have cl: "F_CHUNKED \<in> p_flags (parser x)" "p_content_length (parser x) \<noteq> 0" "p_content_length (parser x) \<noteq> ULLONG_MAX"
    using x by (auto simp: xinv_def state_ok_def)
  note n = to_read_pos [OF cl(2) x(3)]
  have p: "pos x \<le> pos x + to_read buf x - 1" using n(1) by simp
  have "handles buf x (Next (take_body buf x))"
    if "p_content_length (parser x) - of_nat (to_read buf x) \<noteq> 0"
    using x cl n(2) p that content_length_left(1) [OF n(1,3)]
    by (simp add: handles_def xinv_def marks_ok_def state_ok_def body_state_def url_state_def)
  moreover have "handles buf x (Next (goto_state s_chunk_data_almost_done (take_body buf x)))"
    if "p_content_length (parser x) - of_nat (to_read buf x) = 0"
    using x cl n(2) p that by (simp add: handles_def xinv_def marks_ok_def state_ok_def body_state_def url_state_def)
  ultimately show ?thesis
    using cl by (simp add: st_chunk_data_def handles_assertion Let_def)
qed

lemma handles_chunk_data_almost_done:
  assumes x: "xinv 1 x" "p_state (parser x) = s_chunk_data_almost_done" "pos x < length (data buf)"
  shows "handles buf x (st_chunk_data_almost_done cb buf x)"
proof -
  have cl: "F_CHUNKED \<in> p_flags (parser x)" "p_content_length (parser x) = 0" using x by (auto simp: xinv_def state_ok_def)
  have "handles buf x (data_body cb buf (pos x) (pos x + 1) Next (goto_state s_chunk_data_done x))"
    unfolding data_body_def using x cl
    by (intro handles_data) (auto simp: handles_def xinv_def marks_ok_def state_ok_def body_state_def url_state_def elim!: reactedE)
  then show ?thesis using x cl by (simp add: st_chunk_data_almost_done_def handles_assertion handles_strict)
qed

section \<open>Whole calls\<close>

lemma handles_exec_state:
  assumes x: "xinv 1 x" "pos x < length (data buf)" "cur x \<noteq> NUL"
  shows "handles buf x (exec_state cb buf x)"
proof -
  have url: "p_state (parser x) \<in> {s_req_schema, s_req_schema_slash, s_req_schema_slash_slash, s_req_server_start} \<Longrightarrow>
      handles buf x (st_req_schema buf x)"
    using x by (intro handles_req_schema) (auto simp: url_state_def)
  have url2: "p_state (parser x) \<in> {s_req_server, s_req_server_with_at, s_req_path, s_req_query_string_start, s_req_query_string} \<Longrightarrow>
      handles buf x (st_req_url cb buf x)"
    using x by (intro handles_req_url) (auto simp: url_state_def)
  have ex: "p_state (parser x) \<in> {s_req_http_H, s_req_http_HT, s_req_http_HTT, s_req_http_I, s_req_http_IC, s_req_http_HTTP} \<Longrightarrow>
      s \<in> {s_req_http_HT, s_req_http_HTT, s_req_http_HTTP, s_req_http_IC, s_req_http_major} \<Longrightarrow> handles buf x (expect c s x)" for c s
    using x by (intro handles_line) (auto simp: plain_def url_state_def body_state_def)
  show ?thesis
    using x url url2 ex
    by (cases "p_state (parser x)")
      (simp_all add: exec_state_def handles_dead handles_start_req handles_req_method handles_req_spaces_before_url
        handles_line handles_header_field_start handles_header_field handles_discard_ws handles_discard_ws_almost_done
        handles_discard_lws handles_value_start_state handles_header_value handles_header_value_lws handles_header_almost_done
        handles_chunk handles_headers_almost_done handles_headers_done handles_chunk_data handles_chunk_data_almost_done
        handles_body_identity handles_body_identity_eof handles_message_done)
qed

lemma handles_reexecute:
  assumes "xinv 1 x" "pos x < length (data buf)" "cur x \<noteq> NUL"
  shows "flow_all (\<lambda>y. xinv 0 y \<and> pos x \<le> pos y \<and> pos y < length (data buf)) (\<lambda>y. False)
       (\<lambda>n y. n \<le> length (data buf) \<and> parser_ok (parser y)) (\<lambda>y. pos y < length (data buf) \<and> p_errno (parser y) \<noteq> CHPE_OK)
       (reexecute cb buf x)"
  using assms
proof (induction cb buf x rule: reexecute.induct)
  case (1 cb buf x)
  have h: "handles buf x (exec_state cb buf x)" by (rule handles_exec_state) (use 1 in auto)
  show ?case
  proof (cases "exec_state cb buf x")
    case (Again y)
    then have y: "xinv 1 y" "pos y < length (data buf)" "cur y \<noteq> NUL" "pos x \<le> pos y" using h by (auto simp: handles_def)
    from 1(1) [OF Again y(1-3)] y(4) Again show ?thesis
      by (auto simp: reexecute.simps [of cb buf x] flow_all_def split: flow.splits)
  qed (use h in \<open>auto simp: reexecute.simps [of cb buf x] handles_def\<close>)
qed

lemma xinv_count:
  assumes "xinv 0 x" "parsing_header (p_state (parser x))" "unat (nread x + 1) \<le> max_header_size"
  shows "xinv 1 (x\<lparr>cur := c, nread := nread x + 1\<rparr>)"
  using assms by (auto simp: xinv_def marks_ok_def state_ok_def split: pstate.splits)

lemma handles_exec_byte:
  assumes x: "xinv 0 x" "pos x < length (data buf)" "NUL \<notin> set (data buf)"
  shows "flow_all (\<lambda>y. xinv 0 y \<and> pos x \<le> pos y \<and> pos y < length (data buf)) (\<lambda>y. False)
       (\<lambda>n y. n \<le> length (data buf) \<and> parser_ok (parser y)) (\<lambda>y. pos y < length (data buf) \<and> p_errno (parser y) \<noteq> CHPE_OK)
       (exec_byte cb buf x)"
proof -
  let ?c = "data buf ! pos x"
  have c: "?c \<noteq> NUL" using x(2,3) by (metis nth_mem)
  show ?thesis
  proof (cases "parsing_header (p_state (parser x))")
    case True
    show ?thesis
    proof (cases "unat (nread x + 1) > max_header_size")
      case True
      with \<open>parsing_header _\<close> x show ?thesis by (simp add: exec_byte_def Let_def count_header_size_def)
    next
      case False
      have "xinv 1 (x\<lparr>cur := ?c, nread := nread x + 1\<rparr>)" using xinv_count [OF x(1) True] False by simp
      from handles_reexecute [OF this, of buf cb] x c False True show ?thesis
        by (simp add: exec_byte_def Let_def count_header_size_def)
    qed
  next
    case False
    have "xinv 1 (x\<lparr>cur := ?c\<rparr>)"
      using x(1) False by (auto simp: xinv_def marks_ok_def state_ok_def parsing_header_def split: pstate.splits)
    from handles_reexecute [OF this, of buf cb] x c False show ?thesis
      by (simp add: exec_byte_def Let_def)
  qed
qed

lemma handles_exec_loop:
  assumes "xinv 0 x" "pos x \<le> length (data buf)" "NUL \<notin> set (data buf)"
  shows "flow_all (\<lambda>y. xinv 0 y \<and> pos y = length (data buf)) (\<lambda>y. False)
       (\<lambda>n y. n \<le> length (data buf) \<and> parser_ok (parser y)) (\<lambda>y. pos y < length (data buf) \<and> p_errno (parser y) \<noteq> CHPE_OK)
       (exec_loop cb buf x)"
  using assms
proof (induction cb buf x rule: exec_loop.induct)
  case (1 cb buf x)
  show ?case
  proof (cases "length (data buf) \<le> pos x")
    case True
    with 1 show ?thesis by (simp add: exec_loop.simps [of cb buf x])
  next
    case False
    then have p: "pos x < length (data buf)" by simp
    note b = handles_exec_byte [OF 1(2) p 1(4), of cb]
    show ?thesis
    proof (cases "exec_byte cb buf x")
      case (Next y)
      then have y: "xinv 0 (y\<lparr>pos := pos y + 1\<rparr>)" "pos (y\<lparr>pos := pos y + 1\<rparr>) \<le> length (data buf)"
        using b by (auto simp: xinv_def marks_ok_def)
      from 1(1) [OF False Next y 1(4)] show ?thesis using Next False by (simp add: exec_loop.simps [of cb buf x])
    qed (use b False in \<open>auto simp: exec_loop.simps [of cb buf x]\<close>)
  qed
qed

text \<open>After the last byte at most one mark is left; delivering it ends the call.\<close>

lemma marks_left_le: "marks_ok x \<Longrightarrow> marks_left x \<le> 1"
  by (cases "p_state (parser x)") (auto simp: marks_ok_def marks_left_def url_state_def body_state_def)

definition ending :: "buffer \<Rightarrow> flow \<Rightarrow> bool" where
  "ending buf = flow_all (\<lambda>y. False) (\<lambda>y. False) (\<lambda>n y. n \<le> length (data buf) \<and> parser_ok (parser y)) (\<lambda>y. False)"

lemma state_ok_start: "state_ok nr n (q\<lparr>p_qs_point := k, p_state := s_start_req\<rparr>)"
  by (simp add: state_ok_def)

lemma state_ok_nread [simp]: "state_ok nr n (q\<lparr>p_nread := m\<rparr>) = state_ok nr n q"
  by (cases "p_state q") (simp_all add: state_ok_def)

definition quiet :: "xstate \<Rightarrow> bool" where
  "quiet x \<longleftrightarrow> p_errno (parser x) = CHPE_OK \<and> unat (nread x) \<le> max_header_size \<and> state_ok 0 (nread x) (parser x)"

lemma ending_data:
  assumes "quiet x" "ret \<le> length (data buf)" "er \<noteq> CHPE_OK" "\<And>y. quiet y \<Longrightarrow> ending buf (k y)"
    and clr: "\<And>y. parser (clr y) = parser y \<and> nread (clr y) = nread y"
  shows "ending buf (data_callback cb buf ev er mark clr hi ret k x)"
proof -
  have "quiet (clr y)" if "reacted x y" for y
    using assms(1) clr [of y] that by (auto simp: quiet_def state_ok_start elim!: reactedE)
  then show ?thesis
    using assms unfolding ending_def by (intro flow_all_data) (auto simp: quiet_def)
qed

lemma ending_finish:
  assumes "xinv 0 x" "pos x = length (data buf)"
  shows "ending buf (finish cb buf x)"
proof -
  have last: "ending buf (Stop n (upd (\<lambda>q. q\<lparr>p_nread := nread y\<rparr>) y))" if "quiet y" "n = length (data buf)" for n y
    using that unfolding ending_def by (simp add: quiet_def parser_ok_def)
  have "quiet x" "marks_left x \<le> 1" using assms(1) marks_left_le by (auto simp: xinv_def quiet_def)
  then show ?thesis
    unfolding finish_def Let_def data_defs by (simp add: assertion_def) (intro ending_data last; simp)
qed

lemma initial_xinv: "parser_ok q \<Longrightarrow> p_errno q = CHPE_OK \<Longrightarrow> xinv 0 (initial_xstate q evs)"
  by (simp add: initial_xstate_def xinv_def parser_ok_def marks_ok_def url_state_def split: pstate.split)

lemma execute_safe:
  assumes "parser_ok q" "NUL \<notin> set (data buf)"
  shows "\<exists>n q' evs'. http_parser_execute cb q evs buf = Executed n q' evs' \<and> parser_ok q' \<and> n \<le> max 1 (length (data buf))"
proof -
  let ?x = "initial_xstate q evs"
  consider (error) "p_errno q \<noteq> CHPE_OK" | (eof) "p_errno q = CHPE_OK" "data buf = []" | (run) "p_errno q = CHPE_OK" "data buf \<noteq> []" by blast
  then show ?thesis
  proof cases
    case error
    then show ?thesis by (simp add: http_parser_execute_def Let_def)
  next
    case eof
    have "flow_all (\<lambda>y. False) (\<lambda>y. False) (\<lambda>n y. n \<le> 1 \<and> parser_ok (parser y)) (\<lambda>y. False) (at_eof cb ?x)"
      using eof assms(1)
      by (simp add: at_eof_def initial_xstate_def parser_ok_def split: pstate.split)
        (auto simp: initial_xstate_def parser_ok_def state_ok_def intro!: flow_all_notify(2) elim!: reactedE)
    with eof show ?thesis
      by (cases "at_eof cb ?x") (auto simp: http_parser_execute_def Let_def outcome_of_def)
  next
    case run
    have x: "xinv 0 ?x" "pos ?x \<le> length (data buf)" using initial_xinv [OF assms(1) run(1)] by (simp_all add: initial_xstate_def)
    note l = handles_exec_loop [OF x assms(2), of cb]
    show ?thesis
    proof (cases "exec_loop cb buf ?x")
      case (Next y)
      then have "ending buf (finish cb buf y)" using l ending_finish by auto
      with Next run show ?thesis
        by (cases "finish cb buf y") (auto simp: http_parser_execute_def Let_def outcome_of_def ending_def)
    qed (use l run in \<open>auto simp: http_parser_execute_def Let_def outcome_of_def on_error_def\<close>)
  qed
qed

end
