(* ===== verification/Http_Run.thy ===== *)
theory Http_Run
  imports Http_Safety_Body
begin

text \<open>
  Running \<open>http_parser_execute\<close> symbolically with callbacks that accept everything: each notification
  only extends the log, and the main loop advances byte by byte.  The lemmas here carry the
  functional properties of the parser in \<open>Http_Properties\<close>.
\<close>

section \<open>Callbacks that accept\<close>

definition accept_all :: callbacks where
  "accept_all evs q = \<lparr>rc = 0, cb_errno = CHPE_OK, cb_clear = False\<rparr>"

definition log_call :: "event \<Rightarrow> xstate \<Rightarrow> xstate" where
  "log_call ev x = x\<lparr>events := events x @ [(ev, parser x)]\<rparr>"

lemma log_call_simps [simp]:
  "parser (log_call ev x) = parser x" "pos (log_call ev x) = pos x" "cur (log_call ev x) = cur x" "nread (log_call ev x) = nread x"
  "field_mark (log_call ev x) = field_mark x" "value_mark (log_call ev x) = value_mark x" "url_mark (log_call ev x) = url_mark x"
  "url_start_mark (log_call ev x) = url_start_mark x" "body_mark (log_call ev x) = body_mark x"
  "events (log_call ev x) = events x @ [(ev, parser x)]"
  by (simp_all add: log_call_def)

lemma call_accept:
  assumes "p_errno (parser x) = CHPE_OK"
  shows "call accept_all ev er ret k x = k (log_call ev x)"
proof -
  have "x\<lparr>events := evs, parser := react \<lparr>rc = 0, cb_errno = CHPE_OK, cb_clear = False\<rparr> (parser x)\<rparr> = x\<lparr>events := evs\<rparr>" for evs
    by (simp add: react_def)
  then show ?thesis using assms by (simp add: call_def accept_all_def log_call_def)
qed

lemma notify_accept:
  assumes "p_errno (parser x) = CHPE_OK"
  shows "notify accept_all ev er k x = k (log_call ev x)" "notify_noadvance accept_all ev er k x = k (log_call ev x)"
  using assms by (simp_all add: notify_def notify_noadvance_def notify_ret_def assertion_def call_accept)

lemma data_callback_accept:
  assumes "p_errno (parser x) = CHPE_OK"
  shows "data_callback accept_all buf ev er mark clr hi ret k x
    = (case mark x of None \<Rightarrow> k x | Some m \<Rightarrow> k (clr (log_call (ev (take (hi - m) (drop m (data buf)))) x)))"
  using assms by (simp add: data_callback_def assertion_def call_accept split: option.split)

lemmas accepting = notify_accept data_callback_accept data_defs

section \<open>Steps of the main loop\<close>

lemma exec_loop_next:
  "pos x < length (data buf) \<Longrightarrow> exec_byte cb buf x = Next y \<Longrightarrow> exec_loop cb buf x = exec_loop cb buf (y\<lparr>pos := pos y + 1\<rparr>)"
  by (simp add: exec_loop.simps [of cb buf x])

lemma exec_loop_done: "length (data buf) \<le> pos x \<Longrightarrow> exec_loop cb buf x = Next x"
  by (simp add: exec_loop.simps [of cb buf x])

text \<open>A byte outside the headers is not counted.\<close>

lemma exec_byte_body:
  assumes "\<not> parsing_header (p_state (parser x))"
  shows "exec_byte cb buf x = reexecute cb buf (x\<lparr>cur := data buf ! pos x\<rparr>)"
  using assms by (simp add: exec_byte_def Let_def)

lemma reexecute_next: "exec_state cb buf x = Next y \<Longrightarrow> reexecute cb buf x = Next y"
  by (simp add: reexecute.simps [of cb buf x])

lemma reexecute_again: "exec_state cb buf x = Again y \<Longrightarrow> reexecute cb buf x = reexecute cb buf y"
  by (simp add: reexecute.simps [of cb buf x])

lemma parsing_header_body [simp]:
  "\<not> parsing_header s_body_identity" "\<not> parsing_header s_message_done" "\<not> parsing_header s_chunk_data"
  "\<not> parsing_header s_chunk_data_almost_done" "\<not> parsing_header s_chunk_data_done"
  by (simp_all add: parsing_header_def)

section \<open>Sequences of reads\<close>

text \<open>The calls a connection makes as long as each read is consumed without an error.\<close>

fun run_reads :: "callbacks \<Rightarrow> http_parser \<Rightarrow> call_log \<Rightarrow> buffer list \<Rightarrow> outcome" where
  "run_reads cb q evs [] = Executed 0 q evs"
| "run_reads cb q evs (b # bs) =
     (case http_parser_execute cb q evs b of
        Executed n q' evs' \<Rightarrow>
          if p_errno q' \<noteq> CHPE_OK \<or> n \<noteq> length (data b) \<or> bs = [] then Executed n q' evs' else run_reads cb q' evs' bs
      | Assertion_Failed \<Rightarrow> Assertion_Failed)"

lemma parser_ok_init: "parser_ok http_parser_init"
  by (simp add: parser_ok_def http_parser_init_def state_ok_def url_state_def)

lemma run_reads_safe:
  assumes "parser_ok q" "\<forall>b \<in> set bs. NUL \<notin> set (data b)"
  shows "\<exists>n q' evs'. run_reads cb q evs bs = Executed n q' evs' \<and> parser_ok q'"
  using assms
proof (induction bs arbitrary: q evs)
  case (Cons b bs)
  from Cons.prems execute_safe [of q b cb evs]
  obtain n q' evs' where "http_parser_execute cb q evs b = Executed n q' evs'" "parser_ok q'" by auto
  then show ?case using Cons by auto
qed simp

end
