(* ===== verification/Http_Wrapper.thy ===== *)
theory Http_Wrapper
  imports Http_Run Query_String
begin

text \<open>
  The class \<open>HTTPParser\<close> of \<open>crow.h\<close>: its static member functions are the callbacks of
  \<open>http_parser_execute\<close> and build the request, and \<open>feed\<close> passes it the reads of the connection.  The
  connection's \<open>handle_url\<close>, \<open>handle_header\<close> and \<open>handle\<close> are a parameter: they see the request
  built so far, and may call \<open>done()\<close> (which can only set an error number) and \<open>clear()\<close>.  A string
  that was moved from is empty, as in the standard library the code is built with.
\<close>

section \<open>The request\<close>

record request =
  r_method :: http_method
  raw_url :: string
  r_url :: string
  url_params :: query_string
  r_headers :: "(string \<times> string) list"
  r_body :: string
  http_ver_major :: nat
  http_ver_minor :: nat
  keep_alive :: bool
  close_connection :: bool
  r_upgrade :: bool

definition empty_request :: request where
  "empty_request =
     \<lparr>r_method = Get, raw_url = [], r_url = [], url_params = query_string_of [] True, r_headers = [], r_body = [],
      http_ver_major = 0, http_ver_minor = 0, keep_alive = False, close_connection = False, r_upgrade = False\<rparr>"

record parser_object =
  base :: http_parser
  req :: request
  header_building_state :: nat
  message_complete :: bool
  header_field :: string
  header_value :: string

definition parser_object_init :: parser_object where
  "parser_object_init =
     \<lparr>base = http_parser_init, req = empty_request, header_building_state = 0, message_complete = False,
      header_field = [], header_value = []\<rparr>"

section \<open>The callbacks\<close>

definition on_method :: "http_parser \<Rightarrow> parser_object \<Rightarrow> parser_object" where
  "on_method q w = w\<lparr>req := (req w)\<lparr>r_method := p_method q\<rparr>\<rparr>"

definition on_url :: "string \<Rightarrow> http_parser \<Rightarrow> parser_object \<Rightarrow> parser_object" where
  "on_url at q w =
     (let raw = raw_url (req w) @ at
      in w\<lparr>req := (req w)\<lparr>raw_url := raw, url_params := query_string_of raw True,
                          r_url := (if p_qs_point q \<noteq> 0 then take (p_qs_point q) raw else raw)\<rparr>\<rparr>)"

definition emplace :: "string \<Rightarrow> string \<Rightarrow> parser_object \<Rightarrow> parser_object" where
  "emplace k v w = w\<lparr>req := (req w)\<lparr>r_headers := r_headers (req w) @ [(k, v)]\<rparr>\<rparr>"

definition move_header :: "parser_object \<Rightarrow> parser_object" where
  "move_header w = (emplace (header_field w) (header_value w) w)\<lparr>header_field := [], header_value := []\<rparr>"

definition on_header_field :: "string \<Rightarrow> parser_object \<Rightarrow> parser_object" where
  "on_header_field at w =
     (if header_building_state w = 0 then
        (if header_value w \<noteq> [] then move_header w else w)\<lparr>header_field := at, header_building_state := 1\<rparr>
      else w\<lparr>header_field := header_field w @ at\<rparr>)"

definition on_header_value :: "string \<Rightarrow> parser_object \<Rightarrow> parser_object" where
  "on_header_value at w =
     (if header_building_state w = 0 then w\<lparr>header_value := header_value w @ at\<rparr>
      else w\<lparr>header_building_state := 0, header_value := at\<rparr>)"

definition set_connection_parameters :: "http_parser \<Rightarrow> request \<Rightarrow> request" where
  "set_connection_parameters q r =
     (let v10 = (p_http_major q = 1 \<and> p_http_minor q = 0); v11 = (p_http_major q = 1 \<and> p_http_minor q = 1);
          ka = F_CONNECTION_KEEP_ALIVE \<in> p_flags q
      in r\<lparr>http_ver_major := p_http_major q, http_ver_minor := p_http_minor q,
           keep_alive := (if v10 then ka else v11),
           close_connection := (if v10 then \<not> ka else if v11 then F_CONNECTION_CLOSE \<in> p_flags q else False),
           r_upgrade := p_upgrade q\<rparr>)"

definition on_headers_complete :: "http_parser \<Rightarrow> parser_object \<Rightarrow> parser_object" where
  "on_headers_complete q w =
     (let w1 = (if header_field w \<noteq> [] then move_header w else w)
      in w1\<lparr>req := set_connection_parameters q (req w1)\<rparr>)"

definition on_body :: "string \<Rightarrow> parser_object \<Rightarrow> parser_object" where
  "on_body at w = w\<lparr>req := (req w)\<lparr>r_body := r_body (req w) @ at\<rparr>\<rparr>"

definition on_message_complete :: "parser_object \<Rightarrow> parser_object" where
  "on_message_complete w = w\<lparr>message_complete := True\<rparr>"

definition on_event :: "event \<Rightarrow> http_parser \<Rightarrow> parser_object \<Rightarrow> parser_object" where
  "on_event ev q w =
     (case ev of
        Message_Begin \<Rightarrow> w
      | On_Method \<Rightarrow> on_method q w
      | Url at \<Rightarrow> on_url at q w
      | Header_Field at \<Rightarrow> on_header_field at w
      | Header_Value at \<Rightarrow> on_header_value at w
      | Headers_Complete \<Rightarrow> on_headers_complete q w
      | Body at \<Rightarrow> on_body at w
      | Message_Complete \<Rightarrow> on_message_complete w)"

section \<open>The handler\<close>

text \<open>The part of \<open>clear()\<close> on the wrapper; the part on \<open>http_parser\<close> is in \<open>react\<close>.\<close>

definition clear :: "parser_object \<Rightarrow> parser_object" where
  "clear w = w\<lparr>req := empty_request, header_field := [], header_value := [], header_building_state := 0, message_complete := False\<rparr>"

type_synonym handler = "event \<Rightarrow> parser_object \<Rightarrow> reaction"

text \<open>Only three of the callbacks call the handler; all of them return zero.\<close>

definition handler_reaction :: "handler \<Rightarrow> event \<Rightarrow> parser_object \<Rightarrow> reaction" where
  "handler_reaction h ev w =
     (case ev of
        Url _ \<Rightarrow> (h ev w)\<lparr>rc := 0\<rparr>
      | Headers_Complete \<Rightarrow> (h ev w)\<lparr>rc := 0\<rparr>
      | Message_Complete \<Rightarrow> (h ev w)\<lparr>rc := 0\<rparr>
      | _ \<Rightarrow> \<lparr>rc = 0, cb_errno = CHPE_OK, cb_clear = False\<rparr>)"

definition callback :: "handler \<Rightarrow> event \<times> http_parser \<Rightarrow> parser_object \<Rightarrow> parser_object" where
  "callback h c w =
     (let w' = on_event (fst c) (snd c) w in if cb_clear (handler_reaction h (fst c) w') then clear w' else w')"

text \<open>What the callbacks of one call of \<open>http_parser_execute\<close> see, from the log of the earlier ones.\<close>

definition settings :: "handler \<Rightarrow> parser_object \<Rightarrow> callbacks" where
  "settings h w0 log q =
     (let (ev, q') = last log in handler_reaction h ev (on_event ev q' (fold (callback h) (butlast log) w0)))"

section \<open>Feeding\<close>

text \<open>\<open>feed\<close> returns false on an error or when not all was consumed; \<open>None\<close> is a failed assertion.\<close>

definition feed :: "handler \<Rightarrow> parser_object \<Rightarrow> buffer \<Rightarrow> (bool \<times> parser_object) option" where
  "feed h w buf =
     (if message_complete w then Some (True, w)
      else (case http_parser_execute (settings h w) (base w) [] buf of
              Assertion_Failed \<Rightarrow> None
            | Executed n q log \<Rightarrow>
                Some (p_errno q = CHPE_OK \<and> n = length (data buf), (fold (callback h) log w)\<lparr>base := q\<rparr>)))"

definition done_feed :: "handler \<Rightarrow> parser_object \<Rightarrow> (bool \<times> parser_object) option" where
  "done_feed h w = feed h w \<lparr>data = [], data_addr = 0\<rparr>"

text \<open>The reads of one connection, up to the first that \<open>feed\<close> refuses.\<close>

fun feeds :: "handler \<Rightarrow> parser_object \<Rightarrow> buffer list \<Rightarrow> (bool \<times> parser_object) option" where
  "feeds h w [] = Some (True, w)"
| "feeds h w (b # bs) =
     (case feed h w b of None \<Rightarrow> None | Some (ok, w') \<Rightarrow> if ok then feeds h w' bs else Some (False, w'))"

section \<open>Safety\<close>

lemma feed_safe:
  assumes "parser_ok (base w)" "NUL \<notin> set (data b)"
  shows "\<exists>ok w'. feed h w b = Some (ok, w') \<and> parser_ok (base w')"
proof (cases "message_complete w")
  case False
  obtain n q log where "http_parser_execute (settings h w) (base w) [] b = Executed n q log" "parser_ok q"
    using execute_safe [OF assms] by blast
  with False show ?thesis by (simp add: feed_def)
qed (use assms in \<open>auto simp: feed_def\<close>)

lemma feeds_safe:
  assumes "parser_ok (base w)" "\<forall>b \<in> set bs. NUL \<notin> set (data b)"
  shows "\<exists>ok w'. feeds h w bs = Some (ok, w') \<and> parser_ok (base w')"
  using assms
proof (induction bs arbitrary: w)
  case (Cons b bs)
  from feed_safe [of w b h] Cons.prems obtain ok w' where "feed h w b = Some (ok, w')" "parser_ok (base w')" by auto
  then show ?case using Cons by auto
qed auto

section \<open>Collecting headers\<close>

text \<open>One header as the parser reports it: its name and its value in one or more pieces each.\<close>

definition header_events :: "string list \<times> string list \<Rightarrow> event list" where
  "header_events h = map Header_Field (fst h) @ map Header_Value (snd h)"

lemma fold_fields:
  "header_building_state w = 1 \<Longrightarrow> fold (\<lambda>ev. on_event ev q) (map Header_Field fs) w = w\<lparr>header_field := header_field w @ concat fs\<rparr>"
  by (induction fs arbitrary: w) (simp_all add: on_event_def on_header_field_def)

lemma fold_values:
  "header_building_state w = 0 \<Longrightarrow> fold (\<lambda>ev. on_event ev q) (map Header_Value vs) w = w\<lparr>header_value := header_value w @ concat vs\<rparr>"
  by (induction vs arbitrary: w) (simp_all add: on_event_def on_header_value_def)

lemma fold_header:
  assumes "header_building_state w = 0" "fst h \<noteq> []" "snd h \<noteq> []"
  shows "fold (\<lambda>ev. on_event ev q) (header_events h) w
    = (if header_value w = [] then w else emplace (header_field w) (header_value w) w)
        \<lparr>header_field := concat (fst h), header_value := concat (snd h), header_building_state := 0\<rparr>"
proof -
  obtain f fs v vs where h: "fst h = f # fs" "snd h = v # vs" using assms(2,3) by (cases "fst h"; cases "snd h") auto
  define w1 where "w1 = on_event (Header_Field f) q w"
  have w1: "w1 = (if header_value w = [] then w else emplace (header_field w) (header_value w) w\<lparr>header_value := []\<rparr>)
      \<lparr>header_field := f, header_building_state := 1\<rparr>"
    using assms(1) by (simp add: w1_def on_event_def on_header_field_def move_header_def emplace_def)
  then have s: "header_building_state w1 = 1" "header_field w1 = f" by simp_all
  have "fold (\<lambda>ev. on_event ev q) (header_events h) w
      = fold (\<lambda>ev. on_event ev q) (map Header_Value vs) (on_event (Header_Value v) q (fold (\<lambda>ev. on_event ev q) (map Header_Field fs) w1))"
    by (simp add: header_events_def h w1_def)
  also have "fold (\<lambda>ev. on_event ev q) (map Header_Field fs) w1 = w1\<lparr>header_field := f @ concat fs\<rparr>"
    using s by (simp add: fold_fields)
  also have "on_event (Header_Value v) q (w1\<lparr>header_field := f @ concat fs\<rparr>)
      = w1\<lparr>header_field := f @ concat fs, header_building_state := 0, header_value := v\<rparr>"
    using s by (simp add: on_event_def on_header_value_def)
  also have "fold (\<lambda>ev. on_event ev q) (map Header_Value vs) (w1\<lparr>header_field := f @ concat fs, header_building_state := 0, header_value := v\<rparr>)
      = w1\<lparr>header_field := f @ concat fs, header_building_state := 0, header_value := v @ concat vs\<rparr>"
    by (simp add: fold_values)
  finally show ?thesis by (simp add: w1 h emplace_def)
qed

end
