(* ===== verification/Http_Delivery.thy ===== *)
theory Http_Delivery
  imports Http_Wrapper
begin

text \<open>
  What \<open>http_parser_execute\<close> delivers when the callbacks accept everything: identity bodies in any
  segmentation, chunks, and the digits of lengths.
\<close>

section \<open>Identity bodies\<close>

definition in_body :: "xstate \<Rightarrow> bool" where
  "in_body x \<longleftrightarrow> p_state (parser x) = s_body_identity \<and> p_errno (parser x) = CHPE_OK \<and> 0 < unat (p_content_length (parser x))
     \<and> p_content_length (parser x) \<noteq> ULLONG_MAX \<and> no_marks x"

lemma content_nonzero: "in_body x \<Longrightarrow> p_content_length (parser x) \<noteq> 0"
  by (auto simp: in_body_def)

lemma content_length_minus: "0 < n \<Longrightarrow> n < unat (c :: u64) \<Longrightarrow> c - of_nat n \<noteq> 0"
  using content_length_left(2) [of n c] by (metis less_imp_le_nat unat_0 zero_less_diff less_irrefl)

lemma body_part:
  assumes x: "in_body x" and p: "pos x < length (data buf)" "length (data buf) - pos x < unat (p_content_length (parser x))"
  shows "exec_loop accept_all buf x = Next (x\<lparr>cur := data buf ! pos x, body_mark := Some (pos x), pos := length (data buf),
    parser := (parser x)\<lparr>p_content_length := p_content_length (parser x) - of_nat (length (data buf) - pos x)\<rparr>\<rparr>)"
proof -
  let ?n = "length (data buf) - pos x"
  let ?x = "x\<lparr>cur := data buf ! pos x\<rparr>"
  let ?y = "x\<lparr>cur := data buf ! pos x, body_mark := Some (pos x), pos := length (data buf) - 1,
    parser := (parser x)\<lparr>p_content_length := p_content_length (parser x) - of_nat ?n\<rparr>\<rparr>"
  have "take_body buf ?x = ?y"
    using x p by (simp add: take_body_def to_read_def upd_def Let_def in_body_def no_marks_def set_mark_def)
  moreover have "p_content_length (parser x) - of_nat ?n \<noteq> 0" using content_length_minus [OF _ p(2)] p(1) by simp
  ultimately have "exec_state accept_all buf ?x = Next ?y"
    using content_nonzero [OF x] x by (simp add: exec_state_def in_body_def st_body_identity_def assertion_def Let_def del: take_body_simps)
  then have "exec_byte accept_all buf x = Next ?y"
    using x exec_byte_body [of x accept_all buf] by (simp add: in_body_def reexecute_next)
  then show ?thesis using p(1) by (simp add: exec_loop_next exec_loop_done)
qed

lemma exec_message_done:
  assumes "p_state (parser x) = s_message_done" "p_errno (parser x) = CHPE_OK"
  shows "exec_state accept_all buf x = Next (log_call Message_Complete x)"
  using assms by (simp add: exec_state_def st_message_done_def notify_accept)

lemma body_rest:
  assumes x: "in_body x" and p: "unat (p_content_length (parser x)) \<le> length (data buf) - pos x"
  defines "n \<equiv> unat (p_content_length (parser x))"
  shows "exec_loop accept_all buf x = exec_loop accept_all buf
    (log_call Message_Complete ((log_call (Body (take n (drop (pos x) (data buf))))
      (x\<lparr>cur := data buf ! pos x, pos := pos x + n, body_mark := None,
         parser := (parser x)\<lparr>p_content_length := 0, p_state := s_message_done\<rparr>\<rparr>))))"
proof -
  let ?x = "x\<lparr>cur := data buf ! pos x\<rparr>"
  let ?q = "(parser x)\<lparr>p_content_length := 0, p_state := s_message_done\<rparr>"
  let ?b = "Body (take n (drop (pos x) (data buf)))"
  let ?y = "log_call ?b (x\<lparr>cur := data buf ! pos x, pos := pos x + n - 1, body_mark := None, parser := ?q\<rparr>)"
  have n: "0 < n" "pos x < length (data buf)" using x p by (auto simp: in_body_def n_def)
  have c0: "p_content_length (parser x) - of_nat n = 0" by (simp add: n_def)
  have t: "take_body buf ?x = x\<lparr>cur := data buf ! pos x, body_mark := Some (pos x), pos := pos x + n - 1,
      parser := (parser x)\<lparr>p_content_length := 0\<rparr>\<rparr>"
    using x p c0 by (simp add: take_body_def to_read_def upd_def Let_def in_body_def no_marks_def set_mark_def n_def)
  have "exec_state accept_all buf ?x = Again ?y"
    using content_nonzero [OF x] x n
    by (simp add: exec_state_def in_body_def st_body_identity_def assertion_def t Let_def accepting goto_state_def upd_def
        del: take_body_simps)
  moreover have "exec_state accept_all buf ?y = Next (log_call Message_Complete ?y)"
    using x by (intro exec_message_done) (simp_all add: in_body_def)
  ultimately have "exec_byte accept_all buf x = Next (log_call Message_Complete ?y)"
    using x exec_byte_body [of x accept_all buf] by (simp add: in_body_def reexecute_again reexecute_next)
  then have "exec_loop accept_all buf x = exec_loop accept_all buf ((log_call Message_Complete ?y)\<lparr>pos := pos ?y + 1\<rparr>)"
    using n(2) by (simp add: exec_loop_next)
  also have "(log_call Message_Complete ?y)\<lparr>pos := pos ?y + 1\<rparr> = log_call Message_Complete (log_call ?b
      (x\<lparr>cur := data buf ! pos x, pos := pos x + n, body_mark := None, parser := ?q\<rparr>))"
    using n(1) by (simp add: log_call_def)
  finally show ?thesis .
qed

lemma done_loop:
  assumes "p_state (parser x) = s_message_done" "p_errno (parser x) = CHPE_OK" "pos x \<le> length (data buf)"
  shows "\<exists>c. exec_loop accept_all buf x = Next (x\<lparr>cur := c, pos := length (data buf),
    events := events x @ replicate (length (data buf) - pos x) (Message_Complete, parser x)\<rparr>)"
  using assms
proof (induction "length (data buf) - pos x" arbitrary: x)
  case 0
  then show ?case by (intro exI [of _ "cur x"]) (simp add: exec_loop_done)
next
  case (Suc k)
  let ?x = "x\<lparr>cur := data buf ! pos x\<rparr>"
  let ?y = "(log_call Message_Complete ?x)\<lparr>pos := pos x + 1\<rparr>"
  have "exec_byte accept_all buf x = Next (log_call Message_Complete ?x)"
    using Suc exec_byte_body [of x accept_all buf] exec_message_done [of ?x buf] by (simp add: reexecute_next)
  then have "exec_loop accept_all buf x = exec_loop accept_all buf ?y" using Suc by (simp add: exec_loop_next)
  moreover have k: "k = length (data buf) - pos ?y" "pos ?y \<le> length (data buf)" using Suc.hyps(2) by simp_all
  moreover obtain c where "exec_loop accept_all buf ?y = Next (?y\<lparr>cur := c, pos := length (data buf),
      events := events ?y @ replicate (length (data buf) - pos ?y) (Message_Complete, parser ?y)\<rparr>)"
    using Suc.hyps(1) [of ?y] k Suc.prems by auto
  moreover have "replicate (length (data buf) - pos x) (Message_Complete, parser x)
      = (Message_Complete, parser x) # replicate (length (data buf) - (pos x + 1)) (Message_Complete, parser x)"
    using Suc.hyps(2) by (cases "length (data buf) - pos x") auto
  ultimately show ?case by (intro exI [of _ c]) (simp add: log_call_def)
qed

lemma finish_no_marks:
  assumes "no_marks x" "p_errno (parser x) = CHPE_OK"
  shows "finish accept_all buf x = Stop (length (data buf)) (upd (\<lambda>q. q\<lparr>p_nread := nread x\<rparr>) x)"
  using assms by (simp add: finish_def Let_def assertion_def marks_left_def no_marks_def accepting)

lemma finish_body:
  assumes "field_mark x = None" "value_mark x = None" "url_mark x = None" "body_mark x = Some m" "p_errno (parser x) = CHPE_OK"
  shows "finish accept_all buf x = Stop (length (data buf))
    (upd (\<lambda>q. q\<lparr>p_nread := nread x\<rparr>) ((log_call (Body (drop m (data buf))) x)\<lparr>body_mark := None\<rparr>))"
  using assms by (simp add: finish_def Let_def assertion_def marks_left_def accepting)

text \<open>One read while the body is expected.\<close>

definition expects_body :: "nat \<Rightarrow> http_parser \<Rightarrow> bool" where
  "expects_body n q \<longleftrightarrow> p_state q = s_body_identity \<and> p_errno q = CHPE_OK \<and> p_content_length q \<noteq> ULLONG_MAX
     \<and> unat (p_content_length q) = n"

lemma initial_in_body:
  assumes "expects_body n q" "0 < n"
  shows "in_body (initial_xstate q evs)" "pos (initial_xstate q evs) = 0" "parser (initial_xstate q evs) = q" "nread (initial_xstate q evs) = p_nread q"
    "events (initial_xstate q evs) = evs"
  using assms by (simp_all add: in_body_def expects_body_def initial_xstate_def no_marks_def)

lemma read_body_part:
  assumes q: "expects_body n q" and b: "data b \<noteq> []" "length (data b) < n"
  shows "\<exists>q' log. http_parser_execute accept_all q evs b = Executed (length (data b)) q' (evs @ log)
    \<and> map fst log = [Body (data b)] \<and> expects_body (n - length (data b)) q'"
proof -
  let ?x = "initial_xstate q evs"
  let ?q = "q\<lparr>p_content_length := p_content_length q - of_nat (length (data b))\<rparr>"
  have n: "0 < n" using b by simp
  note i = initial_in_body [OF q n, of evs]
  let ?y = "?x\<lparr>cur := data b ! 0, body_mark := Some 0, pos := length (data b), parser := ?q\<rparr>"
  have "exec_loop accept_all b ?x = Next ?y"
    using body_part [OF i(1), of b] i b q by (simp add: expects_body_def)
  moreover have "finish accept_all b ?y = Stop (length (data b))
      (upd (\<lambda>q. q\<lparr>p_nread := nread ?y\<rparr>) ((log_call (Body (data b)) ?y)\<lparr>body_mark := None\<rparr>))"
    using i(1) q by (subst finish_body [of _ 0]) (simp_all add: in_body_def no_marks_def expects_body_def)
  moreover have "?q\<lparr>p_nread := p_nread q\<rparr> = ?q" by simp
  ultimately have "http_parser_execute accept_all q evs b = Executed (length (data b)) ?q (evs @ [(Body (data b), ?q)])"
    using b(1) q i by (simp add: http_parser_execute_def Let_def outcome_of_def expects_body_def upd_def)
  moreover have "expects_body (n - length (data b)) ?q"
    using q b content_length_left [of "length (data b)" "p_content_length q"] by (simp add: expects_body_def)
  ultimately show ?thesis by (intro exI [of _ ?q] exI [of _ "[(Body (data b), ?q)]"]) simp
qed

lemma read_body_rest:
  assumes q: "expects_body n q" and n: "0 < n" "n \<le> length (data b)"
  shows "\<exists>q' log. http_parser_execute accept_all q evs b = Executed (length (data b)) q' (evs @ log)
    \<and> map fst log = Body (take n (data b)) # replicate (length (data b) - n + 1) Message_Complete
    \<and> p_state q' = s_message_done \<and> p_errno q' = CHPE_OK"
proof -
  let ?x = "initial_xstate q evs"
  let ?q = "q\<lparr>p_content_length := 0, p_state := s_message_done\<rparr>"
  note i = initial_in_body [OF q n(1), of evs]
  have b: "data b \<noteq> []" using n by auto
  let ?y = "log_call Message_Complete (log_call (Body (take n (data b)))
      (?x\<lparr>cur := data b ! 0, pos := n, body_mark := None, parser := ?q\<rparr>))"
  have u: "unat (p_content_length q) = n" "p_errno q = CHPE_OK" using q by (simp_all add: expects_body_def)
  have 1: "exec_loop accept_all b ?x = exec_loop accept_all b ?y"
    using body_rest [OF i(1), of b] n(2) by (simp add: i u)
  obtain c where 2: "exec_loop accept_all b ?y = Next (?y\<lparr>cur := c, pos := length (data b),
      events := events ?y @ replicate (length (data b) - n) (Message_Complete, ?q)\<rparr>)"
    using done_loop [of ?y b] n(2) u by auto
  let ?z = "?y\<lparr>cur := c, pos := length (data b), events := events ?y @ replicate (length (data b) - n) (Message_Complete, ?q)\<rparr>"
  have "no_marks ?z" using i(1) by (simp add: in_body_def no_marks_def)
  then have 3: "finish accept_all b ?z = Stop (length (data b)) (upd (\<lambda>q. q\<lparr>p_nread := nread ?z\<rparr>) ?z)"
    using u by (intro finish_no_marks) simp_all
  have "http_parser_execute accept_all q evs b = Executed (length (data b)) (?q\<lparr>p_nread := p_nread q\<rparr>)
      (evs @ (Body (take n (data b)), ?q) # (Message_Complete, ?q) # replicate (length (data b) - n) (Message_Complete, ?q))"
    using b u by (simp only: http_parser_execute_def Let_def 1 2 3 flow.case) (simp add: outcome_of_def upd_def i)
  then show ?thesis using u
    by (intro exI [of _ "?q\<lparr>p_nread := p_nread q\<rparr>"]
        exI [of _ "(Body (take n (data b)), ?q) # (Message_Complete, ?q) # replicate (length (data b) - n) (Message_Complete, ?q)"]) simp
qed

section \<open>Chunks\<close>

lemma drop_Cons:
  assumes "drop p xs = c # r"
  shows "p < length xs" "xs ! p = c" "drop (p + 1) xs = r"
proof -
  show p: "p < length xs" using assms by (metis drop_eq_Nil leI list.distinct(1))
  show "xs ! p = c" "drop (p + 1) xs = r" using assms Cons_nth_drop_Suc [OF p] by simp_all
qed

lemma drop_append_eq: "drop p xs = as @ bs \<Longrightarrow> drop (p + length as) xs = bs"
  by (metis add.commute append_eq_conv_conj drop_drop)

text \<open>One byte that the state executes and the loop passes; in the header states it is counted.\<close>

lemma loop_counted:
  assumes d: "drop (pos x) (data buf) = c # r" and h: "parsing_header (p_state (parser x))" "unat (nread x) < max_header_size"
    and e: "exec_state cb buf (x\<lparr>cur := c, nread := nread x + 1\<rparr>) = Next y"
  shows "exec_loop cb buf x = exec_loop cb buf (y\<lparr>pos := pos y + 1\<rparr>)"
proof -
  have "unat (nread x + 1) \<le> max_header_size"
    using h(2) by (simp add: unat_word_ariths max_header_size_def mod_less)
  then have "exec_byte cb buf x = Next y"
    using drop_Cons(2) [OF d] h(1) e by (simp add: exec_byte_def Let_def count_header_size_def reexecute_next)
  with drop_Cons(1) [OF d] show ?thesis by (simp add: exec_loop_next)
qed

lemma loop_plain:
  assumes d: "drop (pos x) (data buf) = c # r" and h: "\<not> parsing_header (p_state (parser x))"
    and e: "exec_state cb buf (x\<lparr>cur := c\<rparr>) = Next y"
  shows "exec_loop cb buf x = exec_loop cb buf (y\<lparr>pos := pos y + 1\<rparr>)"
proof -
  have "exec_byte cb buf x = Next y"
    using drop_Cons(2) [OF d] h e by (simp add: exec_byte_body reexecute_next)
  with drop_Cons(1) [OF d] show ?thesis by (simp add: exec_loop_next)
qed

definition hex_value :: "nat \<Rightarrow> string \<Rightarrow> nat" where
  "hex_value = foldl (\<lambda>a c. a * 16 + nat (unhex c))"

lemma hex_value_simps [simp]: "hex_value a [] = a" "hex_value a (c # ds) = hex_value (a * 16 + nat (unhex c)) ds"
  by (simp_all add: hex_value_def)

lemma hex_value_ge: "a \<le> hex_value a ds"
proof (induction ds arbitrary: a)
  case (Cons c ds)
  show ?case using Cons [of "a * 16 + nat (unhex c)"] by simp
qed simp

definition hex_digits :: "string \<Rightarrow> bool" where
  "hex_digits ds \<longleftrightarrow> (\<forall>c \<in> set ds. unhex c \<noteq> - 1 \<and> c \<noteq> CR)"

lemma chunk_digits:
  assumes "drop (pos x) (data buf) = ds @ r" "hex_digits ds"
    and "p_state (parser x) = s_chunk_size" "F_CHUNKED \<in> p_flags (parser x)"
    and "unat (nread x) + length ds \<le> max_header_size" "hex_value (unat (p_content_length (parser x))) ds < 2 ^ 60"
  shows "\<exists>c. exec_loop cb buf x = exec_loop cb buf (x\<lparr>cur := c, pos := pos x + length ds, nread := nread x + of_nat (length ds),
    parser := (parser x)\<lparr>p_content_length := of_nat (hex_value (unat (p_content_length (parser x))) ds)\<rparr>\<rparr>)"
  using assms
proof (induction ds arbitrary: x)
  case Nil
  then show ?case by (intro exI [of _ "cur x"]) simp
next
  case (Cons c ds)
  let ?cl = "p_content_length (parser x)"
  let ?y = "x\<lparr>cur := c, nread := nread x + 1, parser := (parser x)\<lparr>p_content_length := ?cl * 16 + of_int (unhex c)\<rparr>\<rparr>"
  have c: "unhex c \<noteq> - 1" "c \<noteq> CR" using Cons.prems(2) by (simp_all add: hex_digits_def)
  have "unat ?cl * 16 + nat (unhex c) < 2 ^ 60"
    using Cons.prems(6) hex_value_ge [of "unat ?cl * 16 + nat (unhex c)" ds] by simp
  then have "unat ?cl \<le> 1152921504606846974" by simp
  then have small: "\<not> ?cl > (ULLONG_MAX - 16) div 16"
    by (simp add: ULLONG_MAX_def unat_div word_less_nat_alt not_less)
  have u: "unat (?cl * 16 + of_int (unhex c)) = unat ?cl * 16 + nat (unhex c)" using chunk_digit(1) [OF small c(1)] .
  have e: "exec_state cb buf (x\<lparr>cur := c, nread := nread x + 1\<rparr>) = Next ?y"
    using Cons.prems(3,4) c small by (simp add: exec_state_def st_chunk_size_def assertion_def Let_def upd_def)
  have s: "exec_loop cb buf x = exec_loop cb buf (?y\<lparr>pos := pos ?y + 1\<rparr>)"
    using Cons.prems by (intro loop_counted [OF _ _ _ e]) (auto simp: parsing_header_def)
  let ?z = "?y\<lparr>pos := pos ?y + 1\<rparr>"
  have n: "unat (nread ?z) = unat (nread x) + 1"
    using Cons.prems(5) by (simp add: unat_word_ariths max_header_size_def mod_less)
  have "drop (pos ?z) (data buf) = ds @ r" using drop_Cons(3) [of "pos x" "data buf" c] Cons.prems(1) by simp
  then obtain c' where "exec_loop cb buf ?z = exec_loop cb buf (?z\<lparr>cur := c', pos := pos ?z + length ds, nread := nread ?z + of_nat (length ds),
      parser := (parser ?z)\<lparr>p_content_length := of_nat (hex_value (unat (p_content_length (parser ?z))) ds)\<rparr>\<rparr>)"
    using Cons.IH [of ?z] Cons.prems n u by (auto simp: hex_digits_def)
  then show ?case unfolding s by (intro exI [of _ c']) (simp add: u add.assoc)
qed

text \<open>A chunk on the wire: its size in hexadecimal, its data, and the two line ends.\<close>

definition chunk_text :: "string \<Rightarrow> string \<Rightarrow> string" where
  "chunk_text ds d = ds @ CR # LF # d @ [CR, LF]"

definition between_chunks :: "xstate \<Rightarrow> bool" where
  "between_chunks x \<longleftrightarrow> p_state (parser x) = s_chunk_size_start \<and> p_errno (parser x) = CHPE_OK \<and> F_CHUNKED \<in> p_flags (parser x)
     \<and> nread x = 0 \<and> no_marks x"

definition valid_chunk :: "string \<times> string \<Rightarrow> bool" where
  "valid_chunk c \<longleftrightarrow> fst c \<noteq> [] \<and> hex_digits (fst c) \<and> length (fst c) + 2 \<le> max_header_size
     \<and> hex_value 0 (fst c) = length (snd c) \<and> 0 < length (snd c) \<and> length (snd c) < 2 ^ 60"

text \<open>The bytes of a chunk before its data, and those after it.\<close>

lemma chunk_head:
  assumes x: "between_chunks x" and d: "drop (pos x) (data buf) = ds @ CR # LF # r"
    and ds: "ds \<noteq> []" "hex_digits ds" "length ds + 2 \<le> max_header_size" "0 < hex_value 0 ds" "hex_value 0 ds < 2 ^ 60"
  shows "exec_loop cb buf x = exec_loop cb buf (x\<lparr>cur := LF,
    parser := (parser x)\<lparr>p_content_length := of_nat (hex_value 0 ds), p_nread := 0, p_state := s_chunk_data\<rparr>, pos := pos x + length ds + 2\<rparr>)"
proof -
  obtain c es where es: "ds = c # es" using ds(1) by (cases ds) auto
  have c: "unhex c \<noteq> - 1" "c \<noteq> CR" using ds(2) es by (simp_all add: hex_digits_def)
  let ?q = "\<lambda>n s. (parser x)\<lparr>p_content_length := n, p_state := s\<rparr>"
  let ?v = "of_nat (hex_value 0 ds) :: u64"
  let ?x1 = "x\<lparr>cur := c, nread := 1, parser := ?q (of_int (unhex c)) s_chunk_size, pos := pos x + 1\<rparr>"
  have 1: "exec_loop cb buf x = exec_loop cb buf ?x1"
    using x c d es
      loop_counted [of x buf c "es @ CR # LF # r" cb "x\<lparr>cur := c, nread := 1, parser := ?q (of_int (unhex c)) s_chunk_size\<rparr>"]
    by (simp add: between_chunks_def parsing_header_def max_header_size_def exec_state_def st_chunk_size_start_def assertion_def Let_def upd_def)
  have d1: "drop (pos ?x1) (data buf) = es @ CR # LF # r" using drop_Cons(3) [of "pos x" "data buf" c] d es by simp
  have u: "unat (of_int (unhex c) :: u64) = nat (unhex c)" by (rule unat_hex_digit [OF c(1)])
  then have h: "hex_value (unat (p_content_length (parser ?x1))) es = hex_value 0 ds" by (simp add: es)
  have "\<exists>c. exec_loop cb buf ?x1 = exec_loop cb buf (?x1\<lparr>cur := c, pos := pos ?x1 + length es, nread := nread ?x1 + of_nat (length es),
      parser := (parser ?x1)\<lparr>p_content_length := of_nat (hex_value (unat (p_content_length (parser ?x1))) es)\<rparr>\<rparr>)"
    using ds(2,3,5) h x es by (intro chunk_digits [OF d1]) (simp_all add: hex_digits_def between_chunks_def)
  then obtain c2 where 2: "exec_loop cb buf ?x1 = exec_loop cb buf (?x1\<lparr>cur := c2, pos := pos x + length ds, nread := 1 + of_nat (length es),
      parser := (parser x)\<lparr>p_state := s_chunk_size, p_content_length := ?v\<rparr>\<rparr>)" (is "_ = exec_loop cb buf ?x2")
    unfolding h by (auto simp: es)
  have d2: "drop (pos ?x2) (data buf) = CR # LF # r"
    using drop_append_eq [OF d1] by (simp add: es)
  have n2: "unat (1 + of_nat (length es) :: u32) = length ds"
    using ds(3) es by (simp add: unat_word_ariths unsigned_of_nat take_bit_nat_eq_self max_header_size_def mod_less)
  let ?x3 = "x\<lparr>cur := CR, nread := nread ?x2 + 1, parser := ?q ?v s_chunk_size_almost_done, pos := pos ?x2 + 1\<rparr>"
  have "exec_state cb buf (?x2\<lparr>cur := CR, nread := nread ?x2 + 1\<rparr>) = Next (?x3\<lparr>pos := pos ?x2\<rparr>)"
    using x by (simp add: between_chunks_def exec_state_def st_chunk_size_def assertion_def Let_def upd_def goto_state_def)
  from loop_counted [OF d2 _ _ this] have 3: "exec_loop cb buf ?x2 = exec_loop cb buf ?x3"
    using n2 ds(3) by (simp add: parsing_header_def)
  have d3: "drop (pos ?x3) (data buf) = LF # r" using drop_Cons(3) [OF d2] by simp
  have n3: "unat (nread ?x3) = length ds + 1"
  proof -
    have "nread ?x3 = of_nat (length es + 2)" by simp
    then show ?thesis using ds(3) es by (simp only: unsigned_of_nat) (simp add: take_bit_nat_eq_self max_header_size_def)
  qed
  have v: "?v \<noteq> 0" using ds(4,5) by (simp add: unsigned_of_nat take_bit_nat_eq_self flip: unat_eq_zero)
  let ?x4 = "x\<lparr>cur := LF, parser := (parser x)\<lparr>p_content_length := ?v, p_nread := 0, p_state := s_chunk_data\<rparr>, pos := pos ?x3\<rparr>"
  have "exec_state cb buf (?x3\<lparr>cur := LF, nread := nread ?x3 + 1\<rparr>) = Next ?x4"
    using x v by (simp add: between_chunks_def exec_state_def st_chunk_size_almost_done_def assertion_def strict_check_def Let_def upd_def goto_state_def)
  from loop_counted [OF d3 _ _ this] have "exec_loop cb buf ?x3 = exec_loop cb buf (?x4\<lparr>pos := pos ?x3 + 1\<rparr>)"
    using n3 ds(3) by (simp add: parsing_header_def)
  with 1 2 3 show ?thesis by simp
qed

lemma chunk_tail:
  assumes x: "p_state (parser x) = s_chunk_data" "p_errno (parser x) = CHPE_OK" "F_CHUNKED \<in> p_flags (parser x)"
      "nread x = 0" "no_marks x" "p_nread (parser x) = 0"
    and n: "unat (p_content_length (parser x)) = length d" "0 < length d" "length d < 2 ^ 60"
    and d: "drop (pos x) (data buf) = d @ CR # LF # r"
  shows "exec_loop accept_all buf x = exec_loop accept_all buf (log_call (Body d)
      (x\<lparr>parser := (parser x)\<lparr>p_content_length := 0, p_state := s_chunk_data_done\<rparr>\<rparr>)
      \<lparr>cur := LF, parser := (parser x)\<lparr>p_content_length := 0, p_nread := 0, p_state := s_chunk_size_start\<rparr>, pos := pos x + length d + 2\<rparr>)"
proof -
  obtain c e where ce: "d = c # e" using n(2) by (cases d) auto
  let ?cl = "p_content_length (parser x)"
  have cl: "?cl \<noteq> 0" "?cl \<noteq> ULLONG_MAX" "?cl - of_nat (length d) = 0"
    using n small_not_max [of ?cl] by (auto simp flip: n(1))
  let ?x1 = "x\<lparr>cur := c, body_mark := Some (pos x), pos := pos x + length d - 1,
      parser := (parser x)\<lparr>p_content_length := 0, p_state := s_chunk_data_almost_done\<rparr>\<rparr>"
  have "length d \<le> length (data buf) - pos x" using arg_cong [OF d, of length] by simp
  then have "take_body buf (x\<lparr>cur := c\<rparr>) = x\<lparr>cur := c, body_mark := Some (pos x), pos := pos x + length d - 1,
      parser := (parser x)\<lparr>p_content_length := 0\<rparr>\<rparr>"
    using x(5) n(1) cl(3) by (simp add: take_body_def to_read_def upd_def Let_def no_marks_def set_mark_def)
  then have "exec_state accept_all buf (x\<lparr>cur := c\<rparr>) = Next ?x1"
    using x cl by (simp add: exec_state_def st_chunk_data_def assertion_def Let_def goto_state_def upd_def del: take_body_simps)
  from loop_plain [of x buf c "e @ CR # LF # r", OF _ _ this]
  have 1: "exec_loop accept_all buf x = exec_loop accept_all buf (?x1\<lparr>pos := pos x + length d\<rparr>)" (is "_ = exec_loop _ _ ?y1")
    using d ce x(1) by simp
  have d1: "drop (pos ?y1) (data buf) = CR # LF # r" using drop_append_eq [OF d] by simp
  have t: "take (length d) (drop (pos x) (data buf)) = d" using d by simp
  let ?x2 = "log_call (Body d) (?y1\<lparr>cur := CR, parser := (parser x)\<lparr>p_content_length := 0, p_state := s_chunk_data_done\<rparr>\<rparr>)\<lparr>body_mark := None\<rparr>"
  have "exec_state accept_all buf (?y1\<lparr>cur := CR\<rparr>) = Next ?x2"
    using x t by (simp add: exec_state_def st_chunk_data_almost_done_def assertion_def strict_check_def accepting goto_state_def upd_def)
  from loop_plain [OF d1 _ this]
  have 2: "exec_loop accept_all buf ?y1 = exec_loop accept_all buf (?x2\<lparr>pos := pos x + length d + 1\<rparr>)" (is "_ = exec_loop _ _ ?y2")
    by simp
  have d2: "drop (pos ?y2) (data buf) = LF # r" using drop_Cons(3) [OF d1] by simp
  let ?x3 = "?y2\<lparr>cur := LF, parser := (parser x)\<lparr>p_content_length := 0, p_nread := 0, p_state := s_chunk_size_start\<rparr>\<rparr>"
  have "exec_state accept_all buf (?y2\<lparr>cur := LF\<rparr>) = Next ?x3"
    using x by (simp add: exec_state_def st_chunk_data_done_def assertion_def strict_check_def upd_def)
  from loop_plain [OF d2 _ this]
  have 3: "exec_loop accept_all buf ?y2 = exec_loop accept_all buf (?x3\<lparr>pos := pos x + length d + 2\<rparr>)" by simp
  have "?x3\<lparr>pos := pos x + length d + 2\<rparr> = log_call (Body d)
      (x\<lparr>parser := (parser x)\<lparr>p_content_length := 0, p_state := s_chunk_data_done\<rparr>\<rparr>)
      \<lparr>cur := LF, parser := (parser x)\<lparr>p_content_length := 0, p_nread := 0, p_state := s_chunk_size_start\<rparr>, pos := pos x + length d + 2\<rparr>"
    using x(4,5) by (simp add: log_call_def no_marks_def)
  with 1 2 3 show ?thesis by simp
qed

lemma one_chunk:
  assumes x: "between_chunks x" and c: "valid_chunk c" and d: "drop (pos x) (data buf) = chunk_text (fst c) (snd c) @ r"
  shows "\<exists>y. exec_loop accept_all buf x = exec_loop accept_all buf y \<and> between_chunks y \<and> drop (pos y) (data buf) = r
    \<and> map fst (events y) = map fst (events x) @ [Body (snd c)]"
proof -
  obtain ds b where cd: "c = (ds, b)" by (cases c)
  have v: "ds \<noteq> []" "hex_digits ds" "length ds + 2 \<le> max_header_size" "hex_value 0 ds = length b" "0 < length b" "length b < 2 ^ 60"
    using c by (simp_all add: cd valid_chunk_def)
  have d0: "drop (pos x) (data buf) = ds @ CR # LF # (b @ CR # LF # r)" using d by (simp add: cd chunk_text_def)
  let ?y = "x\<lparr>cur := LF, parser := (parser x)\<lparr>p_content_length := of_nat (hex_value 0 ds), p_nread := 0, p_state := s_chunk_data\<rparr>,
      pos := pos x + length ds + 2\<rparr>"
  have 1: "exec_loop accept_all buf x = exec_loop accept_all buf ?y"
    using x d0 v by (intro chunk_head) simp_all
  have d1: "drop (pos ?y) (data buf) = b @ CR # LF # r"
    using drop_append_eq [of "pos x" "data buf" "ds @ [CR, LF]"] d0 by simp
  let ?z = "log_call (Body b) (?y\<lparr>parser := (parser ?y)\<lparr>p_content_length := 0, p_state := s_chunk_data_done\<rparr>\<rparr>)
      \<lparr>cur := LF, parser := (parser ?y)\<lparr>p_content_length := 0, p_nread := 0, p_state := s_chunk_size_start\<rparr>, pos := pos ?y + length b + 2\<rparr>"
  have 2: "exec_loop accept_all buf ?y = exec_loop accept_all buf ?z"
    using x v d1 by (intro chunk_tail)
      (simp_all add: between_chunks_def no_marks_def unsigned_of_nat take_bit_nat_eq_self)
  have "drop (pos ?z) (data buf) = r" using drop_append_eq [of "pos ?y" "data buf" "b @ [CR, LF]"] d1 by simp
  with 1 2 x show ?thesis by (intro exI [of _ ?z]) (simp add: between_chunks_def no_marks_def cd)
qed

lemma many_chunks:
  assumes "between_chunks x" "\<forall>c \<in> set cs. valid_chunk c"
    and "drop (pos x) (data buf) = concat (map (\<lambda>c. chunk_text (fst c) (snd c)) cs) @ r"
  shows "\<exists>y. exec_loop accept_all buf x = exec_loop accept_all buf y \<and> between_chunks y \<and> drop (pos y) (data buf) = r
    \<and> map fst (events y) = map fst (events x) @ map (\<lambda>c. Body (snd c)) cs"
  using assms
proof (induction cs arbitrary: x)
  case Nil
  then show ?case by (intro exI [of _ x]) simp
next
  case (Cons c cs)
  then obtain y where y: "exec_loop accept_all buf x = exec_loop accept_all buf y" "between_chunks y"
      "drop (pos y) (data buf) = concat (map (\<lambda>c. chunk_text (fst c) (snd c)) cs) @ r" "map fst (events y) = map fst (events x) @ [Body (snd c)]"
    using one_chunk [of x c buf "concat (map (\<lambda>c. chunk_text (fst c) (snd c)) cs) @ r"] by auto
  from Cons.IH [OF y(2)] Cons.prems(2) y show ?case by auto
qed

definition last_chunk :: string where
  "last_chunk = [CHR ''0'', CR, LF, CR, LF]"

lemma end_of_chunks:
  assumes x: "between_chunks x" and d: "drop (pos x) (data buf) = last_chunk"
  shows "\<exists>y. exec_loop accept_all buf x = Next y \<and> map fst (events y) = map fst (events x) @ [Message_Complete]
    \<and> no_marks y \<and> p_errno (parser y) = CHPE_OK"
proof -
  have u: "unhex (CHR ''0'') = 0" by (simp add: unhex_def is_digit_def code_def)
  let ?x1 = "x\<lparr>cur := CHR ''0'', nread := 1, parser := (parser x)\<lparr>p_content_length := 0, p_state := s_chunk_size\<rparr>\<rparr>"
  have "exec_state accept_all buf (x\<lparr>cur := CHR ''0'', nread := nread x + 1\<rparr>) = Next ?x1"
    using x u by (simp add: exec_state_def between_chunks_def st_chunk_size_start_def assertion_def Let_def upd_def)
  from loop_counted [OF d [unfolded last_chunk_def] _ _ this]
  have 1: "exec_loop accept_all buf x = exec_loop accept_all buf (?x1\<lparr>pos := pos x + 1\<rparr>)" (is "_ = exec_loop _ _ ?y1")
    using x by (simp add: between_chunks_def parsing_header_def max_header_size_def)
  have d1: "drop (pos ?y1) (data buf) = [CR, LF, CR, LF]" using drop_Cons(3) [OF d [unfolded last_chunk_def]] by simp
  let ?x2 = "?y1\<lparr>cur := CR, nread := 2, parser := (parser x)\<lparr>p_content_length := 0, p_state := s_chunk_size_almost_done\<rparr>\<rparr>"
  have "exec_state accept_all buf (?y1\<lparr>cur := CR, nread := nread ?y1 + 1\<rparr>) = Next ?x2"
    using x by (simp add: exec_state_def between_chunks_def st_chunk_size_def assertion_def Let_def upd_def goto_state_def)
  from loop_counted [OF d1 _ _ this]
  have 2: "exec_loop accept_all buf ?y1 = exec_loop accept_all buf (?x2\<lparr>pos := pos ?y1 + 1\<rparr>)" (is "_ = exec_loop _ _ ?y2")
    by (simp add: parsing_header_def max_header_size_def)
  have d2: "drop (pos ?y2) (data buf) = [LF, CR, LF]" using drop_Cons(3) [OF d1] by simp
  let ?q = "(parser x)\<lparr>p_content_length := 0, p_nread := 0, p_flags := insert F_TRAILING (p_flags (parser x)), p_state := s_header_field_start\<rparr>"
  let ?x3 = "?y2\<lparr>cur := LF, nread := 0, parser := ?q\<rparr>"
  have "exec_state accept_all buf (?y2\<lparr>cur := LF, nread := nread ?y2 + 1\<rparr>) = Next ?x3"
    using x by (simp add: exec_state_def between_chunks_def st_chunk_size_almost_done_def assertion_def strict_check_def Let_def upd_def)
  from loop_counted [OF d2 _ _ this]
  have 3: "exec_loop accept_all buf ?y2 = exec_loop accept_all buf (?x3\<lparr>pos := pos ?y2 + 1\<rparr>)" (is "_ = exec_loop _ _ ?y3")
    by (simp add: parsing_header_def max_header_size_def)
  have d3: "drop (pos ?y3) (data buf) = [CR, LF]" using drop_Cons(3) [OF d2] by simp
  let ?x4 = "?y3\<lparr>cur := CR, nread := 1, parser := ?q\<lparr>p_state := s_headers_almost_done\<rparr>\<rparr>"
  have "exec_state accept_all buf (?y3\<lparr>cur := CR, nread := nread ?y3 + 1\<rparr>) = Next ?x4"
    by (simp add: exec_state_def st_header_field_start_def goto_state_def upd_def)
  from loop_counted [OF d3 _ _ this]
  have 4: "exec_loop accept_all buf ?y3 = exec_loop accept_all buf (?x4\<lparr>pos := pos ?y3 + 1\<rparr>)" (is "_ = exec_loop _ _ ?y4")
    by (simp add: parsing_header_def max_header_size_def)
  have d4: "drop (pos ?y4) (data buf) = [LF]" using drop_Cons(3) [OF d3] by simp
  let ?x5 = "log_call Message_Complete (?y4\<lparr>cur := LF, nread := 2\<rparr>)"
  have "exec_state accept_all buf (?y4\<lparr>cur := LF, nread := nread ?y4 + 1\<rparr>) = Next ?x5"
    using x by (simp add: exec_state_def st_headers_almost_done_def strict_check_def notify_accept between_chunks_def)
  from loop_counted [OF d4 _ _ this]
  have 5: "exec_loop accept_all buf ?y4 = exec_loop accept_all buf (?x5\<lparr>pos := pos ?y4 + 1\<rparr>)" (is "_ = exec_loop _ _ ?y5")
    by (simp add: parsing_header_def max_header_size_def)
  have "length (data buf) \<le> pos ?y5" using drop_Cons(3) [OF d4] by simp
  then have "exec_loop accept_all buf ?y5 = Next ?y5" by (rule exec_loop_done)
  with 1 2 3 4 5 x show ?thesis by (intro exI [of _ ?y5]) (simp add: no_marks_def between_chunks_def)
qed

end
