(* ===== verification/Http_Properties.thy ===== *)
theory Http_Properties
  imports Http_Delivery "HOL-Library.Code_Target_Numeral"
begin

text \<open>
  The properties of the HTTP parser and of its wrapper.  Closed instances are evaluated with the code
  generator's simplifier; \<open>lower_code\<close> gives it an equation for the lower-casing of a byte.
\<close>

lemma lower_code [code]: "lower c = (case c of Char b0 b1 b2 b3 b4 b5 b6 b7 \<Rightarrow> Char b0 b1 b2 b3 b4 True b6 b7)"
proof (cases c)
  case (Char b0 b1 b2 b3 b4 b5 b6 b7)
  have b: "bit (or (code c) 32) n = (bit (code c) n \<or> n = 5)" for n
    using bit_exp_iff [of 5 n, where ?'a = nat] by (simp add: bit_or_iff)
  have "bit (code c) n = ([b0, b1, b2, b3, b4, b5, b6, b7] ! n)" if "n < 8" for n
    using that by (simp only: code_def Char of_char_def char.sel bit_horner_sum_bit_iff) simp
  with b have "bit (or (code c) 32) n = ([b0, b1, b2, b3, b4, True, b6, b7] ! n)" if "n < 8" for n
    using that by (auto simp: nth_Cons split: nat.splits)
  then show ?thesis by (simp only: lower_def char_of_def Char char.case flip: bit_0) simp
qed

definition quiet_handler :: handler where
  "quiet_handler ev w = \<lparr>rc = 0, cb_errno = CHPE_OK, cb_clear = False\<rparr>"

definition read_of :: "string \<Rightarrow> buffer" where
  "read_of s = \<lparr>data = s, data_addr = 4096\<rparr>"

section \<open>Safety\<close>

text \<open>C11: Whatever bytes other than NUL a client sends, in whatever reads, and whatever the connection's
  handlers do to the parser from inside the callbacks, a fresh parser never fails one of the
  assertions of \<open>http_parser_execute\<close>: every sequence of reads is answered, and the parser is left
  with an error or in a state that satisfies its invariant.
\<close>
theorem http_reads_safe:
  assumes "\<forall>b \<in> set bs. NUL \<notin> set (data b)"
  shows "\<exists>ok w. feeds h parser_object_init bs = Some (ok, w) \<and> parser_ok (base w)"
  using feeds_safe [OF _ assms, of parser_object_init h] parser_ok_init by (simp add: parser_object_init_def)

lemma http_reads_safe_witness:
  "\<exists>ok w. feeds quiet_handler parser_object_init [read_of ''GET /'', read_of [CR]] = Some (ok, w) \<and> parser_ok (base w)"
  by (rule http_reads_safe) (simp add: read_of_def NUL_def)

text \<open>A NUL byte as the first byte of the value of a \<open>Connection\<close> header fails the assertion
  \<open>Shouldn't get here\<close>: its lower case is a space, so that the matcher waits for the value, and the
  next byte finds it still waiting.
\<close>
theorem connection_nul_aborts:
  "feed quiet_handler parser_object_init (read_of (''GET / HTTP/1.1'' @ [CR, LF] @ ''Connection: '' @ [NUL, CHR ''x''])) = None"
  by code_simp

section \<open>Headers\<close>

lemma fold_headers:
  assumes "header_building_state w = 0" "header_value w = []" "hs \<noteq> []" "\<forall>h \<in> set hs. fst h \<noteq> [] \<and> snd h \<noteq> []"
  shows "let w' = fold (\<lambda>ev. on_event ev q) (concat (map header_events hs)) w; kv = (\<lambda>h. (concat (fst h), concat (snd h)))
    in header_building_state w' = 0 \<and> header_field w' = fst (kv (last hs)) \<and> header_value w' = snd (kv (last hs))
      \<and> r_headers (req w') = r_headers (req w) @ filter (\<lambda>kv. snd kv \<noteq> []) (map kv (butlast hs))"
  using assms(3,4)
proof (induction hs rule: rev_nonempty_induct)
  case (single h)
  then show ?case using fold_header [of w h q] assms by simp
next
  case (snoc h hs)
  let ?kv = "\<lambda>h :: string list \<times> string list. (concat (fst h), concat (snd h))"
  have "filter (\<lambda>kv. snd kv \<noteq> []) (map ?kv hs)
      = filter (\<lambda>kv. snd kv \<noteq> []) (map ?kv (butlast hs)) @ (if concat (snd (last hs)) \<noteq> [] then [?kv (last hs)] else [])"
    using snoc(1) by (induction hs rule: rev_nonempty_induct) simp_all
  then show ?case
    using snoc fold_header [of "fold (\<lambda>ev. on_event ev q) (concat (map header_events hs)) w" h q]
    by (cases "concat (snd (last hs)) = []") (simp_all add: Let_def emplace_def)
qed

text \<open>C14: The wrapper reassembles headers from any segmentation of their names and values and keeps their
  order, but records a header whose value is empty only when it is the last one.
\<close>
theorem headers_collected:
  assumes "header_building_state w = 0" "header_value w = []" "hs \<noteq> []" "\<forall>h \<in> set hs. fst h \<noteq> [] \<and> snd h \<noteq> []"
    and "concat (fst (last hs)) \<noteq> []"
  defines "kvs \<equiv> map (\<lambda>h. (concat (fst h), concat (snd h))) hs"
  shows "r_headers (req (fold (\<lambda>ev. on_event ev q) (concat (map header_events hs) @ [Headers_Complete]) w))
    = r_headers (req w) @ filter (\<lambda>kv. snd kv \<noteq> []) (butlast kvs) @ [last kvs]"
  using fold_headers [OF assms(1-4), of q] assms(3,5)
  by (simp add: Let_def on_event_def on_headers_complete_def move_header_def emplace_def set_connection_parameters_def
      kvs_def map_butlast last_map)

lemma headers_collected_witness:
  "r_headers (req (fold (\<lambda>ev. on_event ev http_parser_init)
      [Header_Field ''Ho'', Header_Field ''st'', Header_Value ''x'', Header_Field ''A'', Header_Value [], Header_Field ''B'', Header_Value ''y'', Headers_Complete]
      parser_object_init)) = [(''Host'', ''x''), (''B'', ''y'')]"
  using headers_collected [of parser_object_init "[([''Ho'', ''st''], [''x'']), ([''A''], [[]]), ([''B''], [''y''])]" http_parser_init]
  by (simp add: parser_object_init_def empty_request_def header_events_def)

text \<open>On the wire: the header \<open>A\<close> of this request is lost.\<close>

theorem empty_header_lost:
  "map_option (\<lambda>(ok, w). (ok, r_headers (req w)))
     (feed quiet_handler parser_object_init
        (read_of (''GET / HTTP/1.1'' @ [CR, LF] @ ''A:'' @ [CR, LF] @ ''B: y'' @ [CR, LF, CR, LF])))
   = Some (True, [(''B'', ''y'')])"
  by code_simp

section \<open>Bodies\<close>

text \<open>C12: A body with a content length is delivered exactly, in any segmentation: each read but the last
  gives its bytes, the last gives the bytes up to the length, and then the message is complete.
  When the handler does not clear the parser, every further byte of the last read completes the
  message again.
\<close>
theorem identity_body_delivered:
  assumes "expects_body n q" "0 < n" "bs \<noteq> []" "\<forall>b \<in> set bs. data b \<noteq> []"
    and "length (concat (map data (butlast bs))) < n" "n \<le> length (concat (map data bs))"
  shows "\<exists>m q' log. run_reads accept_all q evs bs = Executed m q' (evs @ log) \<and> p_errno q' = CHPE_OK \<and> p_state q' = s_message_done
    \<and> map fst log = map (\<lambda>b. Body (data b)) (butlast bs)
        @ Body (take (n - length (concat (map data (butlast bs)))) (data (last bs)))
        # replicate (length (concat (map data bs)) - n + 1) Message_Complete"
  using assms
proof (induction bs arbitrary: q evs n)
  case (Cons b bs)
  show ?case
  proof (cases "bs = []")
    case True
    then have "n \<le> length (data b)" using Cons.prems(6) by simp
    from read_body_rest [OF Cons.prems(1,2) this, of evs] True show ?thesis by auto
  next
    case False
    then have len: "length (data b) < n" using Cons.prems(5) by simp
    obtain q1 log1 where 1: "http_parser_execute accept_all q evs b = Executed (length (data b)) q1 (evs @ log1)"
      "map fst log1 = [Body (data b)]" "expects_body (n - length (data b)) q1"
      using read_body_part [OF Cons.prems(1) _ len, of evs] Cons.prems(4) by auto
    have "\<exists>m q' log. run_reads accept_all q1 (evs @ log1) bs = Executed m q' ((evs @ log1) @ log) \<and> p_errno q' = CHPE_OK \<and> p_state q' = s_message_done
      \<and> map fst log = map (\<lambda>b. Body (data b)) (butlast bs)
          @ Body (take (n - length (data b) - length (concat (map data (butlast bs)))) (data (last bs)))
          # replicate (length (concat (map data bs)) - (n - length (data b)) + 1) Message_Complete"
      using Cons.prems False len by (intro Cons.IH [OF 1(3)]) auto
    then obtain m q' log where 2: "run_reads accept_all q1 (evs @ log1) bs = Executed m q' (evs @ log1 @ log)" "p_errno q' = CHPE_OK" "p_state q' = s_message_done"
      "map fst log = map (\<lambda>b. Body (data b)) (butlast bs)
          @ Body (take (n - length (data b) - length (concat (map data (butlast bs)))) (data (last bs)))
          # replicate (length (concat (map data bs)) - (n - length (data b)) + 1) Message_Complete" by auto
    have "p_errno q1 = CHPE_OK" using 1(3) by (simp add: expects_body_def)
    then have "run_reads accept_all q evs (b # bs) = Executed m q' (evs @ log1 @ log)" using 1(1) 2(1) False by simp
    with 1(2) 2 False len show ?thesis by (intro exI [of _ m] exI [of _ q'] exI [of _ "log1 @ log"]) simp
  qed
qed simp

lemma identity_body_delivered_witness:
  "\<exists>m q' log. run_reads accept_all (http_parser_init\<lparr>p_state := s_body_identity, p_content_length := 3\<rparr>) [] [read_of ''a'', read_of ''bcd'']
      = Executed m q' log \<and> map fst log = [Body ''a'', Body ''bc'', Message_Complete, Message_Complete]"
  using identity_body_delivered [of 3 "http_parser_init\<lparr>p_state := s_body_identity, p_content_length := 3\<rparr>" "[read_of ''a'', read_of ''bcd'']" "[]"]
  by (auto simp: expects_body_def http_parser_init_def read_of_def ULLONG_MAX_def)

text \<open>C13: A body in chunks, each with its size in hexadecimal and its data, is delivered chunk by chunk,
  and the chunk of size zero completes the message.
\<close>
theorem chunked_body_delivered:
  assumes q: "p_state q = s_chunk_size_start" "p_errno q = CHPE_OK" "F_CHUNKED \<in> p_flags q" "p_nread q = 0"
    and cs: "\<forall>c \<in> set cs. valid_chunk c"
    and b: "data b = concat (map (\<lambda>c. chunk_text (fst c) (snd c)) cs) @ last_chunk"
  shows "\<exists>q' log. http_parser_execute accept_all q evs b = Executed (length (data b)) q' log \<and> p_errno q' = CHPE_OK
    \<and> map fst log = map fst evs @ map (\<lambda>c. Body (snd c)) cs @ [Message_Complete]"
proof -
  let ?x = "initial_xstate q evs"
  have x: "between_chunks ?x" "pos ?x = 0" "events ?x = evs" using q by (simp_all add: between_chunks_def initial_xstate_def no_marks_def)
  obtain y where y: "exec_loop accept_all b ?x = exec_loop accept_all b y" "between_chunks y" "drop (pos y) (data b) = last_chunk"
    "map fst (events y) = map fst evs @ map (\<lambda>c. Body (snd c)) cs"
    using many_chunks [OF x(1) cs, of b last_chunk] b x by auto
  obtain z where z: "exec_loop accept_all b y = Next z" "map fst (events z) = map fst (events y) @ [Message_Complete]"
    "no_marks z" "p_errno (parser z) = CHPE_OK"
    using end_of_chunks [OF y(2,3)] by blast
  have ne: "data b \<noteq> []" using b by (simp add: last_chunk_def)
  have e: "http_parser_execute accept_all q evs b
      = Executed (length (data b)) ((parser z)\<lparr>p_nread := nread z\<rparr>) (events z)"
    using ne q(2) y(1) z finish_no_marks [OF z(3,4), of b]
    by (simp add: http_parser_execute_def Let_def outcome_of_def upd_def)
  with y(4) z(2,4) show ?thesis by (intro exI [of _ "(parser z)\<lparr>p_nread := nread z\<rparr>"] exI [of _ "events z"]) simp
qed

lemma chunked_body_delivered_witness:
  "\<exists>q' log. http_parser_execute accept_all (http_parser_init\<lparr>p_state := s_chunk_size_start, p_flags := {F_CHUNKED}\<rparr>) []
      (read_of (chunk_text ''3'' ''abc'' @ last_chunk)) = Executed 13 q' log \<and> map fst log = [Body ''abc'', Message_Complete]"
proof -
  have "valid_chunk (''3'', ''abc'')"
    by (simp add: valid_chunk_def hex_digits_def unhex_def is_digit_def code_def max_header_size_def)
  then show ?thesis
    using chunked_body_delivered [of "http_parser_init\<lparr>p_state := s_chunk_size_start, p_flags := {F_CHUNKED}\<rparr>"
        "[(''3'', ''abc'')]" "read_of (chunk_text ''3'' ''abc'' @ last_chunk)" "[]"]
    by (auto simp: http_parser_init_def read_of_def chunk_text_def last_chunk_def)
qed

end
