(* ===== verification/Router_Trie.thy ===== *)
theory Router_Trie
  imports Chars
begin

text \<open>
  The search tree of the router (\<open>crow::Trie\<close>): nodes, the insertion of a rule's URL, the merging of
  chains of nodes after the set-up, and the search for a request's URL.  \<open>strtod\<close> is a parameter: on
  a text it gives the value read and the number of characters it took, or nothing when there is none
  or the value is out of range.
\<close>

section \<open>Nodes\<close>

datatype param_type = Int_Param | Uint_Param | Double_Param | String_Param | Path_Param | No_Param

definition INVALID_BP_ID :: nat where "INVALID_BP_ID = 0xFFFFFFFFFFFFFFFF"

datatype trie_node = Trie_Node (rule_index: nat) (blueprint_index: nat) (node_key: string) (param: param_type) (children: "trie_node list")

definition empty_node :: trie_node where
  "empty_node = Trie_Node 0 INVALID_BP_ID [] No_Param []"

definition IsSimpleNode :: "trie_node \<Rightarrow> bool" where
  "IsSimpleNode n \<longleftrightarrow>
     rule_index n = 0 \<and> blueprint_index n = INVALID_BP_ID \<and> length (children n) < 2 \<and> param n = No_Param
     \<and> list_all (\<lambda>x. param x = No_Param) (children n)"

definition is_empty :: "trie_node \<Rightarrow> bool" where
  "is_empty head \<longleftrightarrow> children head = []"

section \<open>Merging chains\<close>

text \<open>A simple node with children has exactly one: its key, indices and children are taken over.\<close>

lemma size_child: "c \<in> set (children n) \<Longrightarrow> size c < size n"
  by (cases n) (auto dest: size_list_estimation' [of _ _ _ size])

function optimizeNode :: "trie_node \<Rightarrow> trie_node" where
  "optimizeNode n =
     (if children n = [] then n
      else if IsSimpleNode n then
        (let c = hd (children n)
         in optimizeNode (Trie_Node (rule_index c) (blueprint_index c) (node_key n @ node_key c) (param n) (children c)))
      else Trie_Node (rule_index n) (blueprint_index n) (node_key n) (param n) (map optimizeNode (children n)))"
  by pat_completeness auto

termination
proof (relation "measure size", goal_cases)
  case (2 n c)
  then show ?case by (cases n) (cases "children n", auto simp: neq_Nil_conv intro: trie_node.exhaust [of c])
next
  case (3 n c)
  then show ?case by (simp add: size_child)
qed simp

declare optimizeNode.simps [simp del]

definition optimize :: "trie_node \<Rightarrow> trie_node" where
  "optimize head = Trie_Node (rule_index head) (blueprint_index head) (node_key head) (param head) (map optimizeNode (children head))"

text \<open>\<open>validate\<close>; \<open>None\<close> when it throws.\<close>

definition trie_validate :: "trie_node \<Rightarrow> trie_node option" where
  "trie_validate head = (if IsSimpleNode head then Some (optimize head) else None)"

section \<open>Insertion\<close>

definition param_traits :: "(param_type \<times> string) list" where
  "param_traits =
     [(Int_Param, ''<int>''), (Uint_Param, ''<uint>''), (Double_Param, ''<float>''), (Double_Param, ''<double>''),
      (String_Param, ''<str>''), (String_Param, ''<string>''), (Path_Param, ''<path>'')]"

definition at_text :: "string \<Rightarrow> nat \<Rightarrow> string \<Rightarrow> bool" where
  "at_text url i s \<longleftrightarrow> take (length s) (drop i url) = s"

definition tag_at :: "string \<Rightarrow> nat \<Rightarrow> (param_type \<times> string) option" where
  "tag_at url i = find (\<lambda>x. at_text url i (snd x)) param_traits"

text \<open>The first character of a key; that of an empty \<open>std::string\<close> is the terminator.\<close>

definition key_char :: "trie_node \<Rightarrow> char" where
  "key_char n = (case node_key n of [] \<Rightarrow> NUL | c # _ \<Rightarrow> c)"

fun index_of :: "('a \<Rightarrow> bool) \<Rightarrow> 'a list \<Rightarrow> nat option" where
  "index_of P [] = None"
| "index_of P (x # xs) = (if P x then Some 0 else map_option Suc (index_of P xs))"

definition set_child :: "trie_node \<Rightarrow> nat \<Rightarrow> trie_node \<Rightarrow> trie_node" where
  "set_child n j c = Trie_Node (rule_index n) (blueprint_index n) (node_key n) (param n) ((children n)[j := c])"

definition add_child :: "trie_node \<Rightarrow> trie_node \<Rightarrow> trie_node" where
  "add_child n c = Trie_Node (rule_index n) (blueprint_index n) (node_key n) (param n) (children n @ [c])"

definition set_rule :: "nat \<Rightarrow> trie_node \<Rightarrow> trie_node" where
  "set_rule r n = Trie_Node r (blueprint_index n) (node_key n) (param n) (children n)"

text \<open>
  The loop of \<open>add\<close> from position \<open>i\<close> at the node \<open>n\<close>: the changed node, and whether the rule was
  stored; otherwise the code throws.  The loop does not end at a \<open><\<close> that begins no known tag.
\<close>

partial_function (option) add_at :: "string \<Rightarrow> nat \<Rightarrow> nat \<Rightarrow> nat \<Rightarrow> nat \<Rightarrow> trie_node \<Rightarrow> (trie_node \<times> bool) option" where
  "add_at url rule prefix_length bp i n =
     (if length url \<le> i then Some (if rule_index n \<noteq> 0 then (n, False) else (set_rule rule n, True))
      else if url ! i = CHR ''<'' then
        (case tag_at url i of
           None \<Rightarrow> add_at url rule prefix_length bp i n
         | Some (t, name) \<Rightarrow>
             (case index_of (\<lambda>c. param c = t) (children n) of
                Some j \<Rightarrow>
                  Option.bind (add_at url rule prefix_length bp (i + length name) (children n ! j)) (\<lambda>(c, ok). Some (set_child n j c, ok))
              | None \<Rightarrow>
                  Option.bind (add_at url rule prefix_length bp (i + length name) (Trie_Node 0 INVALID_BP_ID [] t []))
                    (\<lambda>(c, ok). Some (add_child n c, ok))))
      else
        (case index_of (\<lambda>c. key_char c = url ! i) (children n) of
           Some j \<Rightarrow>
             Option.bind (add_at url rule prefix_length bp (i + 1) (children n ! j)) (\<lambda>(c, ok). Some (set_child n j c, ok))
         | None \<Rightarrow>
             Option.bind
               (add_at url rule prefix_length bp (i + 1)
                  (Trie_Node 0 (if prefix_length \<noteq> 0 \<and> bp \<noteq> INVALID_BP_ID \<and> i = prefix_length then bp else INVALID_BP_ID) [url ! i] No_Param []))
               (\<lambda>(c, ok). Some (add_child n c, ok))))"

definition trie_add :: "string \<Rightarrow> nat \<Rightarrow> nat \<Rightarrow> nat \<Rightarrow> trie_node \<Rightarrow> (trie_node \<times> bool) option" where
  "trie_add url rule prefix_length bp head = add_at url rule prefix_length bp 0 head"

section \<open>Search\<close>

record 'd routing_params =
  int_params :: "int list"
  uint_params :: "nat list"
  double_params :: "'d list"
  string_params :: "string list"

definition no_params :: "'d routing_params" where
  "no_params = \<lparr>int_params = [], uint_params = [], double_params = [], string_params = []\<rparr>"

text \<open>\<open>strtoll\<close> and \<open>strtoull\<close> to base ten on a text that begins with a sign or a digit: the value and the number of characters.\<close>

definition sign_length :: "string \<Rightarrow> nat" where
  "sign_length s = (case s of c # _ \<Rightarrow> if c = CHR ''+'' \<or> c = CHR ''-'' then 1 else 0 | [] \<Rightarrow> 0)"

definition strtoll :: "string \<Rightarrow> (int \<times> nat) option" where
  "strtoll s =
     (let k = sign_length s; ds = takeWhile is_digit (drop k s);
          v = (if take 1 s = ''-'' then - int (digits_value ds) else int (digits_value ds))
      in if ds = [] \<or> v < - (2 ^ 63) \<or> 2 ^ 63 - 1 < v then None else Some (v, k + length ds))"

definition strtoull :: "string \<Rightarrow> (nat \<times> nat) option" where
  "strtoull s =
     (let k = sign_length s; ds = takeWhile is_digit (drop k s); v = digits_value ds
      in if ds = [] \<or> 2 ^ 64 - 1 < v then None else Some (v, k + length ds))"

type_synonym 'd strtod = "string \<Rightarrow> ('d \<times> nat) option"

datatype 'd fragment_value = Int_Value int | Uint_Value nat | Double_Value 'd | String_Value string | Literal

text \<open>What a child takes from the rest of the URL, which is not empty: the value and the number of characters.\<close>

definition take_fragment :: "'d strtod \<Rightarrow> trie_node \<Rightarrow> string \<Rightarrow> ('d fragment_value \<times> nat) option" where
  "take_fragment strtod child s =
     (case param child of
        Int_Param \<Rightarrow>
          if is_digit (hd s) \<or> hd s = CHR ''+'' \<or> hd s = CHR ''-'' then map_option (map_prod Int_Value id) (strtoll s) else None
      | Uint_Param \<Rightarrow>
          if is_digit (hd s) \<or> hd s = CHR ''+'' then map_option (map_prod Uint_Value id) (strtoull s) else None
      | Double_Param \<Rightarrow>
          if is_digit (hd s) \<or> hd s = CHR ''+'' \<or> hd s = CHR ''-'' \<or> hd s = CHR ''.''
          then map_option (map_prod Double_Value id) (strtod s) else None
      | String_Param \<Rightarrow> (let t = takeWhile (\<lambda>c. c \<noteq> CHR ''/'') s in if t = [] then None else Some (String_Value t, length t))
      | Path_Param \<Rightarrow> Some (String_Value s, length s)
      | No_Param \<Rightarrow> if at_text s 0 (node_key child) then Some (Literal, length (node_key child)) else None)"

definition push_param :: "'d fragment_value \<Rightarrow> 'd routing_params \<Rightarrow> 'd routing_params" where
  "push_param v ps =
     (case v of
        Int_Value i \<Rightarrow> ps\<lparr>int_params := int_params ps @ [i]\<rparr>
      | Uint_Value n \<Rightarrow> ps\<lparr>uint_params := uint_params ps @ [n]\<rparr>
      | Double_Value d \<Rightarrow> ps\<lparr>double_params := double_params ps @ [d]\<rparr>
      | String_Value t \<Rightarrow> ps\<lparr>string_params := string_params ps @ [t]\<rparr>
      | Literal \<Rightarrow> ps)"

definition pop_param :: "'d fragment_value \<Rightarrow> 'd routing_params \<Rightarrow> 'd routing_params" where
  "pop_param v ps =
     (case v of
        Int_Value _ \<Rightarrow> ps\<lparr>int_params := butlast (int_params ps)\<rparr>
      | Uint_Value _ \<Rightarrow> ps\<lparr>uint_params := butlast (uint_params ps)\<rparr>
      | Double_Value _ \<Rightarrow> ps\<lparr>double_params := butlast (double_params ps)\<rparr>
      | String_Value _ \<Rightarrow> ps\<lparr>string_params := butlast (string_params ps)\<rparr>
      | Literal \<Rightarrow> ps)"

record 'd found =
  found_rule :: nat
  blueprint_indices :: "nat list"
  r_params :: "'d routing_params"

text \<open>The variables of one call of \<open>find\<close>; \<open>params\<close> and \<open>blueprints\<close> are the caller's, by pointer.\<close>

record 'd search =
  best_rule :: nat
  found_BP :: "nat list"
  match_params :: "'d routing_params"
  found_fragment :: bool
  params :: "'d routing_params"
  blueprints :: "nat list"

definition update_found :: "'d found \<Rightarrow> 'd search \<Rightarrow> 'd search" where
  "update_found ret s =
     (let s1 = s\<lparr>found_BP := blueprint_indices ret\<rparr>
      in if found_rule ret \<noteq> 0 \<and> (best_rule s1 = 0 \<or> found_rule ret < best_rule s1)
         then s1\<lparr>best_rule := found_rule ret, match_params := r_params ret\<rparr> else s1)"

definition pop_blueprint :: "nat list \<Rightarrow> nat list" where
  "pop_blueprint bs = (if bs = [] then bs else butlast bs)"

text \<open>
  \<open>find_node\<close> is \<open>find\<close> on a node, and returns \<open>params\<close> and \<open>blueprints\<close> as it leaves them (a vector
  that is moved from is left empty); \<open>find_children\<close> is its loop over the children.
\<close>

fun find_node :: "'d strtod \<Rightarrow> string \<Rightarrow> trie_node \<Rightarrow> nat \<Rightarrow> 'd routing_params \<Rightarrow> nat list \<Rightarrow> 'd found \<times> 'd routing_params \<times> nat list"
and find_children :: "'d strtod \<Rightarrow> string \<Rightarrow> trie_node list \<Rightarrow> nat \<Rightarrow> 'd search \<Rightarrow> 'd search" where
  "find_node strtod url (Trie_Node r b k p cs) pos ps bps =
     (if pos = length url then (\<lparr>found_rule = r, blueprint_indices = [], r_params = ps\<rparr>, ps, [])
      else
        (let s = find_children strtod url cs pos
               \<lparr>best_rule = 0, found_BP = [], match_params = no_params, found_fragment = False, params = ps, blueprints = bps\<rparr>
         in if found_fragment s
            then (\<lparr>found_rule = best_rule s, blueprint_indices = found_BP s, r_params = match_params s\<rparr>, params s, blueprints s)
            else (\<lparr>found_rule = best_rule s, blueprint_indices = blueprints s, r_params = match_params s\<rparr>, params s, [])))"
| "find_children strtod url [] pos s = s"
| "find_children strtod url (c # cs) pos s =
     find_children strtod url cs pos
       (case take_fragment strtod c (drop pos url) of
          None \<Rightarrow> s
        | Some (v, n) \<Rightarrow>
            (case find_node strtod url c (pos + n) (push_param v (params s))
                    (if blueprint_index c \<noteq> INVALID_BP_ID then blueprints s @ [blueprint_index c] else blueprints s) of
               (ret, ps, bps) \<Rightarrow>
                 (update_found ret (s\<lparr>found_fragment := True\<rparr>))\<lparr>params := pop_param v ps, blueprints := pop_blueprint bps\<rparr>))"

definition trie_find :: "'d strtod \<Rightarrow> string \<Rightarrow> trie_node \<Rightarrow> 'd found" where
  "trie_find strtod url head = fst (find_node strtod url head 0 no_params [])"

end
