(* ===== verification/Router_Facts.thy ===== *)
theory Router_Facts
  imports Router_Trie
begin

text \<open>
  The abstract view of the search tree: the list of its routes, a route being a pattern and a rule
  index.  The search returns the smallest rule index among the routes that match, merging chains of
  nodes keeps the routes, and inserting a URL adds its pattern.
\<close>

section \<open>Patterns\<close>

datatype seg = Chr char | Par param_type

text \<open>The values that a pattern reads off a text, added to those already read.\<close>

fun pattern_match :: "'d strtod \<Rightarrow> seg list \<Rightarrow> string \<Rightarrow> 'd routing_params \<Rightarrow> 'd routing_params option" where
  "pattern_match strtod [] s ps = (if s = [] then Some ps else None)"
| "pattern_match strtod (Chr c # p) s ps = (case s of [] \<Rightarrow> None | x # s' \<Rightarrow> if x = c then pattern_match strtod p s' ps else None)"
| "pattern_match strtod (Par t # p) s ps =
     (if s = [] then None
      else (case take_fragment strtod (Trie_Node 0 0 [] t []) s of
              None \<Rightarrow> None | Some (v, n) \<Rightarrow> pattern_match strtod p (drop n s) (push_param v ps)))"

definition label :: "trie_node \<Rightarrow> seg list" where
  "label n = (if param n = No_Param then map Chr (node_key n) else [Par (param n)])"

fun routes :: "trie_node \<Rightarrow> (seg list \<times> nat) list" where
  "routes (Trie_Node r b k p cs) =
     (if r \<noteq> 0 then [([], r)] else []) @ concat (map (\<lambda>c. map (\<lambda>(q, r). (label c @ q, r)) (routes c)) cs)"

definition child_routes :: "trie_node list \<Rightarrow> (seg list \<times> nat) list" where
  "child_routes cs = concat (map (\<lambda>c. map (\<lambda>(q, r). (label c @ q, r)) (routes c)) cs)"

lemma routes_node: "routes n = (if rule_index n \<noteq> 0 then [([], rule_index n)] else []) @ child_routes (children n)"
  by (cases n) (simp add: child_routes_def)

lemma child_routes_simps [simp]:
  "child_routes [] = []" "child_routes (c # cs) = map (\<lambda>(q, r). (label c @ q, r)) (routes c) @ child_routes cs"
  "child_routes (cs @ ds) = child_routes cs @ child_routes ds"
  by (simp_all add: child_routes_def)

lemma routes_nonzero: "(p, r) \<in> set (routes n) \<Longrightarrow> r \<noteq> 0"
  by (induction n arbitrary: p r rule: routes.induct) (auto split: if_splits)

section \<open>The best of the routes that match\<close>

definition matches :: "'d strtod \<Rightarrow> (seg list \<times> nat) list \<Rightarrow> string \<Rightarrow> 'd routing_params \<Rightarrow> (nat \<times> 'd routing_params) list" where
  "matches strtod rs s ps = concat (map (\<lambda>(p, r). case pattern_match strtod p s ps of None \<Rightarrow> [] | Some q \<Rightarrow> [(r, q)]) rs)"

fun better :: "(nat \<times> 'q) option \<Rightarrow> (nat \<times> 'q) option \<Rightarrow> (nat \<times> 'q) option" where
  "better None y = y"
| "better (Some x) None = Some x"
| "better (Some x) (Some y) = (if fst y < fst x then Some y else Some x)"

text \<open>The first of those with the least rule index.\<close>

definition pick :: "(nat \<times> 'q) list \<Rightarrow> (nat \<times> 'q) option" where
  "pick hs = foldr (\<lambda>x. better (Some x)) hs None"

lemma better_assoc: "better (better x y) z = better x (better y z)"
  by (cases x; cases y; cases z) auto

lemma better_None [simp]: "better x None = x"
  by (cases x) auto

lemma pick_simps [simp]: "pick [] = None" "pick (x # xs) = better (Some x) (pick xs)"
  by (simp_all add: pick_def)

lemma pick_append: "pick (xs @ ys) = better (pick xs) (pick ys)"
proof (induction xs)
  case (Cons x xs)
  have "pick ((x # xs) @ ys) = better (Some x) (better (pick xs) (pick ys))" by (simp only: append_Cons pick_simps Cons.IH)
  then show ?case by (simp only: better_assoc pick_simps)
qed simp

lemma pick_eq_None [simp]: "pick hs = None \<longleftrightarrow> hs = []"
proof (cases hs)
  case (Cons x xs)
  then show ?thesis by (cases "pick xs") auto
qed simp

lemma pick_least: "pick hs = Some x \<Longrightarrow> x \<in> set hs \<and> (\<forall>y \<in> set hs. fst x \<le> fst y)"
proof (induction hs arbitrary: x)
  case (Cons h hs)
  then show ?case by (cases "pick hs") (auto split: if_splits intro: order_trans less_imp_le)
qed simp

lemma matches_simps [simp]:
  "matches strtod [] s ps = []" "matches strtod (xs @ ys) s ps = matches strtod xs s ps @ matches strtod ys s ps"
  "matches strtod [([], r)] s ps = (if s = [] then [(r, ps)] else [])"
  by (simp_all add: matches_def)

section \<open>The search\<close>

text \<open>Literal nodes below the head carry a key.\<close>

fun keyed :: "trie_node \<Rightarrow> bool" where
  "keyed (Trie_Node r b k p cs) \<longleftrightarrow> list_all (\<lambda>c. (param c = No_Param \<longrightarrow> node_key c \<noteq> []) \<and> keyed c) cs"

definition strtod_ok :: "'d strtod \<Rightarrow> bool" where
  "strtod_ok strtod \<longleftrightarrow> (\<forall>s v n. strtod s = Some (v, n) \<longrightarrow> n \<le> length s)"

lemma takeWhile_drop_length: "k \<le> length s \<Longrightarrow> k + length (takeWhile P (drop k s)) \<le> length s"
  using length_takeWhile_le [of P "drop k s"] by simp

lemma sign_length_le: "s \<noteq> [] \<Longrightarrow> sign_length s \<le> length s"
  by (cases s) (auto simp: sign_length_def)

lemma take_fragment_length:
  assumes "strtod_ok strtod" "s \<noteq> []" "take_fragment strtod c s = Some (v, n)"
  shows "n \<le> length s"
proof -
  note l = takeWhile_drop_length [OF sign_length_le [OF assms(2)], of is_digit]
  show ?thesis
  proof (cases "param c")
    case Int_Param
    then show ?thesis using assms(3) l by (auto simp: take_fragment_def strtoll_def Let_def split: if_splits)
  next
    case Uint_Param
    then show ?thesis using assms(3) l by (auto simp: take_fragment_def strtoull_def Let_def split: if_splits)
  next
    case Double_Param
    then show ?thesis using assms by (auto simp: take_fragment_def strtod_ok_def split: if_splits)
  next
    case String_Param
    then show ?thesis using assms(3) length_takeWhile_le [of _ s] by (auto simp: take_fragment_def Let_def split: if_splits)
  next
    case No_Param
    then have "take (length (node_key c)) s = node_key c" "n = length (node_key c)"
      using assms(3) by (auto simp: take_fragment_def at_text_def split: if_splits)
    then show ?thesis by (metis length_take min.cobounded1)
  qed (use assms in \<open>auto simp: take_fragment_def\<close>)
qed

lemma pop_push [simp]: "pop_param v (push_param v ps) = ps"
  by (cases v) (simp_all add: pop_param_def push_param_def)

lemma pattern_match_chars:
  "pattern_match strtod (map Chr k @ p) s ps = (if take (length k) s = k then pattern_match strtod p (drop (length k) s) ps else None)"
  by (induction k arbitrary: s) (auto split: list.splits)

lemma pattern_match_label:
  assumes "param c = No_Param \<longrightarrow> node_key c \<noteq> []" "s \<noteq> []"
  shows "pattern_match strtod (label c @ p) s ps =
    (case take_fragment strtod c s of None \<Rightarrow> None | Some (v, n) \<Rightarrow> pattern_match strtod p (drop n s) (push_param v ps))"
proof (cases "param c = No_Param")
  case True
  then show ?thesis by (simp add: label_def pattern_match_chars take_fragment_def at_text_def push_param_def)
next
  case False
  then have "take_fragment strtod (Trie_Node 0 0 [] (param c) []) s = take_fragment strtod c s"
    by (simp add: take_fragment_def split: param_type.split)
  then show ?thesis using False assms(2) by (simp add: label_def)
qed

lemma pattern_match_label_end:
  "param c = No_Param \<longrightarrow> node_key c \<noteq> [] \<Longrightarrow> pattern_match strtod (label c @ p) [] ps = None"
  by (cases "node_key c") (auto simp: label_def)

lemma matches_label:
  assumes "param c = No_Param \<longrightarrow> node_key c \<noteq> []" "s \<noteq> []"
  shows "matches strtod (map (\<lambda>(q, r). (label c @ q, r)) rs) s ps =
    (case take_fragment strtod c s of None \<Rightarrow> [] | Some (v, n) \<Rightarrow> matches strtod rs (drop n s) (push_param v ps))"
  by (induction rs) (auto simp: matches_def pattern_match_label [OF assms] split: option.splits)

lemma matches_children_end: "\<forall>c \<in> set cs. param c = No_Param \<longrightarrow> node_key c \<noteq> [] \<Longrightarrow> matches strtod (child_routes cs) [] ps = []"
  by (induction cs) (auto simp: matches_def pattern_match_label_end)

text \<open>What a search has found, as the choice among the matches.\<close>

definition chosen :: "'d search \<Rightarrow> (nat \<times> 'd routing_params) option" where
  "chosen s = (if best_rule s = 0 then None else Some (best_rule s, match_params s))"

definition result_of :: "'d found \<Rightarrow> (nat \<times> 'd routing_params) option" where
  "result_of f = (if found_rule f = 0 then None else Some (found_rule f, r_params f))"

lemma chosen_fields [simp]:
  "chosen (s\<lparr>found_fragment := b\<rparr>) = chosen s" "chosen (s\<lparr>params := q\<rparr>) = chosen s" "chosen (s\<lparr>blueprints := bs\<rparr>) = chosen s"
  by (simp_all add: chosen_def)

lemma chosen_update: "chosen (update_found ret s) = better (chosen s) (result_of ret)"
  by (auto simp: chosen_def result_of_def update_found_def Let_def)

lemma find_correct:
  assumes "strtod_ok strtod"
  shows "keyed n \<Longrightarrow> pos \<le> length url \<Longrightarrow> find_node strtod url n pos ps bps = (ret, ps', bps') \<Longrightarrow>
      ps' = ps \<and> result_of ret = pick (matches strtod (routes n) (drop pos url) ps)"
    and "list_all (\<lambda>c. (param c = No_Param \<longrightarrow> node_key c \<noteq> []) \<and> keyed c) cs \<Longrightarrow> pos < length url \<Longrightarrow> find_children strtod url cs pos s = s' \<Longrightarrow>
      params s' = params s \<and> chosen s' = better (chosen s) (pick (matches strtod (child_routes cs) (drop pos url) (params s)))"
proof (induction strtod\<equiv>strtod url n pos ps bps and strtod\<equiv>strtod url cs pos s arbitrary: ret ps' bps' and s' rule: find_node_find_children.induct)
  case (1 url r b k p cs pos ps bps)
  show ?case
  proof (cases "pos = length url")
    case True
    then have "matches strtod (child_routes cs) (drop pos url) ps = []" using 1(2) matches_children_end [of cs strtod ps] by (auto simp: list_all_iff)
    then show ?thesis using True 1(4) by (auto simp: routes_node result_of_def)
  next
    case False
    then have "pos < length url" using 1(3) by simp
    then have "matches strtod (routes (Trie_Node r b k p cs)) (drop pos url) ps = matches strtod (child_routes cs) (drop pos url) ps"
      by (simp add: routes_node)
    then show ?thesis
      using 1(1) [OF False _ \<open>pos < length url\<close> refl] 1(2,4) False
      by (auto simp: Let_def chosen_def result_of_def split: if_splits)
  qed
next
  case (2 url pos s)
  then show ?case by auto
next
  case (3 url c cs pos s)
  have ne: "drop pos url \<noteq> []" and c: "param c = No_Param \<longrightarrow> node_key c \<noteq> []" "keyed c" using 3(3,4) by auto
  show ?case
  proof (cases "take_fragment strtod c (drop pos url)")
    case None
    then show ?thesis using 3(2) [OF _ 3(4)] 3(3,5) by (simp add: matches_label [OF c(1) ne])
  next
    case (Some vn)
    obtain v n where vn: "vn = (v, n)" by fastforce
    then have le: "pos + n \<le> length url" using take_fragment_length [OF assms ne, of c v n] Some 3(4) by simp
    let ?b = "if blueprint_index c \<noteq> INVALID_BP_ID then blueprints s @ [blueprint_index c] else blueprints s"
    obtain ret ps' bps' where f: "find_node strtod url c (pos + n) (push_param v (params s)) ?b = (ret, ps', bps')"
      by (metis prod_cases3)
    have r: "ps' = push_param v (params s) \<and> result_of ret = pick (matches strtod (routes c) (drop (pos + n) url) (push_param v (params s)))"
      using 3(1) [OF Some vn [symmetric] c(2) le f] by blast
    let ?s = "(update_found ret (s\<lparr>found_fragment := True\<rparr>))\<lparr>params := pop_param v ps', blueprints := pop_blueprint bps'\<rparr>"
    have s: "find_children strtod url cs pos ?s = s'" using 3(5) Some vn f by simp
    have p: "params ?s = params s" using r by simp
    have "chosen ?s = better (chosen s) (result_of ret)" using chosen_update [of ret "s\<lparr>found_fragment := True\<rparr>"] by simp
    moreover have "params s' = params ?s \<and> chosen s' = better (chosen ?s) (pick (matches strtod (child_routes cs) (drop pos url) (params ?s)))"
      using 3(3) s by (intro 3(2) [OF _ 3(4), unfolded Some vn option.case prod.case f]) simp_all
    moreover have "matches strtod (child_routes (c # cs)) (drop pos url) (params s) =
        matches strtod (routes c) (drop (pos + n) url) (push_param v (params s)) @ matches strtod (child_routes cs) (drop pos url) (params s)"
      using Some vn by (simp add: matches_label [OF c(1) ne] add.commute)
    ultimately show ?thesis using p r by (simp only: pick_append better_assoc)
  qed
qed

section \<open>Merging chains\<close>

definition spread :: "trie_node \<Rightarrow> (seg list \<times> nat) list" where
  "spread n = map (\<lambda>(q, r). (label n @ q, r)) (routes n)"

lemma child_routes_spread: "child_routes cs = concat (map spread cs)"
  by (induction cs) (simp_all add: spread_def)

lemma spread_node: "spread n = (if rule_index n \<noteq> 0 then [(label n, rule_index n)] else []) @ map (\<lambda>(q, r). (label n @ q, r)) (child_routes (children n))"
  by (simp add: spread_def routes_node)

lemma simple_node_child:
  assumes "IsSimpleNode n" "children n \<noteq> []"
  shows "\<exists>c. children n = [c] \<and> param c = No_Param"
  using assms by (cases "children n") (auto simp: IsSimpleNode_def)

lemma optimizeNode_spread: "spread (optimizeNode n) = spread n \<and> param (optimizeNode n) = param n \<and> (\<exists>k. node_key (optimizeNode n) = node_key n @ k)"
proof (induction n rule: optimizeNode.induct)
  case (1 n)
  consider "children n = []" | "children n \<noteq> []" "IsSimpleNode n" | "children n \<noteq> []" "\<not> IsSimpleNode n" by blast
  then show ?case
  proof cases
    case 1
    then show ?thesis by (subst (1 2 3) optimizeNode.simps) simp
  next
    case 2
    obtain c where c: "children n = [c]" "param c = No_Param" using simple_node_child [OF 2(2,1)] by blast
    let ?m = "Trie_Node (rule_index c) (blueprint_index c) (node_key n @ node_key c) (param n) (children c)"
    have o: "optimizeNode n = optimizeNode ?m" using 2 c by (subst optimizeNode.simps) simp
    have n: "rule_index n = 0" "param n = No_Param" using 2(2) by (simp_all add: IsSimpleNode_def)
    then have "spread ?m = spread n" using c by (auto simp: spread_node label_def child_routes_def routes_node [of c])
    then show ?thesis using "1.IH"(1) [OF 2 refl] c o by auto
  next
    case 3
    let ?m = "Trie_Node (rule_index n) (blueprint_index n) (node_key n) (param n) (map optimizeNode (children n))"
    have o: "optimizeNode n = ?m" using 3 by (subst optimizeNode.simps) simp
    have "map spread (map optimizeNode (children n)) = map spread (children n)" using "1.IH"(2) [OF 3] by simp
    then have "child_routes (map optimizeNode (children n)) = child_routes (children n)" by (simp only: child_routes_spread)
    then show ?thesis unfolding o by (simp add: spread_node label_def)
  qed
qed

lemma keyed_children: "keyed n \<longleftrightarrow> (\<forall>c \<in> set (children n). (param c = No_Param \<longrightarrow> node_key c \<noteq> []) \<and> keyed c)"
  by (cases n) (simp add: list_all_iff)

lemma optimizeNode_keyed: "keyed n \<Longrightarrow> keyed (optimizeNode n)"
proof (induction n rule: optimizeNode.induct)
  case (1 n)
  consider "children n = []" | "children n \<noteq> []" "IsSimpleNode n" | "children n \<noteq> []" "\<not> IsSimpleNode n" by blast
  then show ?case
  proof cases
    case 1
    then show ?thesis using \<open>keyed n\<close> by (subst optimizeNode.simps) simp
  next
    case 2
    obtain c where c: "children n = [c]" using simple_node_child [OF 2(2,1)] by blast
    have "keyed (Trie_Node (rule_index c) (blueprint_index c) (node_key n @ node_key c) (param n) (children c))"
      using "1.prems" c keyed_children [of n] keyed_children [of c] by (simp add: list_all_iff)
    then show ?thesis using "1.IH"(1) [OF 2 refl] 2 c by (subst optimizeNode.simps) simp
  next
    case 3
    have "keyed (optimizeNode c) \<and> (param (optimizeNode c) = No_Param \<longrightarrow> node_key (optimizeNode c) \<noteq> [])" if "c \<in> set (children n)" for c
      using "1.IH"(2) [OF 3 that] "1.prems" that optimizeNode_spread [of c] keyed_children [of n] by auto
    then show ?thesis using 3 by (subst optimizeNode.simps) (simp add: list_all_iff)
  qed
qed

lemma optimize_routes: "routes (optimize n) = routes n" "keyed n \<Longrightarrow> keyed (optimize n)"
proof -
  have "map spread (map optimizeNode (children n)) = map spread (children n)" using optimizeNode_spread by simp
  then have "child_routes (map optimizeNode (children n)) = child_routes (children n)" by (simp only: child_routes_spread)
  then show "routes (optimize n) = routes n" by (simp add: optimize_def routes_node del: routes.simps)
  assume "keyed n"
  have "keyed (optimizeNode c) \<and> (param (optimizeNode c) = No_Param \<longrightarrow> node_key (optimizeNode c) \<noteq> [])" if "c \<in> set (children n)" for c
    using \<open>keyed n\<close> that optimizeNode_spread [of c] optimizeNode_keyed [of c] keyed_children [of n] by auto
  then show "keyed (optimize n)" by (simp add: optimize_def list_all_iff)
qed

section \<open>Insertion\<close>

lemma tag_at_drop: "tag_at url i = tag_at (drop i url) 0"
  by (simp add: tag_at_def at_text_def)

lemma tag_at_Some:
  assumes "tag_at url i = Some (t, name)"
  shows "0 < length name" "i + length name \<le> length url" "t \<noteq> No_Param"
proof -
  obtain k where k: "k < length param_traits" "(t, name) = param_traits ! k" "at_text url i (snd (param_traits ! k))"
    using assms by (auto simp: tag_at_def find_Some_iff)
  then have m: "(t, name) \<in> set param_traits" and a: "at_text url i name" by (metis nth_mem, metis snd_conv)
  show n: "0 < length name" "t \<noteq> No_Param" using m by (auto simp: param_traits_def)
  have "length (take (length name) (drop i url)) = length name" using a by (simp add: at_text_def)
  then have "length name \<le> length url - i" by simp
  then show "i + length name \<le> length url" using n(1) by linarith
qed

text \<open>The pattern of a URL of a rule; there is none when a \<open><\<close> begins no known tag.\<close>

function url_pattern :: "string \<Rightarrow> seg list option" where
  "url_pattern s =
     (case s of
        [] \<Rightarrow> Some []
      | c # s' \<Rightarrow>
          if c = CHR ''<'' then
            (case tag_at s 0 of
               None \<Rightarrow> None | Some (t, name) \<Rightarrow> map_option (Cons (Par t)) (url_pattern (drop (length name) s)))
          else map_option (Cons (Chr c)) (url_pattern s'))"
  by pat_completeness auto
termination
  by (relation "measure length") (auto dest: tag_at_Some)

declare url_pattern.simps [simp del]

lemma url_pattern_Nil [simp]: "url_pattern [] = Some []"
  by (simp add: url_pattern.simps)

lemma url_pattern_drop:
  assumes "i < length url"
  shows "url ! i = CHR ''<'' \<Longrightarrow> tag_at url i = Some (t, name) \<Longrightarrow>
      url_pattern (drop i url) = map_option (Cons (Par t)) (url_pattern (drop (i + length name) url))"
    and "url ! i = CHR ''<'' \<Longrightarrow> tag_at url i = None \<Longrightarrow> url_pattern (drop i url) = None"
    and "url ! i \<noteq> CHR ''<'' \<Longrightarrow> url_pattern (drop i url) = map_option (Cons (Chr (url ! i))) (url_pattern (drop (i + 1) url))"
proof -
  have d: "drop i url = url ! i # drop (i + 1) url" using assms by (simp add: Cons_nth_drop_Suc)
  note u = url_pattern.simps [of "drop i url", unfolded tag_at_drop [of url i, symmetric]]
  show "url ! i \<noteq> CHR ''<'' \<Longrightarrow> url_pattern (drop i url) = map_option (Cons (Chr (url ! i))) (url_pattern (drop (i + 1) url))"
    unfolding u unfolding d by simp
  show "url ! i = CHR ''<'' \<Longrightarrow> tag_at url i = None \<Longrightarrow> url_pattern (drop i url) = None"
    unfolding u by (subst d) simp
  assume a: "url ! i = CHR ''<''" "tag_at url i = Some (t, name)"
  have "drop (length name) (drop i url) = drop (i + length name) url" by (simp add: add.commute)
  then show "url_pattern (drop i url) = map_option (Cons (Par t)) (url_pattern (drop (i + length name) url))"
    unfolding u using a by (subst d) simp
qed

lemma add_at_pattern:
  assumes "add_at url rule pl bp i n = Some r"
  shows "url_pattern (drop i url) \<noteq> None"
proof (rule add_at.raw_induct [where P = "\<lambda>url rule pl bp i n r. url_pattern (drop i url) \<noteq> None", OF _ assms], goal_cases)
  case (1 add_at url rule pl bp i n r)
  show ?case
  proof (cases "length url \<le> i")
    case False
    then have i: "i < length url" by simp
    show ?thesis
    proof (cases "url ! i = CHR ''<''")
      case tag: True
      show ?thesis
      proof (cases "tag_at url i")
        case None
        then show ?thesis using 1 False tag by simp
      next
        case (Some tn)
        then obtain t name where tn: "tag_at url i = Some (t, name)" by (cases tn) auto
        have "\<exists>m q. add_at url rule pl bp (i + length name) m = Some q"
          using 1(2) False tag tn by (auto split: option.splits simp: bind_eq_Some_conv)
        then have "url_pattern (drop (i + length name) url) \<noteq> None" using 1(1) by blast
        then show ?thesis using url_pattern_drop(1) [OF i tag tn] by simp
      qed
    next
      case no_tag: False
      have "\<exists>m q. add_at url rule pl bp (i + 1) m = Some q"
        using 1(2) False no_tag by (auto split: option.splits simp: bind_eq_Some_conv)
      then have "url_pattern (drop (i + 1) url) \<noteq> None" using 1(1) by blast
      then show ?thesis using url_pattern_drop(3) [OF i no_tag] by simp
    qed
  qed simp
qed

text \<open>Before chains are merged: one segment per node, and different segments for siblings.\<close>

fun plain_tree :: "trie_node \<Rightarrow> bool" where
  "plain_tree (Trie_Node r b k p cs) \<longleftrightarrow>
     list_all (\<lambda>c. (if param c = No_Param then length (node_key c) = 1 \<and> node_key c \<noteq> [NUL] else node_key c = []) \<and> plain_tree c) cs
     \<and> distinct (map label cs)"

lemma plain_children:
  "plain_tree n \<longleftrightarrow> (\<forall>c \<in> set (children n). (if param c = No_Param then length (node_key c) = 1 \<and> node_key c \<noteq> [NUL] else node_key c = []) \<and> plain_tree c)
    \<and> distinct (map label (children n))"
  by (cases n) (simp add: list_all_iff)

lemma plain_keyed: "plain_tree n \<Longrightarrow> keyed n"
  by (induction n rule: keyed.induct) (auto simp: list_all_iff)

declare plain_tree.simps [simp del] routes.simps [simp del]

lemma leaf_simps [simp]: "plain_tree (Trie_Node r b k p [])" "routes (Trie_Node r b k p []) = (if r \<noteq> 0 then [([], r)] else [])"
  by (simp_all add: plain_tree.simps routes.simps)

lemma index_of_split: "index_of P xs = Some j \<Longrightarrow> \<exists>ys z zs. xs = ys @ z # zs \<and> j = length ys \<and> P z"
proof (induction xs arbitrary: j)
  case (Cons x xs)
  show ?case
  proof (cases "P x")
    case True
    then show ?thesis using Cons.prems by (intro exI [of _ "[]"]) simp
  next
    case False
    then obtain k where "index_of P xs = Some k" "j = Suc k" using Cons.prems by auto
    then obtain ys z zs where "xs = ys @ z # zs" "k = length ys" "P z" using Cons.IH by blast
    then show ?thesis using \<open>j = Suc k\<close> by (intro exI [of _ "x # ys"]) simp
  qed
qed simp

lemma index_of_None: "index_of P xs = None \<longleftrightarrow> (\<forall>x \<in> set xs. \<not> P x)"
  by (induction xs) auto

text \<open>Storing a changed or a new child with the segment \<open>g\<close>.\<close>

definition grows :: "seg list \<Rightarrow> nat \<Rightarrow> bool \<Rightarrow> trie_node \<Rightarrow> trie_node \<Rightarrow> bool" where
  "grows p rule ok n n' \<longleftrightarrow>
     plain_tree n' \<and> param n' = param n \<and> node_key n' = node_key n \<and> blueprint_index n' = blueprint_index n \<and>
     label ` set (children n') \<subseteq> label ` set (children n) \<union> (if p = [] then {} else {[hd p]}) \<and> (ok \<longleftrightarrow> p \<notin> fst ` set (routes n)) \<and>
     set (routes n') = set (routes n) \<union> (if ok \<and> rule \<noteq> 0 then {(p, rule)} else {})"

lemma in_child_routes: "(p, r) \<in> set (child_routes cs) \<longleftrightarrow> (\<exists>c \<in> set cs. \<exists>q. p = label c @ q \<and> (q, r) \<in> set (routes c))"
  by (auto simp: child_routes_def)

lemma plain_label:
  assumes "if param c = No_Param then length (node_key c) = 1 \<and> node_key c \<noteq> [NUL] else node_key c = []"
  shows "\<exists>g. label c = [g]"
  using assms by (cases "node_key c") (auto simp: label_def)

lemma grows_set_child:
  assumes n: "plain_tree n" and cs: "children n = xs @ c # ys" and l: "label c = [g]" and c: "grows p rule ok c c'"
  shows "grows (g # p) rule ok n (set_child n (length xs) c')"
proof -
  have l': "label c' = [g]" using c l by (auto simp: grows_def label_def split: if_splits)
  have m: "children (set_child n (length xs) c') = xs @ c' # ys" "rule_index (set_child n (length xs) c') = rule_index n"
    using cs by (simp_all add: set_child_def)
  have dis: "label x \<noteq> [g]" if "x \<in> set xs \<union> set ys" for x using n cs l that by (auto simp: plain_children [of n]) (metis image_eqI)+
  have one: "\<exists>h. label x = [h]" if "x \<in> set (children n)" for x using n that plain_label [of x] by (auto simp: plain_children [of n])
  have other: "g # p \<notin> fst ` set (child_routes xs)" "g # p \<notin> fst ` set (child_routes ys)"
    using dis one cs by (force simp: in_child_routes)+
  have "(g # p, r) \<in> set (routes n) \<longleftrightarrow> (p, r) \<in> set (routes c)" for r
    using other l by (auto simp: routes_node [of n] cs image_iff intro: bexI [of _ "(p, r)"])
  then have "p \<in> fst ` set (routes c) \<longleftrightarrow> g # p \<in> fst ` set (routes n)" by (force simp: image_iff)
  moreover have "set (routes (set_child n (length xs) c')) = set (routes n) \<union> (if ok \<and> rule \<noteq> 0 then {(g # p, rule)} else {})"
    using c l l' by (auto simp: routes_node [of n] routes_node [of "set_child n (length xs) c'"] m cs grows_def)
  moreover have "label ` set (children (set_child n (length xs) c')) = label ` set (children n)" using cs l l' m by simp
  moreover have "plain_tree (set_child n (length xs) c')"
    using n c l l' by (auto simp: plain_children [of n] plain_children [of "set_child n (length xs) c'"] m cs grows_def)
  ultimately show ?thesis using c by (simp add: grows_def set_child_def subset_insertI)
qed

lemma grows_add_child:
  assumes n: "plain_tree n" and l: "label c = [g]" "\<forall>x \<in> set (children n). label x \<noteq> [g]"
    and c: "plain_tree c" "children c = []" "rule_index c = 0" "grows p rule ok c c'"
    and s: "if param c = No_Param then length (node_key c) = 1 \<and> node_key c \<noteq> [NUL] else node_key c = []"
  shows "grows (g # p) rule ok n (add_child n c')"
proof -
  let ?m = "Trie_Node (rule_index n) (blueprint_index n) (node_key n) (param n) (children n @ [c])"
  have m: "plain_tree ?m" using n l c(1) s by (auto simp: plain_children [of n] plain_children [of ?m])
  have "set (routes ?m) = set (routes n)" using c(2,3) by (simp add: routes_node [of n] routes_node [of ?m] routes_node [of c] del: routes.simps)
  moreover have "set_child ?m (length (children n)) c' = add_child n c'" by (simp add: set_child_def add_child_def)
  moreover have "grows (g # p) rule ok ?m (set_child ?m (length (children n)) c')"
    using grows_set_child [OF m _ l(1) c(4), of "children n" "[]"] by simp
  ultimately show ?thesis using l(1) by (simp add: grows_def insert_absorb)
qed

lemma add_at_correct:
  assumes "NUL \<notin> set url"
  shows "plain_tree n \<Longrightarrow> i \<le> length url \<Longrightarrow> url_pattern (drop i url) = Some p \<Longrightarrow>
    \<exists>n' ok. add_at url rule pl bp i n = Some (n', ok) \<and> grows p rule ok n n'"
proof (induction "length url - i" arbitrary: i n p rule: less_induct)
  case less
  show ?case
  proof (cases "i = length url")
    case True
    then have p: "p = []" using less.prems(3) by simp
    have "[] \<notin> fst ` set (child_routes (children n))"
    proof
      assume "[] \<in> fst ` set (child_routes (children n))"
      then obtain c where c: "c \<in> set (children n)" "label c = []" by (auto simp: in_child_routes)
      then show False using less.prems(1) plain_label [of c] by (auto simp: plain_children [of n])
    qed
    then have "[] \<in> fst ` set (routes n) \<longleftrightarrow> rule_index n \<noteq> 0" by (auto simp: routes_node)
    moreover have "plain_tree (set_rule rule n)" 
      using less.prems(1) unfolding plain_children [of "set_rule rule n"] plain_children [of n] by (simp add: set_rule_def)
    moreover have "routes (set_rule rule n) = (if rule \<noteq> 0 then [([], rule)] else []) @ child_routes (children n)"
      by (simp add: routes_node set_rule_def)
    ultimately show ?thesis using True p less.prems(1)
      by (cases "rule_index n = 0"; subst add_at.simps) (auto simp: grows_def routes_node [of n] set_rule_def)
  next
    case False
    then have i: "i < length url" using less.prems(2) by simp
    show ?thesis
    proof (cases "url ! i = CHR ''<''")
      case tag: True
      then obtain t name where tn: "tag_at url i = Some (t, name)" using url_pattern_drop(2) [OF i] less.prems(3) by (cases "tag_at url i") auto
      note b = tag_at_Some [OF tn]
      obtain q where q: "url_pattern (drop (i + length name) url) = Some q" "p = Par t # q"
        using url_pattern_drop(1) [OF i tag tn, symmetric] less.prems(3) by auto
      have ih: "plain_tree m \<Longrightarrow> \<exists>n' ok. add_at url rule pl bp (i + length name) m = Some (n', ok) \<and> grows q rule ok m n'" for m
      proof -
        have "length url - (i + length name) < length url - i" using b(1) i by linarith
        then show "plain_tree m \<Longrightarrow> ?thesis" using less.hyps b(2) q(1) by blast
      qed
      show ?thesis
      proof (cases "index_of (\<lambda>c. param c = t) (children n)")
        case None
        let ?c = "Trie_Node 0 INVALID_BP_ID [] t []"
        obtain c' ok where c: "add_at url rule pl bp (i + length name) ?c = Some (c', ok)" "grows q rule ok ?c c'" using ih [of ?c] by auto
        have "\<forall>x \<in> set (children n). label x \<noteq> [Par t]" using None b(3) by (auto simp: index_of_None label_def)
        then have "grows (Par t # q) rule ok n (add_child n c')"
          using less.prems(1) c(2) b(3) by (intro grows_add_child [where c = ?c]) (auto simp: label_def)
        then show ?thesis using i tag tn None c(1) q(2) by (subst add_at.simps) auto
      next
        case (Some j)
        then obtain xs c ys where cs: "children n = xs @ c # ys" "j = length xs" "param c = t" using index_of_split by blast
        then have "plain_tree c" using less.prems(1) by (simp add: plain_children [of n])
        then obtain c' ok where c: "add_at url rule pl bp (i + length name) c = Some (c', ok)" "grows q rule ok c c'" using ih by blast
        have "grows (Par t # q) rule ok n (set_child n j c')"
          using grows_set_child [OF less.prems(1) cs(1) _ c(2)] cs b(3) by (simp add: label_def)
        then show ?thesis using i tag tn Some c(1) q(2) cs by (subst add_at.simps) auto
      qed
    next
      case no_tag: False
      let ?x = "url ! i"
      obtain q where q: "url_pattern (drop (i + 1) url) = Some q" "p = Chr ?x # q"
        using url_pattern_drop(3) [OF i no_tag, symmetric] less.prems(3) by auto
      have nul: "?x \<noteq> NUL" using assms i nth_mem by metis
      have ih: "plain_tree m \<Longrightarrow> \<exists>n' ok. add_at url rule pl bp (i + 1) m = Some (n', ok) \<and> grows q rule ok m n'" for m
        using less.hyps [of "i + 1" m q] i q(1) by auto
      have lab: "key_char x = ?x \<longleftrightarrow> label x = [Chr ?x]" if "x \<in> set (children n)" for x
        using less.prems(1) that nul by (cases "node_key x") (auto simp: plain_children [of n] key_char_def label_def split: if_splits)
      show ?thesis
      proof (cases "index_of (\<lambda>c. key_char c = ?x) (children n)")
        case None
        let ?c = "Trie_Node 0 (if pl \<noteq> 0 \<and> bp \<noteq> INVALID_BP_ID \<and> i = pl then bp else INVALID_BP_ID) [?x] No_Param []"
        obtain c' ok where c: "add_at url rule pl bp (i + 1) ?c = Some (c', ok)" "grows q rule ok ?c c'" using ih [of ?c] by auto
        have "\<forall>x \<in> set (children n). label x \<noteq> [Chr ?x]" using None lab by (auto simp: index_of_None)
        then have "grows (Chr ?x # q) rule ok n (add_child n c')"
          using less.prems(1) c(2) nul by (intro grows_add_child [where c = ?c]) (auto simp: label_def)
        then show ?thesis using i no_tag None c(1) q(2) by (subst add_at.simps) auto
      next
        case (Some j)
        then obtain xs c ys where cs: "children n = xs @ c # ys" "j = length xs" "key_char c = ?x" using index_of_split by blast
        then have "plain_tree c" using less.prems(1) by (simp add: plain_children [of n])
        then obtain c' ok where c: "add_at url rule pl bp (i + 1) c = Some (c', ok)" "grows q rule ok c c'" using ih by blast
        have "label c = [Chr ?x]" using lab cs by auto
        then have "grows (Chr ?x # q) rule ok n (set_child n j c')"
          using grows_set_child [OF less.prems(1) cs(1) _ c(2)] cs by simp
        then show ?thesis using i no_tag Some c(1) q(2) cs by (subst add_at.simps) auto
      qed
    qed
  qed
qed

end
