(* ===== verification/Response.thy ===== *)
theory Response
  imports Utility
begin

text \<open>
  Responses (\<open>crow::response\<close>): the multimap of headers, setting and adding headers, redirects, the
  content type, static files, ending a response, and the bytes of its head.  The handlers that a
  response calls are parameters; compression is not compiled in.  Headers with equal names are kept in
  the order in which they were added, which \<open>std::unordered_multimap\<close> leaves open.
\<close>

section \<open>Headers\<close>

type_synonym ci_map = "(string \<times> string) list"

definition ci_key_eq :: "string \<Rightarrow> string \<Rightarrow> bool" where
  "ci_key_eq l r \<longleftrightarrow> string_equals l r False"

definition ci_count :: "string \<Rightarrow> ci_map \<Rightarrow> nat" where
  "ci_count k hs = length (filter (\<lambda>h. ci_key_eq (fst h) k) hs)"

definition ci_erase :: "string \<Rightarrow> ci_map \<Rightarrow> ci_map" where
  "ci_erase k hs = filter (\<lambda>h. \<not> ci_key_eq (fst h) k) hs"

definition get_header_value :: "ci_map \<Rightarrow> string \<Rightarrow> string" where
  "get_header_value hs k = (case find (\<lambda>h. ci_key_eq (fst h) k) hs of None \<Rightarrow> [] | Some h \<Rightarrow> snd h)"

section \<open>The response\<close>

text \<open>What \<open>stat\<close> says of a path: nothing on failure, otherwise whether it is a regular file, and its size.\<close>

type_synonym stat = "string \<Rightarrow> (bool \<times> nat) option"

record response =
  status_code :: nat
  body :: string
  headers :: ci_map
  skip_body :: bool
  manual_length_header :: bool
  completed :: bool
  file_path :: string
  file_stat :: "(bool \<times> nat) option"

definition new_response :: "nat \<Rightarrow> response" where
  "new_response c = \<lparr>status_code = c, body = [], headers = [], skip_body = False, manual_length_header = False, completed = False,
     file_path = [], file_stat = None\<rparr>"

text \<open>The move assignment keeps two flags of the target.\<close>

definition assign :: "response \<Rightarrow> response \<Rightarrow> response" where
  "assign res r = r\<lparr>skip_body := skip_body res, manual_length_header := manual_length_header res\<rparr>"

definition set_header :: "string \<Rightarrow> string \<Rightarrow> response \<Rightarrow> response" where
  "set_header k v res =
     (let k' = sanitize_header_value k; v' = sanitize_header_value v in res\<lparr>headers := ci_erase k' (headers res) @ [(k', v')]\<rparr>)"

definition add_header :: "string \<Rightarrow> string \<Rightarrow> response \<Rightarrow> response" where
  "add_header k v res = res\<lparr>headers := headers res @ [(sanitize_header_value k, sanitize_header_value v)]\<rparr>"

definition clear_response :: "response \<Rightarrow> response" where
  "clear_response res = res\<lparr>body := [], status_code := 200, headers := [], completed := False, file_path := [], file_stat := None\<rparr>"

definition redirect :: "string \<Rightarrow> response \<Rightarrow> response" where
  "redirect location res = set_header ''Location'' location (res\<lparr>status_code := 307\<rparr>)"

definition redirect_perm :: "string \<Rightarrow> response \<Rightarrow> response" where
  "redirect_perm location res = set_header ''Location'' location (res\<lparr>status_code := 308\<rparr>)"

definition moved :: "string \<Rightarrow> response \<Rightarrow> response" where
  "moved location res = set_header ''Location'' location (res\<lparr>status_code := 302\<rparr>)"

definition moved_perm :: "string \<Rightarrow> response \<Rightarrow> response" where
  "moved_perm location res = set_header ''Location'' location (res\<lparr>status_code := 301\<rparr>)"

definition write_body :: "string \<Rightarrow> response \<Rightarrow> response" where
  "write_body part res = res\<lparr>body := body res @ part\<rparr>"

section \<open>Content types\<close>

definition mime_types :: "(string \<times> string) list" where
  "mime_types =
    [(''gz'', ''application/gzip''), (''shtml'', ''text/html''), (''htm'', ''text/html''), (''html'', ''text/html''),
      (''css'', ''text/css''), (''xml'', ''text/xml''), (''gif'', ''image/gif''), (''jpg'', ''image/jpeg''),
      (''jpeg'', ''image/jpeg''), (''js'', ''application/javascript''), (''atom'', ''application/atom+xml''),
      (''rss'', ''application/rss+xml''), (''mml'', ''text/mathml''), (''txt'', ''text/plain''),
      (''jad'', ''text/vnd.sun.j2me.app-descriptor''), (''wml'', ''text/vnd.wap.wml''), (''htc'', ''text/x-component''),
      (''avif'', ''image/avif''), (''png'', ''image/png''), (''svgz'', ''image/svg+xml''), (''svg'', ''image/svg+xml''),
      (''tiff'', ''image/tiff''), (''tif'', ''image/tiff''), (''wbmp'', ''image/vnd.wap.wbmp''), (''webp'', ''image/webp''),
      (''ico'', ''image/x-icon''), (''jng'', ''image/x-jng''), (''bmp'', ''image/x-ms-bmp''), (''woff'', ''font/woff''),
      (''woff2'', ''font/woff2''), (''ear'', ''application/java-archive''), (''war'', ''application/java-archive''),
      (''jar'', ''application/java-archive''), (''json'', ''application/json''), (''hqx'', ''application/mac-binhex40''),
      (''doc'', ''application/msword''), (''pdf'', ''application/pdf''), (''ai'', ''application/postscript''),
      (''eps'', ''application/postscript''), (''ps'', ''application/postscript''), (''rtf'', ''application/rtf''),
      (''m3u8'', ''application/vnd.apple.mpegurl''), (''kml'', ''application/vnd.google-earth.kml+xml''),
      (''kmz'', ''application/vnd.google-earth.kmz''), (''xls'', ''application/vnd.ms-excel''),
      (''eot'', ''application/vnd.ms-fontobject''), (''ppt'', ''application/vnd.ms-powerpoint''),
      (''odg'', ''application/vnd.oasis.opendocument.graphics''),
      (''odp'', ''application/vnd.oasis.opendocument.presentation''),
      (''ods'', ''application/vnd.oasis.opendocument.spreadsheet''), (''odt'', ''application/vnd.oasis.opendocument.text''),
      (''pptx'', ''application/vnd.openxmlformats-officedocument.presentationml.presentation''),
      (''xlsx'', ''application/vnd.openxmlformats-officedocument.spreadsheetml.sheet''),
      (''docx'', ''application/vnd.openxmlformats-officedocument.wordprocessingml.document''),
      (''wmlc'', ''application/vnd.wap.wmlc''), (''wasm'', ''application/wasm''), (''7z'', ''application/x-7z-compressed''),
      (''cco'', ''application/x-cocoa''), (''jardiff'', ''application/x-java-archive-diff''),
      (''jnlp'', ''application/x-java-jnlp-file''), (''run'', ''application/x-makeself''), (''pm'', ''application/x-perl''),
      (''pl'', ''application/x-perl''), (''pdb'', ''application/x-pilot''), (''prc'', ''application/x-pilot''),
      (''rar'', ''application/x-rar-compressed''), (''rpm'', ''application/x-redhat-package-manager''),
      (''sea'', ''application/x-sea''), (''swf'', ''application/x-shockwave-flash''), (''sit'', ''application/x-stuffit''),
      (''tk'', ''application/x-tcl''), (''tcl'', ''application/x-tcl''), (''crt'', ''application/x-x509-ca-cert''),
      (''pem'', ''application/x-x509-ca-cert''), (''der'', ''application/x-x509-ca-cert''),
      (''xpi'', ''application/x-xpinstall''), (''xhtml'', ''application/xhtml+xml''), (''xspf'', ''application/xspf+xml''),
      (''zip'', ''application/zip''), (''dll'', ''application/octet-stream''), (''exe'', ''application/octet-stream''),
      (''bin'', ''application/octet-stream''), (''deb'', ''application/octet-stream''),
      (''dmg'', ''application/octet-stream''), (''img'', ''application/octet-stream''),
      (''iso'', ''application/octet-stream''), (''msm'', ''application/octet-stream''),
      (''msp'', ''application/octet-stream''), (''msi'', ''application/octet-stream''), (''kar'', ''audio/midi''),
      (''midi'', ''audio/midi''), (''mid'', ''audio/midi''), (''mp3'', ''audio/mpeg''), (''ogg'', ''audio/ogg''),
      (''m4a'', ''audio/x-m4a''), (''ra'', ''audio/x-realaudio''), (''3gp'', ''video/3gpp''), (''3gpp'', ''video/3gpp''),
      (''ts'', ''video/mp2t''), (''mp4'', ''video/mp4''), (''mpg'', ''video/mpeg''), (''mpeg'', ''video/mpeg''),
      (''mov'', ''video/quicktime''), (''webm'', ''video/webm''), (''flv'', ''video/x-flv''), (''m4v'', ''video/x-m4v''),
      (''mng'', ''video/x-mng''), (''asf'', ''video/x-ms-asf''), (''asx'', ''video/x-ms-asf''), (''wmv'', ''video/x-ms-wmv''),
      (''avi'', ''video/x-msvideo'')]"

definition valid_parent_types :: "string list" where
  "valid_parent_types =
     [''application/'', ''audio/'', ''font/'', ''example/'', ''image/'', ''message/'', ''model/'', ''multipart/'', ''text/'', ''video/'']"

definition validate_mime_type :: "string \<Rightarrow> bool" where
  "validate_mime_type candidate \<longleftrightarrow>
     list_ex (\<lambda>parent. length parent < length candidate \<and> take (length parent) candidate = parent) valid_parent_types"

definition get_mime_type :: "string \<Rightarrow> string" where
  "get_mime_type contentType =
     (case map_of mime_types contentType of
        Some t \<Rightarrow> t
      | None \<Rightarrow> if validate_mime_type contentType then contentType else ''text/plain'')"

definition response_with_type :: "nat \<Rightarrow> string \<Rightarrow> string \<Rightarrow> response" where
  "response_with_type c contentType text =
     set_header ''Content-Type'' (get_mime_type contentType) ((new_response c)\<lparr>body := text\<rparr>)"

section \<open>Static files\<close>

definition extension :: "string \<Rightarrow> string" where
  "extension path = (if CHR ''.'' \<in> set path then rev (takeWhile (\<lambda>c. c \<noteq> CHR ''.'') (rev path)) else path)"

definition set_static_file_info_unsafe :: "stat \<Rightarrow> string \<Rightarrow> string \<Rightarrow> response \<Rightarrow> response" where
  "set_static_file_info_unsafe stat path content_type res =
     (let res1 = res\<lparr>file_path := path, file_stat := stat path\<rparr>
      in case stat path of
           Some (True, n) \<Rightarrow>
             (let res2 = add_header ''Content-Length'' (to_dec n) (res1\<lparr>status_code := 200\<rparr>)
              in if content_type = [] then
                   (if extension path \<noteq> [] then add_header ''Content-Type'' (get_mime_type (extension path)) res2 else res2)
                 else add_header ''Content-Type'' content_type res2)
         | _ \<Rightarrow> res1\<lparr>status_code := 404, file_path := []\<rparr>)"

definition set_static_file_info :: "stat \<Rightarrow> string \<Rightarrow> string \<Rightarrow> response \<Rightarrow> response" where
  "set_static_file_info stat path content_type = set_static_file_info_unsafe stat (sanitize_filename path CHR ''_'') content_type"

definition is_static_type :: "response \<Rightarrow> bool" where
  "is_static_type res \<longleftrightarrow> file_path res \<noteq> []"

section \<open>Ending a response\<close>

definition end_before :: "response \<Rightarrow> response" where
  "end_before res =
     (let res1 = res\<lparr>completed := True\<rparr>
      in if skip_body res then (set_header ''Content-Length'' (to_dec (length (body res))) res1)\<lparr>body := [], manual_length_header := True\<rparr>
         else res1)"

definition end_after :: "response \<Rightarrow> response" where
  "end_after res = res\<lparr>manual_length_header := False, skip_body := False\<rparr>"

text \<open>The handler, if there is one, and what it makes of the response.\<close>

definition end_response :: "(response \<Rightarrow> response) option \<Rightarrow> response \<Rightarrow> response" where
  "end_response h res =
     (if completed res then res
      else (case h of None \<Rightarrow> end_before res | Some f \<Rightarrow> end_after (f (end_before res))))"

section \<open>The head of a response\<close>

definition statusCodes :: "(nat \<times> string) list" where
  "statusCodes =
    [(100, ''100 Continue''), (101, ''101 Switching Protocols''), (200, ''200 OK''), (201, ''201 Created''),
      (202, ''202 Accepted''), (203, ''203 Non-Authoritative Information''), (204, ''204 No Content''),
      (205, ''205 Reset Content''), (206, ''206 Partial Content''), (207, ''207 Multi-Status''),
      (300, ''300 Multiple Choices''), (301, ''301 Moved Permanently''), (302, ''302 Found''), (303, ''303 See Other''),
      (304, ''304 Not Modified''), (307, ''307 Temporary Redirect''), (308, ''308 Permanent Redirect''),
      (400, ''400 Bad Request''), (401, ''401 Unauthorized''), (403, ''403 Forbidden''), (404, ''404 Not Found''),
      (405, ''405 Method Not Allowed''), (406, ''406 Not Acceptable''), (407, ''407 Proxy Authentication Required''),
      (409, ''409 Conflict''), (410, ''410 Gone''), (413, ''413 Payload Too Large''), (415, ''415 Unsupported Media Type''),
      (416, ''416 Range Not Satisfiable''), (417, ''417 Expectation Failed''), (412, ''412 Precondition Failed''),
      (414, ''414 Request-URI Too Long''), (422, ''422 Unprocessable Entity''), (423, ''423 Locked''),
      (424, ''424 Failed Dependency''), (428, ''428 Precondition Required''), (429, ''429 Too Many Requests''),
      (451, ''451 Unavailable For Legal Reasons''), (500, ''500 Internal Server Error''), (501, ''501 Not Implemented''),
      (502, ''502 Bad Gateway''), (503, ''503 Service Unavailable''), (504, ''504 Gateway Timeout''),
      (506, ''506 Variant Also Negotiates''),
      (507, ''507 Insufficient Storage'')]"

definition status_text :: "nat \<Rightarrow> string" where
  "status_text c = (case map_of statusCodes c of Some t \<Rightarrow> t | None \<Rightarrow> [])"

text \<open>An unknown status becomes 500, and an error without a body gets its status as one.\<close>

definition settle_status :: "response \<Rightarrow> response" where
  "settle_status res =
     (let c = (if map_of statusCodes (status_code res) = None then 500 else status_code res)
      in res\<lparr>status_code := c, body := (if 400 \<le> c \<and> body res = [] then status_text c @ crlf else body res)\<rparr>)"

definition header_line :: "string \<times> string \<Rightarrow> string" where
  "header_line h = fst h @ '': '' @ snd h @ crlf"

definition write_header_into_buffer :: "bool \<Rightarrow> string \<Rightarrow> response \<Rightarrow> response \<times> string" where
  "write_header_into_buffer add_keep_alive server_name res =
     (let r = settle_status res
      in (r, ''HTTP/1.1 '' @ status_text (status_code r) @ crlf @ concat (map header_line (headers r))
           @ (if \<not> manual_length_header r \<and> ci_count ''content-length'' (headers r) = 0
              then header_line (''Content-Length'', to_dec (length (body r))) else [])
           @ (if ci_count ''server'' (headers r) = 0 \<and> server_name \<noteq> [] then header_line (''Server'', server_name) else [])
           @ (if add_keep_alive then ''Connection: Keep-Alive'' @ crlf else []) @ crlf))"

end
