(* ===== verification/Router.thy ===== *)
theory Router
  imports Router_Trie Response
begin

text \<open>
  The router (\<open>crow::Router\<close>): the check of a handler's parameters against a rule's URL, the methods
  of a rule, the registration of rules in one search tree per method, the choice of a rule for a
  request, and the catch-all rule for a request that no rule takes.  A rule object is opaque; the
  handlers it would call, middlewares and templates are not part of the model.
\<close>

unbundle bit_operations_syntax

section \<open>Parameter tags\<close>

text \<open>\<open>None\<close> is the exception for a tag that is not closed.\<close>

fun find_closing_tag_runtime :: "string \<Rightarrow> string option" where
  "find_closing_tag_runtime [] = None"
| "find_closing_tag_runtime (c # cs) = (if c = CHR ''>'' then Some (c # cs) else find_closing_tag_runtime cs)"

lemma find_closing_length: "find_closing_tag_runtime s = Some r \<Longrightarrow> length r \<le> length s"
  by (induction s) (auto split: if_splits)

text \<open>A digit to base six per parameter, in 64 bits; \<open>None\<close> is an exception.\<close>

definition tag_digit :: "string \<Rightarrow> u64 option" where
  "tag_digit s =
     (if at_text s 0 ''<int>'' then Some 1
      else if at_text s 0 ''<uint>'' then Some 2
      else if at_text s 0 ''<float>'' \<or> at_text s 0 ''<double>'' then Some 3
      else if at_text s 0 ''<str>'' \<or> at_text s 0 ''<string>'' then Some 4
      else if at_text s 0 ''<path>'' then Some 5
      else None)"

function get_parameter_tag_runtime :: "string \<Rightarrow> u64 option" where
  "get_parameter_tag_runtime s =
     (case s of
        [] \<Rightarrow> Some 0
      | c # cs \<Rightarrow>
          if c = CHR ''<'' then
            (case tag_digit s of
               None \<Rightarrow> None
             | Some d \<Rightarrow>
                 (case find_closing_tag_runtime cs of
                    None \<Rightarrow> None | Some r \<Rightarrow> map_option (\<lambda>t. t * 6 + d) (get_parameter_tag_runtime r)))
          else get_parameter_tag_runtime cs)"
  by pat_completeness auto
termination
  by (relation "measure length") (auto dest: find_closing_length simp: less_Suc_eq_le)

declare get_parameter_tag_runtime.simps [simp del]

fun is_parameter_tag_compatible :: "nat \<Rightarrow> nat \<Rightarrow> bool" where
  "is_parameter_tag_compatible a b =
     (if a = 0 then b = 0
      else if b = 0 then a = 0
      else
        (let sa = a mod 6; sb = a mod 6;
             sa' = (if sa = 5 then 4 else sa); sb' = (if sb = 5 then 4 else sb)
         in if sa' \<noteq> sb' then False else is_parameter_tag_compatible (a div 6) (b div 6)))"

declare is_parameter_tag_compatible.simps [simp del]

section \<open>Methods\<close>

definition method_string_table :: "string list" where
  "method_string_table =
     [''DELETE'', ''GET'', ''HEAD'', ''POST'', ''PUT'', ''CONNECT'', ''OPTIONS'', ''TRACE'', ''PATCH'', ''PURGE'', ''COPY'', ''LOCK'',
      ''MKCOL'', ''MOVE'', ''PROPFIND'', ''PROPPATCH'', ''SEARCH'', ''UNLOCK'', ''BIND'', ''REBIND'', ''UNBIND'', ''ACL'', ''REPORT'',
      ''MKACTIVITY'', ''CHECKOUT'', ''MERGE'', ''M-SEARCH'', ''NOTIFY'', ''SUBSCRIBE'', ''UNSUBSCRIBE'', ''MKCALENDAR'', ''LINK'',
      ''UNLINK'', ''SOURCE'']"

text \<open>A method is its number; these are the ones the router names.\<close>

definition Get_Method :: nat where "Get_Method = 1"
definition Head_Method :: nat where "Head_Method = 2"
definition Options_Method :: nat where "Options_Method = 6"
definition InternalMethodCount :: nat where "InternalMethodCount = 34"

definition method_name :: "nat \<Rightarrow> string" where
  "method_name m = (if m < InternalMethodCount then method_string_table ! m else ''invalid'')"

text \<open>\<open>methods(...)\<close>: a shift of an \<open>int\<close> by 32 or more has no defined result.\<close>

definition methods_mask :: "nat list \<Rightarrow> u32 option" where
  "methods_mask ms = (if list_all (\<lambda>m. m < 32) ms then Some (fold (\<lambda>m w. w OR push_bit m 1) ms 0) else None)"

text \<open>The bit that the loop of \<open>foreach_method\<close> shifts is gone after 32 steps.\<close>

definition foreach_method :: "u32 \<Rightarrow> nat list" where
  "foreach_method methods = filter (\<lambda>m. methods AND push_bit m 1 \<noteq> 0) [0..<InternalMethodCount]"

section \<open>Registration\<close>

definition RULE_SPECIAL_REDIRECT_SLASH :: nat where "RULE_SPECIAL_REDIRECT_SLASH = 1"

text \<open>
  A rule object: what it runs, and the indices of its middlewares.  A blueprint is known by a number,
  which stands for its address; its rules have their full URLs, objects and methods.
\<close>

record 'h rule_object =
  handler :: 'h
  mw_indices :: "int list"

datatype 'h blueprint =
  Blueprint (bp_this: nat) (bp_prefix: string) (bp_static_dir: string) (bp_templates_dir: string)
    (bp_rules: "(string \<times> 'h rule_object \<times> u32) list") (bp_catchall: bool) (bp_mw: "int list") (bp_blueprints: "'h blueprint list")

text \<open>The first two entries of \<open>rules\<close> are null pointers.\<close>

record 'r per_method =
  rules :: "'r option list"
  trie :: trie_node

record 'h router =
  per_methods :: "'h rule_object per_method list"
  bp_list :: "'h blueprint list"
  global_catchall :: bool

definition empty_router :: "'h router" where
  "empty_router = \<lparr>per_methods = replicate InternalMethodCount \<lparr>rules = [None, None], trie = empty_node\<rparr>, bp_list = [], global_catchall = False\<rparr>"

text \<open>One round of the loop over the methods of a rule; false when it throws.\<close>

definition add_to_method :: "string \<Rightarrow> 'r \<Rightarrow> nat \<Rightarrow> nat \<Rightarrow> 'r per_method \<Rightarrow> ('r per_method \<times> bool) option" where
  "add_to_method rule object prefix_length bp pm =
     (let rs = rules pm @ [Some object]
      in Option.bind (trie_add rule (length rs - 1) prefix_length bp (trie pm)) (\<lambda>(t, ok).
           if ok \<and> 1 < length rule \<and> last rule = CHR ''/''
           then Option.bind (trie_add (butlast rule) RULE_SPECIAL_REDIRECT_SLASH prefix_length bp t) (\<lambda>(t', ok').
                  Some (pm\<lparr>rules := rs, trie := t'\<rparr>, ok'))
           else Some (pm\<lparr>rules := rs, trie := t\<rparr>, ok)))"

fun add_to_methods :: "string \<Rightarrow> 'r \<Rightarrow> nat \<Rightarrow> nat \<Rightarrow> nat list \<Rightarrow> 'r per_method list \<Rightarrow> ('r per_method list \<times> bool) option" where
  "add_to_methods rule object prefix_length bp [] pms = Some (pms, True)"
| "add_to_methods rule object prefix_length bp (m # ms) pms =
     Option.bind (add_to_method rule object prefix_length bp (pms ! m)) (\<lambda>(pm, ok).
       if ok then add_to_methods rule object prefix_length bp ms (pms[m := pm]) else Some (pms[m := pm], False))"

definition internal_add_rule_object :: "string \<Rightarrow> 'h rule_object \<Rightarrow> u32 \<Rightarrow> nat \<Rightarrow> 'h blueprint list \<Rightarrow> 'h router \<Rightarrow> ('h router \<times> bool) option" where
  "internal_add_rule_object rule object methods bp bps r =
     map_option (\<lambda>(pms, ok). (r\<lparr>per_methods := pms\<rparr>, ok))
       (add_to_methods rule object (if bp \<noteq> INVALID_BP_ID then length (bp_prefix (bps ! bp)) else 0) bp
          (foreach_method methods) (per_methods r))"

text \<open>\<open>validate\<close> on the rules that are not part of a blueprint: URL, object and methods of each.\<close>

fun add_rules :: "(string \<times> 'h rule_object \<times> u32) list \<Rightarrow> 'h router \<Rightarrow> ('h router \<times> bool) option" where
  "add_rules [] r = Some (r, True)"
| "add_rules ((rule, object, methods) # rs) r =
     Option.bind (internal_add_rule_object rule object methods INVALID_BP_ID (bp_list r) r) (\<lambda>(r', ok).
       if ok then add_rules rs r' else Some (r', False))"

definition validate_tries :: "'h router \<Rightarrow> 'h router option" where
  "validate_tries r =
     (if list_all (\<lambda>pm. trie_validate (trie pm) \<noteq> None) (per_methods r)
      then Some (r\<lparr>per_methods := map (\<lambda>pm. pm\<lparr>trie := optimize (trie pm)\<rparr>) (per_methods r)\<rparr>) else None)"

text \<open>\<open>Inl\<close> is an exception, \<open>None\<close> a loop that does not end.\<close>

definition router_validate :: "(string \<times> 'h rule_object \<times> u32) list \<Rightarrow> 'h router \<Rightarrow> ('h router + 'h router) option" where
  "router_validate rs r =
     map_option (\<lambda>(r', ok). if ok then (case validate_tries r' of None \<Rightarrow> Inl r' | Some r'' \<Rightarrow> Inr r'') else Inl r') (add_rules rs r)"

section \<open>The choice of a rule\<close>

text \<open>
  The response that the router fills has no completion handler at this point.  A new status is assigned
  together with the other fields that the assignment copies.
\<close>

definition answer :: "nat \<Rightarrow> response \<Rightarrow> response" where
  "answer c res = end_response None (assign res (new_response c))"

text \<open>The result of a search does not set the method: \<open>None\<close> is an indeterminate one.\<close>

record 'd routing_handle_result = "'d found" +
  catch_all :: bool
  found_method :: "nat option"

definition result_from :: "'d found \<Rightarrow> 'd routing_handle_result" where
  "result_from f = \<lparr>found_rule = found_rule f, blueprint_indices = blueprint_indices f, r_params = r_params f, catch_all = False, found_method = None\<rparr>"

definition no_result :: "'d routing_handle_result" where
  "no_result = \<lparr>found_rule = 0, blueprint_indices = [], r_params = no_params, catch_all = False, found_method = Some InternalMethodCount\<rparr>"

definition find_in :: "'d strtod \<Rightarrow> 'h router \<Rightarrow> nat \<Rightarrow> string \<Rightarrow> 'd found" where
  "find_in strtod r m url = trie_find strtod url (trie (per_methods r ! m))"

definition comma_methods :: "nat list \<Rightarrow> string" where
  "comma_methods ms = concat (map (\<lambda>m. '', '' @ method_name m) ms)"

definition allow_response :: "nat list \<Rightarrow> response \<Rightarrow> response" where
  "allow_response ms res =
     end_response None (set_header ''Allow'' (''OPTIONS, HEAD'' @ comma_methods (filter (\<lambda>m. m \<noteq> Head_Method) ms)) (assign res (new_response 204)))"

definition redirect_slash :: "string \<Rightarrow> response \<Rightarrow> response" where
  "redirect_slash url res = end_response None (add_header ''Location'' (url @ ''/'') (assign res (new_response 301)))"

definition handle_initial :: "'d strtod \<Rightarrow> 'h router \<Rightarrow> nat \<Rightarrow> string \<Rightarrow> response \<Rightarrow> 'd routing_handle_result \<times> response" where
  "handle_initial strtod r req_method url res =
     (if InternalMethodCount \<le> req_method then (no_result, res)
      else if req_method = Head_Method then
        (let f = find_in strtod r Head_Method url
         in if found_rule f \<noteq> 0 then ((result_from f)\<lparr>found_method := Some Head_Method\<rparr>, res\<lparr>skip_body := True\<rparr>)
            else
              (let g = find_in strtod r Get_Method url
               in if found_rule g = 0 then (result_from g, answer 404 res)
                  else ((result_from g)\<lparr>found_method := Some Get_Method\<rparr>, res\<lparr>skip_body := True\<rparr>)))
      else if req_method = Options_Method then
        (if url = ''/*'' then
           (no_result\<lparr>found_method := Some Options_Method\<rparr>,
            allow_response (filter (\<lambda>m. \<not> is_empty (trie (per_methods r ! m))) [0..<InternalMethodCount]) res)
         else
           (let ms = filter (\<lambda>m. found_rule (find_in strtod r m url) \<noteq> 0) [0..<InternalMethodCount]
            in if ms \<noteq> [] then (no_result\<lparr>found_method := Some Options_Method\<rparr>, allow_response ms res)
               else (no_result, answer 404 res)))
      else
        (let f = find_in strtod r req_method url
         in if found_rule f \<noteq> 0 then ((result_from f)\<lparr>found_method := Some req_method\<rparr>, res)
            else if list_ex (\<lambda>pm. found_rule (trie_find strtod url (trie pm)) \<noteq> 0) (per_methods r)
            then ((result_from f)\<lparr>catch_all := True\<rparr>, res\<lparr>status_code := 405\<rparr>)
            else ((result_from f)\<lparr>catch_all := True\<rparr>, res\<lparr>status_code := 404\<rparr>)))"

section \<open>Catch-all rules\<close>

text \<open>Reads outside of a vector have no defined result and give \<open>None\<close>.\<close>

definition vector_at :: "'a list \<Rightarrow> nat \<Rightarrow> 'a option" where
  "vector_at xs i = (if i < length xs then Some (xs ! i) else None)"

definition verify_prefix :: "nat list \<Rightarrow> nat \<Rightarrow> 'h blueprint list \<Rightarrow> 'h blueprint list \<Rightarrow> bool option" where
  "verify_prefix bp_i index bps found_bps =
     (if 0 < index \<and> bp_i ! index < length bps
      then map_option (\<lambda>b. take (length (bp_prefix b) + 1) (bp_prefix (bps ! (bp_i ! index))) = bp_prefix b @ ''/'') (vector_at found_bps (index - 1))
      else Some False)"

function get_found_bp :: "'h blueprint list \<Rightarrow> nat list \<Rightarrow> 'h blueprint list \<Rightarrow> 'h blueprint list \<Rightarrow> nat \<Rightarrow> 'h blueprint list option" where
  "get_found_bp roots bp_i bps found_bps index =
     (if index < length bp_i then
        (case verify_prefix bp_i index bps found_bps of
           None \<Rightarrow> None
         | Some True \<Rightarrow>
             (let b = bps ! (bp_i ! index) in get_found_bp roots bp_i (bp_blueprints b) (found_bps @ [b]) (index + 1))
         | Some False \<Rightarrow>
             (if length found_bps < 2
              then (case vector_at roots (bp_i ! index) of
                      None \<Rightarrow> None | Some b \<Rightarrow> get_found_bp roots bp_i (bp_blueprints b) [b] (index + 1))
              else (case vector_at (bp_blueprints (last (butlast found_bps))) (bp_i ! index) of
                      None \<Rightarrow> None | Some b \<Rightarrow> get_found_bp roots bp_i (bp_blueprints b) (butlast found_bps @ [b]) (index + 1))))
      else Some found_bps)"
  by pat_completeness auto
termination
  by (relation "measure (\<lambda>(roots, bp_i, bps, found_bps, index). length bp_i - index)") auto

datatype 'h catchall = Global_Catchall | Blueprint_Catchall "'h blueprint"

text \<open>The loop stops before the first blueprint.\<close>

definition get_catch_all :: "'h router \<Rightarrow> 'd routing_handle_result \<Rightarrow> 'h catchall option" where
  "get_catch_all r found =
     map_option (\<lambda>bps. case find bp_catchall (rev (tl bps)) of None \<Rightarrow> Global_Catchall | Some b \<Rightarrow> Blueprint_Catchall b)
       (get_found_bp (bp_list r) (blueprint_indices found) (bp_list r) [] 0)"

section \<open>Handling\<close>

datatype ('h, 'd) dispatch =
    Run_Rule "'h rule_object" "'d routing_params"
  | Run_Catchall "'h catchall"
  | No_Handler
  | Redirect string
  | Corrupted

definition has_handler :: "'h router \<Rightarrow> 'h catchall \<Rightarrow> bool" where
  "has_handler r c = (case c of Global_Catchall \<Rightarrow> global_catchall r | Blueprint_Catchall b \<Rightarrow> bp_catchall b)"

text \<open>\<open>handle\<close>, up to the call of a handler; \<open>None\<close> when it reads an indeterminate value.\<close>

definition handle_request :: "'h router \<Rightarrow> string \<Rightarrow> 'd routing_handle_result \<Rightarrow> ('h, 'd) dispatch option" where
  "handle_request r url found =
     (if catch_all found
      then map_option (\<lambda>c. if has_handler r c then Run_Catchall c else No_Handler) (get_catch_all r found)
      else
        (case found_method found of
           None \<Rightarrow> None
         | Some m \<Rightarrow>
             (case vector_at (per_methods r) m of
                None \<Rightarrow> None
              | Some pm \<Rightarrow>
                  (if length (rules pm) \<le> found_rule found then Some Corrupted
                   else if found_rule found = RULE_SPECIAL_REDIRECT_SLASH then Some (Redirect (url @ ''/''))
                   else map_option (\<lambda>x. Run_Rule x (r_params found)) (rules pm ! found_rule found)))))"

definition handle_upgrade :: "'d strtod \<Rightarrow> 'h router \<Rightarrow> nat \<Rightarrow> string \<Rightarrow> response \<Rightarrow> response \<times> ('h, 'd) dispatch option" where
  "handle_upgrade strtod r req_method url res =
     (if InternalMethodCount \<le> req_method then (res, None)
      else
        (let pm = per_methods r ! req_method; f = find_in strtod r req_method url
         in if found_rule f = 0 then
              (if list_ex (\<lambda>pm. found_rule (trie_find strtod url (trie pm)) \<noteq> 0) (per_methods r)
               then (answer 405 res, Some No_Handler) else (answer 404 res, Some No_Handler))
            else if length (rules pm) \<le> found_rule f then (res, Some Corrupted)
            else if found_rule f = RULE_SPECIAL_REDIRECT_SLASH
            then (redirect_slash url res, Some (Redirect (url @ ''/'')))
            else (res, map_option (\<lambda>x. Run_Rule x no_params) (rules pm ! found_rule f))))"

end
