(* ===== verification/Router_Blueprint.thy ===== *)
theory Router_Blueprint
  imports Router
begin

text \<open>
  Blueprints (\<open>crow::Blueprint\<close>) and the set-up of an app: rules under a prefix, nested registration,
  the lists of middleware indices, and \<open>validate_bp\<close>, which puts the rules of all blueprints into the
  search trees before the rules of the app.  A blueprint is a value; the set-up runs once, so that no
  rule or blueprint has been added before, and rules of other kinds (WebSocket rules) are not upgraded.
\<close>

section \<open>Middleware indices\<close>

definition merge_front :: "int list \<Rightarrow> int list \<Rightarrow> int list" where
  "merge_front other indices = other @ indices"

definition merge_back :: "int list \<Rightarrow> int list \<Rightarrow> int list" where
  "merge_back other indices = indices @ other"

definition pop_back :: "int list \<Rightarrow> int list \<Rightarrow> int list" where
  "pop_back other indices = take (length indices - length other) indices"

definition pack :: "int list \<Rightarrow> int list" where
  "pack indices = remdups_adj (sort indices)"

section \<open>Building blueprints\<close>

definition new_blueprint :: "nat \<Rightarrow> string \<Rightarrow> string \<Rightarrow> string \<Rightarrow> 'h blueprint" where
  "new_blueprint this prefix dir templates = Blueprint this prefix dir templates [] False [] []"

definition bp_new_rule :: "string \<Rightarrow> 'h rule_object \<Rightarrow> u32 \<Rightarrow> 'h blueprint \<Rightarrow> 'h blueprint" where
  "bp_new_rule rule ob ms b =
     Blueprint (bp_this b) (bp_prefix b) (bp_static_dir b) (bp_templates_dir b)
       (bp_rules b @ [(CHR ''/'' # bp_prefix b @ rule, ob, ms)]) (bp_catchall b) (bp_mw b) (bp_blueprints b)"

fun apply_blueprint :: "string \<Rightarrow> string \<Rightarrow> string \<Rightarrow> 'h blueprint \<Rightarrow> 'h blueprint" where
  "apply_blueprint p s t (Blueprint this prefix dir templates rs c mw bps) =
     Blueprint this (p @ ''/'' @ prefix) (s @ ''/'' @ dir) (t @ ''/'' @ templates)
       (map (\<lambda>(u, x). (CHR ''/'' # p @ u, x)) rs) c mw (map (apply_blueprint p s t) bps)"

text \<open>\<open>None\<close> is the exception for a blueprint that is registered already.\<close>

definition bp_register_blueprint :: "'h blueprint \<Rightarrow> 'h blueprint \<Rightarrow> 'h blueprint option" where
  "bp_register_blueprint child b =
     (if bp_this child \<in> bp_this ` set (bp_blueprints b) then None
      else Some (Blueprint (bp_this b) (bp_prefix b) (bp_static_dir b) (bp_templates_dir b) (bp_rules b) (bp_catchall b) (bp_mw b)
             (bp_blueprints b @ [apply_blueprint (bp_prefix b) (bp_static_dir b) (bp_templates_dir b) child])))"

definition router_register_blueprint :: "'h blueprint \<Rightarrow> 'h router \<Rightarrow> 'h router option" where
  "router_register_blueprint b r =
     (if bp_this b \<in> bp_this ` set (bp_list r) then None else Some (r\<lparr>bp_list := bp_list r @ [b]\<rparr>))"

section \<open>The set-up\<close>

definition collect_methods :: "(string \<times> 'h rule_object \<times> u32) list \<Rightarrow> nat list \<Rightarrow> nat list" where
  "collect_methods rs ms = fold (\<lambda>(u, ob, w). fold (\<lambda>m ms. if m \<in> set ms then ms else ms @ [m]) (foreach_method w)) rs ms"

fun get_recursive_child_methods :: "'h blueprint \<Rightarrow> nat list \<Rightarrow> nat list" where
  "get_recursive_child_methods (Blueprint this prefix dir templates rs c mw bps) ms =
     collect_methods rs
       (if dir = [] \<and> rs = [] then fold get_recursive_child_methods bps ms
        else if dir \<noteq> [] then ms @ [Get_Method] else ms)"

text \<open>The number of the method is passed as the index of a blueprint.\<close>

fun add_prefix :: "string \<Rightarrow> nat list \<Rightarrow> 'h rule_object per_method list \<Rightarrow> ('h rule_object per_method list \<times> bool) option" where
  "add_prefix prefix [] pms = Some (pms, True)"
| "add_prefix prefix (m # ms) pms =
     Option.bind (trie_add prefix 0 (length prefix) m (trie (pms ! m))) (\<lambda>(t, ok).
       let pms' = pms[m := (pms ! m)\<lparr>trie := t\<rparr>] in if ok then add_prefix prefix ms pms' else Some (pms', False))"

definition with_middleware :: "int list \<Rightarrow> 'h rule_object \<Rightarrow> 'h rule_object" where
  "with_middleware mw ob = ob\<lparr>mw_indices := pack (merge_front mw (mw_indices ob))\<rparr>"

fun add_bp_rules :: "'h blueprint list \<Rightarrow> nat \<Rightarrow> int list \<Rightarrow> (string \<times> 'h rule_object \<times> u32) list \<Rightarrow> 'h router \<Rightarrow> ('h router \<times> bool) option" where
  "add_bp_rules siblings i mw [] r = Some (r, True)"
| "add_bp_rules siblings i mw ((u, ob, ms) # rs) r =
     Option.bind (internal_add_rule_object u (with_middleware mw ob) ms i siblings r) (\<lambda>(r', ok).
       if ok then add_bp_rules siblings i mw rs r' else Some (r', False))"

text \<open>\<open>validate_bp\<close> on the rest of a list of blueprints, from index \<open>i\<close> of the list; false when it throws.\<close>

fun validate_bp :: "'h blueprint list \<Rightarrow> nat \<Rightarrow> int list \<Rightarrow> 'h blueprint list \<Rightarrow> 'h router \<Rightarrow> ('h router \<times> bool) option" where
  "validate_bp siblings i current_mw [] r = Some (r, True)"
| "validate_bp siblings i current_mw (Blueprint this prefix dir templates rs c mw bps # bs) r =
     Option.bind
       (if dir = [] \<and> rs = []
        then map_option (\<lambda>(pms, ok). (r\<lparr>per_methods := pms\<rparr>, ok))
               (add_prefix prefix (get_recursive_child_methods (Blueprint this prefix dir templates rs c mw bps) []) (per_methods r))
        else Some (r, True))
       (\<lambda>(r1, ok1). if \<not> ok1 then Some (r1, False)
        else Option.bind (add_bp_rules siblings i (merge_back mw current_mw) rs r1)
          (\<lambda>(r2, ok2). if \<not> ok2 then Some (r2, False)
           else Option.bind (validate_bp bps 0 (merge_back mw current_mw) bps r2)
             (\<lambda>(r3, ok3). if \<not> ok3 then Some (r3, False)
              else validate_bp siblings (i + 1) (pop_back mw (merge_back mw current_mw)) bs r3)))"

definition static_endpoint :: string where "static_endpoint = ''/static/<path>''"

text \<open>
  The rules for static files: \<open>serve\<close> makes the rule object from a directory.  The default methods of
  a rule are those of \<open>GET\<close>.
\<close>

definition add_static_rule :: "(string \<Rightarrow> 'h) \<Rightarrow> 'h blueprint \<Rightarrow> 'h blueprint" where
  "add_static_rule serve b =
     (if bp_static_dir b = [] then b
      else bp_new_rule static_endpoint \<lparr>handler = serve (normalize_path (bp_static_dir b)), mw_indices = []\<rparr> (push_bit Get_Method 1) b)"

definition static_rule :: "(string \<Rightarrow> 'h) \<Rightarrow> string \<times> 'h rule_object \<times> u32" where
  "static_rule serve = (static_endpoint, \<lparr>handler = serve (normalize_path ''static/''), mw_indices = []\<rparr>, push_bit Get_Method 1)"

definition pack_rule :: "string \<times> 'h rule_object \<times> u32 \<Rightarrow> string \<times> 'h rule_object \<times> u32" where
  "pack_rule = (\<lambda>(u, ob, ms). (u, ob\<lparr>mw_indices := pack (mw_indices ob)\<rparr>, ms))"

text \<open>\<open>add_blueprint\<close>, \<open>add_static_dir\<close> and \<open>validate\<close>, as \<open>run\<close> calls them.\<close>

definition app_setup :: "(string \<Rightarrow> 'h) \<Rightarrow> (string \<times> 'h rule_object \<times> u32) list \<Rightarrow> 'h router \<Rightarrow> ('h router + 'h router) option" where
  "app_setup serve rs r =
     (let bps = map (add_static_rule serve) (bp_list r)
      in Option.bind (validate_bp bps 0 [] bps (r\<lparr>bp_list := bps\<rparr>)) (\<lambda>(r', ok).
           if ok then router_validate (map pack_rule (rs @ [static_rule serve])) r' else Some (Inl r')))"

end
