(* ===== verification/Router_Spec.thy ===== *)
theory Router_Spec
  imports Router_Facts Router_Blueprint
begin

text \<open>
  The reference the router is compared with: among the registered rules of a method, a redirect to a
  URL with a final slash comes first, then the first rule that was registered and whose pattern
  matches.  The registration of rules is shown to build trees that have these routes.
\<close>

section \<open>The reference\<close>

definition has_method :: "nat \<Rightarrow> u32 \<Rightarrow> bool" where
  "has_method m ms \<longleftrightarrow> m \<in> set (foreach_method ms)"

definition ends_with_slash :: "string \<Rightarrow> bool" where
  "ends_with_slash u \<longleftrightarrow> 1 < length u \<and> last u = CHR ''/''"

definition url_matches :: "'d strtod \<Rightarrow> string \<Rightarrow> string \<Rightarrow> 'd routing_params option" where
  "url_matches strtod u url = (case url_pattern u of None \<Rightarrow> None | Some p \<Rightarrow> pattern_match strtod p url no_params)"

fun first_rule :: "'d strtod \<Rightarrow> nat \<Rightarrow> (string \<times> 'h rule_object \<times> u32) list \<Rightarrow> string \<Rightarrow> ('h rule_object \<times> 'd routing_params) option" where
  "first_rule strtod m [] url = None"
| "first_rule strtod m ((u, ob, ms) # rs) url =
     (if has_method m ms then
        (case url_matches strtod u url of Some q \<Rightarrow> Some (ob, q) | None \<Rightarrow> first_rule strtod m rs url)
      else first_rule strtod m rs url)"

definition wants_slash :: "'d strtod \<Rightarrow> nat \<Rightarrow> (string \<times> 'h rule_object \<times> u32) list \<Rightarrow> string \<Rightarrow> bool" where
  "wants_slash strtod m rs url \<longleftrightarrow>
     list_ex (\<lambda>(u, ob, ms). has_method m ms \<and> ends_with_slash u \<and> url_matches strtod (butlast u) url \<noteq> None) rs"

definition route_spec :: "'d strtod \<Rightarrow> nat \<Rightarrow> (string \<times> 'h rule_object \<times> u32) list \<Rightarrow> string \<Rightarrow> ('h, 'd) dispatch option" where
  "route_spec strtod m rs url =
     (if wants_slash strtod m rs url then Some (Redirect (url @ ''/''))
      else map_option (\<lambda>(ob, q). Run_Rule ob q) (first_rule strtod m rs url))"

text \<open>What is put into the tree of a method, with the indices from \<open>k\<close>, and the rule objects.\<close>

fun entries :: "nat \<Rightarrow> (string \<times> 'h rule_object \<times> u32) list \<Rightarrow> nat \<Rightarrow> (string \<times> nat) list" where
  "entries m [] k = []"
| "entries m ((u, ob, ms) # rs) k =
     (if has_method m ms then (u, k) # (if ends_with_slash u then [(butlast u, 1)] else []) @ entries m rs (k + 1)
      else entries m rs k)"

definition objects :: "nat \<Rightarrow> (string \<times> 'h rule_object \<times> u32) list \<Rightarrow> 'h rule_object list" where
  "objects m rs = map (\<lambda>(u, ob, ms). ob) (filter (\<lambda>(u, ob, ms). has_method m ms) rs)"

text \<open>Rules that can be registered: URLs that start with a slash, known tags only, and no URL twice for a method.\<close>

definition rules_ok :: "(string \<times> 'h rule_object \<times> u32) list \<Rightarrow> bool" where
  "rules_ok rs \<longleftrightarrow> list_all (\<lambda>m.
     list_all (\<lambda>(u, i). NUL \<notin> set u \<and> u \<noteq> [] \<and> hd u = CHR ''/'' \<and> url_pattern u \<noteq> None) (entries m rs 2)
     \<and> distinct (map (url_pattern \<circ> fst) (entries m rs 2))) [0..<InternalMethodCount]"

lemma objects_simps [simp]:
  "objects m [] = []" "objects m ((u, ob, ms) # rs) = (if has_method m ms then ob # objects m rs else objects m rs)"
  by (simp_all add: objects_def)

lemma entries_index: "(u, i) \<in> set (entries m rs k) \<Longrightarrow> i = 1 \<or> k \<le> i"
  by (induction m rs k rule: entries.induct) (auto split: if_splits)

lemma wants_slash_entries:
  assumes "2 \<le> k"
  shows "wants_slash strtod m rs url \<longleftrightarrow> (\<exists>u. (u, 1) \<in> set (entries m rs k) \<and> url_matches strtod u url \<noteq> None)"
  using assms by (induction m rs k rule: entries.induct) (auto simp: wants_slash_def)

lemma first_rule_least:
  assumes "2 \<le> k" "\<not> wants_slash strtod m rs url"
  shows "case first_rule strtod m rs url of
      None \<Rightarrow> \<forall>(u, i) \<in> set (entries m rs k). url_matches strtod u url = None
    | Some (ob, q) \<Rightarrow> \<exists>i u. (u, i) \<in> set (entries m rs k) \<and> url_matches strtod u url = Some q \<and> k \<le> i \<and> i - k < length (objects m rs)
        \<and> objects m rs ! (i - k) = ob
        \<and> (\<forall>(u', i') \<in> set (entries m rs k). url_matches strtod u' url \<noteq> None \<longrightarrow> i < i' \<or> u' = u \<and> i' = i)"
  using assms
proof (induction m rs k rule: entries.induct)
  case (1 m k)
  then show ?case by simp
next
  case (2 m u ob ms rs k)
  show ?case
  proof (cases "has_method m ms")
    case False
    then have "\<not> wants_slash strtod m rs url" using 2(4) by (simp add: wants_slash_def)
    from 2(2) [OF False 2(3) this] show ?thesis unfolding entries.simps first_rule.simps objects_simps if_not_P [OF False] .
  next
    case True
    have w: "\<not> wants_slash strtod m rs url" and b: "ends_with_slash u \<Longrightarrow> url_matches strtod (butlast u) url = None"
      using 2(4) True by (auto simp: wants_slash_def)
    have no1: "url_matches strtod u' url = None" if "(u', 1) \<in> set (entries m rs (k + 1))" for u'
      using w wants_slash_entries [of "k + 1" strtod m rs url] that 2(3) by auto
    show ?thesis
    proof (cases "url_matches strtod u url")
      case (Some q)
      have "k < i'" if "(u', i') \<in> set (entries m rs (Suc k))" "url_matches strtod u' url = Some y" for u' i' y
        using entries_index [OF that(1)] no1 [of u'] that by auto
      then show ?thesis using True Some b by (auto intro!: exI [of _ k] exI [of _ u])
    next
      case None
      note ih = 2(1) [OF True _ w] 2(3)
      show ?thesis
      proof (cases "first_rule strtod m rs url")
        case no: None
        then show ?thesis using ih True b None by auto
      next
        case (Some oq)
        obtain ob' q where oq: "oq = (ob', q)" by fastforce
        obtain i u' where i: "(u', i) \<in> set (entries m rs (k + 1))" "url_matches strtod u' url = Some q" "k + 1 \<le> i" "i - (k + 1) < length (objects m rs)"
          "objects m rs ! (i - (k + 1)) = ob'"
          "\<forall>(v, i') \<in> set (entries m rs (k + 1)). url_matches strtod v url \<noteq> None \<longrightarrow> i < i' \<or> v = u' \<and> i' = i"
          using ih Some oq by auto
        moreover have "i - k = Suc (i - (k + 1))" using i(3) by simp
        ultimately show ?thesis using True None Some oq b by (auto intro!: exI [of _ i] exI [of _ u'])
      qed
    qed
  qed
qed

section \<open>Registration\<close>

definition route_set :: "(string \<times> nat) list \<Rightarrow> (seg list \<times> nat) set" where
  "route_set es = {(p, i). \<exists>u. (u, i) \<in> set es \<and> url_pattern u = Some p}"

definition holds :: "trie_node \<Rightarrow> (string \<times> nat) list \<Rightarrow> bool" where
  "holds t es \<longleftrightarrow> plain_tree t \<and> param t = No_Param \<and> blueprint_index t = INVALID_BP_ID \<and> label ` set (children t) \<subseteq> {[Chr CHR ''/'']}
     \<and> set (routes t) = route_set es \<and> rule_index t = 0"

lemma url_pattern_slash: "hd u = CHR ''/'' \<Longrightarrow> u \<noteq> [] \<Longrightarrow> url_pattern u = map_option (Cons (Chr CHR ''/'')) (url_pattern (tl u))"
  using url_pattern_drop(3) [of 0 u] by (auto simp: hd_conv_nth drop_Suc)

lemma trie_add_holds:
  assumes h: "holds t es" and u: "NUL \<notin> set u" "u \<noteq> []" "hd u = CHR ''/''" "url_pattern u \<noteq> None"
    and n: "url_pattern u \<notin> (url_pattern \<circ> fst) ` set es" and i: "i \<noteq> 0"
  shows "\<exists>t'. trie_add u i pl bp t = Some (t', True) \<and> holds t' (es @ [(u, i)])"
proof -
  obtain p where p: "url_pattern u = Some p" using u(4) by auto
  then have hp: "p \<noteq> []" "hd p = Chr CHR ''/''" using url_pattern_slash [OF u(3,2)] by auto
  obtain t' ok where a: "add_at u i pl bp 0 t = Some (t', ok)" "grows p i ok t t'"
    using add_at_correct [OF u(1), of t 0 p i pl bp] h p by (auto simp: holds_def)
  have "p \<notin> fst ` set (routes t)"
  proof
    assume "p \<in> fst ` set (routes t)"
    then obtain j where "(p, j) \<in> route_set es" using h by (auto simp: holds_def)
    then obtain v where "(v, j) \<in> set es" "url_pattern v = Some p" by (auto simp: route_set_def)
    then have "url_pattern u \<in> (url_pattern \<circ> fst) ` set es" using p by force
    then show False using n by contradiction
  qed
  then have ok: "ok" using a(2) by (simp add: grows_def)
  have r: "set (routes t') = route_set (es @ [(u, i)])" using a(2) ok i h p by (auto simp: grows_def holds_def route_set_def)
  have "rule_index t' = 0"
  proof (rule ccontr)
    assume "rule_index t' \<noteq> 0"
    then have "([], rule_index t') \<in> set (routes t')" by (simp add: routes_node)
    moreover have "([], rule_index t') \<notin> set (routes t)"
    proof
      assume "([], rule_index t') \<in> set (routes t)"
      then have "([], rule_index t') \<in> set (child_routes (children t))" using h by (simp add: holds_def routes_node)
      then obtain c where "c \<in> set (children t)" "label c = []" by (auto simp: in_child_routes)
      then show False using h by (auto simp: holds_def)
    qed
    ultimately show False using a(2) hp by (auto simp: grows_def split: if_splits)
  qed
  moreover have "label ` set (children t') \<subseteq> {[Chr CHR ''/'']}"
    using a(2) h hp unfolding grows_def holds_def by (auto dest!: subsetD)
  ultimately show ?thesis using a ok h r by (intro exI [of _ t']) (auto simp: trie_add_def holds_def grows_def)
qed

definition method_state :: "'h rule_object per_method \<Rightarrow> (string \<times> nat) list \<Rightarrow> 'h rule_object list \<Rightarrow> bool" where
  "method_state pm es obs \<longleftrightarrow> holds (trie pm) es \<and> rules pm = [None, None] @ map Some obs"

lemma add_to_method_state:
  assumes "method_state pm es obs" "k = length obs + 2"
    "list_all (\<lambda>(u, i). NUL \<notin> set u \<and> u \<noteq> [] \<and> hd u = CHR ''/'' \<and> url_pattern u \<noteq> None) ((u, k) # (if ends_with_slash u then [(butlast u, 1)] else []))"
    "distinct (map (url_pattern \<circ> fst) (es @ (u, k) # (if ends_with_slash u then [(butlast u, 1)] else [])))"
  shows "\<exists>pm'. add_to_method u ob pl bp pm = Some (pm', True) \<and>
    method_state pm' (es @ (u, k) # (if ends_with_slash u then [(butlast u, 1)] else [])) (obs @ [ob])"
proof -
  have h: "holds (trie pm) es" and r: "rules pm = [None, None] @ map Some obs" using assms(1) by (simp_all add: method_state_def)
  have len: "length (rules pm @ [Some ob]) - 1 = k" using r assms(2) by simp
  have d: "url_pattern u \<notin> (url_pattern \<circ> fst) ` set es" using assms(4) by auto
  obtain t where t: "trie_add u k pl bp (trie pm) = Some (t, True)" "holds t (es @ [(u, k)])"
    using trie_add_holds [OF h _ _ _ _ d, of k pl bp] assms(2,3) by auto
  show ?thesis
  proof (cases "ends_with_slash u")
    case False
    then show ?thesis using t r len by (auto simp: add_to_method_def Let_def method_state_def ends_with_slash_def)
  next
    case True
    have "url_pattern (butlast u) \<notin> (url_pattern \<circ> fst) ` set (es @ [(u, k)])" using assms(4) True by auto
    then obtain t' where t': "trie_add (butlast u) 1 pl bp t = Some (t', True)" "holds t' ((es @ [(u, k)]) @ [(butlast u, 1)])"
      using trie_add_holds [OF t(2), of "butlast u" 1 pl bp] assms(3) True by auto
    then show ?thesis using t(1) r len True
      by (auto simp: add_to_method_def Let_def method_state_def ends_with_slash_def RULE_SPECIAL_REDIRECT_SLASH_def)
  qed
qed

lemma add_to_methods_all:
  assumes "distinct ms" "\<forall>m \<in> set ms. m < length pms \<and> add_to_method u ob pl bp (pms ! m) = Some (f m, True)"
  shows "\<exists>pms'. add_to_methods u ob pl bp ms pms = Some (pms', True) \<and> length pms' = length pms \<and>
    (\<forall>m < length pms. pms' ! m = (if m \<in> set ms then f m else pms ! m))"
  using assms
proof (induction ms arbitrary: pms)
  case (Cons m ms)
  let ?p = "pms[m := f m]"
  have "\<forall>k \<in> set ms. k < length ?p \<and> add_to_method u ob pl bp (?p ! k) = Some (f k, True)" using Cons.prems by (auto simp: nth_list_update)
  then obtain pms' where "add_to_methods u ob pl bp ms ?p = Some (pms', True)" "length pms' = length ?p"
    "\<forall>k < length ?p. pms' ! k = (if k \<in> set ms then f k else ?p ! k)" using Cons.IH [of ?p] Cons.prems(1) by auto
  then show ?case using Cons.prems by (intro exI [of _ pms']) (auto simp: nth_list_update)
qed simp

text \<open>The state of all methods after the rules \<open>rs\<close> have been added to what was there.\<close>

definition router_state :: "'h router \<Rightarrow> (nat \<Rightarrow> (string \<times> nat) list) \<Rightarrow> (nat \<Rightarrow> 'h rule_object list) \<Rightarrow> bool" where
  "router_state r es obs \<longleftrightarrow> length (per_methods r) = InternalMethodCount \<and>
     (\<forall>m < InternalMethodCount. method_state (per_methods r ! m) (es m) (obs m))"

lemma foreach_method_set: "m \<in> set (foreach_method ms) \<Longrightarrow> m < InternalMethodCount" "distinct (foreach_method ms)"
  by (auto simp: foreach_method_def)

definition entries_ready :: "(string \<times> nat) list \<Rightarrow> bool" where
  "entries_ready es \<longleftrightarrow> list_all (\<lambda>(u, i). NUL \<notin> set u \<and> u \<noteq> [] \<and> hd u = CHR ''/'' \<and> url_pattern u \<noteq> None) es"

lemma entries_ready_append: "entries_ready (xs @ ys) \<longleftrightarrow> entries_ready xs \<and> entries_ready ys"
  by (simp add: entries_ready_def)

lemma add_rule_state:
  fixes r :: "'h router"
  assumes "router_state r es obs"
    "\<forall>m < InternalMethodCount. entries_ready (entries m [(u, ob, ms)] (length (obs m) + 2)) \<and>
      distinct (map (url_pattern \<circ> fst) (es m @ entries m [(u, ob, ms)] (length (obs m) + 2)))"
  shows "\<exists>r'. internal_add_rule_object u ob ms bp bps r = Some (r', True) \<and>
    router_state r' (\<lambda>m. es m @ entries m [(u, ob, ms)] (length (obs m) + 2)) (\<lambda>m. obs m @ objects m [(u, ob, ms)]) \<and> bp_list r' = bp_list r"
proof -
  define pl where "pl = (if bp \<noteq> INVALID_BP_ID then length (bp_prefix (bps ! bp)) else 0)"
  let ?new = "\<lambda>m. if has_method m ms then (u, length (obs m) + 2) # (if ends_with_slash u then [(butlast u, 1)] else []) else []"
  have e: "entries m [(u, ob, ms)] (length (obs m) + 2) = ?new m" for m by simp
  have "\<exists>pm'. add_to_method u ob pl bp (per_methods r ! m) = Some (pm', True) \<and> method_state pm' (es m @ ?new m) (obs m @ [ob])"
    if m: "m \<in> set (foreach_method ms)" for m
  proof -
    have l: "m < InternalMethodCount" "has_method m ms" using m foreach_method_set by (auto simp: has_method_def)
    then have "entries_ready (?new m)" "distinct (map (url_pattern \<circ> fst) (es m @ ?new m))" using assms(2) unfolding e by blast+
    then show ?thesis
      using add_to_method_state [of "per_methods r ! m" "es m" "obs m" "length (obs m) + 2" u ob pl bp] assms(1) l
      unfolding entries_ready_def router_state_def by simp
  qed
  then obtain f where f: "\<forall>m \<in> set (foreach_method ms). add_to_method u ob pl bp (per_methods r ! m) = Some (f m, True) \<and> method_state (f m) (es m @ ?new m) (obs m @ [ob])"
    by metis
  have len: "length (per_methods r) = InternalMethodCount" using assms(1) by (simp add: router_state_def)
  obtain pms where pms: "add_to_methods u ob pl bp (foreach_method ms) (per_methods r) = Some (pms, True)" "length pms = length (per_methods r)"
    "\<forall>m < length (per_methods r). pms ! m = (if m \<in> set (foreach_method ms) then f m else per_methods r ! m)"
    using add_to_methods_all [OF foreach_method_set(2), of ms "per_methods r" u ob pl bp f] f foreach_method_set(1) len by auto
  have "internal_add_rule_object u ob ms bp bps r = Some (r\<lparr>per_methods := pms\<rparr>, True)"
    using pms(1) by (simp add: internal_add_rule_object_def pl_def)
  moreover have "router_state (r\<lparr>per_methods := pms\<rparr>) (\<lambda>m. es m @ ?new m) (\<lambda>m. obs m @ objects m [(u, ob, ms)])"
    using f pms(2,3) len assms(1) by (auto simp: router_state_def has_method_def)
  ultimately show ?thesis unfolding e by auto
qed

lemma entries_append: "entries m (rs @ rs') k = entries m rs k @ entries m rs' (k + length (objects m rs))"
  by (induction m rs k rule: entries.induct) auto

lemma objects_append: "objects m (rs @ rs') = objects m rs @ objects m rs'"
  by (simp add: objects_def)

text \<open>What the trees and lists have after some rules, and which rules can still be added.\<close>

definition more_entries :: "(nat \<Rightarrow> (string \<times> nat) list) \<Rightarrow> (nat \<Rightarrow> 'h rule_object list) \<Rightarrow> (string \<times> 'h rule_object \<times> u32) list \<Rightarrow> nat \<Rightarrow> (string \<times> nat) list" where
  "more_entries es obs rs = (\<lambda>m. es m @ entries m rs (length (obs m) + 2))"

definition more_objects :: "(nat \<Rightarrow> 'h rule_object list) \<Rightarrow> (string \<times> 'h rule_object \<times> u32) list \<Rightarrow> nat \<Rightarrow> 'h rule_object list" where
  "more_objects obs rs = (\<lambda>m. obs m @ objects m rs)"

definition can_add :: "(nat \<Rightarrow> (string \<times> nat) list) \<Rightarrow> (nat \<Rightarrow> 'h rule_object list) \<Rightarrow> (string \<times> 'h rule_object \<times> u32) list \<Rightarrow> bool" where
  "can_add es obs rs \<longleftrightarrow> (\<forall>m < InternalMethodCount. entries_ready (entries m rs (length (obs m) + 2)) \<and>
     distinct (map (url_pattern \<circ> fst) (es m @ entries m rs (length (obs m) + 2))))"

definition adding :: "'h router \<Rightarrow> (nat \<Rightarrow> (string \<times> nat) list) \<Rightarrow> (nat \<Rightarrow> 'h rule_object list) \<Rightarrow> (string \<times> 'h rule_object \<times> u32) list \<Rightarrow> bool" where
  "adding r es obs rs \<longleftrightarrow> router_state r (more_entries es obs rs) (more_objects obs rs)"

lemma can_add_append:
  "can_add es obs (rs @ rs') \<Longrightarrow> can_add es obs rs \<and> can_add (more_entries es obs rs) (more_objects obs rs) rs'"
  unfolding can_add_def more_entries_def more_objects_def entries_append entries_ready_append by (simp add: Int_Un_distrib)

lemma adding_append: "adding r (more_entries es obs rs) (more_objects obs rs) rs' = adding r es obs (rs @ rs')"
proof -
  have "length (obs m @ objects m rs) + 2 = length (obs m) + 2 + length (objects m rs)" for m by simp
  then show ?thesis unfolding adding_def more_entries_def more_objects_def entries_append objects_append append_assoc by simp
qed

lemma adding_Nil: "router_state r es obs \<Longrightarrow> adding r es obs []"
  by (simp add: adding_def more_entries_def more_objects_def)

lemma add_rules_state:
  fixes r :: "'h router"
  assumes "router_state r es obs" "can_add es obs rs"
  shows "\<exists>r'. add_rules rs r = Some (r', True) \<and> adding r' es obs rs \<and> bp_list r' = bp_list r"
  using assms
proof (induction rs arbitrary: r es obs)
  case Nil
  then show ?case by (simp add: adding_Nil)
next
  case (Cons x rs)
  obtain u ob ms where x: "x = (u, ob, ms)" by (metis prod_cases3)
  have c: "can_add es obs [x]" "can_add (more_entries es obs [x]) (more_objects obs [x]) rs"
    using can_add_append [of es obs "[x]" rs] Cons.prems(2) by simp_all
  obtain r1 where r1: "internal_add_rule_object u ob ms INVALID_BP_ID (bp_list r) r = Some (r1, True)" "bp_list r1 = bp_list r"
    "router_state r1 (more_entries es obs [x]) (more_objects obs [x])"
    using add_rule_state [OF Cons.prems(1), of u ob ms] c(1) unfolding can_add_def x more_entries_def more_objects_def by blast
  from Cons.IH [OF r1(3) c(2)] obtain r' where "add_rules rs r1 = Some (r', True)" "bp_list r' = bp_list r1"
    "adding r' es obs ([x] @ rs)"
    unfolding adding_append by blast
  then show ?case using r1 x by (intro exI [of _ r']) simp
qed

section \<open>Blueprints\<close>

text \<open>The rules of blueprints in the order in which they are registered, with the middlewares of all blueprints around them.\<close>

fun bp_registered :: "int list \<Rightarrow> 'h blueprint list \<Rightarrow> (string \<times> 'h rule_object \<times> u32) list" where
  "bp_registered mw [] = []"
| "bp_registered mw (Blueprint this prefix dir templates rs c bmw bps # bs) =
     map (\<lambda>(u, ob, ms). (u, with_middleware (mw @ bmw) ob, ms)) rs @ bp_registered (mw @ bmw) bps @ bp_registered mw bs"

text \<open>No blueprint lacks both rules and a directory of static files.\<close>

fun bp_filled :: "'h blueprint \<Rightarrow> bool" where
  "bp_filled (Blueprint this prefix dir templates rs c bmw bps) \<longleftrightarrow> (dir \<noteq> [] \<or> rs \<noteq> []) \<and> list_all bp_filled bps"

lemma add_bp_rules_state:
  fixes r :: "'h router"
  assumes "router_state r es obs" "can_add es obs (map (\<lambda>(u, ob, ms). (u, with_middleware mw ob, ms)) rs)"
  shows "\<exists>r'. add_bp_rules sib i mw rs r = Some (r', True) \<and> adding r' es obs (map (\<lambda>(u, ob, ms). (u, with_middleware mw ob, ms)) rs)
    \<and> bp_list r' = bp_list r"
  using assms
proof (induction rs arbitrary: r es obs)
  case Nil
  then show ?case by (simp add: adding_Nil)
next
  case (Cons y rs)
  obtain u ob ms where y: "y = (u, ob, ms)" by (metis prod_cases3)
  let ?f = "\<lambda>(u, ob, ms). (u, with_middleware mw ob, ms)"
  let ?x = "(u, with_middleware mw ob, ms)"
  have c: "can_add es obs [?x]" "can_add (more_entries es obs [?x]) (more_objects obs [?x]) (map ?f rs)"
    using can_add_append [of es obs "[?x]" "map ?f rs"] Cons.prems(2) y by simp_all
  obtain r1 where r1: "internal_add_rule_object u (with_middleware mw ob) ms i sib r = Some (r1, True)" "bp_list r1 = bp_list r"
    "router_state r1 (more_entries es obs [?x]) (more_objects obs [?x])"
    using add_rule_state [OF Cons.prems(1), of u "with_middleware mw ob" ms] c(1) unfolding can_add_def more_entries_def more_objects_def by blast
  from Cons.IH [OF r1(3) c(2)] obtain r' where "add_bp_rules sib i mw rs r1 = Some (r', True)" "bp_list r' = bp_list r1"
    "adding r' es obs ([?x] @ map ?f rs)"
    unfolding adding_append by blast
  then show ?case using r1 y by (intro exI [of _ r']) simp
qed

lemma validate_bp_state:
  fixes r :: "'h router"
  assumes "router_state r es obs" "can_add es obs (bp_registered mw bs)" "list_all bp_filled bs"
  shows "\<exists>r'. validate_bp sib i mw bs r = Some (r', True) \<and> adding r' es obs (bp_registered mw bs) \<and> bp_list r' = bp_list r"
  using assms
proof (induction mw bs arbitrary: sib i r es obs rule: bp_registered.induct)
  case (1 mw)
  then show ?case by (simp add: adding_Nil)
next
  case (2 mw this prefix dir templates rs c bmw bps bs)
  let ?f = "\<lambda>(u, ob, ms). (u, with_middleware (mw @ bmw) ob, ms)"
  have mb: "merge_back bmw mw = mw @ bmw" "pop_back bmw (mw @ bmw) = mw" by (simp_all add: merge_back_def pop_back_def)
  note a1 = can_add_append [OF 2(4) [unfolded bp_registered.simps(2)]]
  note a2 = can_add_append [OF a1 [THEN conjunct2]]
  obtain r2 where r2: "add_bp_rules sib i (mw @ bmw) rs r = Some (r2, True)" "adding r2 es obs (map ?f rs)" "bp_list r2 = bp_list r"
    using add_bp_rules_state [OF 2(3) a1 [THEN conjunct1]] by blast
  have f: "dir \<noteq> [] \<or> rs \<noteq> []" "list_all bp_filled bps" "list_all bp_filled bs" using 2(5) by simp_all
  have s1: "(if dir = [] \<and> rs = []
        then map_option (\<lambda>(pms, ok). (r\<lparr>per_methods := pms\<rparr>, ok))
               (add_prefix prefix (get_recursive_child_methods (Blueprint this prefix dir templates rs c bmw bps) []) (per_methods r))
        else Some (r, True)) = Some (r, True)" using f(1) by auto
  have st: "router_state r2 (more_entries es obs (map ?f rs)) (more_objects obs (map ?f rs))" using r2(2) unfolding adding_def .
  obtain r3 where r3: "validate_bp bps 0 (mw @ bmw) bps r2 = Some (r3, True)" "bp_list r3 = bp_list r2"
    "adding r3 (more_entries es obs (map ?f rs)) (more_objects obs (map ?f rs)) (bp_registered (mw @ bmw) bps)"
    using 2(1) [OF st a2 [THEN conjunct1] f(2), of bps 0] by blast
  have st3: "router_state r3 (more_entries (more_entries es obs (map ?f rs)) (more_objects obs (map ?f rs)) (bp_registered (mw @ bmw) bps))
      (more_objects (more_objects obs (map ?f rs)) (bp_registered (mw @ bmw) bps))" using r3(3) unfolding adding_def .
  have "\<exists>r'. validate_bp sib (i + 1) mw bs r3 = Some (r', True) \<and> adding r' (more_entries (more_entries es obs (map ?f rs)) (more_objects obs (map ?f rs)) (bp_registered (mw @ bmw) bps))
      (more_objects (more_objects obs (map ?f rs)) (bp_registered (mw @ bmw) bps)) (bp_registered mw bs) \<and> bp_list r' = bp_list r3"
    by (rule 2(2) [OF st3 a2 [THEN conjunct2] f(3)])
  then obtain r' where "validate_bp sib (i + 1) mw bs r3 = Some (r', True)" "bp_list r' = bp_list r3"
    "adding r' es obs (bp_registered mw (Blueprint this prefix dir templates rs c bmw bps # bs))"
    unfolding adding_append bp_registered.simps append_assoc by blast
  then show ?case using r2 r3 s1 by (intro exI [of _ r']) (simp add: mb)
qed

lemma empty_router_state: "router_state empty_router (\<lambda>m. []) (\<lambda>m. [])"
  by (simp add: router_state_def empty_router_def method_state_def holds_def empty_node_def route_set_def)

section \<open>The trees after the set-up\<close>

lemma holds_simple:
  assumes "holds t es"
  shows "trie_validate t = Some (optimize t)"
proof -
  have d: "distinct (map label (children t))" and s: "label ` set (children t) \<subseteq> {[Chr CHR ''/'']}"
    using assms plain_children [of t] by (auto simp: holds_def)
  then have "card (label ` set (children t)) = length (children t)" by (metis distinct_card length_map set_map)
  moreover have "card (label ` set (children t)) \<le> 1" using card_mono [OF _ s] by simp
  ultimately have "length (children t) < 2" by linarith
  moreover have "param c = No_Param" if "c \<in> set (children t)" for c
    using s that by (auto simp: label_def split: if_splits)
  ultimately have "IsSimpleNode t" using assms by (auto simp: IsSimpleNode_def holds_def list_all_iff)
  then show ?thesis by (simp add: trie_validate_def)
qed

lemma in_matches: "(i, q) \<in> set (matches strtod rs s ps) \<longleftrightarrow> (\<exists>p. (p, i) \<in> set rs \<and> pattern_match strtod p s ps = Some q)"
  by (induction rs) (auto simp: matches_def split: option.splits)

lemma url_matches_Some: "url_matches strtod u url = Some q \<longleftrightarrow> (\<exists>p. url_pattern u = Some p \<and> pattern_match strtod p url no_params = Some q)"
  by (simp add: url_matches_def split: option.split)

lemma find_holds:
  fixes url :: string
  assumes "strtod_ok strtod" "holds t es"
  defines "f \<equiv> trie_find strtod url (optimize t)"
  shows "if found_rule f = 0 then \<forall>(u, i) \<in> set es. i \<noteq> 0 \<longrightarrow> url_matches strtod u url = None
    else (\<exists>u. (u, found_rule f) \<in> set es \<and> url_matches strtod u url = Some (r_params f)) \<and>
      (\<forall>(u, i) \<in> set es. i \<noteq> 0 \<longrightarrow> url_matches strtod u url \<noteq> None \<longrightarrow> found_rule f \<le> i)"
proof -
  obtain ps bps where f: "find_node strtod url (optimize t) 0 no_params [] = (f, ps, bps)"
    by (metis f_def fst_conv prod_cases3 trie_find_def)
  have "keyed (optimize t)" using assms(2) optimize_routes(2) plain_keyed by (auto simp: holds_def)
  then have r: "result_of f = pick (matches strtod (routes t) url no_params)"
    using find_correct(1) [OF assms(1) _ _ f] by (simp add: optimize_routes)
  have s: "set (routes t) = route_set es" using assms(2) by (simp add: holds_def)
  have m: "(i, q) \<in> set (matches strtod (routes t) url no_params) \<longleftrightarrow> (\<exists>u. (u, i) \<in> set es \<and> url_matches strtod u url = Some q)" for i q
    unfolding in_matches s url_matches_Some by (auto simp: route_set_def)
  show ?thesis
  proof (cases "found_rule f = 0")
    case True
    then have "matches strtod (routes t) url no_params = []" using r by (metis pick_eq_None result_of_def)
    then have "url_matches strtod u url = None" if "(u, i) \<in> set es" for u i
      using m [of i] that by (cases "url_matches strtod u url") auto
    then show ?thesis using True by auto
  next
    case False
    then have "pick (matches strtod (routes t) url no_params) = Some (found_rule f, r_params f)" using r by (simp add: result_of_def)
    note p = pick_least [OF this]
    have "\<exists>u. (u, found_rule f) \<in> set es \<and> url_matches strtod u url = Some (r_params f)" using p m by blast
    moreover have "found_rule f \<le> i" if "(u, i) \<in> set es" "url_matches strtod u url = Some q" for u i q
    proof -
      have "(i, q) \<in> set (matches strtod (routes t) url no_params)" using m that by blast
      then have "fst (found_rule f, r_params f) \<le> fst (i, q)" using p by blast
      then show ?thesis by simp
    qed
    ultimately show ?thesis unfolding if_not_P [OF False] by blast
  qed
qed

end
