(* ===== verification/Router_Properties.thy ===== *)
theory Router_Properties
  imports Router_Spec
begin

text \<open>
  Properties of the router: requests go to the rule that the reference names, the check of parameter
  tags keeps the insertion from looping, merging chains changes no result, and the cases in which the
  code does not do what it means to.
\<close>

unbundle bit_operations_syntax

section \<open>Methods\<close>

text \<open>The methods UNLINK (32) and SOURCE (33) are never registered, whatever the mask of a rule.\<close>

lemma late_methods_unreachable: "foreach_method w = filter (\<lambda>m. bit w m) [0..<32]"
proof -
  have b: "w AND push_bit m 1 \<noteq> 0 \<longleftrightarrow> m < 32 \<and> bit w m" for m
    using and_exp_eq_0_iff_not_bit [of w m] bit_imp_le_length [of w m] by (auto simp: push_bit_of_1)
  have "[0..<InternalMethodCount] = [0..<32] @ [32, 33]" by (simp add: InternalMethodCount_def upt_conv_Cons)
  then show ?thesis unfolding foreach_method_def b by (auto intro: filter_cong)
qed

lemma has_method_bit: "has_method m w \<longleftrightarrow> m < 32 \<and> bit w m"
  by (auto simp: has_method_def late_methods_unreachable)

section \<open>Requests\<close>

text \<open>All rules of an app in the order in which they are registered: those of blueprints first, that for static files last.\<close>

definition app_rules :: "(string \<Rightarrow> 'h) \<Rightarrow> (string \<times> 'h rule_object \<times> u32) list \<Rightarrow> 'h blueprint list \<Rightarrow> (string \<times> 'h rule_object \<times> u32) list" where
  "app_rules serve rs bps = bp_registered [] (map (add_static_rule serve) bps) @ map pack_rule (rs @ [static_rule serve])"

definition app_ok :: "(string \<Rightarrow> 'h) \<Rightarrow> (string \<times> 'h rule_object \<times> u32) list \<Rightarrow> 'h blueprint list \<Rightarrow> bool" where
  "app_ok serve rs bps \<longleftrightarrow> rules_ok (app_rules serve rs bps) \<and> list_all bp_filled (map (add_static_rule serve) bps)"

lemma set_up:
  fixes bps :: "'h blueprint list"
  assumes "app_ok serve rs bps"
  shows "\<exists>r. app_setup serve rs (empty_router\<lparr>bp_list := bps\<rparr>) = Some (Inr r) \<and> length (per_methods r) = InternalMethodCount \<and>
    (\<forall>m < InternalMethodCount. \<exists>t. trie (per_methods r ! m) = optimize t \<and> holds t (entries m (app_rules serve rs bps) 2) \<and>
      rules (per_methods r ! m) = [None, None] @ map Some (objects m (app_rules serve rs bps)))"
proof -
  define bs where "bs = map (add_static_rule serve) bps"
  define all where "all = app_rules serve rs bps"
  let ?r0 = "(empty_router :: 'h router)\<lparr>bp_list := bs\<rparr>"
  have st: "router_state ?r0 (\<lambda>m. []) (\<lambda>m. [])"
    using empty_router_state by (simp add: router_state_def)
  have "can_add (\<lambda>m. []) (\<lambda>m. []) all"
    using assms by (auto simp: can_add_def app_ok_def rules_ok_def entries_ready_def list_all_iff all_def numeral_2_eq_2)
  then have c: "can_add (\<lambda>m. []) (\<lambda>m. []) (bp_registered [] bs)"
    "can_add (more_entries (\<lambda>m. []) (\<lambda>m. []) (bp_registered [] bs)) (more_objects (\<lambda>m. []) (bp_registered [] bs)) (map pack_rule (rs @ [static_rule serve]))"
    using can_add_append [of "\<lambda>m. []" "\<lambda>m. []" "bp_registered [] bs"] unfolding all_def app_rules_def bs_def by blast+
  obtain r1 where r1: "validate_bp bs 0 [] bs ?r0 = Some (r1, True)" "adding r1 (\<lambda>m. []) (\<lambda>m. []) (bp_registered [] bs)"
    using validate_bp_state [OF st c(1), of bs 0] assms by (auto simp: app_ok_def bs_def)
  obtain r where r: "add_rules (map pack_rule (rs @ [static_rule serve])) r1 = Some (r, True)"
    "adding r (\<lambda>m. []) (\<lambda>m. []) (bp_registered [] bs @ map pack_rule (rs @ [static_rule serve]))"
    using add_rules_state [OF r1(2) [unfolded adding_def] c(2)] unfolding adding_append by blast
  have rst: "router_state r (\<lambda>m. entries m all 2) (\<lambda>m. objects m all)"
    using r(2) unfolding adding_def more_entries_def more_objects_def all_def app_rules_def bs_def by (simp add: numeral_2_eq_2)
  have "trie_validate (trie pm) = Some (optimize (trie pm))" if "pm \<in> set (per_methods r)" for pm
    using rst that holds_simple by (auto simp: router_state_def method_state_def in_set_conv_nth)
  then have "validate_tries r = Some (r\<lparr>per_methods := map (\<lambda>pm. pm\<lparr>trie := optimize (trie pm)\<rparr>) (per_methods r)\<rparr>)"
    by (simp add: validate_tries_def list_all_iff)
  then have "app_setup serve rs (empty_router\<lparr>bp_list := bps\<rparr>) = Some (Inr (r\<lparr>per_methods := map (\<lambda>pm. pm\<lparr>trie := optimize (trie pm)\<rparr>) (per_methods r)\<rparr>))"
    using r1(1) r(1) by (simp add: app_setup_def router_validate_def bs_def Let_def)
  then show ?thesis using rst unfolding all_def by (auto simp: router_state_def method_state_def)
qed

lemma route_lookup:
  fixes r :: "'h router" and url :: string and strtod :: "'d strtod"
  assumes "strtod_ok strtod" and pm: "trie (per_methods r ! m) = optimize t" "holds t (entries m rs 2)"
    "rules (per_methods r ! m) = [None, None] @ map Some (objects m rs)" "m < length (per_methods r)"
  defines "f \<equiv> find_in strtod r m url"
  shows "if found_rule f = 0 then route_spec strtod m rs url = None
    else \<forall>found. found_rule found = found_rule f \<and> r_params found = r_params f \<and> \<not> catch_all found \<and> found_method found = Some m \<longrightarrow>
      route_spec strtod m rs url \<noteq> None \<and> handle_request r url found = route_spec strtod m rs url"
proof -
  have fe: "f = trie_find strtod url (optimize t)" using pm(1) by (simp add: f_def find_in_def)
  note fh = find_holds [OF assms(1) pm(2), of url, folded fe]
  have handle: "handle_request r url found =
      (if found_rule f = 1 then Some (Redirect (url @ ''/''))
       else if 2 \<le> found_rule f \<and> found_rule f - 2 < length (objects m rs) then Some (Run_Rule (objects m rs ! (found_rule f - 2)) (r_params f))
       else handle_request r url found)"
    if "found_rule found = found_rule f" "r_params found = r_params f" "\<not> catch_all found" "found_method found = Some m" for found :: "'d routing_handle_result"
  proof -
    have n: "(None # None # map Some (objects m rs)) ! found_rule f = Some (objects m rs ! (found_rule f - 2))"
      if "2 \<le> found_rule f" "found_rule f - 2 < length (objects m rs)"
      using that by (auto simp: nth_Cons numeral_2_eq_2 split: nat.splits)
    show ?thesis using that pm(3,4) n
      by (auto simp: handle_request_def vector_at_def RULE_SPECIAL_REDIRECT_SLASH_def)
  qed
  show ?thesis
  proof (cases "wants_slash strtod m rs url")
    case True
    then obtain u where u: "(u, 1) \<in> set (entries m rs 2)" "url_matches strtod u url \<noteq> None" using wants_slash_entries [of 2 strtod m rs url] by auto
    have "found_rule f = 1" using fh u by (fastforce split: if_splits)
    then show ?thesis using handle True by (auto simp: route_spec_def)
  next
    case False
    note least = first_rule_least [OF order_refl False]
    show ?thesis
    proof (cases "first_rule strtod m rs url")
      case None
      then have "found_rule f = 0" using fh least by (fastforce split: if_splits)
      then show ?thesis using None False by (simp add: route_spec_def)
    next
      case (Some oq)
      obtain ob q where oq: "oq = (ob, q)" by fastforce
      obtain i u where i: "(u, i) \<in> set (entries m rs 2)" "url_matches strtod u url = Some q" "2 \<le> i" "i - 2 < length (objects m rs)"
        "objects m rs ! (i - 2) = ob"
        "\<forall>(v, j) \<in> set (entries m rs 2). url_matches strtod v url \<noteq> None \<longrightarrow> i < j \<or> v = u \<and> j = i"
        using least Some oq by auto
      have nz: "found_rule f \<noteq> 0" using fh i(1,2,3) by (fastforce split: if_splits)
      then have "found_rule f \<le> i" using fh i(1,2,3) by (fastforce split: if_splits)
      moreover obtain v where "(v, found_rule f) \<in> set (entries m rs 2)" "url_matches strtod v url = Some (r_params f)" using fh nz by auto
      ultimately have "found_rule f = i \<and> r_params f = q" using i(2,6) by fastforce
      then show ?thesis using handle nz i(3,4,5) Some oq False by (auto simp: route_spec_def)
    qed
  qed
qed

text \<open>What the routes of a router are, for all its methods.\<close>

definition routes_like :: "'d strtod \<Rightarrow> (string \<times> 'h rule_object \<times> u32) list \<Rightarrow> 'h router \<Rightarrow> bool" where
  "routes_like strtod rs r \<longleftrightarrow> length (per_methods r) = InternalMethodCount \<and>
     (\<forall>m < InternalMethodCount. \<forall>url. route_spec strtod m rs url \<noteq> None \<longleftrightarrow> found_rule (find_in strtod r m url) \<noteq> 0) \<and>
     (\<forall>m < InternalMethodCount. \<forall>url. found_rule (find_in strtod r m url) \<noteq> 0 \<longrightarrow>
        handle_request r url ((result_from (find_in strtod r m url))\<lparr>found_method := Some m\<rparr>) = route_spec strtod m rs url)"

lemma set_up_routes:
  assumes "strtod_ok strtod" "app_ok serve rules0 bps"
  shows "\<exists>r. app_setup serve rules0 (empty_router\<lparr>bp_list := bps\<rparr>) = Some (Inr r) \<and> routes_like strtod (app_rules serve rules0 bps) r"
proof -
  define rs where "rs = app_rules serve rules0 bps"
  obtain r where r: "app_setup serve rules0 (empty_router\<lparr>bp_list := bps\<rparr>) = Some (Inr r)" "length (per_methods r) = InternalMethodCount" and
    t: "\<And>m. m < InternalMethodCount \<Longrightarrow> \<exists>t. trie (per_methods r ! m) = optimize t \<and> holds t (entries m rs 2) \<and>
      rules (per_methods r ! m) = [None, None] @ map Some (objects m rs)"
    using set_up [OF assms(2)] unfolding rs_def by blast
  have "(route_spec strtod m rs url \<noteq> None \<longleftrightarrow> found_rule (find_in strtod r m url) \<noteq> 0) \<and> (found_rule (find_in strtod r m url) \<noteq> 0 \<longrightarrow>
      handle_request r url ((result_from (find_in strtod r m url))\<lparr>found_method := Some m\<rparr>) = route_spec strtod m rs url)"
    if m: "m < InternalMethodCount" for m url
  proof -
    let ?f = "find_in strtod r m url"
    let ?g = "(result_from ?f)\<lparr>found_method := Some m\<rparr>"
    obtain t where t: "trie (per_methods r ! m) = optimize t" "holds t (entries m rs 2)" "rules (per_methods r ! m) = [None, None] @ map Some (objects m rs)"
      using t [OF m] by blast
    have "m < length (per_methods r)" using m r(2) by simp
    note l = route_lookup [OF assms(1) t this, of url]
    show ?thesis
    proof (cases "found_rule ?f = 0")
      case True
      then show ?thesis using l by simp
    next
      case False
      have "found_rule ?g = found_rule ?f \<and> r_params ?g = r_params ?f \<and> \<not> catch_all ?g \<and> found_method ?g = Some m"
        by (simp add: result_from_def)
      then show ?thesis using l [unfolded if_not_P [OF False]] False by blast
    qed
  qed
  then show ?thesis using r unfolding routes_like_def rs_def [symmetric] by blast
qed

lemma any_method:
  assumes "routes_like strtod rs r"
  shows "list_ex (\<lambda>pm. found_rule (trie_find strtod url (trie pm)) \<noteq> 0) (per_methods r) \<longleftrightarrow> (\<exists>k < InternalMethodCount. route_spec strtod k rs url \<noteq> None)"
proof -
  have "length (per_methods r) = InternalMethodCount" using assms by (simp add: routes_like_def)
  then have "list_ex (\<lambda>pm. found_rule (trie_find strtod url (trie pm)) \<noteq> 0) (per_methods r) \<longleftrightarrow> (\<exists>k < InternalMethodCount. found_rule (find_in strtod r k url) \<noteq> 0)"
    unfolding list_ex_iff find_in_def by (metis in_set_conv_nth)
  then show ?thesis using assms unfolding routes_like_def by blast
qed

text \<open>C21: The router refines a search through the list of rules.  For rules whose URLs start with a slash, have known tags only and do not repeat a pattern within a method, the set-up succeeds; then every request with a method other than HEAD and OPTIONS is redirected if the URL with a slash added would match a rule that ends with one, and otherwise runs the rule registered first among those of its method that match, with the parameters read off the URL.  If there is no such rule the catch-all is asked, with status 405 when a rule of another method matches and 404 when none does.\<close>

theorem requests_routed:
  assumes "strtod_ok strtod" "app_ok serve rules0 bps" "rs = app_rules serve rules0 bps"
  shows "\<exists>r. app_setup serve rules0 (empty_router\<lparr>bp_list := bps\<rparr>) = Some (Inr r) \<and>
    (\<forall>m url res. m < InternalMethodCount \<and> m \<noteq> Head_Method \<and> m \<noteq> Options_Method \<longrightarrow>
      (case handle_initial strtod r m url res of (found, res') \<Rightarrow>
        case route_spec strtod m rs url of
          Some d \<Rightarrow> handle_request r url found = Some d \<and> res' = res
        | None \<Rightarrow> catch_all found \<and>
            res' = res\<lparr>status_code := (if \<exists>k < InternalMethodCount. route_spec strtod k rs url \<noteq> None then 405 else 404)\<rparr>))"
proof -
  obtain r where r: "app_setup serve rules0 (empty_router\<lparr>bp_list := bps\<rparr>) = Some (Inr r)" and l: "routes_like strtod rs r"
    using set_up_routes [OF assms(1,2)] assms(3) by blast
  have *: "case handle_initial strtod r m url res of (found, res') \<Rightarrow>
        case route_spec strtod m rs url of
          Some d \<Rightarrow> handle_request r url found = Some d \<and> res' = res
        | None \<Rightarrow> catch_all found \<and>
            res' = res\<lparr>status_code := (if \<exists>k < InternalMethodCount. route_spec strtod k rs url \<noteq> None then 405 else 404)\<rparr>"
    if m: "m < InternalMethodCount" "m \<noteq> Head_Method" "m \<noteq> Options_Method" for m url res
  proof (cases "found_rule (find_in strtod r m url) = 0")
    case True
    then have "route_spec strtod m rs url = None" using l m(1) unfolding routes_like_def by blast
    then show ?thesis using m True any_method [OF l, of url] by (simp add: handle_initial_def Let_def)
  next
    case False
    let ?g = "(result_from (find_in strtod r m url))\<lparr>found_method := Some m\<rparr>"
    have "route_spec strtod m rs url \<noteq> None" "handle_request r url ?g = route_spec strtod m rs url"
      using l m(1) False unfolding routes_like_def by blast+
    moreover have "handle_initial strtod r m url res = (?g, res)" using m False by (simp add: handle_initial_def Let_def)
    ultimately show ?thesis by auto
  qed
  show ?thesis by (intro exI [of _ r] conjI r allI impI, elim conjE, rule *)
qed

text \<open>HEAD is answered like GET where no rule of its own matches, without a body, and with 404 where neither has one.  OPTIONS names, for any URL but \<open>/*\<close>, exactly the methods other than HEAD that have a rule for it, in their order, and is answered with 404 if no method has one; it never runs a rule.\<close>

theorem head_and_options:
  assumes "strtod_ok strtod" "app_ok serve rules0 bps" "rs = app_rules serve rules0 bps"
  shows "\<exists>r. app_setup serve rules0 (empty_router\<lparr>bp_list := bps\<rparr>) = Some (Inr r) \<and>
    (\<forall>url res. (case handle_initial strtod r Head_Method url res of (found, res') \<Rightarrow>
        if route_spec strtod Head_Method rs url \<noteq> None then handle_request r url found = route_spec strtod Head_Method rs url \<and> res' = res\<lparr>skip_body := True\<rparr>
        else if route_spec strtod Get_Method rs url \<noteq> None then handle_request r url found = route_spec strtod Get_Method rs url \<and> res' = res\<lparr>skip_body := True\<rparr>
        else found_rule found = 0 \<and> res' = answer 404 res)) \<and>
    (\<forall>url res. url \<noteq> ''/*'' \<longrightarrow> (case handle_initial strtod r Options_Method url res of (found, res') \<Rightarrow>
        found_rule found = 0 \<and> \<not> catch_all found \<and>
        res' = (let ms = filter (\<lambda>m. route_spec strtod m rs url \<noteq> None) [0..<InternalMethodCount]
                in if ms = [] then answer 404 res else allow_response ms res)))"
proof -
  obtain r where r: "app_setup serve rules0 (empty_router\<lparr>bp_list := bps\<rparr>) = Some (Inr r)" and l: "routes_like strtod rs r"
    using set_up_routes [OF assms(1,2)] assms(3) by blast
  have c: "Head_Method < InternalMethodCount" "Get_Method < InternalMethodCount" "Options_Method < InternalMethodCount" "Options_Method \<noteq> Head_Method"
    by (simp_all add: Head_Method_def Get_Method_def Options_Method_def InternalMethodCount_def)
  have some: "route_spec strtod m rs url \<noteq> None \<longleftrightarrow> found_rule (find_in strtod r m url) \<noteq> 0" if "m < InternalMethodCount" for m url
    using l that unfolding routes_like_def by blast
  have run: "handle_request r url ((result_from (find_in strtod r m url))\<lparr>found_method := Some m\<rparr>) = route_spec strtod m rs url"
    if "m < InternalMethodCount" "found_rule (find_in strtod r m url) \<noteq> 0" for m url
    using l that unfolding routes_like_def by blast
  have h: "case handle_initial strtod r Head_Method url res of (found, res') \<Rightarrow>
        if route_spec strtod Head_Method rs url \<noteq> None then handle_request r url found = route_spec strtod Head_Method rs url \<and> res' = res\<lparr>skip_body := True\<rparr>
        else if route_spec strtod Get_Method rs url \<noteq> None then handle_request r url found = route_spec strtod Get_Method rs url \<and> res' = res\<lparr>skip_body := True\<rparr>
        else found_rule found = 0 \<and> res' = answer 404 res" for url res
    unfolding some [OF c(1)] some [OF c(2)] using c run [OF c(1), of url] run [OF c(2), of url]
    by (simp add: handle_initial_def Let_def) (simp add: result_from_def)
  have f: "filter (\<lambda>m. found_rule (find_in strtod r m url) \<noteq> 0) [0..<InternalMethodCount] = filter (\<lambda>m. route_spec strtod m rs url \<noteq> None) [0..<InternalMethodCount]" for url
    using some by (intro filter_cong) simp_all
  have p: "case handle_initial strtod r Options_Method url res of (found, res') \<Rightarrow>
        found_rule found = 0 \<and> \<not> catch_all found \<and>
        res' = (let ms = filter (\<lambda>m. route_spec strtod m rs url \<noteq> None) [0..<InternalMethodCount]
                in if ms = [] then answer 404 res else allow_response ms res)"
    if "url \<noteq> ''/*''" for url and res :: response
  proof -
    define ms where "ms = filter (\<lambda>m. route_spec strtod m rs url \<noteq> None) [0..<InternalMethodCount]"
    have "handle_initial strtod r Options_Method url res =
      (if ms \<noteq> [] then (no_result\<lparr>found_method := Some Options_Method\<rparr>, allow_response ms res) else (no_result, answer 404 res))"
      unfolding handle_initial_def Let_def f ms_def [symmetric] using c that by simp
    then show ?thesis unfolding ms_def [symmetric] Let_def by (simp add: no_result_def)
  qed
  show ?thesis by (intro exI [of _ r] conjI [OF r] conjI allI impI, rule h, rule p)
qed

text \<open>A set-up with a blueprint, a redirect, parameters and two methods.\<close>

definition sample_rules :: "(string \<times> string rule_object \<times> u32) list" where
  "sample_rules = [(''/a/<string>'', \<lparr>handler = ''B'', mw_indices = []\<rparr>, 2), (''/a/<int>'', \<lparr>handler = ''C'', mw_indices = []\<rparr>, 8),
     (''/d/'', \<lparr>handler = ''D'', mw_indices = []\<rparr>, 2)]"

definition sample_blueprint :: "string blueprint" where
  "sample_blueprint = bp_new_rule ''/<int>'' \<lparr>handler = ''A'', mw_indices = [3]\<rparr> 2 (new_blueprint 1 ''a'' ''a'' [])"

definition sample_all :: "(string \<times> string rule_object \<times> u32) list" where
  "sample_all =
    [(''/a/<int>'', \<lparr>handler = ''A'', mw_indices = [3]\<rparr>, 2), (''/a/static/<path>'', \<lparr>handler = ''a/'', mw_indices = []\<rparr>, 2),
     (''/a/<string>'', \<lparr>handler = ''B'', mw_indices = []\<rparr>, 2), (''/a/<int>'', \<lparr>handler = ''C'', mw_indices = []\<rparr>, 8),
     (''/d/'', \<lparr>handler = ''D'', mw_indices = []\<rparr>, 2), (''/static/<path>'', \<lparr>handler = ''static/'', mw_indices = []\<rparr>, 2)]"

lemma sample_app: "sample_all = app_rules id sample_rules [sample_blueprint]" "list_all bp_filled (map (add_static_rule id) [sample_blueprint])"
  by (simp_all add: sample_all_def app_rules_def sample_rules_def sample_blueprint_def bp_new_rule_def new_blueprint_def add_static_rule_def
      with_middleware_def merge_front_def pack_def pack_rule_def static_rule_def static_endpoint_def normalize_path_def Get_Method_def)

definition no_strtod :: "nat strtod" where "no_strtod s = None"

lemma sample_methods: "has_method m 2 \<longleftrightarrow> m = 1" "has_method m 8 \<longleftrightarrow> m = 3"
proof -
  have "(2 :: u32) = 2 ^ 1" "(8 :: u32) = 2 ^ 3" by simp_all
  then have "bit (2 :: u32) m \<longleftrightarrow> m = 1 \<and> m < 32" "bit (8 :: u32) m \<longleftrightarrow> m = 3 \<and> m < 32"
    using bit_exp_iff [of 1 m, where ?'a = "32 word"] bit_exp_iff [of 3 m, where ?'a = "32 word"] by auto
  then show "has_method m 2 \<longleftrightarrow> m = 1" "has_method m 8 \<longleftrightarrow> m = 3" unfolding has_method_bit by auto
qed

lemma sample_entries:
  "entries m sample_all k =
    (if m = 1 then [(''/a/<int>'', k), (''/a/static/<path>'', k + 1), (''/a/<string>'', k + 2), (''/d/'', k + 3), (''/d'', 1), (''/static/<path>'', k + 4)]
     else if m = 3 then [(''/a/<int>'', k)] else [])"
  by (simp add: sample_all_def sample_methods ends_with_slash_def)

definition literal :: "string \<Rightarrow> seg list" where "literal s = map Chr s"

lemma sample_patterns:
  "url_pattern ''/a/<int>'' = Some (literal ''/a/'' @ [Par Int_Param])" "url_pattern ''/a/<string>'' = Some (literal ''/a/'' @ [Par String_Param])"
  "url_pattern ''/d/'' = Some (literal ''/d/'')" "url_pattern ''/d'' = Some (literal ''/d'')"
  "url_pattern ''/a/static/<path>'' = Some (literal ''/a/static/'' @ [Par Path_Param])"
  "url_pattern ''/static/<path>'' = Some (literal ''/static/'' @ [Par Path_Param])"
  by code_simp+

lemma sample_matches:
  "pattern_match no_strtod (literal ''/a/'' @ [Par Int_Param]) ''/a/7'' no_params = Some (no_params\<lparr>int_params := [7]\<rparr>)"
  "pattern_match no_strtod (literal ''/a/'' @ [Par Int_Param]) ''/d'' no_params = None"
  "pattern_match no_strtod (literal ''/d'') ''/a/7'' no_params = None"
  "pattern_match no_strtod (literal ''/d'') ''/d'' no_params = Some no_params"
  by code_simp+

lemma sample_ok: "app_ok id sample_rules [sample_blueprint] \<and> strtod_ok no_strtod"
proof -
  have "rules_ok sample_all"
    by (auto simp: rules_ok_def sample_entries sample_patterns list_all_iff NUL_def literal_def)
  then show ?thesis using sample_app by (simp add: app_ok_def strtod_ok_def no_strtod_def)
qed

lemma requests_routed_witness:
  "\<exists>r. app_setup id sample_rules (empty_router\<lparr>bp_list := [sample_blueprint]\<rparr>) = Some (Inr r) \<and>
    handle_request r ''/a/7'' (fst (handle_initial no_strtod r Get_Method ''/a/7'' (new_response 200))) =
      Some (Run_Rule \<lparr>handler = ''A'', mw_indices = [3]\<rparr> (no_params\<lparr>int_params := [7]\<rparr>)) \<and>
    handle_request r ''/d'' (fst (handle_initial no_strtod r Get_Method ''/d'' (new_response 200))) = Some (Redirect ''/d/'') \<and>
    snd (handle_initial no_strtod r 3 ''/d'' (new_response 200)) = new_response 405"
proof -
  have s: "route_spec no_strtod Get_Method sample_all ''/a/7'' = Some (Run_Rule \<lparr>handler = ''A'', mw_indices = [3]\<rparr> (no_params\<lparr>int_params := [7]\<rparr>))"
    "route_spec no_strtod Get_Method sample_all ''/d'' = Some (Redirect ''/d/'')" "route_spec no_strtod 3 sample_all ''/d'' = None"
    by (simp_all add: route_spec_def wants_slash_def sample_all_def sample_methods ends_with_slash_def Get_Method_def url_matches_def sample_patterns sample_matches)
  have m: "Get_Method < InternalMethodCount \<and> Get_Method \<noteq> Head_Method \<and> Get_Method \<noteq> Options_Method" "3 < InternalMethodCount \<and> 3 \<noteq> Head_Method \<and> 3 \<noteq> Options_Method"
    by (simp_all add: Get_Method_def Head_Method_def Options_Method_def InternalMethodCount_def)
  obtain r where r: "app_setup id sample_rules (empty_router\<lparr>bp_list := [sample_blueprint]\<rparr>) = Some (Inr r)" and
    all: "\<forall>m url res. m < InternalMethodCount \<and> m \<noteq> Head_Method \<and> m \<noteq> Options_Method \<longrightarrow>
      (case handle_initial no_strtod r m url res of (found, res') \<Rightarrow>
        case route_spec no_strtod m sample_all url of
          Some d \<Rightarrow> handle_request r url found = Some d \<and> res' = res
        | None \<Rightarrow> catch_all found \<and>
            res' = res\<lparr>status_code := (if \<exists>k < InternalMethodCount. route_spec no_strtod k sample_all url \<noteq> None then 405 else 404)\<rparr>)"
    using requests_routed [of no_strtod id sample_rules "[sample_blueprint]" sample_all] sample_ok sample_app(1) by blast
  have "\<exists>k < InternalMethodCount. route_spec no_strtod k sample_all ''/d'' \<noteq> None" using s(2) m(1) by (intro exI [of _ Get_Method]) simp
  then show ?thesis
    using r all [rule_format, OF m(1), of "''/a/7''" "new_response 200"] all [rule_format, OF m(1), of "''/d''" "new_response 200"]
      all [rule_format, OF m(2), of "''/d''" "new_response 200"] s
    by (auto simp: new_response_def split: prod.splits)
qed

lemma head_and_options_witness:
  "\<exists>r. app_setup id sample_rules (empty_router\<lparr>bp_list := [sample_blueprint]\<rparr>) = Some (Inr r) \<and>
    handle_request r ''/a/7'' (fst (handle_initial no_strtod r Head_Method ''/a/7'' (new_response 200))) =
      Some (Run_Rule \<lparr>handler = ''A'', mw_indices = [3]\<rparr> (no_params\<lparr>int_params := [7]\<rparr>)) \<and>
    snd (handle_initial no_strtod r Options_Method ''/b'' (new_response 200)) = answer 404 (new_response 200)"
proof -
  have g: "route_spec no_strtod Head_Method sample_all ''/a/7'' = None"
    "route_spec no_strtod Get_Method sample_all ''/a/7'' = Some (Run_Rule \<lparr>handler = ''A'', mw_indices = [3]\<rparr> (no_params\<lparr>int_params := [7]\<rparr>))"
    by (simp_all add: route_spec_def wants_slash_def sample_all_def sample_methods ends_with_slash_def Get_Method_def Head_Method_def url_matches_def sample_patterns sample_matches)
  have m: "pattern_match no_strtod (literal (CHR ''/'' # c # s) @ p) ''/b'' no_params = None" if "c \<noteq> CHR ''b''" for c s p
    using that by (simp add: literal_def)
  have m': "pattern_match no_strtod (literal (CHR ''/'' # c # s)) ''/b'' no_params = None" if "c \<noteq> CHR ''b''" for c s
    using m [OF that, of s "[]"] by simp
  have n: "route_spec no_strtod k sample_all ''/b'' = None" for k
    by (simp add: route_spec_def wants_slash_def sample_all_def sample_methods ends_with_slash_def url_matches_def sample_patterns m m')
  obtain r where r: "app_setup id sample_rules (empty_router\<lparr>bp_list := [sample_blueprint]\<rparr>) = Some (Inr r)" and
    h: "\<forall>url res. (case handle_initial no_strtod r Head_Method url res of (found, res') \<Rightarrow>
        if route_spec no_strtod Head_Method sample_all url \<noteq> None then handle_request r url found = route_spec no_strtod Head_Method sample_all url \<and> res' = res\<lparr>skip_body := True\<rparr>
        else if route_spec no_strtod Get_Method sample_all url \<noteq> None then handle_request r url found = route_spec no_strtod Get_Method sample_all url \<and> res' = res\<lparr>skip_body := True\<rparr>
        else found_rule found = 0 \<and> res' = answer 404 res)" and
    q: "\<forall>url res. url \<noteq> ''/*'' \<longrightarrow> (case handle_initial no_strtod r Options_Method url res of (found, res') \<Rightarrow>
        found_rule found = 0 \<and> \<not> catch_all found \<and>
        res' = (let ms = filter (\<lambda>m. route_spec no_strtod m sample_all url \<noteq> None) [0..<InternalMethodCount]
                in if ms = [] then answer 404 res else allow_response ms res))"
    using head_and_options [of no_strtod id sample_rules "[sample_blueprint]" sample_all] sample_ok sample_app(1) by blast
  show ?thesis
    using r h [rule_format, of "''/a/7''" "new_response 200"] q [rule_format, of "''/b''" "new_response 200"] g n
    by (auto split: prod.splits)
qed

section \<open>Insertion\<close>

text \<open>C22: Insertion into a tree ends exactly when every \<open><\<close> of the URL begins a known tag; it then stores the rule if and only if no rule has the same pattern, and changes nothing else about the routes, also when it throws.\<close>

theorem insertion_ends:
  assumes "plain_tree t" "NUL \<notin> set url" "rule \<noteq> 0"
  shows "case url_pattern url of
      None \<Rightarrow> trie_add url rule pl bp t = None
    | Some p \<Rightarrow> \<exists>t' ok. trie_add url rule pl bp t = Some (t', ok) \<and> plain_tree t' \<and> (ok \<longleftrightarrow> p \<notin> fst ` set (routes t)) \<and>
        set (routes t') = set (routes t) \<union> (if ok then {(p, rule)} else {})"
proof (cases "url_pattern url")
  case None
  then have "trie_add url rule pl bp t = None" using add_at_pattern [of url rule pl bp 0 t] by (cases "add_at url rule pl bp 0 t") (auto simp: trie_add_def)
  then show ?thesis using None by simp
next
  case (Some p)
  then obtain t' ok where "add_at url rule pl bp 0 t = Some (t', ok)" "grows p rule ok t t'"
    using add_at_correct [OF assms(2,1), of 0 p rule pl bp] by auto
  then show ?thesis using Some assms(3) by (auto simp: trie_add_def grows_def)
qed

lemma insertion_ends_witness:
  "(\<exists>t' ok. trie_add ''/<int>'' 2 0 INVALID_BP_ID empty_node = Some (t', ok) \<and> ok \<and> set (routes t') = {([Chr CHR ''/'', Par Int_Param], 2)}) \<and>
    trie_add ''/<id>'' 2 0 INVALID_BP_ID empty_node = None"
proof -
  have p: "url_pattern ''/<int>'' = Some [Chr CHR ''/'', Par Int_Param]" "url_pattern ''/<id>'' = None" by code_simp+
  have n: "NUL \<notin> set ''/<int>''" "NUL \<notin> set ''/<id>''" "plain_tree empty_node" "routes empty_node = []" by (simp_all add: NUL_def empty_node_def)
  show ?thesis using insertion_ends [of empty_node "''/<int>''" 2 0 INVALID_BP_ID] insertion_ends [of empty_node "''/<id>''" 2 0 INVALID_BP_ID] p n by auto
qed

section \<open>Parameter tags\<close>

fun type_digit :: "param_type \<Rightarrow> u64" where
  "type_digit Int_Param = 1"
| "type_digit Uint_Param = 2"
| "type_digit Double_Param = 3"
| "type_digit String_Param = 4"
| "type_digit Path_Param = 5"
| "type_digit No_Param = 0"

text \<open>The digits of the parameters of a pattern, the first the least significant.\<close>

definition pattern_tag :: "seg list \<Rightarrow> u64" where
  "pattern_tag p = foldr (\<lambda>g t. case g of Chr _ \<Rightarrow> t | Par ty \<Rightarrow> t * 6 + type_digit ty) p 0"

lemma tag_digit_at:
  assumes "tag_at s 0 = Some (t, name)"
  shows "tag_digit s = Some (type_digit t) \<and> (\<exists>r. find_closing_tag_runtime (tl s) = Some (CHR ''>'' # r) \<and> r = drop (length name) s)"
proof -
  obtain k where "k < length param_traits" "(t, name) = param_traits ! k" "at_text s 0 (snd (param_traits ! k))"
    using assms by (auto simp: tag_at_def find_Some_iff)
  then have m: "(t, name) \<in> set param_traits" and a: "at_text s 0 name" by (metis nth_mem, metis snd_conv)
  define r where "r = drop (length name) s"
  have s: "s = name @ r" using a by (metis append_take_drop_id at_text_def drop_0 r_def)
  show ?thesis using m unfolding r_def [symmetric] s by (auto simp: param_traits_def tag_digit_def at_text_def)
qed

lemma tag_digit_none: "tag_at s 0 = None \<Longrightarrow> tag_digit s = None"
  by (auto simp: tag_at_def param_traits_def tag_digit_def split: if_splits)

text \<open>C23: The check of a rule's URL is exact: it passes if and only if every \<open><\<close> begins a known tag, so that a rule it has passed is always inserted in finite time, and the number it computes lists the types of the pattern's parameters in order.\<close>

theorem tags_typed:
  "get_parameter_tag_runtime url = map_option pattern_tag (url_pattern url)"
proof (induction url rule: length_induct)
  case (1 url)
  show ?case
  proof (cases url)
    case Nil
    then show ?thesis by (simp add: get_parameter_tag_runtime.simps pattern_tag_def)
  next
    case (Cons c cs)
    show ?thesis
    proof (cases "c = CHR ''<''")
      case False
      then show ?thesis using 1 Cons
        by (subst get_parameter_tag_runtime.simps, subst url_pattern.simps) (auto simp: pattern_tag_def map_option.compositionality o_def)
    next
      case True
      show ?thesis
      proof (cases "tag_at url 0")
        case None
        then show ?thesis using Cons True tag_digit_none
          by (subst get_parameter_tag_runtime.simps, subst url_pattern.simps) auto
      next
        case (Some tn)
        obtain t name where tn: "tag_at url 0 = Some (t, name)" using Some by (cases tn) auto
        let ?r = "drop (length name) url"
        have d: "tag_digit url = Some (type_digit t)" "find_closing_tag_runtime cs = Some (CHR ''>'' # ?r)"
          using tag_digit_at [OF tn] Cons by auto
        have l: "length ?r < length url" using tag_at_Some [OF tn] Cons by auto
        have "get_parameter_tag_runtime (CHR ''>'' # ?r) = get_parameter_tag_runtime ?r" by (subst get_parameter_tag_runtime.simps) simp
        then have "get_parameter_tag_runtime url = map_option (\<lambda>x. x * 6 + type_digit t) (map_option pattern_tag (url_pattern ?r))"
          using 1 l d Cons True by (subst get_parameter_tag_runtime.simps) simp
        moreover have "url_pattern url = map_option (Cons (Par t)) (url_pattern ?r)"
          using url_pattern_drop(1) [of 0 url t name] Cons True tn by simp
        ultimately show ?thesis by (simp add: map_option.compositionality o_def pattern_tag_def)
      qed
    qed
  qed
qed

fun digits6 :: "nat \<Rightarrow> nat" where
  "digits6 n = (if n = 0 then 0 else Suc (digits6 (n div 6)))"

declare digits6.simps [simp del]

text \<open>The comparison of a handler's parameters with those of a dynamic rule compares only how many there are: it takes the digit of one side for both.\<close>

theorem tags_compared_by_number:
  "is_parameter_tag_compatible a b \<longleftrightarrow> digits6 a = digits6 b"
proof (induction a b rule: is_parameter_tag_compatible.induct)
  case (1 a b)
  show ?case
  proof (cases "a = 0 \<or> b = 0")
    case True
    then show ?thesis by (subst is_parameter_tag_compatible.simps, subst (1 2) digits6.simps) auto
  next
    case False
    then have "is_parameter_tag_compatible a b \<longleftrightarrow> is_parameter_tag_compatible (a div 6) (b div 6)"
      by (subst is_parameter_tag_compatible.simps) simp
    then show ?thesis using 1 False by (subst (1 2) digits6.simps) auto
  qed
qed

section \<open>Merging chains\<close>

text \<open>Merging chains of nodes changes neither the rule nor the parameters that a search finds, for any URL.\<close>

theorem merging_keeps_results:
  assumes "strtod_ok strtod" "keyed t"
  shows "found_rule (trie_find strtod url (optimize t)) = found_rule (trie_find strtod url t) \<and>
    (found_rule (trie_find strtod url t) \<noteq> 0 \<longrightarrow> r_params (trie_find strtod url (optimize t)) = r_params (trie_find strtod url t))"
proof -
  have "result_of (trie_find strtod url n) = pick (matches strtod (routes n) url no_params)" if "keyed n" for n
  proof -
    obtain f ps bps where f: "find_node strtod url n 0 no_params [] = (f, ps, bps)" by (metis prod_cases3)
    then show ?thesis using find_correct(1) [OF assms(1) that _ f] by (simp add: trie_find_def)
  qed
  then have "result_of (trie_find strtod url (optimize t)) = result_of (trie_find strtod url t)"
    using assms(2) optimize_routes by metis
  then show ?thesis by (auto simp: result_of_def split: if_splits)
qed

text \<open>A chain of two nodes, merged, and a search through it.\<close>

definition chain_tree :: trie_node where
  "chain_tree = Trie_Node 0 INVALID_BP_ID [] No_Param
     [Trie_Node 0 INVALID_BP_ID ''/'' No_Param [Trie_Node 0 INVALID_BP_ID ''a'' No_Param [Trie_Node 2 INVALID_BP_ID [] String_Param []]]]"

lemma merging_keeps_results_witness:
  "found_rule (trie_find no_strtod ''/axy'' (optimize chain_tree)) = 2 \<and>
    string_params (r_params (trie_find no_strtod ''/axy'' (optimize chain_tree))) = [''xy''] \<and> optimize chain_tree \<noteq> chain_tree"
proof -
  have k: "strtod_ok no_strtod" "keyed chain_tree" by (simp_all add: strtod_ok_def no_strtod_def chain_tree_def)
  have f: "found_rule (trie_find no_strtod ''/axy'' chain_tree) = 2" "string_params (r_params (trie_find no_strtod ''/axy'' chain_tree)) = [''xy'']"
    "optimize chain_tree \<noteq> chain_tree"
    by (simp_all add: chain_tree_def trie_find_def take_fragment_def at_text_def update_found_def push_param_def pop_param_def no_params_def
      optimize_def optimizeNode.simps IsSimpleNode_def)
  show ?thesis using merging_keeps_results [OF k, of "''/axy''"] f by simp
qed

section \<open>Blueprints\<close>

inductive built :: "'h blueprint \<Rightarrow> bool" where
  new: "built (new_blueprint this prefix dir templates)"
| rule: "built b \<Longrightarrow> built (bp_new_rule u ob ms b)"
| child: "built b \<Longrightarrow> built c \<Longrightarrow> bp_register_blueprint c b = Some b' \<Longrightarrow> built b'"

text \<open>Rules are below the prefix of their blueprint, and prefixes below the prefix of the blueprint around them.\<close>

fun prefixes_ok :: "'h blueprint \<Rightarrow> bool" where
  "prefixes_ok (Blueprint this p dir templates rs c mw bps) \<longleftrightarrow>
     list_all (\<lambda>(u, x). \<exists>v. u = CHR ''/'' # p @ v) rs \<and> list_all (\<lambda>b. (\<exists>q. bp_prefix b = p @ ''/'' @ q) \<and> prefixes_ok b) bps"

lemma apply_prefix: "bp_prefix (apply_blueprint p d t b) = p @ ''/'' @ bp_prefix b"
  by (cases b) simp

lemma apply_prefixes_ok: "prefixes_ok b \<Longrightarrow> prefixes_ok (apply_blueprint p d t b)"
proof (induction b)
  case (Blueprint this q dir templates rs c mw bps)
  have "\<exists>r. bp_prefix (apply_blueprint p d t b) = p @ ''/'' @ q @ ''/'' @ r" "prefixes_ok (apply_blueprint p d t b)" if "b \<in> set bps" for b
    using Blueprint that unfolding apply_prefix by (auto simp: list_all_iff)
  moreover have "\<exists>v. CHR ''/'' # p @ u = CHR ''/'' # (p @ ''/'' @ q) @ v" if "(u, x) \<in> set rs" for u x
    using Blueprint.prems that by (fastforce simp: list_all_iff)
  ultimately show ?case by (auto simp: list_all_iff)
qed

text \<open>C24: However blueprints are built and nested, every rule's URL is its blueprint's full prefix followed by what the application gave, and the full prefix begins with that of the blueprint around it and a slash, also when blueprints are registered before or after they have rules and blueprints of their own.\<close>

theorem nested_prefixes:
  assumes "built b"
  shows "prefixes_ok b"
  using assms
proof induction
  case (new this prefix dir templates)
  then show ?case by (simp add: new_blueprint_def)
next
  case (rule b u ob ms)
  then show ?case by (cases b rule: blueprint.exhaust) (simp add: bp_new_rule_def)
next
  case (child b c b')
  then show ?case
    using apply_prefixes_ok [of c] by (cases b rule: blueprint.exhaust) (auto simp: bp_register_blueprint_def apply_prefix split: if_splits)
qed

lemma nested_prefixes_witness:
  "\<exists>b. bp_register_blueprint sample_blueprint (new_blueprint 2 ''v1'' ''v1'' []) = Some b \<and> prefixes_ok b \<and>
    map fst (bp_rules (hd (bp_blueprints b))) = [''/v1/a/<int>'']"
proof -
  have sb: "built sample_blueprint" unfolding sample_blueprint_def by (rule built.rule, rule built.new)
  define b where "b = the (bp_register_blueprint sample_blueprint (new_blueprint 2 ''v1'' ''v1'' []))"
  have b: "bp_register_blueprint sample_blueprint (new_blueprint 2 ''v1'' ''v1'' []) = Some b" "map fst (bp_rules (hd (bp_blueprints b))) = [''/v1/a/<int>'']"
    by (simp_all add: b_def bp_register_blueprint_def new_blueprint_def sample_blueprint_def bp_new_rule_def)
  have "prefixes_ok b" by (rule nested_prefixes [OF built.child [OF built.new sb b(1)]])
  then show ?thesis using b by (intro exI [of _ b] conjI)
qed

section \<open>Catch-all rules\<close>

text \<open>The catch-all rule of a blueprint that is registered at the router itself is never used: when a search ends inside that blueprint and in no blueprint below it, the global catch-all is taken, whether or not the blueprint has one.\<close>

theorem top_blueprint_catchall_ignored:
  assumes "blueprint_indices found = [i]" "i < length (bp_list r)"
  shows "get_catch_all r found = Some Global_Catchall"
  using assms by (simp add: get_catch_all_def get_found_bp.simps verify_prefix_def vector_at_def)

lemma top_blueprint_catchall_ignored_witness:
  "get_catch_all \<lparr>per_methods = [] :: nat rule_object per_method list, bp_list = [Blueprint 1 ''api'' ''api'' [] [] True [] []], global_catchall = False\<rparr>
      ((no_result :: nat routing_handle_result)\<lparr>blueprint_indices := [0]\<rparr>) = Some Global_Catchall"
  using top_blueprint_catchall_ignored
    [of "(no_result :: nat routing_handle_result)\<lparr>blueprint_indices := [0]\<rparr>" 0
      "\<lparr>per_methods = [] :: nat rule_object per_method list, bp_list = [Blueprint 1 ''api'' ''api'' [] [] True [] []], global_catchall = False\<rparr>"]
  by simp

end
