(* ===== verification/Response_Properties.thy ===== *)
theory Response_Properties
  imports Response
begin

text \<open>
  Properties of responses: the head that is written has one line per header, whatever the application
  puts into names and values, and what a request for the head only is answered with.
\<close>

section \<open>Splitting lines\<close>

lemma find_from_line:
  assumes "CHR 0x0D \<notin> set l"
  shows "find_from crlf (v @ l @ crlf @ w) (length v) = Some (length v + length l)"
proof -
  define u where "u = v @ l @ crlf @ w"
  define n where "n = length v + length l"
  have d: "drop n u = crlf @ w" "n + 2 \<le> length u" by (simp_all add: u_def n_def crlf_def)
  have "take 2 (drop j u) \<noteq> crlf" if "length v \<le> j" "j < n" for j
  proof -
    have "drop j u = drop (j - length v) l @ crlf @ w" using that by (simp add: u_def n_def)
    moreover have "drop (j - length v) l = l ! (j - length v) # drop (Suc (j - length v)) l" using that by (simp add: n_def Cons_nth_drop_Suc)
    moreover have "l ! (j - length v) \<in> set l" using that by (simp add: n_def)
    ultimately show ?thesis using assms by (auto simp: crlf_def numeral_2_eq_2)
  qed
  moreover have "take 2 (drop n u) = crlf" using d(1) by (simp add: crlf_def)
  moreover have "length crlf = 2" by (simp add: crlf_def)
  ultimately show ?thesis unfolding u_def [symmetric] n_def [symmetric] find_from_def using d(2)
    by (auto simp: find_Some_iff n_def intro!: exI [of _ n])
qed

lemma find_from_end:
  assumes "CHR 0x0D \<notin> set l"
  shows "find_from crlf (v @ l) (length v) = None"
proof -
  have "take 2 (drop j (v @ l)) \<noteq> crlf" if "length v \<le> j" "j + 2 \<le> length (v @ l)" for j
  proof -
    have "drop j (v @ l) = drop (j - length v) l" using that by simp
    moreover have "drop (j - length v) l = l ! (j - length v) # drop (Suc (j - length v)) l" using that by (simp add: Cons_nth_drop_Suc)
    moreover have "l ! (j - length v) \<in> set l" using that by simp
    ultimately show ?thesis using assms by (auto simp: crlf_def numeral_2_eq_2)
  qed
  then show ?thesis by (auto simp: find_from_def find_None_iff crlf_def numeral_2_eq_2)
qed

definition terminate_lines :: "string list \<Rightarrow> string" where
  "terminate_lines ls = concat (map (\<lambda>l. l @ crlf) ls)"

lemma split_from_lines:
  assumes "\<forall>l \<in> set ls. CHR 0x0D \<notin> set l"
  shows "split_from crlf (v @ terminate_lines ls) (length v) = ls @ [[]]"
  using assms
proof (induction ls arbitrary: v)
  case Nil
  have "find_from crlf (v @ []) (length v) = None" by (rule find_from_end) simp
  then show ?case by (simp add: terminate_lines_def split_from.simps [of crlf v])
next
  case (Cons l ls)
  have "find_from crlf (v @ l @ crlf @ terminate_lines ls) (length v) = Some (length v + length l)"
    using Cons.prems by (intro find_from_line) simp
  moreover have "split_from crlf ((v @ l @ crlf) @ terminate_lines ls) (length (v @ l @ crlf)) = ls @ [[]]"
    by (rule Cons.IH) (use Cons.prems in simp)
  moreover have "terminate_lines (l # ls) = l @ crlf @ terminate_lines ls" by (simp add: terminate_lines_def)
  moreover have "crlf \<noteq> []" by (simp add: crlf_def)
  ultimately show ?case by (subst split_from.simps) (simp add: add.assoc)
qed

lemma split_lines: "\<forall>l \<in> set ls. CHR 0x0D \<notin> set l \<Longrightarrow> split_at (terminate_lines ls) crlf = ls @ [[]]"
  using split_from_lines [of ls "[]"] by (simp add: split_at_def)

section \<open>What an application does to a response\<close>

datatype response_op =
    Set_Header string string
  | Add_Header string string
  | Redirect_To nat string
  | Write_Body string
  | Static_File string string
  | Set_Status nat

fun response_do :: "stat \<Rightarrow> response_op \<Rightarrow> response \<Rightarrow> response" where
  "response_do st (Set_Header k v) res = set_header k v res"
| "response_do st (Add_Header k v) res = add_header k v res"
| "response_do st (Redirect_To c l) res =
     (if c = 301 then moved_perm l res else if c = 302 then moved l res else if c = 307 then redirect l res else redirect_perm l res)"
| "response_do st (Write_Body s) res = write_body s res"
| "response_do st (Static_File p t) res = set_static_file_info st p t res"
| "response_do st (Set_Status c) res = res\<lparr>status_code := c\<rparr>"

definition one_line :: "string \<Rightarrow> bool" where
  "one_line s \<longleftrightarrow> CHR 0x0D \<notin> set s \<and> CHR 0x0A \<notin> set s"

definition clean_headers :: "response \<Rightarrow> bool" where
  "clean_headers res \<longleftrightarrow> (\<forall>h \<in> set (headers res). one_line (fst h) \<and> one_line (snd h))"

lemma sanitized_line [simp]: "one_line (sanitize_header_value s)"
  by (simp add: one_line_def sanitize_header_value_def)

lemma clean_set_header: "clean_headers res \<Longrightarrow> clean_headers (set_header k v res)"
  by (auto simp: clean_headers_def set_header_def Let_def ci_erase_def)

lemma clean_add_header: "clean_headers res \<Longrightarrow> clean_headers (add_header k v res)"
  by (auto simp: clean_headers_def add_header_def)

lemma clean_update:
  "clean_headers (res\<lparr>status_code := c\<rparr>) \<longleftrightarrow> clean_headers res" "clean_headers (res\<lparr>body := b\<rparr>) \<longleftrightarrow> clean_headers res"
  "clean_headers (res\<lparr>file_path := p\<rparr>) \<longleftrightarrow> clean_headers res" "clean_headers (res\<lparr>file_stat := s\<rparr>) \<longleftrightarrow> clean_headers res"
  by (simp_all add: clean_headers_def)

lemma clean_do: "clean_headers res \<Longrightarrow> clean_headers (response_do st op res)"
  by (cases op)
    (auto simp: clean_update clean_set_header clean_add_header redirect_def redirect_perm_def moved_def moved_perm_def write_body_def
      set_static_file_info_def set_static_file_info_unsafe_def Let_def split: option.splits prod.splits bool.splits)

lemma clean_run: "clean_headers (fold (response_do st) ops (new_response c))"
proof -
  have "clean_headers (fold (response_do st) ops res)" if "clean_headers res" for res
    using that by (induction ops arbitrary: res) (simp_all add: clean_do)
  moreover have "clean_headers (new_response c)" by (simp add: clean_headers_def new_response_def)
  ultimately show ?thesis .
qed

lemma status_text_line: "one_line (status_text c)"
proof -
  have l: "list_all (\<lambda>x. CHR 0x0D \<notin> set (snd x) \<and> CHR 0x0A \<notin> set (snd x)) statusCodes" by code_simp
  show ?thesis
  proof (cases "map_of statusCodes c")
    case (Some t)
    then have "(c, t) \<in> set statusCodes" by (rule map_of_SomeD)
    then show ?thesis using l Some by (fastforce simp: status_text_def one_line_def list_all_iff)
  qed (simp add: status_text_def one_line_def)
qed

lemma to_dec_line: "one_line (to_dec n)"
  using to_dec_digits [of n] by (auto simp: one_line_def is_digit_def code_def)

section \<open>The head\<close>

text \<open>C25: The head of a response has exactly one line for the status, one for each header that the application has set, and those for the length, the server and the connection, whatever characters the application has put into names, values, locations and content types: no text of it can begin another line.\<close>

theorem head_not_split:
  assumes "one_line server_name"
  shows "case write_header_into_buffer keep server_name (fold (response_do st) ops (new_response c)) of (r, text) \<Rightarrow>
    split_at text crlf =
      (''HTTP/1.1 '' @ status_text (status_code r)) # map (\<lambda>(k, v). k @ '': '' @ v) (headers (fold (response_do st) ops (new_response c)))
      @ (if \<not> manual_length_header r \<and> ci_count ''content-length'' (headers r) = 0 then [''Content-Length: '' @ to_dec (length (body r))] else [])
      @ (if ci_count ''server'' (headers r) = 0 \<and> server_name \<noteq> [] then [''Server: '' @ server_name] else [])
      @ (if keep then [''Connection: Keep-Alive''] else []) @ [[], []]"
proof -
  define res where "res = fold (response_do st) ops (new_response c)"
  define r where "r = settle_status res"
  have h: "headers r = headers res" by (simp add: r_def settle_status_def Let_def)
  define ls where "ls = (''HTTP/1.1 '' @ status_text (status_code r)) # map (\<lambda>(k, v). k @ '': '' @ v) (headers res)
      @ (if \<not> manual_length_header r \<and> ci_count ''content-length'' (headers r) = 0 then [''Content-Length: '' @ to_dec (length (body r))] else [])
      @ (if ci_count ''server'' (headers r) = 0 \<and> server_name \<noteq> [] then [''Server: '' @ server_name] else [])
      @ (if keep then [''Connection: Keep-Alive''] else []) @ [[]]"
  have l: "concat (map header_line hs) = concat (map (\<lambda>l. l @ crlf) (map (\<lambda>(k, v). k @ '': '' @ v) hs))" for hs
    by (induction hs) (auto simp: header_line_def)
  have t: "write_header_into_buffer keep server_name res = (r, terminate_lines ls)"
    by (simp add: write_header_into_buffer_def r_def [symmetric] Let_def terminate_lines_def ls_def h l header_line_def)
  have "\<forall>x \<in> set ls. CHR 0x0D \<notin> set x"
    using clean_run [of st ops c] assms status_text_line [of "status_code r"] to_dec_line [of "length (body r)"]
    by (auto simp: ls_def clean_headers_def one_line_def res_def [symmetric])
  then have "split_at (terminate_lines ls) crlf = ls @ [[]]" by (rule split_lines)
  then show ?thesis unfolding res_def [symmetric] t by (simp add: ls_def)
qed

lemma head_not_split_witness:
  "split_at (snd (write_header_into_buffer True ''Crow''
      (fold (response_do (\<lambda>_. None)) [Set_Header ''X'' (''a'' @ crlf @ ''Set-Cookie: b'')] (new_response 200)))) crlf =
    [''HTTP/1.1 200 OK'', ''X: aSet-Cookie: b'', ''Content-Length: 0'', ''Server: Crow'', ''Connection: Keep-Alive'', [], []]"
proof -
  have "one_line ''Crow''" by (simp add: one_line_def)
  then show ?thesis
    using head_not_split [of "''Crow''", where keep = True and st = "\<lambda>_. None" and ops = "[Set_Header ''X'' (''a'' @ crlf @ ''Set-Cookie: b'')]" and c = 200]
    by (simp add: set_header_def sanitize_header_value_def ci_erase_def ci_count_def ci_key_eq_def string_equals_def crlf_def new_response_def
      settle_status_def write_header_into_buffer_def statusCodes_def status_text_def)
qed

section \<open>Requests for the head\<close>

text \<open>The answer to a request for the head only has no body, and the length of the body it would have had, unless its status is an error: then the status is written as a body after all, behind a header that announces the length of another one.\<close>

theorem head_error_has_body:
  assumes "skip_body res" "\<not> completed res" "map_of statusCodes (status_code res) = Some t"
  shows "case write_header_into_buffer keep server_name (end_before res) of (r, text) \<Rightarrow>
    get_header_value (headers r) ''Content-Length'' = to_dec (length (body res)) \<and>
    body r = (if 400 \<le> status_code res then t @ crlf else [])"
proof -
  have s: "sanitize_header_value ''Content-Length'' = ''Content-Length''" by code_simp
  have d: "sanitize_header_value (to_dec n) = to_dec n" for n
    using to_dec_line [of n] unfolding sanitize_header_value_def one_line_def by (intro filter_True) auto
  have e: "ci_key_eq ''Content-Length'' ''Content-Length''" by (simp add: ci_key_eq_def string_equals_upper)
  have f: "find (\<lambda>h. ci_key_eq (fst h) k) (ci_erase k hs @ [(k, v)]) = Some (k, v)" if "ci_key_eq k k" for k v and hs :: ci_map
    using that by (induction hs) (auto simp: ci_erase_def)
  show ?thesis
    using assms by (simp add: write_header_into_buffer_def Let_def settle_status_def end_before_def set_header_def s d get_header_value_def f [OF e] status_text_def)
qed

lemma head_error_has_body_witness:
  "body (fst (write_header_into_buffer True [] (end_before ((new_response 404)\<lparr>skip_body := True, body := ''no such page''\<rparr>)))) = ''404 Not Found'' @ crlf"
  using head_error_has_body [of "(new_response 404)\<lparr>skip_body := True, body := ''no such page''\<rparr>" "''404 Not Found''", where keep = True and server_name = "[]"]
  by (simp add: new_response_def statusCodes_def split: prod.splits)

end
