(* ===== verification/Utility_Properties.thy ===== *)
theory Utility_Properties
  imports Utility
begin

text \<open>
  What the text functions guarantee: the pieces of \<open>split\<close> join to the text, and a cleaned file name
  has no component that leads out of its directory or names a device.
\<close>

section \<open>Cleaning by components\<close>

text \<open>The loop of \<open>sanitize_filename\<close> on the rest of the name; \<open>fst\<close> marks its first character.\<close>

function clean :: "char \<Rightarrow> bool \<Rightarrow> bool \<Rightarrow> string \<Rightarrow> string" where
  "clean r first check s =
     (if s = [] then []
      else
        (let t = (if check then check_special s 0 r else s); c = hd t
         in if bad_char c \<or> is_slash c \<and> first then r # clean r False False (tl t)
            else c # clean r False (is_slash c) (tl t)))"
  by pat_completeness auto
termination
proof (relation "measure (\<lambda>(r, first, check, s). length s)", goal_cases)
  case (2 r first check s t c)
  then show ?case using check_special_length [of 0 s r] by (cases check; cases s) auto
next
  case (3 r first check s t c)
  then show ?case using check_special_length [of 0 s r] by (cases check; cases s) auto
qed simp

declare clean.simps [simp del]

lemma special_append: "sanitizeSpecialFile (v @ u) (length v) p b r = v @ sanitizeSpecialFile u 0 p b r"
proof -
  have n: "(v @ u) ! (length v + k) = u ! k" "drop (length v + k) (v @ u) = drop k u"
    "length (v @ u) \<le> length v + k \<longleftrightarrow> length u \<le> k" "length v + k < length (v @ u) \<longleftrightarrow> k < length u" for k
    by simp_all
  have d: "drop (length v) (v @ u) = u" "take (length v) (v @ u) = v" "(if b then length v + k + 1 else length v + k) = length v + (if b then k + 1 else k)" for k
    by simp_all
  show ?thesis unfolding sanitizeSpecialFile_def Let_def d n add_0 take_0 drop_0 append_Nil if_distrib [of "(@) v"] by (rule refl)
qed

lemma special_drop:
  assumes "i < length s"
  shows "sanitizeSpecialFile s i p b r = take i s @ sanitizeSpecialFile (drop i s) 0 p b r"
  using special_append [of "take i s" "drop i s" p b r] assms by simp

lemma check_special_drop:
  assumes "i < length s"
  shows "check_special s i r = take i s @ check_special (drop i s) 0 r"
proof -
  define t where "t = sanitizeSpecialFile (drop i s) 0 ''CON'' False r"
  have t: "sanitizeSpecialFile s i ''CON'' False r = take i s @ t" using special_drop [OF assms] by (simp add: t_def)
  moreover have "0 < length t" using sanitizeSpecialFile_length [of 0 "drop i s" "''CON''" False r] assms by (simp add: t_def)
  ultimately have "sanitizeSpecialFile (take i s @ t) i ''COM'' True r = take i s @ sanitizeSpecialFile t 0 ''COM'' True r"
    using special_drop [of i "take i s @ t" "''COM''" True r] assms by simp
  then show ?thesis
    unfolding check_special_def Let_def t t_def [symmetric] using special_drop [OF assms] assms by (simp add: nth_drop)
qed

lemma sanitize_loop_clean:
  "i \<le> length s \<Longrightarrow> sanitize_loop r s i check = take i s @ clean r (i = 0) check (drop i s)"
proof (induction r s i check rule: sanitize_loop.induct)
  case (1 r s i check)
  show ?case
  proof (cases "i < length s")
    case False
    then show ?thesis using 1(5) by (subst sanitize_loop.simps, subst clean.simps) simp
  next
    case True
    define t where "t = (if check then check_special s i r else s)"
    define u where "u = (if check then check_special (drop i s) 0 r else drop i s)"
    have t: "t = take i s @ u" using check_special_drop [OF True] by (simp add: t_def u_def)
    have "u \<noteq> []" using True check_special_length [of 0 "drop i s" r] by (auto simp: u_def)
    then obtain c u' where u: "u = c # u'" by (cases u) auto
    have n: "t ! i = c" "i < length t" "take (i + 1) t = take i s @ [c]" "drop (i + 1) t = u'" "t[i := r] = take i s @ r # u'"
      using True by (simp_all add: t u nth_append list_update_append)
    have m: "take (i + 1) (t[i := r]) = take i s @ [r]" "drop (i + 1) (t[i := r]) = u'" "i + 1 \<le> length (t[i := r])"
      using True n(5) by simp_all
    have rest: "clean r (i = 0) check (drop i s) =
        (if bad_char c \<or> is_slash c \<and> i = 0 then r # clean r False False u' else c # clean r False (is_slash c) u')"
      using True by (subst clean.simps) (simp add: u_def [symmetric] u Let_def)
    have s: "sanitize_loop r s i check =
        (if bad_char c then sanitize_loop r (t[i := r]) (i + 1) False
         else if is_slash c then (if i = 0 then sanitize_loop r (t[i := r]) (i + 1) False else sanitize_loop r t (i + 1) True)
         else sanitize_loop r t (i + 1) False)"
      using True by (subst sanitize_loop.simps) (simp add: t_def [symmetric] n Let_def)
    note ih = 1(1-4) [OF True t_def n(1) [symmetric]]
    show ?thesis
    proof (cases "bad_char c")
      case b: True
      then show ?thesis unfolding s rest using ih(1) m by simp
    next
      case b: False
      show ?thesis
      proof (cases "is_slash c")
        case c: True
        then show ?thesis unfolding s rest using b ih(2,3) m n by (cases "i = 0") simp_all
      next
        case c: False
        then show ?thesis unfolding s rest using b ih(4) n by simp
      qed
    qed
  qed
qed

section \<open>Reserved names\<close>

definition specials :: "(string \<times> bool) list" where
  "specials = [(''AUX'', False), (''CON'', False), (''COM'', True), (''LPT'', True), (''NUL'', False), (''PRN'', False), (''..'', False)]"

definition device :: "string \<Rightarrow> bool \<Rightarrow> string \<Rightarrow> bool" where
  "device p b s \<longleftrightarrow>
     (let i = length p; j = (if b then i + 1 else i)
      in take i (map to_upper s) = p \<and> (b \<longrightarrow> i < length s \<and> 49 \<le> code (s ! i) \<and> code (s ! i) \<le> 57) \<and> (length s \<le> j \<or> ends_name (s ! j)))"

text \<open>A component that is a device, also with an extension, or the parent directory.\<close>

definition reserved :: "string \<Rightarrow> bool" where
  "reserved s \<longleftrightarrow> list_ex (\<lambda>(p, b). device p b s) specials"

fun components :: "string \<Rightarrow> string list" where
  "components [] = [[]]"
| "components (c # cs) = (if is_slash c then [] # components cs else (c # hd (components cs)) # tl (components cs))"

definition safe_name :: "string \<Rightarrow> bool" where
  "safe_name s \<longleftrightarrow> length s \<le> 255 \<and> list_all (\<lambda>c. \<not> bad_char c) s \<and> (s = [] \<or> \<not> is_slash (hd s)) \<and> list_all (\<lambda>c. \<not> reserved c) (components s)"

definition component :: "string \<Rightarrow> string" where
  "component s = takeWhile (\<lambda>c. \<not> is_slash c) s"

lemma components_not_Nil [simp]: "components s \<noteq> []"
  by (cases s) simp_all

lemma hd_components: "hd (components s) = component s"
  by (induction s) (simp_all add: component_def)

lemma list_all_components: "list_all P (components s) \<longleftrightarrow> P (component s) \<and> list_all P (tl (components s))"
  using hd_components [of s] by (cases "components s") auto

lemma specials_chars: "(p, b) \<in> set specials \<Longrightarrow> p \<noteq> [] \<and> CHR ''_'' \<notin> set p \<and> list_all (\<lambda>c. \<not> is_slash c) p"
  by (auto simp: specials_def is_slash_def)

lemma upper_slash: "is_slash c \<Longrightarrow> to_upper c = c \<and> ends_name c \<and> \<not> 49 \<le> code c \<or> is_slash c \<and> to_upper c = c \<and> ends_name c \<and> 57 < code c"
  by (auto simp: is_slash_def to_upper_def ends_name_def code_def)

lemma device_component:
  assumes "list_all (\<lambda>c. \<not> is_slash c) p"
  shows "device p b (component s) \<longleftrightarrow> device p b s"
proof -
  obtain r where r: "s = component s @ r" "r = [] \<or> is_slash (hd r)"
    using takeWhile_dropWhile_id [of "\<lambda>c. \<not> is_slash c" s] hd_dropWhile [of "\<lambda>c. \<not> is_slash c" s] unfolding component_def by metis
  define c where "c = component s"
  have c: "s = c @ r" "list_all (\<lambda>x. \<not> is_slash x) c" using r by (auto simp: c_def component_def list_all_iff dest: set_takeWhileD)
  show ?thesis
  proof (cases r)
    case Nil
    then have "component s = s" using c(1) c_def by simp
    then show ?thesis by simp
  next
    case (Cons x r')
    then have x: "is_slash x" "to_upper x = x" "ends_name x" "\<not> (49 \<le> code x \<and> code x \<le> 57)" using r(2) upper_slash [of x] by auto
    have t: "take (length p) (map to_upper s) = p \<longleftrightarrow> take (length p) (map to_upper c) = p \<and> length p \<le> length c"
    proof (cases "length p \<le> length c")
      case False
      then have "length c < length p" by simp
      have "take (length p) (map to_upper s) \<noteq> p"
      proof
        assume "take (length p) (map to_upper s) = p"
        then have "p ! length c = take (length p) (map to_upper s) ! length c" by simp
        also have "\<dots> = x" using \<open>length c < length p\<close> c(1) Cons x(2) by (simp add: nth_append)
        finally have "is_slash (p ! length c)" using x(1) by simp
        then show False using assms \<open>length c < length p\<close> by (simp add: list_all_length)
      qed
      moreover have "\<not> length p \<le> length c" using False .
      ultimately show ?thesis by simp
    qed (use c in simp)
    have u: "take (length p) (map to_upper c) = p \<Longrightarrow> length p \<le> length c" by (metis length_map length_take min.cobounded1)
    have at: "s ! k = (if k < length c then c ! k else x)" if "k \<le> length c" for k using that c(1) Cons by (simp add: nth_append)
    show ?thesis
    proof (cases "take (length p) (map to_upper c) = p")
      case False
      then show ?thesis using t by (simp add: device_def Let_def c_def [symmetric])
    next
      case True
      note l = u [OF True]
      have d: "(length p < length s \<and> 49 \<le> code (s ! length p) \<and> code (s ! length p) \<le> 57) \<longleftrightarrow>
          (length p < length c \<and> 49 \<le> code (c ! length p) \<and> code (c ! length p) \<le> 57)"
        using l at [OF l] x(4) c(1) by auto
      have f: "(length s \<le> j \<or> ends_name (s ! j)) \<longleftrightarrow> (length c \<le> j \<or> ends_name (c ! j))" if "j \<le> length c" for j
        using at [OF that] x(3) that c(1) Cons by auto
      show ?thesis unfolding device_def Let_def c_def [symmetric] using True t l d f [of "length p"] f [of "length p + 1"] by (cases b) auto
    qed
  qed
qed

lemma reserved_component: "reserved (component s) \<longleftrightarrow> reserved s"
  using device_component specials_chars unfolding reserved_def list_ex_iff by fastforce

text \<open>What a bad character becomes.\<close>

definition cleaned :: "char \<Rightarrow> char" where
  "cleaned c = (if bad_char c then CHR ''_'' else c)"

lemma cleaned_facts:
  "\<not> bad_char (cleaned c)" "is_slash (cleaned c) \<longleftrightarrow> is_slash c" "to_upper (cleaned c) \<noteq> CHR ''_'' \<Longrightarrow> cleaned c = c"
  "49 \<le> code (cleaned c) \<and> code (cleaned c) \<le> 57 \<Longrightarrow> cleaned c = c" "ends_name (cleaned c) \<Longrightarrow> cleaned c = c"
  by (auto simp: cleaned_def bad_char_def is_slash_def to_upper_def ends_name_def code_def split: if_splits)

lemma device_cleaned:
  assumes "CHR ''_'' \<notin> set p" "device p b (map cleaned s)"
  shows "device p b s"
proof -
  define n where "n = length p"
  have d: "take n (map to_upper (map cleaned s)) = p" "b \<longrightarrow> n < length s \<and> 49 \<le> code (map cleaned s ! n) \<and> code (map cleaned s ! n) \<le> 57"
    "length s \<le> (if b then n + 1 else n) \<or> ends_name (map cleaned s ! (if b then n + 1 else n))"
    using assms(2) by (auto simp: device_def Let_def n_def split: if_splits)
  have "cleaned (s ! k) = s ! k" if "k < n" "k < length s" for k
  proof -
    have "p ! k = to_upper (cleaned (s ! k))" using that d(1) by (metis length_map nth_map nth_take)
    moreover have "p ! k \<noteq> CHR ''_''" using that assms(1) by (metis n_def nth_mem)
    ultimately show ?thesis using cleaned_facts(3) by metis
  qed
  then have "take n (map to_upper (map cleaned s)) = take n (map to_upper s)" by (intro nth_equalityI) simp_all
  moreover have "b \<longrightarrow> n < length s \<and> 49 \<le> code (s ! n) \<and> code (s ! n) \<le> 57" using d(2) cleaned_facts(4) by (metis nth_map)
  moreover have "length s \<le> (if b then n + 1 else n) \<or> ends_name (s ! (if b then n + 1 else n))"
  proof (cases "length s \<le> (if b then n + 1 else n)")
    case False
    then show ?thesis using d(3) cleaned_facts(5) by (metis nth_map not_le)
  qed simp
  ultimately show ?thesis using d(1) by (simp add: device_def Let_def n_def split: if_splits)
qed

lemma reserved_cleaned: "reserved (map cleaned s) \<Longrightarrow> reserved s"
  unfolding reserved_def list_ex_iff using device_cleaned specials_chars by fastforce

lemma reserved_head: "reserved s \<Longrightarrow> s \<noteq> [] \<and> to_upper (hd s) \<in> set ''ACLNP.''"
proof -
  assume "reserved s"
  then obtain p b where p: "(p, b) \<in> set specials" "device p b s" by (auto simp: reserved_def list_ex_iff)
  then have "p \<noteq> []" "take (length p) (map to_upper s) = p" using specials_chars by (auto simp: device_def Let_def)
  then have "s \<noteq> []" "to_upper (hd s) = hd p" by (metis take_Nil list.map_disc_iff, metis hd_take list.map_disc_iff list.map_sel(1) length_greater_0_conv take_eq_Nil)
  then show ?thesis using p(1) by (auto simp: specials_def)
qed

lemma special_device: "sanitizeSpecialFile s 0 p b r = (if device p b s then r # drop (if b then length p + 1 else length p) s else s)"
  by (auto simp: sanitizeSpecialFile_def device_def Let_def)

lemma device_head: "p \<noteq> [] \<Longrightarrow> device p b s \<Longrightarrow> s \<noteq> [] \<and> to_upper (hd s) = hd p"
  by (cases s; cases p) (auto simp: device_def Let_def)

lemma check_special_cases:
  assumes "s \<noteq> []"
  shows "if reserved s then \<exists>n. check_special s 0 CHR ''_'' = CHR ''_'' # drop n s \<and> 0 < n else check_special s 0 CHR ''_'' = s"
proof -
  have u: "to_upper CHR ''_'' = CHR ''_''" by code_simp
  have d: "\<not> device p b s" if "p \<noteq> []" "hd p \<noteq> to_upper (hd s)" for p b using device_head [of p b s] that by auto
  have con: "\<not> device ''COM'' True (CHR ''_'' # t)" for t using device_head [of "''COM''" True "CHR ''_'' # t"] u by auto
  have c: "check_special s 0 CHR ''_'' =
      (case find (\<lambda>(p, b). device p b s) specials of Some (p, b) \<Rightarrow> CHR ''_'' # drop (if b then length p + 1 else length p) s | None \<Rightarrow> s)"
    using assms d [of "''AUX''"] d [of "''CON''"] d [of "''COM''"] d [of "''LPT''"] d [of "''NUL''"] d [of "''PRN''"] d [of "''..''"]
    by (simp add: check_special_def Let_def special_device hd_conv_nth specials_def con split: if_splits)
  show ?thesis
  proof (cases "find (\<lambda>(p, b). device p b s) specials")
    case None
    then have "\<not> reserved s" by (auto simp: reserved_def list_ex_iff find_None_iff)
    then show ?thesis using c None by simp
  next
    case (Some x)
    obtain p b where x: "x = (p, b)" by fastforce
    then have "device p b s" "(p, b) \<in> set specials" using Some unfolding find_Some_iff by (metis case_prodD nth_mem)+
    then have "reserved s" "p \<noteq> []" using specials_chars by (auto simp: reserved_def list_ex_iff)
    then show ?thesis using c Some x by (auto intro!: exI [of _ "if b then length p + 1 else length p"])
  qed
qed

section \<open>The cleaned name\<close>

lemma clean_start: "component (clean CHR ''_'' False False s) = map cleaned (component s)"
proof (induction s)
  case Nil
  then show ?case by (simp add: clean.simps component_def)
next
  case (Cons c s)
  have "\<not> is_slash CHR ''_''" by (simp add: is_slash_def)
  moreover have "is_slash c \<Longrightarrow> \<not> bad_char c" by (auto simp: is_slash_def bad_char_def code_def)
  ultimately show ?case using Cons by (subst clean.simps) (auto simp: Let_def component_def cleaned_def)
qed

lemma clean_safe:
  defines "ok \<equiv> \<lambda>first check w. list_all (\<lambda>c. \<not> bad_char c) w \<and> (first \<longrightarrow> w = [] \<or> \<not> is_slash (hd w)) \<and>
    list_all (\<lambda>c. \<not> reserved c) (tl (components w)) \<and> (check \<longrightarrow> \<not> reserved w)"
  shows "ok first check (clean CHR ''_'' first check s)"
proof (induction "CHR ''_''" first check s rule: clean.induct)
  case (1 first check s)
  have u: "\<not> bad_char CHR ''_''" "\<not> is_slash CHR ''_''" by (auto simp: bad_char_def is_slash_def code_def)
  have r: "\<not> reserved (CHR ''_'' # w)" for w using reserved_head [of "CHR ''_'' # w"] by (auto simp: to_upper_def code_def)
  show ?case
  proof (cases "s = []")
    case True
    moreover have "\<not> reserved []" using reserved_head by blast
    ultimately show ?thesis by (subst clean.simps) (simp add: ok_def)
  next
    case False
    define t where "t = (if check then check_special s 0 CHR ''_'' else s)"
    have t: "t \<noteq> []" "check \<Longrightarrow> \<not> reserved t" using check_special_cases [OF False] False r by (auto simp: t_def split: if_splits)
    define c t' where "c = hd t" and "t' = tl t"
    have c: "t = c # t'" using t(1) by (simp add: c_def t'_def)
    have e: "clean CHR ''_'' first check s =
        (if bad_char c \<or> is_slash c \<and> first then CHR ''_'' # clean CHR ''_'' False False t' else c # clean CHR ''_'' False (is_slash c) t')"
      using False by (subst clean.simps) (simp add: t_def [symmetric] c_def t'_def Let_def)
    show ?thesis
    proof (cases "bad_char c \<or> is_slash c \<and> first")
      case True
      then have "ok False False (clean CHR ''_'' False False t')" using 1(1) [OF False t_def c_def] by (simp add: t'_def)
      then show ?thesis unfolding e using True u r by (simp add: ok_def)
    next
      case n: False
      then have ih: "ok False (is_slash c) (clean CHR ''_'' False (is_slash c) t')" using 1(2) [OF False t_def c_def] by (simp add: t'_def)
      have b: "\<not> bad_char c" "first \<Longrightarrow> \<not> is_slash c" using n by auto
      show ?thesis
      proof (cases "is_slash c")
        case True
        let ?w = "clean CHR ''_'' False True t'"
        have "component (c # ?w) = []" using True by (simp add: component_def)
        then have "\<not> reserved (c # ?w)" using reserved_component reserved_head by metis
        moreover have "\<not> reserved (component ?w)" using ih True by (simp add: ok_def reserved_component)
        ultimately show ?thesis unfolding e using n b True ih by (simp add: ok_def list_all_components)
      next
        case f: False
        let ?w = "clean CHR ''_'' False False t'"
        have "component (c # ?w) = map cleaned (component t)" using clean_start [of t'] f b by (simp add: c component_def cleaned_def)
        then have "check \<Longrightarrow> \<not> reserved (c # ?w)" using t(2) reserved_cleaned [of "component t"] reserved_component by metis
        then show ?thesis unfolding e using n b f ih by (simp add: ok_def)
      qed
    qed
  qed
qed

lemma clean_id:
  "list_all (\<lambda>c. \<not> bad_char c) s \<Longrightarrow> (first \<Longrightarrow> s = [] \<or> \<not> is_slash (hd s)) \<Longrightarrow> list_all (\<lambda>c. \<not> reserved c) (tl (components s)) \<Longrightarrow>
    (check \<Longrightarrow> \<not> reserved s) \<Longrightarrow> clean CHR ''_'' first check s = s"
proof (induction s arbitrary: first check)
  case Nil
  then show ?case by (simp add: clean.simps)
next
  case (Cons c s)
  have t: "(if check then check_special (c # s) 0 CHR ''_'' else c # s) = c # s" using check_special_cases [of "c # s"] Cons(5) by auto
  have "clean CHR ''_'' False (is_slash c) s = s"
  proof (rule Cons(1))
    show "list_all (\<lambda>c. \<not> reserved c) (tl (components s))" using Cons(4) list_all_components [of _ s] by (auto split: if_splits)
    show "\<not> reserved s" if "is_slash c" using Cons(4) that list_all_components [of "\<lambda>c. \<not> reserved c" s] by (simp add: reserved_component)
  qed (use Cons(2) in auto)
  then show ?case using Cons(2,3) by (subst clean.simps) (auto simp: t Let_def)
qed

lemma clean_length: "length (clean r first check s) \<le> length s"
proof (induction r first check s rule: clean.induct)
  case (1 r first check s)
  show ?case
  proof (cases "s = []")
    case False
    then have "0 < length s" by simp
    define t where "t = (if check then check_special s 0 r else s)"
    have t: "length t \<le> length s" "t \<noteq> []" using check_special_length [OF \<open>0 < length s\<close>, of r] False by (auto simp: t_def)
    define u where "u = (if bad_char (hd t) \<or> is_slash (hd t) \<and> first then r # clean r False False (tl t) else hd t # clean r False (is_slash (hd t)) (tl t))"
    have "clean r first check s = u" using False by (subst clean.simps) (simp add: t_def [symmetric] u_def Let_def)
    moreover have "length u \<le> Suc (length (tl t))" using 1 [OF False t_def refl] by (auto simp: u_def)
    ultimately show ?thesis using t by (cases t) auto
  qed (simp add: clean.simps)
qed

text \<open>A file name that \<open>sanitize_filename\<close> has cleaned has at most 255 characters, no control character and none that is special on Windows, is relative, and no component of it is the parent directory or a device, with or without an extension; names that are already safe, and only those, are left as they are.\<close>

theorem sanitize_filename_safe:
  "safe_name (sanitize_filename s CHR ''_'') \<and> ''..'' \<notin> set (components (sanitize_filename s CHR ''_''))
    \<and> (sanitize_filename s CHR ''_'' = s \<longleftrightarrow> safe_name s)"
proof -
  have e: "sanitize_filename u CHR ''_'' = clean CHR ''_'' True True (take 255 u)" for u
    using sanitize_loop_clean [of 0 "take 255 u" "CHR ''_''" True] by (simp add: sanitize_filename_def)
  have safe: "safe_name (sanitize_filename s CHR ''_'')"
    using clean_safe [of True True "take 255 s"] clean_length [of "CHR ''_''" True True "take 255 s"] unfolding e
    by (auto simp: safe_name_def list_all_components reserved_component)
  moreover have "reserved ''..''" by code_simp
  ultimately have "''..'' \<notin> set (components (sanitize_filename s CHR ''_''))" by (auto simp: safe_name_def list_all_iff)
  moreover have "sanitize_filename s CHR ''_'' = s" if "safe_name s"
    unfolding e using that clean_id [of s True True] by (auto simp: safe_name_def list_all_components reserved_component)
  ultimately show ?thesis using safe by metis
qed

end
