(* ===== verification/Http_Connection.thy ===== *)
theory Http_Connection
  imports Http_Wrapper Router_Blueprint
begin

text \<open>
  A connection of the HTTP server (\<open>crow::Connection\<close>) of an app without middlewares, which is what the
  engine uses: the parser's callbacks, the router, the application's handlers, the writing of the
  response, and the completions of reads.  Writes are synchronous; they fail when the socket is closed or
  the peer is gone.  The handlers of the application, the contents of files and the kind of a rule are
  parameters.  A handler either leaves the response open, to end it later, or ends it as its last act.
\<close>

section \<open>The connection\<close>

record ('h, 'd) http_server =
  server_router :: "'h router"
  server_strtod :: "'d strtod"
  run_rule :: "'h rule_object \<Rightarrow> 'd routing_params \<Rightarrow> request \<Rightarrow> response \<Rightarrow> response \<times> bool"
  run_catchall :: "'h catchall \<Rightarrow> request \<Rightarrow> response \<Rightarrow> response \<times> bool"
  is_websocket :: "'h rule_object \<Rightarrow> bool"
  stream_threshold :: nat
  server_name :: string
  file_content :: "string \<Rightarrow> string"

text \<open>
  \<open>done_error\<close> and \<open>cleared\<close> say what \<open>done()\<close> and \<open>clear()\<close> have done to the parser during a callback;
  \<open>sent\<close> are the writes; \<open>thrown\<close> is an exception that nobody catches, after which nothing is modelled.
\<close>

record 'd conn =
  wrap :: parser_object
  routing :: "'d routing_handle_result option"
  res :: response
  closing :: bool
  buffers :: string
  continue_requested :: bool
  need_to_call_after_handlers :: bool
  need_to_start_read_after_complete :: bool
  add_keep_alive :: bool
  complete_handler :: bool
  is_open :: bool
  peer_gone :: bool
  deadline :: bool
  reading :: bool
  handed_over :: bool
  sent :: "string list"
  done_error :: bool
  cleared :: bool
  thrown :: bool

definition new_conn :: "'d conn" where
  "new_conn =
     \<lparr>wrap = parser_object_init, routing = None, res = new_response 200, closing = False, buffers = [], continue_requested = False,
      need_to_call_after_handlers = False, need_to_start_read_after_complete = False, add_keep_alive = False, complete_handler = False,
      is_open = True, peer_gone = False, deadline = False, reading = False, handed_over = False, sent = [], done_error = False,
      cleared = False, thrown = False\<rparr>"

definition parser_clear :: "'d conn \<Rightarrow> 'd conn" where
  "parser_clear c = c\<lparr>wrap := clear (wrap c), cleared := True\<rparr>"

text \<open>\<open>start_deadline\<close> and \<open>do_read\<close>.\<close>

definition start_read :: "'d conn \<Rightarrow> 'd conn" where
  "start_read c = c\<lparr>deadline := True, reading := True\<rparr>"

definition start :: "'d conn \<Rightarrow> 'd conn" where
  "start c = start_read (c\<lparr>wrap := (clear (wrap c))\<lparr>base := react \<lparr>rc = 0, cb_errno = CHPE_OK, cb_clear = True\<rparr> (base (wrap c))\<rparr>\<rparr>)"

section \<open>Writing the response\<close>

definition writable :: "'d conn \<Rightarrow> bool" where
  "writable c \<longleftrightarrow> is_open c \<and> \<not> peer_gone c"

definition write_to :: "string \<Rightarrow> 'd conn \<Rightarrow> 'd conn" where
  "write_to s c = (if writable c then c\<lparr>sent := sent c @ [s]\<rparr> else c)"

definition do_write_sync :: "string \<Rightarrow> 'd conn \<Rightarrow> 'd conn" where
  "do_write_sync s c =
     (let c1 = (write_to s c)\<lparr>res := clear_response (res c)\<rparr>
      in if continue_requested c1 then c1\<lparr>continue_requested := False\<rparr> else parser_clear c1)"

text \<open>The body is sent in pieces, from memory that the first write has already cleared.\<close>

function send_pieces :: "string \<Rightarrow> 'd conn \<Rightarrow> 'd conn" where
  "send_pieces s c =
     (if s = [] then c
      else let c1 = do_write_sync (take 16384 s) c in if writable c then send_pieces (drop 16384 s) c1 else c1)"
  by pat_completeness auto
termination by (relation "measure (\<lambda>(s, c). length s)") auto

declare send_pieces.simps [simp del]

definition finish_write :: "'d conn \<Rightarrow> 'd conn" where
  "finish_write c =
     (let c1 = (if closing c then c\<lparr>is_open := False\<rparr> else c)
      in parser_clear (c1\<lparr>res := clear_response (end_response None (res c1)), buffers := []\<rparr>))"

definition do_write_static :: "('h, 'd) http_server \<Rightarrow> 'd conn \<Rightarrow> 'd conn" where
  "do_write_static sv c =
     (if \<not> writable c then c\<lparr>thrown := True\<rparr>
      else
        (let c1 = write_to (buffers c) c
         in finish_write (if file_stat (res c) \<noteq> None then send_pieces (file_content sv (file_path (res c))) c1 else c1)))"

definition do_write_general :: "('h, 'd) http_server \<Rightarrow> 'd conn \<Rightarrow> 'd conn" where
  "do_write_general sv c =
     (if length (body (res c)) < stream_threshold sv then
        (let text = buffers c @ body (res c); c1 = do_write_sync text (c\<lparr>buffers := text\<rparr>)
         in if need_to_start_read_after_complete c1 then start_read (c1\<lparr>need_to_start_read_after_complete := False\<rparr>) else c1)
      else finish_write (send_pieces (body (res c)) ((write_to (buffers c) c)\<lparr>deadline := False\<rparr>)))"

definition prepare_buffers :: "('h, 'd) http_server \<Rightarrow> 'd conn \<Rightarrow> 'd conn" where
  "prepare_buffers sv c =
     (let c1 = c\<lparr>complete_handler := False\<rparr>
      in if is_open c then
           (case write_header_into_buffer (add_keep_alive c) (server_name sv) (res c) of (r, text) \<Rightarrow> c1\<lparr>res := r, buffers := text\<rparr>)
         else c1)"

definition complete_request :: "('h, 'd) http_server \<Rightarrow> 'd conn \<Rightarrow> 'd conn" where
  "complete_request sv c =
     (let c1 = prepare_buffers sv (c\<lparr>need_to_call_after_handlers := False\<rparr>)
      in if is_static_type (res c1) then do_write_static sv c1 else do_write_general sv c1)"

text \<open>\<open>res.end()\<close>, with the completion handler that the connection has set.\<close>

definition conn_end :: "('h, 'd) http_server \<Rightarrow> 'd conn \<Rightarrow> 'd conn" where
  "conn_end sv c =
     (if completed (res c) then c
      else
        (let c1 = c\<lparr>res := end_before (res c)\<rparr>
         in if complete_handler c then (let c2 = complete_request sv c1 in c2\<lparr>res := end_after (res c2)\<rparr>) else c1))"

section \<open>Callbacks of the parser\<close>

definition all_methods :: "http_method list" where
  "all_methods =
     [Delete, Get, Head, Post, Put, Connect, Options, Trace, Patch, Purge, Copy, Lock, MkCol, Move, Propfind, Proppatch, Search, Unlock,
      Bind, Rebind, Unbind, Acl, Report, MkActivity, Checkout, Merge, MSearch, Notify, Subscribe, Unsubscribe, MkCalendar, Link, Unlink, Source]"

definition method_number :: "http_method \<Rightarrow> nat" where
  "method_number m = (case index_of (\<lambda>x. x = m) all_methods of Some i \<Rightarrow> i | None \<Rightarrow> InternalMethodCount)"

text \<open>
  \<open>done()\<close> inside of a callback for the URL or the headers: an end of the stream there is an error, unless
  the parser is between messages.
\<close>

definition stop_parsing :: "http_parser \<Rightarrow> 'd conn \<Rightarrow> 'd conn" where
  "stop_parsing q c =
     c\<lparr>done_error := (p_state q \<noteq> s_dead \<and> p_state q \<noteq> s_start_req \<and> p_state q \<noteq> s_body_identity_eof), need_to_call_after_handlers := True\<rparr>"

definition handle_url :: "('h, 'd) http_server \<Rightarrow> http_parser \<Rightarrow> 'd conn \<Rightarrow> 'd conn" where
  "handle_url sv q c =
     (case handle_initial (server_strtod sv) (server_router sv) (method_number (r_method (req (wrap c)))) (r_url (req (wrap c))) (res c) of
        (found, r) \<Rightarrow>
          let c1 = c\<lparr>routing := Some found, res := r\<rparr>
          in if found_rule found = 0 \<and> \<not> catch_all found \<and> (r_method (req (wrap c)) \<noteq> Options \<or> found_method found = Some InternalMethodCount)
             then complete_request sv (stop_parsing q c1) else c1)"

definition expect_100_continue :: string where
  "expect_100_continue = ''HTTP/1.1 100 Continue'' @ crlf @ crlf"

definition handle_header :: "('h, 'd) http_server \<Rightarrow> http_parser \<Rightarrow> 'd conn \<Rightarrow> 'd conn" where
  "handle_header sv q c =
     (let r = req (wrap c);
          c1 = (if http_ver_major r = 1 \<and> http_ver_minor r = 1 \<and> get_header_value (r_headers r) ''expect'' = ''100-continue''
                then do_write_sync expect_100_continue (c\<lparr>continue_requested := True, buffers := expect_100_continue\<rparr>) else c)
      in case routing c1 of
           Some f \<Rightarrow>
             if found_rule f = 0 \<and> \<not> catch_all f \<and> r_method (req (wrap c1)) = Options then complete_request sv (stop_parsing q c1) else c1
         | None \<Rightarrow> c1\<lparr>thrown := True\<rparr>)"

definition open_or_end :: "('h, 'd) http_server \<Rightarrow> response \<times> bool \<Rightarrow> 'd conn \<Rightarrow> 'd conn" where
  "open_or_end sv x c = (let c1 = c\<lparr>res := fst x\<rparr> in if snd x then conn_end sv c1 else c1)"

text \<open>\<open>Router::handle\<close>, with the calls of the handlers.\<close>

definition route_handle :: "('h, 'd) http_server \<Rightarrow> 'd conn \<Rightarrow> 'd conn" where
  "route_handle sv c =
     (case Option.bind (routing c) (handle_request (server_router sv) (r_url (req (wrap c)))) of
        None \<Rightarrow> c\<lparr>thrown := True\<rparr>
      | Some d \<Rightarrow>
          (case d of
             Run_Rule ob ps \<Rightarrow> open_or_end sv (run_rule sv ob ps (req (wrap c)) (res c)) c
           | Run_Catchall k \<Rightarrow> conn_end sv (open_or_end sv (run_catchall sv k (req (wrap c)) (res c)) c)
           | No_Handler \<Rightarrow> conn_end sv c
           | Redirect l \<Rightarrow> open_or_end sv (add_header ''Location'' l (assign (res c) (new_response 301)), True) c
           | Corrupted \<Rightarrow> c\<lparr>thrown := True\<rparr>))"

definition upgrade_connection :: "('h, 'd) http_server \<Rightarrow> 'd conn \<Rightarrow> 'd conn" where
  "upgrade_connection sv c =
     (case handle_upgrade (server_strtod sv) (server_router sv) (method_number (r_method (req (wrap c)))) (r_url (req (wrap c))) (res c) of
        (r, d) \<Rightarrow>
          let c1 = c\<lparr>closing := True, res := r\<rparr>
          in case d of
               Some (Run_Rule ob _) \<Rightarrow> if is_websocket sv ob then c1\<lparr>handed_over := True, is_open := False\<rparr> else c1\<lparr>res := answer 404 (res c1)\<rparr>
             | Some Corrupted \<Rightarrow> c1\<lparr>thrown := True\<rparr>
             | _ \<Rightarrow> c1)"

definition handle :: "('h, 'd) http_server \<Rightarrow> 'd conn \<Rightarrow> 'd conn" where
  "handle sv c =
     (let r = req (wrap c);
          v11 = (http_ver_major r = 1 \<and> http_ver_minor r = 1);
          c1 = c\<lparr>deadline := False, add_keep_alive := keep_alive r, closing := close_connection r\<rparr>
      in if v11 \<and> ci_count ''host'' (r_headers r) = 0 then
           complete_request sv (c1\<lparr>res := assign (res c1) (new_response 400), need_to_call_after_handlers := False\<rparr>)
         else if v11 \<and> r_upgrade r \<and> r_method r \<noteq> Options \<and> take 2 (get_header_value (r_headers r) ''upgrade'') \<noteq> ''h2'' then
           upgrade_connection sv c1
         else
           (let c2 = c1\<lparr>need_to_call_after_handlers := False, complete_handler := False\<rparr>
            in if \<not> completed (res c2) then
                 (let c3 = route_handle sv (c2\<lparr>complete_handler := True, need_to_call_after_handlers := True\<rparr>)
                  in if add_keep_alive c3 then c3\<lparr>res := set_header ''connection'' ''Keep-Alive'' (res c3)\<rparr> else c3)
               else complete_request sv c2))"

definition conn_event :: "('h, 'd) http_server \<Rightarrow> event \<times> http_parser \<Rightarrow> 'd conn \<Rightarrow> 'd conn" where
  "conn_event sv x c =
     (let c1 = c\<lparr>wrap := on_event (fst x) (snd x) (wrap c), done_error := False, cleared := False\<rparr>
      in case fst x of
           Url _ \<Rightarrow> handle_url sv (snd x) c1
         | Headers_Complete \<Rightarrow> handle_header sv (snd x) c1
         | Message_Complete \<Rightarrow> handle sv c1
         | _ \<Rightarrow> c1)"

definition conn_reaction :: "'d conn \<Rightarrow> reaction" where
  "conn_reaction c = \<lparr>rc = 0, cb_errno = (if done_error c then CHPE_INVALID_EOF_STATE else CHPE_OK), cb_clear = cleared c\<rparr>"

definition conn_callbacks :: "('h, 'd) http_server \<Rightarrow> 'd conn \<Rightarrow> callbacks" where
  "conn_callbacks sv c log q = conn_reaction (fold (conn_event sv) log c)"

text \<open>\<open>feed\<close> with these callbacks; \<open>None\<close> is a failed assertion of the parser.\<close>

definition conn_feed :: "('h, 'd) http_server \<Rightarrow> buffer \<Rightarrow> 'd conn \<Rightarrow> (bool \<times> 'd conn) option" where
  "conn_feed sv buf c =
     (if message_complete (wrap c) then Some (True, c)
      else (case http_parser_execute (conn_callbacks sv c) (base (wrap c)) [] buf of
              Assertion_Failed \<Rightarrow> None
            | Executed n q log \<Rightarrow>
                (let c1 = fold (conn_event sv) log c
                 in Some (p_errno q = CHPE_OK \<and> n = length (data buf), c1\<lparr>wrap := (wrap c1)\<lparr>base := q\<rparr>\<rparr>))))"

section \<open>Inputs\<close>

datatype conn_input = Received buffer | Read_Failed | Deadline_Passed | App_Ends "response \<Rightarrow> response"

definition conn_done :: "('h, 'd) http_server \<Rightarrow> 'd conn \<Rightarrow> 'd conn option" where
  "conn_done sv c = map_option snd (conn_feed sv \<lparr>data = [], data_addr = 0\<rparr> c)"

definition read_error :: "('h, 'd) http_server \<Rightarrow> 'd conn \<Rightarrow> 'd conn option" where
  "read_error sv c = map_option (\<lambda>c. c\<lparr>is_open := False\<rparr>) (conn_done sv (c\<lparr>deadline := False\<rparr>))"

definition after_read :: "('h, 'd) http_server \<Rightarrow> bool \<times> 'd conn \<Rightarrow> 'd conn option" where
  "after_read sv x =
     (let c = snd x
      in if \<not> (fst x \<and> is_open c) then read_error sv c
         else if closing c then conn_done sv (c\<lparr>deadline := False\<rparr>)
         else if \<not> need_to_call_after_handlers c then Some (start_read c)
         else Some (c\<lparr>need_to_start_read_after_complete := True\<rparr>))"

text \<open>A parser that is cleared outside of a callback.\<close>

definition settle_parser :: "'d conn \<Rightarrow> 'd conn" where
  "settle_parser c =
     (if cleared c then c\<lparr>wrap := (wrap c)\<lparr>base := react \<lparr>rc = 0, cb_errno = CHPE_OK, cb_clear = True\<rparr> (base (wrap c))\<rparr>, cleared := False\<rparr> else c)"

definition conn_step :: "('h, 'd) http_server \<Rightarrow> conn_input \<Rightarrow> 'd conn \<Rightarrow> 'd conn option" where
  "conn_step sv i c =
     (case i of
        Received buf \<Rightarrow>
          if reading c then Option.bind (conn_feed sv buf (c\<lparr>reading := False\<rparr>)) (after_read sv) else Some c
      | Read_Failed \<Rightarrow> if reading c then read_error sv (c\<lparr>reading := False\<rparr>) else Some c
      | Deadline_Passed \<Rightarrow> if deadline c then Some (c\<lparr>deadline := False, is_open := False\<rparr>) else Some c
      | App_Ends f \<Rightarrow>
          if complete_handler c \<and> \<not> completed (res c)
          then Some (settle_parser (conn_end sv (c\<lparr>res := f (res c), cleared := False\<rparr>))) else Some c)"

fun conn_run :: "('h, 'd) http_server \<Rightarrow> conn_input list \<Rightarrow> 'd conn \<Rightarrow> 'd conn option" where
  "conn_run sv [] c = Some c"
| "conn_run sv (i # is) c = Option.bind (conn_step sv i c) (conn_run sv is)"

end
