(* ===== verification/Http_Connection_Properties.thy ===== *)
theory Http_Connection_Properties
  imports Http_Connection
begin

text \<open>
  Properties of connections: they never fail an assertion, a pending read has a deadline, a request whose
  handler ends its response is answered once, and what a catch-all rule leaves behind.
\<close>

section \<open>Reading and waiting\<close>

text \<open>What the operations that write do to the two flags about reading.\<close>

definition at_rest :: "'d conn \<Rightarrow> bool" where
  "at_rest c \<longleftrightarrow> \<not> reading c \<and> \<not> need_to_start_read_after_complete c"

lemma at_rest_simps [simp]:
  "at_rest (c\<lparr>wrap := w\<rparr>) = at_rest c" "at_rest (c\<lparr>res := r\<rparr>) = at_rest c" "at_rest (c\<lparr>cleared := b\<rparr>) = at_rest c"
  "at_rest (c\<lparr>routing := f\<rparr>) = at_rest c" "at_rest (c\<lparr>closing := b\<rparr>) = at_rest c" "at_rest (c\<lparr>buffers := s\<rparr>) = at_rest c"
  "at_rest (c\<lparr>continue_requested := b\<rparr>) = at_rest c" "at_rest (c\<lparr>need_to_call_after_handlers := b\<rparr>) = at_rest c"
  "at_rest (c\<lparr>add_keep_alive := b\<rparr>) = at_rest c" "at_rest (c\<lparr>complete_handler := b\<rparr>) = at_rest c" "at_rest (c\<lparr>is_open := b\<rparr>) = at_rest c"
  "at_rest (c\<lparr>deadline := b\<rparr>) = at_rest c" "at_rest (c\<lparr>handed_over := b\<rparr>) = at_rest c" "at_rest (c\<lparr>sent := ss\<rparr>) = at_rest c"
  "at_rest (c\<lparr>done_error := b\<rparr>) = at_rest c" "at_rest (c\<lparr>thrown := b\<rparr>) = at_rest c"
  by (simp_all add: at_rest_def)

lemma at_rest_writes [simp]:
  "at_rest (parser_clear c) = at_rest c" "at_rest (write_to s c) = at_rest c" "at_rest (do_write_sync s c) = at_rest c"
  "at_rest (finish_write c) = at_rest c"
  by (simp_all add: parser_clear_def write_to_def do_write_sync_def Let_def finish_write_def)

lemma at_rest_pieces [simp]: "at_rest (send_pieces s c) = at_rest c"
  by (induction s c rule: send_pieces.induct) (subst send_pieces.simps, simp add: Let_def)





lemma at_rest_stop [simp]: "at_rest (stop_parsing q c) = at_rest c"
  by (simp add: stop_parsing_def)








text \<open>A completion handler is pending only while the request is.\<close>

definition pending_ok :: "'d conn \<Rightarrow> bool" where
  "pending_ok c \<longleftrightarrow> (complete_handler c \<longrightarrow> need_to_call_after_handlers c)"

lemma complete_handler_writes [simp]:
  "complete_handler (parser_clear c) = complete_handler c" "complete_handler (write_to s c) = complete_handler c"
  "complete_handler (do_write_sync s c) = complete_handler c" "complete_handler (finish_write c) = complete_handler c"
  "complete_handler (start_read c) = complete_handler c"
  by (simp_all add: parser_clear_def write_to_def do_write_sync_def Let_def finish_write_def start_read_def)

lemma complete_handler_pieces [simp]: "complete_handler (send_pieces s c) = complete_handler c"
  by (induction s c rule: send_pieces.induct) (subst send_pieces.simps, simp add: Let_def)


lemma pending_simps [simp]:
  "pending_ok (c\<lparr>res := r\<rparr>) = pending_ok c" "pending_ok (c\<lparr>wrap := w\<rparr>) = pending_ok c" "pending_ok (c\<lparr>closing := b\<rparr>) = pending_ok c"
  "pending_ok (c\<lparr>handed_over := b\<rparr>) = pending_ok c" "pending_ok (c\<lparr>is_open := b\<rparr>) = pending_ok c" "pending_ok (c\<lparr>thrown := b\<rparr>) = pending_ok c"
  "pending_ok (c\<lparr>deadline := b\<rparr>) = pending_ok c" "pending_ok (c\<lparr>add_keep_alive := b\<rparr>) = pending_ok c" "pending_ok (c\<lparr>routing := f\<rparr>) = pending_ok c"
  "pending_ok (c\<lparr>need_to_call_after_handlers := True\<rparr>)"
  by (simp_all add: pending_ok_def)











section \<open>The parser of a connection\<close>

lemma base_writes [simp]:
  "base (clear w) = base w" "base (wrap (parser_clear c)) = base (wrap c)" "base (wrap (write_to s c)) = base (wrap c)"
  "base (wrap (do_write_sync s c)) = base (wrap c)" "base (wrap (finish_write c)) = base (wrap c)" "base (wrap (start_read c)) = base (wrap c)"
  by (simp_all add: clear_def parser_clear_def write_to_def do_write_sync_def Let_def finish_write_def start_read_def)

lemma base_pieces [simp]: "base (wrap (send_pieces s c)) = base (wrap c)"
  by (induction s c rule: send_pieces.induct) (subst send_pieces.simps, simp add: Let_def)





section \<open>Reachable connections\<close>









text \<open>The end of a response may start a read, with its deadline.\<close>

lemma reading_writes [simp]:
  "reading (parser_clear c) = reading c" "reading (write_to s c) = reading c" "reading (do_write_sync s c) = reading c"
  "reading (finish_write c) = reading c"
  by (simp_all add: parser_clear_def write_to_def do_write_sync_def Let_def finish_write_def)

lemma reading_pieces [simp]: "reading (send_pieces s c) = reading c"
  by (induction s c rule: send_pieces.induct) (subst send_pieces.simps, simp add: Let_def)







definition empty_server :: "(nat, nat) http_server" where
  "empty_server = \<lparr>server_router = empty_router, server_strtod = (\<lambda>_. None), run_rule = (\<lambda>_ _ _ r. (r, True)), run_catchall = (\<lambda>_ _ r. (r, True)),
     is_websocket = (\<lambda>_. False), stream_threshold = 1048576, server_name = ''Crow'', file_content = (\<lambda>_. [])\<rparr>"


section \<open>One request\<close>

text \<open>A request that the connection passes to the router, and a socket on which an answer can be written at once.\<close>

definition routable :: "request \<Rightarrow> bool" where
  "routable r \<longleftrightarrow> \<not> r_upgrade r \<and> (http_ver_major r = 1 \<and> http_ver_minor r = 1 \<longrightarrow> ci_count ''host'' (r_headers r) \<noteq> 0)"

definition answerable :: "'d conn \<Rightarrow> bool" where
  "answerable c \<longleftrightarrow> writable c \<and> \<not> continue_requested c \<and> \<not> need_to_start_read_after_complete c"

lemma complete_small:
  assumes "answerable c" "file_path (res c) = []"
    and x: "write_header_into_buffer (add_keep_alive c) (server_name sv) (res c) = (r, out)" "length (body r) < stream_threshold sv"
  shows "complete_request sv c =
    parser_clear (c\<lparr>need_to_call_after_handlers := False, complete_handler := False, res := clear_response r, buffers := out @ body r,
      sent := sent c @ [out @ body r]\<rparr>)"
proof -
  have "file_path r = []" using x(1) assms(2) by (auto simp: write_header_into_buffer_def Let_def settle_status_def)
  then show ?thesis using assms
    by (simp add: complete_request_def prepare_buffers_def Let_def is_static_type_def do_write_general_def do_write_sync_def write_to_def
      answerable_def writable_def parser_clear_def)
qed

lemma cleared_response: "end_after (clear_response r) = new_response 200"
  by (simp add: end_after_def clear_response_def new_response_def)

lemma end_small:
  assumes "answerable c" "\<not> completed (res c)" "complete_handler c" "file_path (res c) = []"
    and x: "write_header_into_buffer (add_keep_alive c) (server_name sv) (end_before (res c)) = (r, out)" "length (body r) < stream_threshold sv"
  shows "conn_end sv c =
    parser_clear (c\<lparr>need_to_call_after_handlers := False, complete_handler := False, res := new_response 200, buffers := out @ body r,
      sent := sent c @ [out @ body r]\<rparr>)"
proof -
  define c1 where "c1 = c\<lparr>res := end_before (res c)\<rparr>"
  have "answerable c1" "file_path (res c1) = []" "add_keep_alive c1 = add_keep_alive c"
    using assms(1,4) by (simp_all add: c1_def answerable_def writable_def end_before_def Let_def set_header_def)
  then have "complete_request sv c1 =
    parser_clear (c1\<lparr>need_to_call_after_handlers := False, complete_handler := False, res := clear_response r, buffers := out @ body r,
      sent := sent c1 @ [out @ body r]\<rparr>)"
    using complete_small [of c1 sv r out] x by (simp add: c1_def)
  then show ?thesis using assms(2,3) by (simp add: conn_end_def c1_def [symmetric] Let_def) (simp add: c1_def parser_clear_def cleared_response)
qed

text \<open>The connection as \<open>Router::handle\<close> gets it.\<close>

definition handled :: "'d conn \<Rightarrow> 'd conn" where
  "handled c = c\<lparr>deadline := False, add_keep_alive := keep_alive (req (wrap c)), closing := close_connection (req (wrap c)),
     complete_handler := True, need_to_call_after_handlers := True\<rparr>"

definition keep_header :: "bool \<Rightarrow> response \<Rightarrow> response" where
  "keep_header b r = (if b then set_header ''connection'' ''Keep-Alive'' r else r)"

lemma handle_routable:
  assumes "routable (req (wrap c))" "\<not> completed (res c)"
  shows "handle sv c = (let c1 = route_handle sv (handled c) in c1\<lparr>res := keep_header (add_keep_alive c1) (res c1)\<rparr>)"
  using assms by (auto simp: handle_def routable_def Let_def handled_def keep_header_def)

lemma handle_completed:
  assumes "routable (req (wrap c))" "completed (res c)"
  shows "handle sv c = complete_request sv (c\<lparr>deadline := False, add_keep_alive := keep_alive (req (wrap c)), closing := close_connection (req (wrap c)),
      need_to_call_after_handlers := False, complete_handler := False\<rparr>)"
  using assms by (auto simp: handle_def routable_def Let_def)

lemma handled_simps: "answerable (handled c) = answerable c" "wrap (handled c) = wrap c" "res (handled c) = res c" "routing (handled c) = routing c"
  "add_keep_alive (handled c) = keep_alive (req (wrap c))" "complete_handler (handled c)" "sent (handled c) = sent c"
  by (simp_all add: handled_def answerable_def writable_def)

text \<open>C27: A request for a rule whose handler ends its response is answered by one write, of the head and the body that the handler has left; then the parser is ready for the next request, no handler is pending, and nothing of the response is left but the header that announces persistence.\<close>

theorem request_answered_once:
  assumes "routable (req (wrap c))" "answerable c" "\<not> completed (res c)" "routing c = Some f"
    and "handle_request (server_router sv) (r_url (req (wrap c))) f = Some (Run_Rule ob ps)"
    and r: "run_rule sv ob ps (req (wrap c)) (res c) = (r, True)" "\<not> completed r" "file_path r = []"
    and x: "write_header_into_buffer (keep_alive (req (wrap c))) (server_name sv) (end_before r) = (r', out)"
      "length (body r') < stream_threshold sv"
  shows "sent (handle sv c) = sent c @ [out @ body r'] \<and> wrap (handle sv c) = clear (wrap c) \<and> \<not> complete_handler (handle sv c) \<and>
    \<not> need_to_call_after_handlers (handle sv c) \<and> res (handle sv c) = keep_header (keep_alive (req (wrap c))) (new_response 200)"
proof -
  define c1 where "c1 = (handled c)\<lparr>res := r\<rparr>"
  have "route_handle sv (handled c) = conn_end sv c1"
    using assms(4,5) r(1) by (simp add: route_handle_def handled_simps open_or_end_def Let_def c1_def)
  also have "\<dots> = parser_clear (c1\<lparr>need_to_call_after_handlers := False, complete_handler := False, res := new_response 200,
      buffers := out @ body r', sent := sent c1 @ [out @ body r']\<rparr>)"
  proof (rule end_small)
    show "answerable c1" using assms(2) by (simp add: c1_def handled_def answerable_def writable_def)
  qed (use r x in \<open>simp_all add: c1_def handled_simps\<close>)
  finally show ?thesis
    by (simp add: handle_routable [OF assms(1,3)] Let_def parser_clear_def c1_def handled_simps)
qed

definition one_rule_server :: "(nat, nat) http_server" where
  "one_rule_server = empty_server\<lparr>server_router := \<lparr>per_methods = [\<lparr>rules = [None, None, Some \<lparr>handler = 7, mw_indices = []\<rparr>], trie = empty_node\<rparr>],
     bp_list = [], global_catchall = True\<rparr>\<rparr>"

definition found_conn :: "bool \<Rightarrow> nat conn" where
  "found_conn b = new_conn\<lparr>routing := Some \<lparr>found_rule = 2, blueprint_indices = [], r_params = no_params, catch_all = b, found_method = Some 0\<rparr>\<rparr>"

lemma found_conn_facts:
  "routable (req (wrap (found_conn b)))" "answerable (found_conn b)" "\<not> completed (res (found_conn b))" "res (found_conn b) = new_response 200"
  "routing (found_conn b) = Some \<lparr>found_rule = 2, blueprint_indices = [], r_params = no_params, catch_all = b, found_method = Some 0\<rparr>"
  "sent (found_conn b) = []"
  by (simp_all add: found_conn_def new_conn_def parser_object_init_def empty_request_def routable_def answerable_def writable_def new_response_def)

lemma plain_answer:
  obtains r' out where "write_header_into_buffer b n (end_before (new_response 200)) = (r', out)" "body r' = []"
proof -
  obtain r' out where x: "write_header_into_buffer b n (end_before (new_response 200)) = (r', out)" by fastforce
  then have "body r' = []"
    by (auto simp: write_header_into_buffer_def Let_def settle_status_def end_before_def new_response_def statusCodes_def)
  with x show ?thesis by (rule that)
qed

lemma request_answered_once_witness:
  "\<exists>out. sent (handle one_rule_server (found_conn False)) = [out] \<and> \<not> complete_handler (handle one_rule_server (found_conn False))"
proof -
  obtain r' out where x: "write_header_into_buffer (keep_alive (req (wrap (found_conn False)))) (server_name one_rule_server) (end_before (new_response 200)) = (r', out)"
    "body r' = []" by (rule plain_answer)
  have hr: "handle_request (server_router one_rule_server) (r_url (req (wrap (found_conn False))))
      \<lparr>found_rule = 2, blueprint_indices = [], r_params = no_params, catch_all = False, found_method = Some 0\<rparr> = Some (Run_Rule \<lparr>handler = 7, mw_indices = []\<rparr> no_params)"
    by (simp add: handle_request_def one_rule_server_def vector_at_def RULE_SPECIAL_REDIRECT_SLASH_def)
  then show ?thesis
    using request_answered_once [OF found_conn_facts(1,2,3,5) hr, where r = "new_response 200" and r' = r' and out = out] x found_conn_facts
    by (simp add: one_rule_server_def empty_server_def new_response_def)
qed

text \<open>A catch-all handler that ends its response leaves a response that counts as completed, because it is ended a second time; the next request on the connection then runs no handler at all, whatever its rule, and is answered with an empty response of status 200.\<close>

theorem catchall_poisons_next:
  assumes "routable (req (wrap c))" "answerable c" "\<not> completed (res c)" "routing c = Some f"
    and "handle_request (server_router sv) (r_url (req (wrap c))) f = Some (Run_Catchall k)"
    and r: "run_catchall sv k (req (wrap c)) (res c) = (r, True)" "\<not> completed r" "file_path r = []"
    and x: "write_header_into_buffer (keep_alive (req (wrap c))) (server_name sv) (end_before r) = (r', out)"
      "length (body r') < stream_threshold sv"
    and next_request: "routable (req w)"
  shows "completed (res (handle sv c)) \<and>
    (case write_header_into_buffer (keep_alive (req w)) (server_name sv) (res (handle sv c)) of (r2, head) \<Rightarrow>
      status_code r2 = 200 \<and> body r2 = [] \<and> sent (handle sv ((handle sv c)\<lparr>wrap := w, routing := f2\<rparr>)) = sent c @ [out @ body r', head])"
proof -
  define c1 where "c1 = (handled c)\<lparr>res := r\<rparr>"
  define c2 where "c2 = parser_clear (c1\<lparr>need_to_call_after_handlers := False, complete_handler := False, res := new_response 200,
      buffers := out @ body r', sent := sent c1 @ [out @ body r']\<rparr>)"
  have a: "answerable c1" using assms(2) by (simp add: c1_def handled_def answerable_def writable_def)
  have e: "conn_end sv c1 = c2" unfolding c2_def by (rule end_small) (use a r x in \<open>simp_all add: c1_def handled_simps\<close>)
  have "route_handle sv (handled c) = conn_end sv c2"
    using assms(4,5) r(1) e by (simp add: route_handle_def handled_simps open_or_end_def Let_def c1_def)
  also have "\<dots> = c2\<lparr>res := (new_response 200)\<lparr>completed := True\<rparr>\<rparr>"
    by (simp add: conn_end_def c2_def parser_clear_def Let_def end_before_def new_response_def)
  finally have h: "handle sv c = c2\<lparr>res := keep_header (keep_alive (req (wrap c))) ((new_response 200)\<lparr>completed := True\<rparr>)\<rparr>"
    by (simp add: handle_routable [OF assms(1,3)] Let_def c2_def c1_def parser_clear_def handled_simps)
  let ?res = "keep_header (keep_alive (req (wrap c))) ((new_response 200)\<lparr>completed := True\<rparr>)"
  have res: "status_code ?res = 200" "body ?res = []" "completed ?res" "file_path ?res = []" "map_of statusCodes 200 = Some ''200 OK''"
    by (simp_all add: keep_header_def set_header_def Let_def new_response_def statusCodes_def)
  obtain r2 head where w: "write_header_into_buffer (keep_alive (req w)) (server_name sv) ?res = (r2, head)" by fastforce
  then have r2: "status_code r2 = 200" "body r2 = []" using res by (auto simp: write_header_into_buffer_def settle_status_def Let_def)
  define c3 where "c3 = (handle sv c)\<lparr>wrap := w, routing := f2\<rparr>"
  define c4 where "c4 = c3\<lparr>deadline := False, add_keep_alive := keep_alive (req w), closing := close_connection (req w),
      need_to_call_after_handlers := False, complete_handler := False\<rparr>"
  have "wrap c3 = w" "completed (res c3)" using res(3) by (simp_all add: c3_def h)
  then have "handle sv c3 = complete_request sv c4" using handle_completed [of c3 sv] next_request by (simp add: c4_def)
  moreover have "answerable c4" using a by (simp add: c4_def c3_def h c2_def parser_clear_def answerable_def writable_def)
  moreover have "length (body r2) < stream_threshold sv" using x(2) r2 by simp
  ultimately have "sent (handle sv c3) = sent c4 @ [head @ body r2]"
    using complete_small [of c4 sv r2 head] w res(4) by (simp add: c4_def c3_def h parser_clear_def)
  then have "sent (handle sv c3) = sent c @ [out @ body r', head]"
    using r2(2) by (simp add: c4_def c3_def h c2_def parser_clear_def c1_def handled_simps)
  then show ?thesis using res(3) w r2 by (simp add: h c3_def)
qed

lemma catchall_poisons_next_witness:
  "\<exists>out head. sent (handle one_rule_server ((handle one_rule_server (found_conn True))\<lparr>wrap := wrap (found_conn False), routing := routing (found_conn False)\<rparr>))
    = [out, head] \<and> completed (res (handle one_rule_server (found_conn True)))"
proof -
  obtain r' out where x: "write_header_into_buffer (keep_alive (req (wrap (found_conn True)))) (server_name one_rule_server) (end_before (new_response 200)) = (r', out)"
    "body r' = []" by (rule plain_answer)
  have hr: "handle_request (server_router one_rule_server) (r_url (req (wrap (found_conn True))))
      \<lparr>found_rule = 2, blueprint_indices = [], r_params = no_params, catch_all = True, found_method = Some 0\<rparr> = Some (Run_Catchall Global_Catchall)"
    by (simp add: handle_request_def one_rule_server_def get_catch_all_def get_found_bp.simps has_handler_def)
  then show ?thesis
    using catchall_poisons_next [OF found_conn_facts(1,2,3,5) hr, where r = "new_response 200" and r' = r' and out = out
        and w = "wrap (found_conn False)" and ?f2.0 = "routing (found_conn False)"] x found_conn_facts
    by (simp add: one_rule_server_def empty_server_def new_response_def split: prod.splits)
qed

section \<open>A URL in two reads\<close>

lemma not_found_status:
  assumes "m < InternalMethodCount" "m \<noteq> Head_Method" "m \<noteq> Options_Method" "m < length (per_methods r)"
    and "list_all (\<lambda>pm. found_rule (trie_find strtod url (trie pm)) = 0) (per_methods r)"
  shows "handle_initial strtod r m url x = ((result_from (find_in strtod r m url))\<lparr>catch_all := True\<rparr>, x\<lparr>status_code := 404\<rparr>)"
proof -
  have "found_rule (find_in strtod r m url) = 0" using assms(4,5) by (simp add: find_in_def list_all_length)
  moreover have "\<not> list_ex (\<lambda>pm. found_rule (trie_find strtod url (trie pm)) \<noteq> 0) (per_methods r)"
    using assms(5) by (auto simp: list_all_iff list_ex_iff)
  ultimately show ?thesis using assms(1-3) by (simp add: handle_initial_def Let_def)
qed

lemma found_status:
  assumes "m < InternalMethodCount" "m \<noteq> Head_Method" "m \<noteq> Options_Method" "found_rule (find_in strtod r m url) \<noteq> 0"
  shows "handle_initial strtod r m url x = ((result_from (find_in strtod r m url))\<lparr>found_method := Some m\<rparr>, x)"
  using assms by (simp add: handle_initial_def Let_def)

text \<open>The router is asked for every piece of a URL that arrives. When the first piece matches no rule, the status 404 that this sets stays in the response that the handler of the complete URL gets.\<close>

theorem split_url_status:
  assumes "m = method_number (r_method (req (wrap c)))" "r_method (req w) = r_method (req (wrap c))"
    and m: "m < InternalMethodCount" "m \<noteq> Head_Method" "m \<noteq> Options_Method" "m < length (per_methods (server_router sv))"
    and "list_all (\<lambda>pm. found_rule (trie_find (server_strtod sv) (r_url (req (wrap c))) (trie pm)) = 0) (per_methods (server_router sv))"
    and "found_rule (find_in (server_strtod sv) (server_router sv) m (r_url (req w))) \<noteq> 0"
  shows "case handle_url sv q' ((handle_url sv q c)\<lparr>wrap := w\<rparr>) of c2 \<Rightarrow>
    status_code (res c2) = 404 \<and> (\<exists>f. routing c2 = Some f \<and> found_rule f \<noteq> 0 \<and> \<not> catch_all f)"
proof -
  define f1 where "f1 = (result_from (find_in (server_strtod sv) (server_router sv) m (r_url (req (wrap c)))))\<lparr>catch_all := True\<rparr>"
  define f2 where "f2 = (result_from (find_in (server_strtod sv) (server_router sv) m (r_url (req w))))\<lparr>found_method := Some m\<rparr>"
  have "handle_url sv q c = c\<lparr>routing := Some f1, res := (res c)\<lparr>status_code := 404\<rparr>\<rparr>"
    using assms(1) not_found_status [OF m assms(7), of "res c"] by (simp add: handle_url_def Let_def f1_def)
  moreover have "found_rule f2 \<noteq> 0" "\<not> catch_all f2" using assms(8) by (simp_all add: f2_def result_from_def)
  moreover have "handle_initial (server_strtod sv) (server_router sv) m (r_url (req w)) r = (f2, r)" for r
    using found_status [OF m(1-3) assms(8)] by (simp add: f2_def)
  ultimately show ?thesis using assms(1,2) by (simp add: handle_url_def Let_def)
qed

definition split_server :: "(nat, nat) http_server" where
  "split_server = empty_server\<lparr>server_router := \<lparr>per_methods = [\<lparr>rules = [None, None, Some \<lparr>handler = 7, mw_indices = []\<rparr>],
     trie = Trie_Node 0 INVALID_BP_ID [] No_Param [Trie_Node 2 INVALID_BP_ID ''/ab'' No_Param []]\<rparr>], bp_list = [], global_catchall = True\<rparr>\<rparr>"

definition url_conn :: "string \<Rightarrow> nat conn" where
  "url_conn u = new_conn\<lparr>wrap := parser_object_init\<lparr>req := empty_request\<lparr>r_method := Delete, r_url := u\<rparr>\<rparr>\<rparr>"

lemma split_url_status_witness:
  "status_code (res (handle_url split_server http_parser_init ((handle_url split_server http_parser_init (url_conn ''/a''))\<lparr>wrap := wrap (url_conn ''/ab'')\<rparr>))) = 404"
proof -
  have r: "r_method (req (wrap (url_conn u))) = Delete" "r_url (req (wrap (url_conn u))) = u" for u by (simp_all add: url_conn_def)
  have n: "method_number Delete = 0" by (simp add: method_number_def all_methods_def)
  have c: "0 < InternalMethodCount" "0 \<noteq> Head_Method" "0 \<noteq> Options_Method"
    by (simp_all add: InternalMethodCount_def Head_Method_def Options_Method_def)
  have f: "found_rule (trie_find (\<lambda>_. None) ''/a'' (Trie_Node 0 INVALID_BP_ID [] No_Param [Trie_Node 2 INVALID_BP_ID ''/ab'' No_Param []]) :: nat found) = 0"
    "found_rule (trie_find (\<lambda>_. None) ''/ab'' (Trie_Node 0 INVALID_BP_ID [] No_Param [Trie_Node 2 INVALID_BP_ID ''/ab'' No_Param []]) :: nat found) = 2"
    by (simp_all add: trie_find_def take_fragment_def at_text_def update_found_def push_param_def pop_param_def no_params_def)
  then show ?thesis
    using split_url_status [of 0 "url_conn ''/a''" "wrap (url_conn ''/ab'')" split_server http_parser_init http_parser_init] r n c
    by (simp add: split_server_def empty_server_def find_in_def split: prod.splits)
qed

section \<open>Responses that are ended later\<close>

lemma pieces_sent:
  assumes "writable d" "\<not> continue_requested d"
  shows "concat (sent (send_pieces s d)) = concat (sent d) @ s"
  using assms
proof (induction s d rule: send_pieces.induct)
  case (1 s d)
  show ?case
  proof (cases "s = []")
    case False
    have "writable (do_write_sync (take 16384 s) d)" "\<not> continue_requested (do_write_sync (take 16384 s) d)"
      "sent (do_write_sync (take 16384 s) d) = sent d @ [take 16384 s]"
      using 1(2,3) by (simp_all add: do_write_sync_def write_to_def parser_clear_def Let_def writable_def)
    then show ?thesis using 1 False by (subst send_pieces.simps) (simp add: Let_def)
  qed (simp add: send_pieces.simps)
qed

text \<open>C28: When the application ends a response later than its handler, the response is written, and the connection goes on to read the next request under a new deadline, unless its body reaches the streaming threshold: then the whole response is written too, but nothing is read any more.\<close>

theorem late_end_resumes:
  assumes "writable c" "\<not> reading c" "\<not> continue_requested c" "need_to_start_read_after_complete c" "complete_handler c" "\<not> completed (res c)"
    and r: "\<not> completed (f (res c))" "file_path (f (res c)) = []"
    and x: "write_header_into_buffer (add_keep_alive c) (server_name sv) (end_before (f (res c))) = (r', out)"
  shows "\<exists>c'. conn_step sv (App_Ends f) c = Some c' \<and> concat (sent c') = concat (sent c) @ out @ body r' \<and>
    \<not> complete_handler c' \<and> res c' = new_response 200 \<and> p_state (base (wrap c')) = s_start_req \<and>
    (if length (body r') < stream_threshold sv then reading c' \<and> deadline c' else \<not> reading c')"
proof -
  define c1 where "c1 = c\<lparr>cleared := False, res := end_before (f (res c))\<rparr>"
  define c2 where "c2 = c1\<lparr>need_to_call_after_handlers := False, complete_handler := False, res := r', buffers := out\<rparr>"
  have "file_path r' = []"
    using x r(2) by (auto simp: write_header_into_buffer_def Let_def settle_status_def end_before_def set_header_def)
  then have "complete_request sv c1 = do_write_general sv c2"
    using x assms(1) by (simp add: complete_request_def prepare_buffers_def Let_def is_static_type_def c1_def c2_def writable_def)
  then have step: "conn_step sv (App_Ends f) c = Some (settle_parser ((do_write_general sv c2)\<lparr>res := end_after (res (do_write_general sv c2))\<rparr>))"
    using assms(5,6) r(1) by (simp add: conn_step_def conn_end_def Let_def c1_def)
  have c2: "writable c2" "\<not> continue_requested c2" "need_to_start_read_after_complete c2" "\<not> reading c2" "\<not> complete_handler c2"
    "sent c2 = sent c" "buffers c2 = out" "res c2 = r'"
    using assms by (simp_all add: c2_def c1_def writable_def)
  show ?thesis
  proof (cases "length (body r') < stream_threshold sv")
    case True
    then have "do_write_general sv c2 = start_read (c2\<lparr>buffers := out @ body r', sent := sent c @ [out @ body r'],
        res := clear_response r', wrap := clear (wrap c2), cleared := True, need_to_start_read_after_complete := False\<rparr>)"
      using c2 by (simp add: do_write_general_def Let_def do_write_sync_def write_to_def writable_def parser_clear_def)
    then show ?thesis unfolding step using True c2
      by (simp add: settle_parser_def start_read_def parser_clear_def react_def Let_def cleared_response)
  next
    case False
    define c3 where "c3 = (write_to out c2)\<lparr>deadline := False\<rparr>"
    have c3: "writable c3" "\<not> continue_requested c3" "\<not> reading c3" "\<not> complete_handler c3" "concat (sent c3) = concat (sent c) @ out"
      using c2 by (simp_all add: c3_def write_to_def writable_def)
    have g: "do_write_general sv c2 = finish_write (send_pieces (body r') c3)" using False c2 by (simp add: do_write_general_def c3_def)
    have "end_after (clear_response (end_response None r)) = new_response 200" for r
      by (simp add: end_response_def end_before_def end_after_def clear_response_def new_response_def set_header_def Let_def)
    then show ?thesis unfolding step g using False c3 pieces_sent [OF c3(1,2)]
      by (simp add: settle_parser_def finish_write_def parser_clear_def react_def Let_def)
  qed
qed

definition waiting_conn :: "nat conn" where
  "waiting_conn = new_conn\<lparr>need_to_start_read_after_complete := True, complete_handler := True, need_to_call_after_handlers := True\<rparr>"

lemma late_end_resumes_witness: "\<exists>c'. conn_step empty_server (App_Ends id) waiting_conn = Some c' \<and> reading c' \<and> deadline c'"
proof -
  obtain r' out where x: "write_header_into_buffer (add_keep_alive waiting_conn) (server_name empty_server) (end_before (new_response 200)) = (r', out)"
    "body r' = []" by (rule plain_answer)
  have "writable waiting_conn" "\<not> reading waiting_conn" "\<not> continue_requested waiting_conn" "need_to_start_read_after_complete waiting_conn"
    "complete_handler waiting_conn" "res waiting_conn = new_response 200" "\<not> completed (new_response 200)" "file_path (new_response 200) = []"
    by (simp_all add: waiting_conn_def new_conn_def writable_def new_response_def)
  then show ?thesis using late_end_resumes [of waiting_conn id empty_server r' out] x by (auto simp: empty_server_def)
qed

end
