(* ===== verification/Task_Timer.thy ===== *)
theory Task_Timer
  imports Prelude
begin

text \<open>
  The timer for deadlines (\<open>crow::detail::task_timer\<close>): tasks by identifier, each with the time at which
  it is due, in the order of \<open>std::map\<close>.  Times are in milliseconds; what a task does when it runs is left
  to the caller, who gets the tasks that \<open>process_tasks\<close> has run.
\<close>

record 'a task_timer =
  tasks :: "(nat \<times> int \<times> 'a) list"
  highest_id :: nat
  default_timeout :: nat
  tick_length :: int

definition new_timer :: "int \<Rightarrow> 'a task_timer" where
  "new_timer tick = \<lparr>tasks = [], highest_id = 0, default_timeout = 5, tick_length = tick\<rparr>"

definition cancel_task :: "nat \<Rightarrow> 'a task_timer \<Rightarrow> 'a task_timer" where
  "cancel_task i t = t\<lparr>tasks := filter (\<lambda>x. fst x \<noteq> i) (tasks t)\<rparr>"

text \<open>Insertion into a map keeps the order of the keys and does not replace an element.\<close>

fun insert_task :: "nat \<times> 'b \<Rightarrow> (nat \<times> 'b) list \<Rightarrow> (nat \<times> 'b) list" where
  "insert_task x [] = [x]"
| "insert_task x (y # ys) = (if fst x < fst y then x # y # ys else if fst x = fst y then y # ys else y # insert_task x ys)"

definition schedule_after :: "int \<Rightarrow> 'a \<Rightarrow> nat \<Rightarrow> 'a task_timer \<Rightarrow> nat \<times> 'a task_timer" where
  "schedule_after now task timeout t =
     (let i = highest_id t + 1
      in (i, t\<lparr>highest_id := i, tasks := insert_task (i, now + int timeout * tick_length t, task) (tasks t)\<rparr>))"

definition schedule_task :: "int \<Rightarrow> 'a \<Rightarrow> 'a task_timer \<Rightarrow> nat \<times> 'a task_timer" where
  "schedule_task now task t = schedule_after now task (default_timeout t) t"

definition set_default_timeout :: "nat \<Rightarrow> 'a task_timer \<Rightarrow> 'a task_timer" where
  "set_default_timeout timeout t = t\<lparr>default_timeout := timeout mod 256\<rparr>"

definition process_tasks :: "int \<Rightarrow> 'a task_timer \<Rightarrow> 'a list \<times> 'a task_timer" where
  "process_tasks now t =
     (let finished = filter (\<lambda>x. fst (snd x) < now) (tasks t);
          t1 = fold (\<lambda>x. cancel_task (fst x)) finished t
      in (map (\<lambda>x. snd (snd x)) finished, if tasks t1 = [] then t1\<lparr>highest_id := 0\<rparr> else t1))"

section \<open>What the timer promises\<close>

datatype 'a timer_op = Schedule int 'a | Schedule_After int 'a nat | Cancel nat | Tick int | Set_Timeout nat

fun timer_do :: "'a timer_op \<Rightarrow> 'a task_timer \<Rightarrow> 'a task_timer" where
  "timer_do (Schedule now a) t = snd (schedule_task now a t)"
| "timer_do (Schedule_After now a n) t = snd (schedule_after now a n t)"
| "timer_do (Cancel i) t = cancel_task i t"
| "timer_do (Tick now) t = snd (process_tasks now t)"
| "timer_do (Set_Timeout n) t = set_default_timeout n t"

definition timer_inv :: "'a task_timer \<Rightarrow> bool" where
  "timer_inv t \<longleftrightarrow> sorted_wrt (<) (map fst (tasks t)) \<and> (\<forall>x \<in> set (tasks t). fst x \<le> highest_id t)"

lemma insert_task_last: "\<forall>y \<in> set ys. fst y < fst x \<Longrightarrow> insert_task x ys = ys @ [x]"
  by (induction ys) auto

lemma cancel_all: "tasks (fold (\<lambda>x. cancel_task (fst x)) xs t) = filter (\<lambda>y. fst y \<notin> fst ` set xs) (tasks t)"
  "highest_id (fold (\<lambda>x. cancel_task (fst x)) xs t) = highest_id t"
  by (induction xs arbitrary: t) (auto simp: cancel_task_def intro: filter_cong)

lemma schedule_tasks:
  assumes "timer_inv t"
  shows "tasks (snd (schedule_after now a n t)) = tasks t @ [(highest_id t + 1, now + int n * tick_length t, a)]"
proof -
  have "\<forall>y \<in> set (tasks t). fst y < highest_id t + 1" using assms by (auto simp: timer_inv_def)
  then show ?thesis by (simp add: schedule_after_def Let_def insert_task_last)
qed

lemma sorted_filter: "sorted_wrt (<) (map fst (xs :: (nat \<times> 'b) list)) \<Longrightarrow> sorted_wrt (<) (map fst (filter P xs))"
  by (induction xs) auto

lemma process_tasks_rest:
  assumes "timer_inv t"
  shows "tasks (snd (process_tasks now t)) = filter (\<lambda>x. \<not> fst (snd x) < now) (tasks t)"
proof -
  have "distinct (map fst (tasks t))" using assms by (auto simp: timer_inv_def strict_sorted_iff)
  then have "x = y" if "x \<in> set (tasks t)" "y \<in> set (tasks t)" "fst x = fst y" for x y
    using that eq_key_imp_eq_value [of "tasks t" "fst x" "snd x" "snd y"] by (metis prod.collapse)
  then have "filter (\<lambda>y. fst y \<notin> fst ` set (filter (\<lambda>x. fst (snd x) < now) (tasks t))) (tasks t) = filter (\<lambda>x. \<not> fst (snd x) < now) (tasks t)"
    by (intro filter_cong) (auto, metis)
  then show ?thesis by (simp add: process_tasks_def Let_def cancel_all)
qed

lemma timer_inv_do:
  assumes "timer_inv t"
  shows "timer_inv (timer_do op t)"
proof -
  have s: "timer_inv (snd (schedule_after now a n t))" for now a n
    unfolding timer_inv_def schedule_tasks [OF assms] using assms by (auto simp: timer_inv_def sorted_wrt_append schedule_after_def Let_def)
  have h: "highest_id (snd (process_tasks now t)) = (if tasks (snd (process_tasks now t)) = [] then 0 else highest_id t)" for now
    by (simp add: process_tasks_def Let_def cancel_all)
  have p: "timer_inv (snd (process_tasks now t))" for now
  proof (cases "tasks (snd (process_tasks now t)) = []")
    case False
    then show ?thesis unfolding timer_inv_def h process_tasks_rest [OF assms] using assms by (auto simp: timer_inv_def sorted_filter)
  qed (simp add: timer_inv_def)
  show ?thesis using s p assms
    by (cases op) (auto simp: schedule_task_def cancel_task_def set_default_timeout_def timer_inv_def sorted_filter)
qed

lemma timer_inv_run: "timer_inv (fold timer_do ops (new_timer tick))"
proof -
  have "timer_inv t \<Longrightarrow> timer_inv (fold timer_do ops t)" for t
    by (induction ops arbitrary: t) (simp_all add: timer_inv_do)
  then show ?thesis by (simp add: new_timer_def timer_inv_def)
qed

lemma filter_key: "distinct (map fst xs) \<Longrightarrow> length xs \<le> length (filter (\<lambda>x. fst x \<noteq> i) xs) + 1"
proof (induction xs)
  case (Cons x xs)
  have "filter (\<lambda>x. fst x \<noteq> i) xs = xs" if "fst x = i" using Cons.prems that by (intro filter_True ballI) (metis distinct.simps(2) image_eqI list.simps(9) set_map)
  then show ?case using Cons by (cases "fst x = i") simp_all
qed simp

text \<open>After any operations, a task is scheduled under an identifier that no other scheduled task has; a tick runs exactly the tasks that are due, in the order in which they were scheduled, and keeps the others; cancelling removes at most the one task with that identifier.\<close>

theorem timer_correct:
  "case fold timer_do ops (new_timer tick) of t \<Rightarrow>
    fst (schedule_task now a t) \<notin> fst ` set (tasks t) \<and> tasks (snd (schedule_task now a t)) = tasks t @ [(fst (schedule_task now a t), now + int (default_timeout t) * tick_length t, a)] \<and>
    fst (process_tasks now t) = map (\<lambda>x. snd (snd x)) (filter (\<lambda>x. fst (snd x) < now) (tasks t)) \<and>
    tasks (snd (process_tasks now t)) = filter (\<lambda>x. \<not> fst (snd x) < now) (tasks t) \<and>
    length (tasks t) \<le> length (tasks (cancel_task i t)) + 1"
proof -
  define t where "t = fold timer_do ops (new_timer tick)"
  have inv: "timer_inv t" unfolding t_def by (rule timer_inv_run)
  have "distinct (map fst (tasks t))" using inv by (auto simp: timer_inv_def strict_sorted_iff)
  then have "length (tasks t) \<le> length (filter (\<lambda>x. fst x \<noteq> i) (tasks t)) + 1" by (rule filter_key)
  moreover have "fst (schedule_task now a t) = highest_id t + 1" by (simp add: schedule_task_def schedule_after_def Let_def)
  moreover have "highest_id t + 1 \<notin> fst ` set (tasks t)" using inv by (fastforce simp: timer_inv_def)
  ultimately show ?thesis
    unfolding t_def [symmetric] using process_tasks_rest [OF inv, of now] schedule_tasks [OF inv, of now a]
    by (simp add: schedule_task_def cancel_task_def) (simp add: process_tasks_def Let_def)
qed

text \<open>When a tick has run the last task, identifiers start again at one: the owner of a task that has run, who cancels it later, cancels the task of another that has been scheduled in the meantime.\<close>

theorem stale_cancel_hits_another:
  assumes "tasks t = [(1, due, a)]" "due < now" "schedule_task later b (snd (process_tasks now t)) = (i, t')"
  shows "i = 1 \<and> b \<in> (snd \<circ> snd) ` set (tasks t') \<and> tasks (cancel_task 1 t') = []"
proof -
  have "snd (process_tasks now t) = t\<lparr>tasks := [], highest_id := 0\<rparr>"
    using assms(1,2) by (simp add: process_tasks_def Let_def cancel_task_def)
  then show ?thesis using assms(3) by (auto simp: schedule_task_def schedule_after_def Let_def cancel_task_def)
qed

lemma stale_cancel_hits_another_witness:
  "tasks (cancel_task 1 (snd (schedule_task 7000 ''B'' (snd (process_tasks 6000 (snd (schedule_task 0 ''A'' (new_timer 1000)))))))) = []"
proof -
  have "tasks (snd (schedule_task 0 ''A'' (new_timer 1000))) = [(1, 5000, ''A'')]"
    by (simp add: schedule_task_def schedule_after_def new_timer_def)
  moreover obtain i t' where "schedule_task 7000 ''B'' (snd (process_tasks 6000 (snd (schedule_task 0 ''A'' (new_timer 1000))))) = (i, t')" by fastforce
  ultimately show ?thesis using stale_cancel_hits_another [of "snd (schedule_task 0 ''A'' (new_timer 1000))" 5000 "''A''" 6000 7000 "''B''" i t'] by simp
qed

end
