(* ===== verification/Middleware.thy ===== *)
theory Middleware
  imports Router_Blueprint
begin

text \<open>
  How the middlewares of an application are called around a handler (\<open>crow::detail\<close>,
  \<open>Router::handle_rule\<close> and the part of \<open>Connection\<close> that calls them).  The tuple of middlewares is a
  list, and the template recursion over its positions is recursion over that list.  The global middlewares surround
  every request, the local ones the rules that name them.  A middleware sees the request, the response
  and the contexts, which are the state \<open>'x\<close> next to the response; in an exchange that is the pair of the
  request and the contexts.
\<close>

section \<open>The calls\<close>

text \<open>Each function may end the response.\<close>

record 'x middleware =
  mw_global :: bool
  before_handle :: "response \<times> 'x \<Rightarrow> response \<times> 'x"
  after_handle :: "response \<times> 'x \<Rightarrow> response \<times> 'x"

text \<open>
  A criterion says for a middleware and its position whether it is called; it can have a state, the
  \<open>mutable int slider\<close> of \<open>middleware_call_criteria_dynamic\<close>.
\<close>

type_synonym ('x, 'c) criterion = "'x middleware \<Rightarrow> int \<Rightarrow> 'c \<Rightarrow> bool \<times> 'c"

definition only_global :: "('x, unit) criterion" where
  "only_global m i c = (mw_global m, ())"

definition dynamic_forward :: "int list \<Rightarrow> ('x, int) criterion" where
  "dynamic_forward indices m i slider =
     (if slider < int (length indices) \<and> indices ! nat slider = i then (True, slider + 1) else (False, slider))"

definition dynamic_reversed :: "int list \<Rightarrow> ('x, int) criterion" where
  "dynamic_reversed indices m i slider =
     (if 0 \<le> slider \<and> indices ! nat slider = i then (True, slider - 1) else (False, slider))"

text \<open>\<open>middleware_call_helper\<close> from position \<open>n\<close> on; the result says whether the response was ended.\<close>

fun middleware_call_helper ::
  "('x, 'c) criterion \<Rightarrow> int \<Rightarrow> 'x middleware list \<Rightarrow> 'c \<Rightarrow> response \<times> 'x \<Rightarrow> bool \<times> response \<times> 'x" where
  "middleware_call_helper cc n [] c s = (False, s)"
| "middleware_call_helper cc n (m # ms) c s =
     (case cc m n c of
        (False, c') \<Rightarrow> middleware_call_helper cc (n + 1) ms c' s
      | (True, c') \<Rightarrow>
          (let s1 = before_handle m s
           in if completed (fst s1) then (True, after_handle m s1)
              else (case middleware_call_helper cc (n + 1) ms c' s1 of
                      (True, s2) \<Rightarrow> (True, after_handle m s2)
                    | (False, s2) \<Rightarrow> (False, s2))))"

text \<open>\<open>after_handlers_call_helper\<close> from the last position down to 0.\<close>

fun after_handlers_from ::
  "('x, 'c) criterion \<Rightarrow> int \<Rightarrow> 'x middleware list \<Rightarrow> 'c \<Rightarrow> response \<times> 'x \<Rightarrow> response \<times> 'x" where
  "after_handlers_from cc n [] c s = s"
| "after_handlers_from cc n (m # ms) c s =
     (case cc m n c of
        (True, c') \<Rightarrow> after_handlers_from cc (n - 1) ms c' (after_handle m s)
      | (False, c') \<Rightarrow> after_handlers_from cc (n - 1) ms c' s)"

definition after_handlers_call_helper :: "('x, 'c) criterion \<Rightarrow> 'x middleware list \<Rightarrow> 'c \<Rightarrow> response \<times> 'x \<Rightarrow> response \<times> 'x" where
  "after_handlers_call_helper cc ms c s = after_handlers_from cc (int (length ms) - 1) (rev ms) c s"

section \<open>A request with middlewares\<close>

text \<open>
  \<open>complete_request_handler_\<close>: none, the empty lambda, the connection's \<open>complete_request\<close>, or the lambda
  of \<open>handle_rule\<close>, which captures the indices and the handler before it.
\<close>

datatype completion = Unset | Do_Nothing | Complete_Request | After_Rule "int list" completion

record ('q, 'c) exchange =
  resp :: response
  incoming :: 'q
  contexts :: 'c
  on_complete :: completion
  call_after_handlers :: bool
  sent_responses :: "response list"

definition view :: "('q, 'c) exchange \<Rightarrow> response \<times> 'q \<times> 'c" where
  "view x = (resp x, incoming x, contexts x)"

definition put_view :: "response \<times> 'q \<times> 'c \<Rightarrow> ('q, 'c) exchange \<Rightarrow> ('q, 'c) exchange" where
  "put_view s x = x\<lparr>resp := fst s, incoming := fst (snd s), contexts := snd (snd s)\<rparr>"

text \<open>\<open>Connection::complete_request\<close>: the global middlewares, then the response is written and cleared.\<close>

definition mw_complete_request :: "('q \<times> 'c) middleware list \<Rightarrow> ('q, 'c) exchange \<Rightarrow> ('q, 'c) exchange" where
  "mw_complete_request mws x =
     (let x1 = (if call_after_handlers x
                then put_view (after_handlers_call_helper only_global mws () (view x)) (x\<lparr>call_after_handlers := False\<rparr>) else x)
      in x1\<lparr>sent_responses := sent_responses x1 @ [resp x1], resp := clear_response (resp x1)\<rparr>)"

text \<open>
  Calling the completion handler; \<open>end\<close> checks that there is one, and \<open>handle_rule\<close> is only reached with
  the connection's handler set.
\<close>

fun run_completion :: "('q \<times> 'c) middleware list \<Rightarrow> completion \<Rightarrow> ('q, 'c) exchange \<Rightarrow> ('q, 'c) exchange" where
  "run_completion mws Unset x = x"
| "run_completion mws Do_Nothing x = x"
| "run_completion mws Complete_Request x = mw_complete_request mws x"
| "run_completion mws (After_Rule indices glob) x =
     run_completion mws glob
       (put_view (after_handlers_call_helper (dynamic_reversed indices) mws (int (length indices) - 1) (view x)) x)"

text \<open>\<open>response::end\<close>.\<close>

definition exchange_end :: "('q \<times> 'c) middleware list \<Rightarrow> ('q, 'c) exchange \<Rightarrow> ('q, 'c) exchange" where
  "exchange_end mws x =
     (if completed (resp x) then x
      else
        (let x1 = x\<lparr>resp := end_before (resp x)\<rparr>
         in if on_complete x = Unset then x1
            else (let x2 = run_completion mws (on_complete x) x1 in x2\<lparr>resp := end_after (resp x2)\<rparr>)))"

text \<open>A handler that returns a value: the response is built from it, assigned and ended.\<close>

definition wrapped_handler_call :: "('q \<times> 'c) middleware list \<Rightarrow> (response \<times> 'q \<times> 'c \<Rightarrow> response \<times> 'q \<times> 'c) \<Rightarrow> ('q, 'c) exchange \<Rightarrow> ('q, 'c) exchange" where
  "wrapped_handler_call mws f x =
     (case f (view x) of (r, y) \<Rightarrow> exchange_end mws (put_view (assign (resp x) r, y) x))"

definition handle_rule :: "('q \<times> 'c) middleware list \<Rightarrow> int list \<Rightarrow> (('q, 'c) exchange \<Rightarrow> ('q, 'c) exchange) \<Rightarrow> ('q, 'c) exchange \<Rightarrow> ('q, 'c) exchange" where
  "handle_rule mws indices handle_it x =
     (if mws = [] then handle_it x
      else if indices \<noteq> [] then
        (let glob = on_complete x;
             x0 = x\<lparr>on_complete := Do_Nothing\<rparr>;
             x1 = put_view (snd (middleware_call_helper (dynamic_forward indices) 0 mws 0 (view x0))) x0
         in if completed (resp x1) then run_completion mws glob x1
            else handle_it (x1\<lparr>on_complete := After_Rule indices glob\<rparr>))
      else handle_it x)"

text \<open>The part of \<open>Connection::handle\<close> that runs for a valid request; it starts with new contexts.\<close>

definition mw_handle ::
  "('q \<times> 'c) middleware list \<Rightarrow> 'c \<Rightarrow> (('q, 'c) exchange \<Rightarrow> ('q, 'c) exchange) \<Rightarrow> ('q, 'c) exchange \<Rightarrow> ('q, 'c) exchange" where
  "mw_handle mws fresh route x =
     (let x0 = x\<lparr>contexts := fresh, call_after_handlers := False, on_complete := Unset\<rparr>;
          x1 = put_view (snd (middleware_call_helper only_global 0 mws () (view x0))) x0
      in if \<not> completed (resp x1) then route (x1\<lparr>on_complete := Complete_Request, call_after_handlers := True\<rparr>)
         else mw_complete_request mws x1)"

text \<open>
  \<open>Connection::handle_url\<close> and \<open>handle_header\<close> answer a request without \<open>handle\<close>: its method has no rule for
  the URL, or it asks for the options.  The response is in place already.
\<close>

definition mw_reject :: "('q \<times> 'c) middleware list \<Rightarrow> ('q, 'c) exchange \<Rightarrow> ('q, 'c) exchange" where
  "mw_reject mws x = mw_complete_request mws (x\<lparr>call_after_handlers := True\<rparr>)"

section \<open>The order of the calls\<close>

text \<open>
  The specification: the middlewares that are called, in their order, form a nest.  \<open>first_end\<close> is the
  number of the first one whose \<open>before_handle\<close> ends the response.
\<close>

definition enter :: "'x middleware list \<Rightarrow> response \<times> 'x \<Rightarrow> response \<times> 'x" where
  "enter ms = fold before_handle ms"

definition leave :: "'x middleware list \<Rightarrow> response \<times> 'x \<Rightarrow> response \<times> 'x" where
  "leave ms = fold after_handle (rev ms)"

definition first_end :: "'x middleware list \<Rightarrow> response \<times> 'x \<Rightarrow> nat option" where
  "first_end ms s = find (\<lambda>k. completed (fst (enter (take (Suc k) ms) s))) [0..<length ms]"

definition nest :: "'x middleware list \<Rightarrow> response \<times> 'x \<Rightarrow> bool \<times> response \<times> 'x" where
  "nest ms s = (case first_end ms s of None \<Rightarrow> (False, enter ms s)
                | Some k \<Rightarrow> (True, leave (take (Suc k) ms) (enter (take (Suc k) ms) s)))"

lemma enter_simps [simp]: "enter [] s = s" "enter (m # ms) s = enter ms (before_handle m s)"
  by (simp_all add: enter_def)

lemma leave_simps [simp]: "leave [] s = s" "leave (m # ms) s = after_handle m (leave ms s)"
  by (simp_all add: leave_def)

lemma first_end_simps [simp]:
  "first_end [] s = None"
  "first_end (m # ms) s =
     (if completed (fst (before_handle m s)) then Some 0 else map_option Suc (first_end ms (before_handle m s)))"
proof -
  have *: "find P (map f xs) = map_option f (find (P \<circ> f) xs)" for P :: "nat \<Rightarrow> bool" and f :: "nat \<Rightarrow> nat" and xs
    by (induction xs) auto
  have u: "[0..<length (m # ms)] = 0 # map Suc [0..<length ms]" by (simp add: map_Suc_upt upt_conv_Cons del: upt_Suc)
  show "first_end (m # ms) s =
     (if completed (fst (before_handle m s)) then Some 0 else map_option Suc (first_end ms (before_handle m s)))"
    unfolding first_end_def u by (simp add: * comp_def)
qed (simp add: first_end_def)

lemma nest_simps [simp]:
  "nest [] s = (False, s)"
  "nest (m # ms) s =
     (let s1 = before_handle m s
      in if completed (fst s1) then (True, after_handle m s1)
         else (case nest ms s1 of (True, s2) \<Rightarrow> (True, after_handle m s2) | (False, s2) \<Rightarrow> (False, s2)))"
proof -
  show "nest (m # ms) s =
     (let s1 = before_handle m s
      in if completed (fst s1) then (True, after_handle m s1)
         else (case nest ms s1 of (True, s2) \<Rightarrow> (True, after_handle m s2) | (False, s2) \<Rightarrow> (False, s2)))"
  proof (cases "completed (fst (before_handle m s))")
    case False
    then show ?thesis by (cases "first_end ms (before_handle m s)") (simp_all add: nest_def Let_def)
  qed (simp add: nest_def Let_def)
qed (simp add: nest_def)

lemma nest_ends: "fst (nest ms s) \<longleftrightarrow> first_end ms s \<noteq> None"
  by (simp add: nest_def split: option.split)

text \<open>Which middlewares a criterion selects, and that the calls are the nest of those.\<close>

definition globals :: "'x middleware list \<Rightarrow> 'x middleware list" where
  "globals mws = filter mw_global mws"

definition locals :: "int list \<Rightarrow> 'x middleware list \<Rightarrow> 'x middleware list" where
  "locals indices mws = map (\<lambda>i. mws ! nat i) indices"

definition indices_ok :: "int list \<Rightarrow> 'x middleware list \<Rightarrow> bool" where
  "indices_ok indices mws \<longleftrightarrow> sorted_wrt (<) indices \<and> (\<forall>i\<in>set indices. 0 \<le> i \<and> i < int (length mws))"

lemma only_global_simps [simp]: "only_global m i c = (mw_global m, ())"
  by (rule only_global_def)

lemma call_globals: "middleware_call_helper only_global n mws c s = nest (globals mws) s"
proof (induction mws arbitrary: n c s)
  case (Cons m mws)
  then show ?case by (cases "mw_global m") (simp_all add: globals_def Let_def)
qed (simp add: globals_def)

lemma after_globals: "after_handlers_from only_global n ms c s = fold after_handle (filter mw_global ms) s"
proof (induction ms arbitrary: n c s)
  case (Cons m ms)
  then show ?case by (cases "mw_global m") simp_all
qed simp

lemma after_handlers_globals: "after_handlers_call_helper only_global mws c s = leave (globals mws) s"
  by (simp add: after_handlers_call_helper_def after_globals leave_def globals_def rev_filter)

lemma dynamic_forward_simps:
  "slider < int (length indices) \<Longrightarrow> indices ! nat slider = i \<Longrightarrow> dynamic_forward indices m i slider = (True, slider + 1)"
  "\<not> (slider < int (length indices) \<and> indices ! nat slider = i) \<Longrightarrow> dynamic_forward indices m i slider = (False, slider)"
  by (auto simp: dynamic_forward_def)

lemma call_locals:
  assumes "k \<le> length indices" "sorted_wrt (<) indices"
    "\<forall>i\<in>set (drop k indices). n \<le> i \<and> i < n + int (length ms)"
  shows "middleware_call_helper (dynamic_forward indices) n ms (int k) s = nest (map (\<lambda>i. ms ! nat (i - n)) (drop k indices)) s"
  using assms
proof (induction ms arbitrary: n k s)
  case Nil
  then have "drop k indices = []" by (cases "drop k indices") auto
  then show ?case by simp
next
  case (Cons m ms)
  have shift: "map (\<lambda>i. (m # ms) ! nat (i - n)) js = map (\<lambda>i. ms ! nat (i - (n + 1))) js" if "\<forall>i\<in>set js. n < i" for js
    using that by (induction js) (auto simp: nth_Cons' nat_diff_distrib' intro: arg_cong)
  show ?case
  proof (cases "k < length indices \<and> indices ! k = n")
    case True
    then have d: "drop k indices = n # drop (Suc k) indices" by (metis Cons_nth_drop_Suc)
    have above: "\<forall>i\<in>set (drop (Suc k) indices). n < i"
      using sorted_wrt_drop [OF Cons.prems(2), of k] by (simp add: d)
    have "middleware_call_helper (dynamic_forward indices) (n + 1) ms (int (Suc k)) s'
        = nest (map (\<lambda>i. ms ! nat (i - (n + 1))) (drop (Suc k) indices)) s'" for s'
      using Cons.prems above True by (intro Cons.IH) (auto simp: d Suc_le_eq)
    then show ?thesis using True by (simp add: dynamic_forward_simps(1) d Let_def shift [OF above] add.commute del: drop_Suc_Cons)
  next
    case False
    have "n < i" if "i \<in> set (drop k indices)" for i
    proof -
      from that have "drop k indices \<noteq> []" by auto
      then have k: "k < length indices" by simp
      then have d: "drop k indices = indices ! k # drop (Suc k) indices" by (metis Cons_nth_drop_Suc)
      then have "n \<le> indices ! k" "indices ! k \<le> i" using Cons.prems that sorted_wrt_drop [OF Cons.prems(2), of k] by auto
      then show ?thesis using False k by linarith
    qed
    then have above: "\<forall>i\<in>set (drop k indices). n < i" by blast
    have "middleware_call_helper (dynamic_forward indices) (n + 1) ms (int k) s
        = nest (map (\<lambda>i. ms ! nat (i - (n + 1))) (drop k indices)) s"
      using Cons.prems above by (intro Cons.IH) auto
    then show ?thesis using False by (simp add: dynamic_forward_simps(2) shift [OF above])
  qed
qed

lemma dynamic_reversed_simps:
  "0 \<le> slider \<Longrightarrow> indices ! nat slider = i \<Longrightarrow> dynamic_reversed indices m i slider = (True, slider - 1)"
  "\<not> (0 \<le> slider \<and> indices ! nat slider = i) \<Longrightarrow> dynamic_reversed indices m i slider = (False, slider)"
  by (auto simp: dynamic_reversed_def)

lemma leave_append: "leave (xs @ ys) s = leave xs (leave ys s)"
  by (simp add: leave_def)

lemma after_locals:
  assumes "k \<le> length indices" "sorted_wrt (<) indices" "\<forall>i\<in>set (take k indices). 0 \<le> i \<and> i < int (length ms)"
  shows "after_handlers_from (dynamic_reversed indices) (int (length ms) - 1) ms (int k - 1) s
     = leave (map (\<lambda>i. rev ms ! nat i) (take k indices)) s"
  using assms
proof (induction ms arbitrary: k s)
  case Nil
  then have e: "take k indices = []" by (cases "take k indices") auto
  show ?case by (simp only: e list.map leave_simps after_handlers_from.simps)
next
  case (Cons m ms)
  have below: "map (\<lambda>i. (rev ms @ [m]) ! nat i) js = map (\<lambda>i. rev ms ! nat i) js" if "\<forall>i\<in>set js. 0 \<le> i \<and> i < int (length ms)" for js
    using that by (induction js) (auto simp: nth_append)
  show ?case
  proof (cases "0 < k \<and> indices ! (k - 1) = int (length ms)")
    case True
    then obtain j where j: "k = Suc j" by (cases k) auto
    have t: "take k indices = take j indices @ [int (length ms)]" using True j Cons.prems(1) by (simp add: take_Suc_conv_app_nth)
    have lt: "\<forall>i\<in>set (take j indices). 0 \<le> i \<and> i < int (length ms)"
      using Cons.prems(3) sorted_wrt_take [OF Cons.prems(2), of k] by (auto simp: t sorted_wrt_append)
    have "after_handlers_from (dynamic_reversed indices) (int (length ms) - 1) ms (int j - 1) (after_handle m s)
       = leave (map (\<lambda>i. rev ms ! nat i) (take j indices)) (after_handle m s)"
      using Cons.prems(1,2) lt j by (intro Cons.IH) auto
    moreover have "(rev ms @ [m]) ! length ms = m" by (simp add: nth_append)
    ultimately show ?thesis using True unfolding j by (simp add: below [OF lt] t [unfolded j] dynamic_reversed_simps(1) leave_append)
  next
    case False
    have "i < int (length ms)" if i: "i \<in> set (take k indices)" for i
    proof -
      from i obtain j where j: "k = Suc j" by (cases k) auto
      have t: "take k indices = take j indices @ [indices ! j]" using j Cons.prems(1) by (simp add: take_Suc_conv_app_nth)
      then have "i \<le> indices ! j" using i sorted_wrt_take [OF Cons.prems(2), of k] by (auto simp: sorted_wrt_append)
      moreover have "indices ! j < int (length (m # ms))" using Cons.prems(3) t by auto
      ultimately show ?thesis using False j by auto
    qed
    then have lt: "\<forall>i\<in>set (take k indices). 0 \<le> i \<and> i < int (length ms)" using Cons.prems(3) by blast
    have "\<not> (0 \<le> int k - 1 \<and> indices ! nat (int k - 1) = int (length ms))" using False by (auto simp: nat_diff_distrib)
    then show ?thesis using Cons.IH [OF Cons.prems(1,2) lt, of s] by (simp add: below [OF lt] dynamic_reversed_simps(2))
  qed
qed

lemma call_locals_nest:
  assumes "indices_ok indices mws"
  shows "middleware_call_helper (dynamic_forward indices) 0 mws 0 s = nest (locals indices mws) s"
  using call_locals [of 0 indices 0 mws s] assms by (simp add: indices_ok_def locals_def)

lemma after_locals_leave:
  assumes "indices_ok indices mws"
  shows "after_handlers_call_helper (dynamic_reversed indices) mws (int (length indices) - 1) s = leave (locals indices mws) s"
  using after_locals [of "length indices" indices "rev mws" s] assms
  by (simp add: indices_ok_def locals_def after_handlers_call_helper_def)

section \<open>A whole request\<close>

text \<open>The reference: the rule's middlewares inside the global ones, the handler in the middle.\<close>

definition answer_rule :: "(response \<times> 'x \<Rightarrow> response \<times> 'x) \<Rightarrow> response \<times> 'x \<Rightarrow> response \<times> 'x" where
  "answer_rule f u = (case f u of (r, y) \<Rightarrow> (end_before (assign (fst u) r), y))"

definition nested_run ::
  "'x middleware list \<Rightarrow> 'x middleware list \<Rightarrow> (response \<times> 'x \<Rightarrow> response \<times> 'x) \<Rightarrow> response \<times> 'x \<Rightarrow> response \<times> 'x" where
  "nested_run outer inner f s =
     (case nest outer s of
        (True, t) \<Rightarrow> t
      | (False, t) \<Rightarrow> leave outer (case nest inner t of (True, u) \<Rightarrow> u | (False, u) \<Rightarrow> leave inner (answer_rule f u)))"

definition keeps_completed :: "'x middleware list \<Rightarrow> bool" where
  "keeps_completed ms \<longleftrightarrow> (\<forall>m\<in>set ms. \<forall>s. completed (fst s) \<longrightarrow> completed (fst (after_handle m s)))"

lemma keeps_completed_subset: "keeps_completed ms \<Longrightarrow> set ns \<subseteq> set ms \<Longrightarrow> keeps_completed ns"
  by (auto simp: keeps_completed_def)

lemma nest_completed: "keeps_completed ms \<Longrightarrow> \<not> completed (fst s) \<Longrightarrow> completed (fst (snd (nest ms s))) = fst (nest ms s)"
proof (induction ms arbitrary: s)
  case (Cons m ms)
  have IH: "completed (fst (snd (nest ms t))) = fst (nest ms t)" if "\<not> completed (fst t)" for t
    using Cons.IH [OF keeps_completed_subset [OF Cons.prems(1)] that] by auto
  have m: "completed (fst t) \<Longrightarrow> completed (fst (after_handle m t))" for t
    using Cons.prems(1) unfolding keeps_completed_def by (meson list.set_intros(1))
  show ?case
  proof (cases "completed (fst (before_handle m s))")
    case False
    obtain b t where n: "nest ms (before_handle m s) = (b, t)" by (rule prod.exhaust)
    with IH [OF False] show ?thesis using False m by (cases b) (simp_all add: Let_def)
  qed (simp add: m)
qed simp

lemma completed_end_before [simp]: "completed (end_before r)"
  by (simp add: end_before_def set_header_def Let_def)

lemma locals_subset: "indices_ok indices mws \<Longrightarrow> set (locals indices mws) \<subseteq> set mws"
  by (auto simp: indices_ok_def locals_def)

lemma view_simps [simp]:
  "view (put_view s x) = s" "resp (put_view s x) = fst s" "contexts (put_view s x) = snd (snd s)"
  "sent_responses (put_view s x) = sent_responses x" "on_complete (put_view s x) = on_complete x"
  "call_after_handlers (put_view s x) = call_after_handlers x"
  "view (x\<lparr>on_complete := c\<rparr>) = view x" "view (x\<lparr>call_after_handlers := b\<rparr>) = view x"
  "put_view t (put_view s x) = put_view t x" "fst (view x) = resp x"
  by (simp_all add: view_def put_view_def)

lemma put_resp: "(put_view s x)\<lparr>resp := r\<rparr> = put_view (r, snd s) x"
  by (cases x) (simp add: put_view_def)

definition outcome :: "('q, 'c) exchange \<Rightarrow> response list \<times> 'c" where
  "outcome x = (sent_responses x, contexts x)"

definition delivers :: "('q, 'c) exchange \<Rightarrow> response \<times> 'q \<times> 'c \<Rightarrow> response list \<times> 'c" where
  "delivers x t = (sent_responses x @ [fst t], snd (snd t))"

lemma outcome_complete:
  "outcome (mw_complete_request mws x) = delivers x (if call_after_handlers x then leave (globals mws) (view x) else view x)"
  by (simp add: outcome_def delivers_def mw_complete_request_def Let_def after_handlers_globals view_def)

lemma outcome_end:
  assumes "\<not> completed (resp x)" "on_complete x \<noteq> Unset"
  shows "outcome (exchange_end mws x) = outcome (run_completion mws (on_complete x) (x\<lparr>resp := end_before (resp x)\<rparr>))"
  using assms by (simp add: exchange_end_def outcome_def Let_def)

lemma outcome_wrapped:
  assumes "\<forall>u. \<not> completed (fst (f u))" "on_complete x \<noteq> Unset"
  shows "outcome (wrapped_handler_call mws f x) = outcome (run_completion mws (on_complete x) (put_view (answer_rule f (view x)) x))"
proof -
  obtain r q y where f: "f (view x) = (r, q, y)" by (metis prod_cases3)
  have "\<not> completed (assign (resp x) r)" using assms(1) [rule_format, of "view x"] by (simp add: f assign_def)
  then show ?thesis using outcome_end [of "put_view (assign (resp x) r, q, y) x" mws] assms(2)
    by (simp add: wrapped_handler_call_def answer_rule_def f put_resp)
qed

lemma outcome_rule:
  assumes "indices_ok indices mws" "keeps_completed mws" "\<not> completed (resp x)" "\<forall>u. \<not> completed (fst (f u))"
    "on_complete x = Complete_Request" "call_after_handlers x"
  shows "outcome (handle_rule mws indices (wrapped_handler_call mws f) x)
    = delivers x (leave (globals mws) (case nest (locals indices mws) (view x) of (True, u) \<Rightarrow> u | (False, u) \<Rightarrow> leave (locals indices mws) (answer_rule f u)))"
proof (cases "indices = []")
  case True
  have "handle_rule mws [] (wrapped_handler_call mws f) x = wrapped_handler_call mws f x" by (simp add: handle_rule_def)
  then show ?thesis using True assms outcome_wrapped [OF assms(4), of x mws] by (simp add: locals_def outcome_complete delivers_def)
next
  case False
  then have ne: "mws \<noteq> []" using assms(1) by (cases indices) (auto simp: indices_ok_def)
  obtain b u where n: "nest (locals indices mws) (view x) = (b, u)" by (rule prod.exhaust)
  have "completed (fst u) = b"
    using nest_completed [OF keeps_completed_subset [OF assms(2) locals_subset [OF assms(1)]], of "view x"] assms(3) n by simp
  with n show ?thesis using False ne assms
    by (cases b)
      (simp_all add: handle_rule_def Let_def call_locals_nest outcome_wrapped after_locals_leave outcome_complete delivers_def)
qed

lemma handle_nested:
  assumes "indices_ok indices mws" "keeps_completed mws" "\<not> completed (resp x)" "\<forall>u. \<not> completed (fst (f u))"
  shows "outcome (mw_handle mws fresh (handle_rule mws indices (wrapped_handler_call mws f)) x)
    = delivers x (nested_run (globals mws) (locals indices mws) f (resp x, incoming x, fresh))"
proof -
  let ?s = "(resp x, incoming x, fresh)"
  obtain b t where n: "nest (globals mws) ?s = (b, t)" by (rule prod.exhaust)
  have "keeps_completed (globals mws)" using keeps_completed_subset [OF assms(2)] by (auto simp: globals_def)
  from nest_completed [OF this, of ?s] assms(3) n have c: "completed (fst t) = b" by simp
  define z where "z = put_view t (x\<lparr>contexts := fresh, call_after_handlers := False, on_complete := Unset\<rparr>)"
  have h: "mw_handle mws fresh route x = (if \<not> b then route (z\<lparr>on_complete := Complete_Request, call_after_handlers := True\<rparr>) else mw_complete_request mws z)" for route
    using c n by (simp add: mw_handle_def Let_def call_globals view_def z_def)
  show ?thesis
  proof (cases b)
    case True
    then show ?thesis using n by (simp add: h outcome_complete nested_run_def z_def delivers_def)
  next
    case False
    then show ?thesis using n c outcome_rule [OF assms(1,2) _ assms(4), of "z\<lparr>on_complete := Complete_Request, call_after_handlers := True\<rparr>"]
      by (simp add: h nested_run_def z_def delivers_def)
  qed
qed

text \<open>C29: The middlewares of a request and of its rule are nested: \<open>before_handle\<close> runs in the order of the application's list, first the global ones and then those the rule names, \<open>after_handle\<close> in the opposite order for exactly those whose \<open>before_handle\<close> has run, and a middleware that ends the response keeps the inner ones and the handler from running.  One response is sent.\<close>

theorem middlewares_nested:
  assumes "indices_ok indices mws" "keeps_completed mws" "\<not> completed (resp x)" "\<forall>u. \<not> completed (fst (f u))"
  shows "outcome (mw_handle mws fresh (handle_rule mws indices (wrapped_handler_call mws f)) x)
    = delivers x (nested_run (globals mws) (locals indices mws) f (resp x, incoming x, fresh))"
  by (rule handle_nested [OF assms])

definition marking :: "char \<Rightarrow> bool \<Rightarrow> ('q \<times> string) middleware" where
  "marking c g = \<lparr>mw_global = g, before_handle = (\<lambda>(r, q, l). (r, q, l @ [c])), after_handle = (\<lambda>(r, q, l). (r, q, l @ [c]))\<rparr>"

definition first_exchange :: "'c \<Rightarrow> (ci_map, 'c) exchange" where
  "first_exchange c = \<lparr>resp = new_response 200, incoming = [], contexts = c, on_complete = Unset, call_after_handlers = False, sent_responses = []\<rparr>"

lemma middlewares_nested_witness:
  "snd (outcome (mw_handle [marking CHR ''a'' True, marking CHR ''b'' False] []
     (handle_rule [marking CHR ''a'' True, marking CHR ''b'' False] [1]
       (wrapped_handler_call [marking CHR ''a'' True, marking CHR ''b'' False] (\<lambda>(r, q, l). (new_response 404, q, l @ ''-''))))
     (first_exchange ''?''))) = ''ab-ba''"
  by (subst middlewares_nested)
    (auto simp: indices_ok_def keeps_completed_def marking_def first_exchange_def new_response_def nested_run_def globals_def locals_def
      answer_rule_def delivers_def)

end
