(* ===== verification/Text_Search.thy ===== *)
theory Text_Search
  imports Utility
begin

text \<open>
  Facts about \<open>find\<close> on texts (\<open>find_from\<close> of \<open>Utility\<close>) that the readers of cookies, multipart messages
  and templates share: where the first occurrence is when the text before it is known.
\<close>

lemma find_from_Some:
  "find_from sep v p = Some i \<longleftrightarrow>
     p \<le> i \<and> i + length sep \<le> length v \<and> take (length sep) (drop i v) = sep \<and>
     (\<forall>j. p \<le> j \<and> j < i \<longrightarrow> take (length sep) (drop j v) \<noteq> sep)"
proof -
  have "find_from sep v p = Some i \<longleftrightarrow>
     i < length v + 1 - length sep \<and> p \<le> i \<and> take (length sep) (drop i v) = sep \<and>
     (\<forall>j<i. \<not> (p \<le> j \<and> take (length sep) (drop j v) = sep))"
    unfolding find_from_def find_Some_iff by (auto simp: less_diff_conv)
  also have "i < length v + 1 - length sep \<longleftrightarrow> i + length sep \<le> length v" by arith
  finally show ?thesis by blast
qed

lemma find_from_None:
  "find_from sep v p = None \<longleftrightarrow> (\<forall>i. p \<le> i \<and> i + length sep \<le> length v \<longrightarrow> take (length sep) (drop i v) \<noteq> sep)"
proof -
  have "find_from sep v p = None \<longleftrightarrow> (\<forall>i<length v + 1 - length sep. \<not> (p \<le> i \<and> take (length sep) (drop i v) = sep))"
    unfolding find_from_def find_None_iff by auto
  moreover have "i < length v + 1 - length sep \<longleftrightarrow> i + length sep \<le> length v" for i by arith
  ultimately show ?thesis by auto
qed

text \<open>The separator does not begin inside the text before it.\<close>

definition first_there :: "string \<Rightarrow> string \<Rightarrow> bool" where
  "first_there sep xs \<longleftrightarrow> (\<forall>j<length xs. take (length sep) (drop j (xs @ sep)) \<noteq> sep)"

lemma find_first:
  assumes "first_there sep xs"
  shows "find_from sep (xs @ sep @ ys) 0 = Some (length xs)"
proof -
  have "take (length sep) (drop j (xs @ sep @ ys)) = take (length sep) (drop j (xs @ sep))" if "j < length xs" for j
    using that by simp
  then show ?thesis using assms by (auto simp: find_from_Some first_there_def)
qed

lemma hd_first_there:
  assumes "sep \<noteq> []" "hd sep \<notin> set xs"
  shows "first_there sep xs"
  unfolding first_there_def
proof (intro allI impI notI)
  fix j assume "j < length xs" and t: "take (length sep) (drop j (xs @ sep)) = sep"
  then have "hd sep = xs ! j" using assms(1) by (cases sep; cases "drop j xs") (auto simp: Cons_nth_drop_Suc [symmetric])
  then show False using assms(2) \<open>j < length xs\<close> by (metis nth_mem)
qed

lemma find_hd: "hd sep \<notin> set xs \<Longrightarrow> sep \<noteq> [] \<Longrightarrow> find_from sep (xs @ sep @ ys) 0 = Some (length xs)"
  by (simp add: find_first hd_first_there)

lemma find_absent:
  assumes "sep \<noteq> []" "hd sep \<notin> set xs"
  shows "find_from sep xs p = None"
  unfolding find_from_None
proof (intro allI impI notI)
  fix i assume i: "p \<le> i \<and> i + length sep \<le> length xs" and t: "take (length sep) (drop i xs) = sep"
  then have "i < length xs" using assms(1) by (cases sep) auto
  then have "hd sep = xs ! i" using t assms(1) by (cases sep) (auto simp: Cons_nth_drop_Suc [symmetric])
  then show False using assms(2) \<open>i < length xs\<close> by (metis nth_mem)
qed

lemma find_char: "c \<notin> set xs \<Longrightarrow> find_from [c] (xs @ c # ys) 0 = Some (length xs)"
  using find_hd [of "[c]" xs ys] by simp

lemma find_char_absent: "c \<notin> set xs \<Longrightarrow> find_from [c] xs p = None"
  by (simp add: find_absent)

lemma find_char_Some: "find_from [c] v 0 = Some i \<Longrightarrow> i < length v \<and> v ! i = c \<and> c \<notin> set (take i v)"
proof -
  assume f: "find_from [c] v 0 = Some i"
  then have i: "i < length v" "take 1 (drop i v) = [c]" and before: "\<And>j. j < i \<Longrightarrow> take 1 (drop j v) \<noteq> [c]"
    by (auto simp: find_from_Some)
  have one: "take 1 (drop j v) = [v ! j]" if "j < length v" for j using that by (simp add: Cons_nth_drop_Suc [symmetric])
  show ?thesis using i before one by (auto simp: in_set_conv_nth)
qed

definition trimmed :: "string \<Rightarrow> bool" where
  "trimmed s \<longleftrightarrow> s = [] \<or> \<not> is_space (hd s) \<and> \<not> is_space (last s)"

lemma trim_trimmed [simp]: "trimmed s \<Longrightarrow> trim s = s"
proof -
  have d: "xs \<noteq> [] \<Longrightarrow> \<not> P (hd xs) \<Longrightarrow> dropWhile P xs = xs" for P :: "char \<Rightarrow> bool" and xs by (cases xs) auto
  assume t: "trimmed s"
  show ?thesis
  proof (cases "s = []")
    case False
    then show ?thesis using t by (simp add: trimmed_def trim_def d hd_rev)
  qed (simp add: trim_def)
qed

lemma trim_space [simp]: "is_space c \<Longrightarrow> trim (c # s) = trim s"
  by (simp add: trim_def)

end
