(* ===== verification/Cookies.thy ===== *)
theory Cookies
  imports Middleware Text_Search
begin

text \<open>
  Three middlewares of \<open>crow.h\<close>: \<open>CookieParser\<close>, which reads the header \<open>Cookie\<close> into a jar and
  writes the cookies an application sets, \<open>UTF8\<close>, and (in \<open>Cors\<close>) \<open>CORSHandler\<close>.  The request is given by
  its headers.
\<close>

section \<open>Cookies of a response\<close>

datatype same_site_policy = Strict | Lax | Same_Site_None

text \<open>The time of expiry is opaque; \<open>put_time\<close> with the format of HTTP dates is a parameter.\<close>

record 't cookie =
  cookie_key :: string
  cookie_value :: string
  max_age :: "int option"
  cookie_domain :: string
  cookie_path :: string
  secure :: bool
  httponly :: bool
  expires_at :: "'t option"
  same_site :: "same_site_policy option"

definition new_cookie :: "string \<Rightarrow> string \<Rightarrow> 't cookie" where
  "new_cookie k v = \<lparr>cookie_key = k, cookie_value = v, max_age = None, cookie_domain = [], cookie_path = [], secure = False,
     httponly = False, expires_at = None, same_site = None\<rparr>"

text \<open>The setters, each of which returns the cookie.\<close>

definition with_value :: "string \<Rightarrow> 't cookie \<Rightarrow> 't cookie" where "with_value v c = c\<lparr>cookie_value := v\<rparr>"
definition with_expires :: "'t \<Rightarrow> 't cookie \<Rightarrow> 't cookie" where "with_expires t c = c\<lparr>expires_at := Some t\<rparr>"
definition with_max_age :: "int \<Rightarrow> 't cookie \<Rightarrow> 't cookie" where "with_max_age n c = c\<lparr>max_age := Some n\<rparr>"
definition with_domain :: "string \<Rightarrow> 't cookie \<Rightarrow> 't cookie" where "with_domain d c = c\<lparr>cookie_domain := d\<rparr>"
definition with_path :: "string \<Rightarrow> 't cookie \<Rightarrow> 't cookie" where "with_path p c = c\<lparr>cookie_path := p\<rparr>"
definition with_secure :: "'t cookie \<Rightarrow> 't cookie" where "with_secure c = c\<lparr>secure := True\<rparr>"
definition with_httponly :: "'t cookie \<Rightarrow> 't cookie" where "with_httponly c = c\<lparr>httponly := True\<rparr>"
definition with_same_site :: "same_site_policy \<Rightarrow> 't cookie \<Rightarrow> 't cookie" where "with_same_site p c = c\<lparr>same_site := Some p\<rparr>"

definition divider :: string where "divider = ''; ''"

definition dumpString :: "bool \<Rightarrow> string \<Rightarrow> string \<Rightarrow> string" where
  "dumpString cond prefix value = (if cond then divider @ prefix @ value else [])"

definition same_site_name :: "same_site_policy \<Rightarrow> string" where
  "same_site_name p = (case p of Strict \<Rightarrow> ''Strict'' | Lax \<Rightarrow> ''Lax'' | Same_Site_None \<Rightarrow> ''None'')"

definition cookie_dump :: "('t \<Rightarrow> string) \<Rightarrow> 't cookie \<Rightarrow> string" where
  "cookie_dump put_time c =
     cookie_key c @ ''='' @ (if cookie_value c = [] then [CHR 0x22, CHR 0x22] else cookie_value c)
     @ dumpString (cookie_domain c \<noteq> []) ''Domain='' (cookie_domain c)
     @ dumpString (cookie_path c \<noteq> []) ''Path='' (cookie_path c)
     @ dumpString (secure c) ''Secure'' []
     @ dumpString (httponly c) ''HttpOnly'' []
     @ (case expires_at c of None \<Rightarrow> [] | Some t \<Rightarrow> divider @ ''Expires='' @ put_time t)
     @ (case max_age c of None \<Rightarrow> [] | Some n \<Rightarrow> divider @ ''Max-Age='' @ to_string n)
     @ (case same_site c of None \<Rightarrow> [] | Some p \<Rightarrow> divider @ ''SameSite='' @ same_site_name p)"

section \<open>The middleware\<close>

record 't cookie_context =
  jar :: "string \<rightharpoonup> string"
  cookies_to_add :: "'t cookie list"

definition new_cookie_context :: "'t cookie_context" where
  "new_cookie_context = \<lparr>jar = Map.empty, cookies_to_add = []\<rparr>"

definition get_cookie :: "string \<Rightarrow> 't cookie_context \<Rightarrow> string" where
  "get_cookie k ctx = (case jar ctx k of None \<Rightarrow> [] | Some v \<Rightarrow> v)"

definition set_cookie :: "'t cookie \<Rightarrow> 't cookie_context \<Rightarrow> 't cookie_context" where
  "set_cookie c ctx = ctx\<lparr>cookies_to_add := cookies_to_add ctx @ [c]\<rparr>"

text \<open>\<open>unordered_map::emplace\<close> keeps a value that is there.\<close>

definition jar_emplace :: "string \<Rightarrow> string \<Rightarrow> (string \<rightharpoonup> string) \<Rightarrow> string \<rightharpoonup> string" where
  "jar_emplace k v m = (case m k of None \<Rightarrow> m(k \<mapsto> v) | Some _ \<Rightarrow> m)"

definition unquote :: "string \<Rightarrow> string" where
  "unquote v =
     (if v \<noteq> [] \<and> hd v = CHR 0x22 \<and> last v = CHR 0x22
      then (if 2 \<le> length v then butlast (tl v) else []) else v)"

text \<open>The loop over \<open>cookies_sv\<close>, on what is left of it from \<open>pos\<close> on.\<close>

function parse_cookies :: "string \<Rightarrow> (string \<rightharpoonup> string) \<Rightarrow> string \<rightharpoonup> string" where
  "parse_cookies s m =
     (if s = [] then m
      else (case find_from ''='' s 0 of
          None \<Rightarrow> m
        | Some e \<Rightarrow>
            (let name = trim (take e s); s1 = drop (e + 1) s
             in if s1 = [] then m
                else (case find_from '';'' s1 0 of
                    None \<Rightarrow> jar_emplace name (unquote (trim s1)) m
                  | Some i \<Rightarrow> parse_cookies (drop (i + 1) s1) (jar_emplace name (unquote (trim (take i s1))) m)))))"
  by pat_completeness auto
termination
  by (relation "measure (\<lambda>(s, m). length s)") auto

declare parse_cookies.simps [simp del]

text \<open>
  \<open>before_handle\<close> and \<open>after_handle\<close>; the first argument is the completion handler at the time of the call:
  none for a global middleware, the empty lambda for a local one.
\<close>

definition cookie_before ::
  "(response \<Rightarrow> response) option \<Rightarrow> response \<times> ci_map \<times> 't cookie_context \<Rightarrow> response \<times> ci_map \<times> 't cookie_context" where
  "cookie_before h = (\<lambda>(r, hs, ctx).
     (let count = ci_count ''Cookie'' hs
      in if count = 0 then (r, hs, ctx)
         else if count > 1 then (end_response h (r\<lparr>status_code := 400\<rparr>), hs, ctx)
         else (r, hs, ctx\<lparr>jar := parse_cookies (get_header_value hs ''Cookie'') (jar ctx)\<rparr>)))"

definition cookie_after :: "('t \<Rightarrow> string) \<Rightarrow> response \<times> ci_map \<times> 't cookie_context \<Rightarrow> response \<times> ci_map \<times> 't cookie_context" where
  "cookie_after put_time = (\<lambda>(r, hs, ctx).
     (fold (\<lambda>c r. add_header ''Set-Cookie'' (cookie_dump put_time c) r) (cookies_to_add ctx) r, hs, ctx))"

definition cookie_parser :: "('t \<Rightarrow> string) \<Rightarrow> (ci_map \<times> 't cookie_context) middleware" where
  "cookie_parser put_time = \<lparr>mw_global = True, before_handle = cookie_before None, after_handle = cookie_after put_time\<rparr>"

definition utf8_after :: "response \<times> 'x \<Rightarrow> response \<times> 'x" where
  "utf8_after = (\<lambda>(r, x).
     (if get_header_value (headers r) ''Content-Type'' = [] then set_header ''Content-Type'' ''text/plain; charset=utf-8'' r else r, x))"

section \<open>What a client sends back\<close>

definition cookie_text :: "'t cookie \<Rightarrow> string" where
  "cookie_text c = (if cookie_value c = [] then [CHR 0x22, CHR 0x22] else cookie_value c)"

text \<open>A client stores the part of \<open>Set-Cookie\<close> before the attributes, and joins these parts.\<close>

definition client_pair :: "string \<Rightarrow> string" where
  "client_pair set_cookie_header = takeWhile (\<lambda>c. c \<noteq> CHR '';'') set_cookie_header"

fun client_header :: "string list \<Rightarrow> string" where
  "client_header [] = []"
| "client_header [p] = p"
| "client_header (p # ps) = p @ ''; '' @ client_header ps"

definition cookie_ok :: "'t cookie \<Rightarrow> bool" where
  "cookie_ok c \<longleftrightarrow>
     trimmed (cookie_key c) \<and> CHR ''='' \<notin> set (cookie_key c) \<and> CHR '';'' \<notin> set (cookie_key c) \<and>
     trimmed (cookie_value c) \<and> CHR '';'' \<notin> set (cookie_value c) \<and> unquote (cookie_value c) = cookie_value c"

lemma takeWhile_append_stop: "x \<notin> set xs \<Longrightarrow> takeWhile (\<lambda>c. c \<noteq> x) (xs @ x # ys) = xs"
  by (induction xs) auto

lemma client_pair_dump:
  assumes "cookie_ok c"
  shows "client_pair (cookie_dump put_time c) = cookie_key c @ ''='' @ cookie_text c"
proof -
  have k: "CHR '';'' \<notin> set (cookie_key c @ ''='' @ cookie_text c)" using assms by (auto simp: cookie_ok_def cookie_text_def)
  have starts: "ys = [] \<or> (\<exists>zs. ys = CHR '';'' # zs) \<Longrightarrow> takeWhile (\<lambda>c. c \<noteq> CHR '';'') (xs @ ys) = xs" if "CHR '';'' \<notin> set xs" for xs ys
    using that takeWhile_append_stop [OF that] by (auto simp: takeWhile_eq_all_conv)
  obtain ys where d: "cookie_dump put_time c = (cookie_key c @ ''='' @ cookie_text c) @ ys" "ys = [] \<or> (\<exists>zs. ys = CHR '';'' # zs)"
  proof
    show "cookie_dump put_time c = (cookie_key c @ ''='' @ cookie_text c) @
      dumpString (cookie_domain c \<noteq> []) ''Domain='' (cookie_domain c)
     @ dumpString (cookie_path c \<noteq> []) ''Path='' (cookie_path c)
     @ dumpString (secure c) ''Secure'' []
     @ dumpString (httponly c) ''HttpOnly'' []
     @ (case expires_at c of None \<Rightarrow> [] | Some t \<Rightarrow> divider @ ''Expires='' @ put_time t)
     @ (case max_age c of None \<Rightarrow> [] | Some n \<Rightarrow> divider @ ''Max-Age='' @ to_string n)
     @ (case same_site c of None \<Rightarrow> [] | Some p \<Rightarrow> divider @ ''SameSite='' @ same_site_name p)"
      by (simp add: cookie_dump_def cookie_text_def)
  qed (auto simp: dumpString_def divider_def split: option.split)
  show ?thesis unfolding client_pair_def d(1) by (rule starts [OF k d(2)])
qed

lemma parse_one:
  assumes "trimmed k" "CHR ''='' \<notin> set k" "trimmed v" "v \<noteq> []" "CHR '';'' \<notin> set v"
    and p: "p = [] \<or> p = '' ''"
  shows "parse_cookies (p @ k @ ''='' @ v) m = jar_emplace k (unquote v) m"
    and "parse_cookies (p @ k @ ''='' @ v @ '';'' @ rest) m = parse_cookies rest (jar_emplace k (unquote v) m)"
proof -
  have f: "find_from ''='' (p @ k @ ''='' @ xs) 0 = Some (length (p @ k))" for xs
    using find_char [of "CHR ''=''" "p @ k" xs] assms(2) p by auto
  have t: "trim (p @ k) = k" using p assms(1) by (auto simp: is_space_def code_def)
  have s: "find_from '';'' (v @ '';'' @ rest) 0 = Some (length v)" using find_char [OF assms(5), of rest] by simp
  have d: "drop (length (p @ k) + 1) (p @ k @ ''='' @ xs) = xs" for xs by simp
  have tk: "take (length (p @ k)) (p @ k @ ''='' @ xs) = p @ k" for xs by simp
  show "parse_cookies (p @ k @ ''='' @ v) m = jar_emplace k (unquote v) m"
    by (subst parse_cookies.simps) (simp only: f option.case Let_def d tk t, simp add: assms find_char_absent)
  show "parse_cookies (p @ k @ ''='' @ v @ '';'' @ rest) m = parse_cookies rest (jar_emplace k (unquote v) m)"
    by (subst parse_cookies.simps) (simp only: f option.case Let_def d tk t, simp add: assms s [simplified])
qed

lemma fold_emplace: "fold (\<lambda>(k, v). jar_emplace k v) kvs m = map_of kvs ++ m"
proof (induction kvs arbitrary: m)
  case (Cons kv kvs)
  obtain k v where kv: "kv = (k, v)" by (rule prod.exhaust)
  have "map_of kvs ++ jar_emplace k v m = map_of ((k, v) # kvs) ++ m"
    by (auto simp: jar_emplace_def map_add_def fun_eq_iff split: option.splits)
  then show ?case by (simp only: kv fold.simps comp_def prod.case Cons.IH)
qed simp

lemma cookie_text_ok:
  assumes "cookie_ok c"
  shows "trimmed (cookie_text c)" "cookie_text c \<noteq> []" "CHR '';'' \<notin> set (cookie_text c)" "unquote (cookie_text c) = cookie_value c"
  using assms by (auto simp: cookie_text_def cookie_ok_def unquote_def trimmed_def is_space_def code_def)

lemma parse_client_header:
  assumes "\<forall>c\<in>set cs. cookie_ok c" "p = [] \<or> p = '' ''"
  shows "parse_cookies (if cs = [] then [] else p @ client_header (map (\<lambda>c. cookie_key c @ ''='' @ cookie_text c) cs)) m
    = map_of (map (\<lambda>c. (cookie_key c, cookie_value c)) cs) ++ m"
  using assms
proof (induction cs arbitrary: p m)
  case Nil
  then show ?case by (simp add: parse_cookies.simps)
next
  case (Cons c cs)
  have ok: "trimmed (cookie_key c)" "CHR ''='' \<notin> set (cookie_key c)" "cookie_ok c" using Cons.prems by (auto simp: cookie_ok_def)
  note one = parse_one [OF ok(1,2) cookie_text_ok(1-3) [OF ok(3)] Cons.prems(2)]
  have e: "map_of kvs ++ jar_emplace k v m = map_of ((k, v) # kvs) ++ m" for kvs k v
    using fold_emplace [of "(k, v) # kvs" m] fold_emplace [of kvs "jar_emplace k v m"] by simp
  show ?case
  proof (cases cs)
    case Nil
    have "client_header (map (\<lambda>c. cookie_key c @ ''='' @ cookie_text c) [c]) = cookie_key c @ ''='' @ cookie_text c" by simp
    then show ?thesis unfolding Nil using one(1) [of m] e [of "[]" "cookie_key c" "cookie_value c"] cookie_text_ok(4) [OF ok(3)]
      by (simp only: list.distinct if_False list.map map_of.simps(1) empty_map_add)
  next
    case (Cons c' cs')
    then have ne: "cs \<noteq> []" by simp
    have h: "client_header (map (\<lambda>c. cookie_key c @ ''='' @ cookie_text c) (c # cs))
      = cookie_key c @ ''='' @ cookie_text c @ '';'' @ ('' '' @ client_header (map (\<lambda>c. cookie_key c @ ''='' @ cookie_text c) cs))"
      by (simp add: Cons)
    have "parse_cookies ('' '' @ client_header (map (\<lambda>c. cookie_key c @ ''='' @ cookie_text c) cs)) (jar_emplace (cookie_key c) (cookie_value c) m)
      = map_of (map (\<lambda>c. (cookie_key c, cookie_value c)) cs) ++ jar_emplace (cookie_key c) (cookie_value c) m"
      using Cons.IH [of "'' ''" "jar_emplace (cookie_key c) (cookie_value c) m"] Cons.prems(1) ne by simp
    then show ?thesis unfolding h e using one(2) by (simp only: cookie_text_ok(4) [OF ok(3)] list.map if_False list.distinct e)
  qed
qed

text \<open>C30: A cookie comes back: when a client returns the first parts of the \<open>Set-Cookie\<close> headers that were written for a list of cookies, in one \<open>Cookie\<close> header, the jar maps every key to its value, an empty value included, and for a repeated key to the first value.\<close>

theorem cookie_round_trip:
  assumes "\<forall>c\<in>set cs. cookie_ok c"
  shows "parse_cookies (client_header (map (\<lambda>c. client_pair (cookie_dump put_time c)) cs)) Map.empty
    = map_of (map (\<lambda>c. (cookie_key c, cookie_value c)) cs)"
proof -
  have m: "map (\<lambda>c. client_pair (cookie_dump put_time c)) cs = map (\<lambda>c. cookie_key c @ ''='' @ cookie_text c) cs"
    using assms by (auto simp: client_pair_dump)
  show ?thesis
  proof (cases "cs = []")
    case False
    then show ?thesis using parse_client_header [OF assms, of "[]" Map.empty]
      by (simp only: m if_False append_Nil map_add_empty simp_thms)
  qed (simp add: parse_cookies.simps)
qed

lemma cookie_round_trip_witness:
  "parse_cookies (client_header (map (\<lambda>c. client_pair (cookie_dump (\<lambda>_. []) c))
     [(new_cookie ''id'' ''7'')\<lparr>httponly := True, max_age := Some 60\<rparr>, new_cookie ''mode'' []])) Map.empty ''mode'' = Some []"
  by (subst cookie_round_trip) (auto simp: cookie_ok_def new_cookie_def trimmed_def unquote_def is_space_def code_def)

section \<open>Cookies of the previous request\<close>

lemma headers_cookie_after:
  "headers (fst (cookie_after put_time (r, hs, ctx)))
     = headers r @ map (\<lambda>c. (''Set-Cookie'', sanitize_header_value (cookie_dump put_time c))) (cookies_to_add ctx)"
proof -
  have n: "sanitize_header_value ''Set-Cookie'' = ''Set-Cookie''" by (simp add: sanitize_header_value_def)
  have "headers (fold (\<lambda>c r. add_header ''Set-Cookie'' (cookie_dump put_time c) r) cs r)
     = headers r @ map (\<lambda>c. (''Set-Cookie'', sanitize_header_value (cookie_dump put_time c))) cs" for cs
    by (induction cs arbitrary: r) (simp_all add: add_header_def n)
  then show ?thesis by (simp add: cookie_after_def)
qed

lemma after_cookies_contexts: "snd (cookie_after put_time s) = snd s"
  by (cases s) (simp add: cookie_after_def)

lemma completed_cookie_after: "completed (fst (cookie_after put_time s)) = completed (fst s)"
proof -
  have "completed (fold (\<lambda>c r. add_header ''Set-Cookie'' (cookie_dump put_time c) r) cs r) = completed r" for cs r
    by (induction cs arbitrary: r) (simp_all add: add_header_def)
  then show ?thesis by (cases s) (simp add: cookie_after_def)
qed

text \<open>C31: Contexts outlive their request.  When a request has been answered by a handler and the next one on the connection
  is refused before \<open>handle\<close> has made new contexts, the cookies the first handler has set are sent once more, with the
  refusal.
\<close>

theorem cookies_of_previous_request:
  fixes put_time :: "'t \<Rightarrow> string"
  assumes "\<not> completed (resp x)" "ci_count ''Cookie'' (incoming x) = 0"
    "\<forall>u. \<not> completed (fst (f u)) \<and> cookies_to_add (snd (snd (f u))) = cs"
  defines "mws \<equiv> [cookie_parser put_time]"
  defines "y \<equiv> mw_handle mws new_cookie_context (handle_rule mws [] (wrapped_handler_call mws f)) x"
  shows "headers (last (sent_responses (mw_reject mws (y\<lparr>resp := r\<rparr>))))
    = headers r @ map (\<lambda>c. (''Set-Cookie'', sanitize_header_value (cookie_dump put_time c))) cs"
proof -
  have g: "globals mws = mws" by (simp add: globals_def mws_def cookie_parser_def)
  have k: "keeps_completed mws" by (auto simp: keeps_completed_def mws_def cookie_parser_def completed_cookie_after)
  have "outcome y = delivers x (nested_run mws [] f (resp x, incoming x, new_cookie_context))"
    unfolding y_def using handle_nested [of "[]" mws x f new_cookie_context] assms(1,3) k by (simp add: g indices_ok_def locals_def)
  moreover have "cookies_to_add b = cs" if "f u = (r', a, b)" for u r' a b using assms(3) [rule_format, of u] that by simp
  ultimately have "cookies_to_add (contexts y) = cs" using assms(1,2)
    by (simp add: outcome_def delivers_def nested_run_def mws_def cookie_parser_def cookie_before_def Let_def after_cookies_contexts
        answer_rule_def split: prod.split)
  then show ?thesis using outcome_complete [of mws "y\<lparr>resp := r, call_after_handlers := True\<rparr>"]
    by (simp add: mw_reject_def g outcome_def delivers_def view_def)
      (simp add: mws_def cookie_parser_def headers_cookie_after)
qed

lemma cookies_of_previous_request_witness:
  "headers (last (sent_responses (mw_reject [cookie_parser (\<lambda>_. [])]
     ((mw_handle [cookie_parser (\<lambda>_. [])] new_cookie_context (handle_rule [cookie_parser (\<lambda>_. [])] []
        (wrapped_handler_call [cookie_parser (\<lambda>_. [])] (\<lambda>(r, q, ctx). (new_response 200, q, ctx\<lparr>cookies_to_add := [new_cookie ''sid'' ''7'']\<rparr>))))
        (first_exchange new_cookie_context))\<lparr>resp := new_response 404\<rparr>)))) = [(''Set-Cookie'', ''sid=7'')]"
  by (subst cookies_of_previous_request [where cs = "[new_cookie ''sid'' ''7'']"])
    (auto simp: first_exchange_def new_response_def ci_count_def new_cookie_def cookie_dump_def dumpString_def sanitize_header_value_def)

end
