(* ===== verification/Cors.thy ===== *)
theory Cors
  imports Cookies
begin

text \<open>
  \<open>CORSHandler\<close> and \<open>CORSRules\<close> of \<open>crow.h\<close>: the policies of prefixes and their setters, which policy a
  request is under, and the headers \<open>after_handle\<close> adds.  The setters return references; here each returns the new policy.
\<close>

section \<open>Policies\<close>

record cors_rules =
  ignored :: bool
  origin :: string
  cors_methods :: string
  cors_headers :: string
  exposed_headers :: string
  cors_max_age :: string
  credentials :: bool

definition default_cors :: cors_rules where
  "default_cors = \<lparr>ignored = False, origin = ''*'', cors_methods = ''*'', cors_headers = ''*'', exposed_headers = [], cors_max_age = [],
     credentials = False\<rparr>"

definition add_list_item :: "string \<Rightarrow> string \<Rightarrow> string" where
  "add_list_item val xs =
     (let ys = (if xs = ''*'' then [] else xs) in (if ys \<noteq> [] then ys @ '', '' else ys) @ val)"

definition allow_origin :: "string \<Rightarrow> cors_rules \<Rightarrow> cors_rules" where
  "allow_origin s R = R\<lparr>origin := s\<rparr>"

definition allow_methods :: "nat list \<Rightarrow> cors_rules \<Rightarrow> cors_rules" where
  "allow_methods ms R = fold (\<lambda>m R. R\<lparr>cors_methods := add_list_item (method_name m) (cors_methods R)\<rparr>) ms R"

definition allow_headers :: "string list \<Rightarrow> cors_rules \<Rightarrow> cors_rules" where
  "allow_headers hs R = fold (\<lambda>h R. R\<lparr>cors_headers := add_list_item h (cors_headers R)\<rparr>) hs R"

definition expose :: "string list \<Rightarrow> cors_rules \<Rightarrow> cors_rules" where
  "expose hs R = fold (\<lambda>h R. R\<lparr>exposed_headers := add_list_item h (exposed_headers R)\<rparr>) hs R"

definition set_max_age :: "int \<Rightarrow> cors_rules \<Rightarrow> cors_rules" where
  "set_max_age n R = R\<lparr>cors_max_age := to_string n\<rparr>"

definition allow_credentials :: "cors_rules \<Rightarrow> cors_rules" where
  "allow_credentials R = R\<lparr>credentials := True\<rparr>"

definition cors_ignore :: "cors_rules \<Rightarrow> cors_rules" where
  "cors_ignore R = R\<lparr>ignored := True\<rparr>"

text \<open>The request, as far as the handler looks at it.\<close>

record cors_request =
  cors_method :: nat
  cors_url :: string
  cors_request_headers :: ci_map

record cors_handler =
  prefix_rules :: "(string \<times> cors_rules) list"
  default_rules :: cors_rules

definition new_cors :: cors_handler where
  "new_cors = \<lparr>prefix_rules = [], default_rules = default_cors\<rparr>"

text \<open>\<open>prefix\<close> and, with the prefix of a blueprint, \<open>blueprint\<close>; the policy is the default one, changed by \<open>f\<close>.\<close>

definition cors_prefix :: "string \<Rightarrow> (cors_rules \<Rightarrow> cors_rules) \<Rightarrow> cors_handler \<Rightarrow> cors_handler" where
  "cors_prefix p f H = H\<lparr>prefix_rules := prefix_rules H @ [(p, f default_cors)]\<rparr>"

definition cors_blueprint :: "'h blueprint \<Rightarrow> (cors_rules \<Rightarrow> cors_rules) \<Rightarrow> cors_handler \<Rightarrow> cors_handler" where
  "cors_blueprint bp = cors_prefix (bp_prefix bp)"

definition cors_global :: "(cors_rules \<Rightarrow> cors_rules) \<Rightarrow> cors_handler \<Rightarrow> cors_handler" where
  "cors_global f H = H\<lparr>default_rules := f (default_rules H)\<rparr>"

definition find_rule :: "string \<Rightarrow> cors_handler \<Rightarrow> cors_rules" where
  "find_rule path H =
     (case find (\<lambda>rule. take (length (fst rule)) path = fst rule) (prefix_rules H) of
        None \<Rightarrow> default_rules H | Some rule \<Rightarrow> snd rule)"

section \<open>Headers\<close>

definition set_header_no_override :: "string \<Rightarrow> string \<Rightarrow> response \<Rightarrow> response" where
  "set_header_no_override k v r =
     (if v = [] then r else if get_header_value (headers r) k \<noteq> [] then r else add_header k v r)"

definition cors_apply :: "cors_rules \<Rightarrow> cors_request \<Rightarrow> response \<Rightarrow> response" where
  "cors_apply R q r =
     (if ignored R then r
      else
        (let r1 = set_header_no_override ''Access-Control-Allow-Methods'' (cors_methods R) r;
             r2 = set_header_no_override ''Access-Control-Allow-Headers'' (cors_headers R) r1;
             r3 = set_header_no_override ''Access-Control-Expose-Headers'' (exposed_headers R) r2;
             r4 = set_header_no_override ''Access-Control-Max-Age'' (cors_max_age R) r3
         in if cors_method q \<noteq> Options_Method \<and> credentials R
            then (let r5 = set_header_no_override ''Access-Control-Allow-Credentials'' ''true'' r4
                  in if origin R = ''*''
                     then set_header_no_override ''Access-Control-Allow-Origin'' (get_header_value (cors_request_headers q) ''Origin'') r5
                     else set_header_no_override ''Access-Control-Allow-Origin'' (origin R) r5)
            else set_header_no_override ''Access-Control-Allow-Origin'' (origin R) r4))"

definition cors_after :: "cors_handler \<Rightarrow> response \<times> cors_request \<times> 'c \<Rightarrow> response \<times> cors_request \<times> 'c" where
  "cors_after H = (\<lambda>(r, q, ctx). (cors_apply (find_rule (cors_url q) H) q r, q, ctx))"

section \<open>Properties\<close>

text \<open>The policy as a table of headers and values, in the order they are written; an empty value stands for none.\<close>

definition cors_table :: "cors_rules \<Rightarrow> cors_request \<Rightarrow> (string \<times> string) list" where
  "cors_table R q =
     [(''Access-Control-Allow-Methods'', cors_methods R),
      (''Access-Control-Allow-Headers'', cors_headers R),
      (''Access-Control-Expose-Headers'', exposed_headers R),
      (''Access-Control-Max-Age'', cors_max_age R),
      (''Access-Control-Allow-Credentials'', if cors_method q \<noteq> Options_Method \<and> credentials R then ''true'' else []),
      (''Access-Control-Allow-Origin'',
        if cors_method q \<noteq> Options_Method \<and> credentials R \<and> origin R = ''*''
        then get_header_value (cors_request_headers q) ''Origin'' else origin R)]"

definition missing :: "response \<Rightarrow> string \<times> string \<Rightarrow> bool" where
  "missing r = (\<lambda>(k, v). v \<noteq> [] \<and> get_header_value (headers r) k = [])"

definition sanitized :: "string \<times> string \<Rightarrow> string \<times> string" where
  "sanitized = (\<lambda>(k, v). (sanitize_header_value k, sanitize_header_value v))"

lemma get_header_value_append:
  "\<not> ci_key_eq k' k \<Longrightarrow> get_header_value (hs @ [(k', v)]) k = get_header_value hs k"
  by (induction hs) (auto simp: get_header_value_def)

lemma missing_add: "\<not> ci_key_eq (sanitize_header_value k) k' \<Longrightarrow> missing (add_header k v r) (k', v') = missing r (k', v')"
  by (simp add: missing_def add_header_def get_header_value_append)

lemma fold_no_override:
  assumes "distinct ks" "\<forall>k\<in>set ks. \<forall>k'\<in>set ks. k \<noteq> k' \<longrightarrow> \<not> ci_key_eq (sanitize_header_value k) k'" "map fst kvs = ks"
  shows "headers (fold (\<lambda>(k, v). set_header_no_override k v) kvs r) = headers r @ map sanitized (filter (missing r) kvs)"
  using assms
proof (induction kvs arbitrary: ks r)
  case (Cons kv kvs)
  obtain k v where kv: "kv = (k, v)" by (rule prod.exhaust)
  have IH: "headers (fold (\<lambda>(k, v). set_header_no_override k v) kvs r) = headers r @ map sanitized (filter (missing r) kvs)" for r
  proof (rule Cons.IH [OF _ _ refl])
    have "set (map fst kvs) \<subseteq> set ks" by (simp only: Cons.prems(3) [symmetric] list.map list.set) blast
    then show "\<forall>k\<in>set (map fst kvs). \<forall>k'\<in>set (map fst kvs). k \<noteq> k' \<longrightarrow> \<not> ci_key_eq (sanitize_header_value k) k'"
      using Cons.prems(2) by blast
    show "distinct (map fst kvs)" using Cons.prems(1,3) by auto
  qed
  have "missing (add_header k v r) (k', v') = missing r (k', v')" if "(k', v') \<in> set kvs" for k' v'
  proof (rule missing_add)
    have "k' \<in> set ks" "k \<in> set ks" "k \<noteq> k'" using Cons.prems that kv by force+
    then show "\<not> ci_key_eq (sanitize_header_value k) k'" using Cons.prems(2) by blast
  qed
  then have same: "filter (missing (add_header k v r)) kvs = filter (missing r) kvs" by (auto intro: filter_cong)
  show ?case
  proof (cases "missing r (k, v)")
    case True
    then have "set_header_no_override k v r = add_header k v r" by (simp add: set_header_no_override_def missing_def)
    then have "headers (fold (\<lambda>(k, v). set_header_no_override k v) (kv # kvs) r)
      = headers (add_header k v r) @ map sanitized (filter (missing r) kvs)" by (simp add: kv IH same)
    also have "headers (add_header k v r) = headers r @ [sanitized (k, v)]" by (simp add: add_header_def sanitized_def)
    finally show ?thesis using True by (simp add: kv)
  next
    case False
    then have "set_header_no_override k v r = r" by (auto simp: set_header_no_override_def missing_def)
    then show ?thesis using False by (simp add: kv IH)
  qed
qed simp

lemma cors_apply_fold:
  "\<not> ignored R \<Longrightarrow> cors_apply R q r = fold (\<lambda>(k, v). set_header_no_override k v) (cors_table R q) r"
  by (simp add: cors_apply_def cors_table_def Let_def) (simp add: set_header_no_override_def)

text \<open>\<open>after_handle\<close> adds exactly the headers of the table of the request's policy that have a value and that the application has not set, cleaned of line breaks, and changes no other header.  By the table, the answer to a preflight request does not allow credentials, and where the policy leaves the origin open while it allows credentials, every origin is accepted.\<close>

theorem cors_policy:
  "headers (fst (cors_after H (r, q, ctx))) =
     (let R = find_rule (cors_url q) H
      in headers r @ (if ignored R then [] else map sanitized (filter (missing r) (cors_table R q))))"
proof -
  let ?R = "find_rule (cors_url q) H"
  have "headers (cors_apply ?R q r) = headers r @ map sanitized (filter (missing r) (cors_table ?R q))" if "\<not> ignored ?R"
    unfolding cors_apply_fold [OF that]
    by (rule fold_no_override [OF _ _ refl])
      (simp_all add: cors_table_def ci_key_eq_def string_equals_def sanitize_header_value_def to_upper_def code_def)
  then show ?thesis by (simp add: cors_after_def Let_def cors_apply_def)
qed

end
