(* ===== verification/Multipart.thy ===== *)
theory Multipart
  imports Response Text_Search
begin

text \<open>
  Multipart messages (\<open>crow::multipart\<close>): \<open>message\<close>, which copies the parts of a body, and
  \<open>message_view\<close>, which refers to them.  Positions that were not found are \<open>npos\<close>, and the code adds to
  them: \<open>npos + 2\<close> is 1.  The containers of headers and parameters are lists in the order in
  which they are iterated; new elements are put at the end.
\<close>

section \<open>Data\<close>

record mp_header =
  mp_value :: string
  params :: "(string \<times> string) list"

record part =
  part_headers :: "(string \<times> mp_header) list"
  part_body :: string

record multipart_message =
  message_headers :: ci_map
  boundary :: string
  parts :: "part list"
  part_map :: "(string \<times> part) list"
  content_type :: string

text \<open>
  What can go wrong: the exception \<open>bad_request\<close>, the exception of \<open>substr\<close> for a position after the end, and following the end
  iterator of the parameters when there is no parameter \<open>name\<close>, or the first character of an empty view.
\<close>

datatype multipart_error = Bad_Request string | Out_Of_Range | No_Name | No_Character

definition dd :: string where "dd = ''--''"

definition empty_header :: mp_header where "empty_header = \<lparr>mp_value = [], params = []\<rparr>"

definition empty_part :: part where "empty_part = \<lparr>part_headers = [], part_body = []\<rparr>"

text \<open>\<open>found + n\<close> for a position found or \<open>npos\<close>, \<open>n\<close> positive.\<close>

definition after_found :: "nat option \<Rightarrow> nat \<Rightarrow> nat" where
  "after_found p n = (case p of None \<Rightarrow> n - 1 | Some i \<Rightarrow> i + n)"

definition until_found :: "nat option \<Rightarrow> string \<Rightarrow> string" where
  "until_found p s = (case p of None \<Rightarrow> s | Some i \<Rightarrow> take i s)"

text \<open>\<open>s.substr(pos)\<close>, and \<open>s.substr(0, s.length() - 2)\<close> with its wrap-around.\<close>

definition substr_from :: "nat \<Rightarrow> string \<Rightarrow> multipart_error + string" where
  "substr_from p s = (if length s < p then Inl Out_Of_Range else Inr (drop p s))"

definition without_last_two :: "string \<Rightarrow> string" where
  "without_last_two s = (if length s < 2 then s else take (length s - 2) s)"

section \<open>Looking up\<close>

definition get_header_object :: "(string \<times> mp_header) list \<Rightarrow> string \<Rightarrow> mp_header" where
  "get_header_object hs k = (case find (\<lambda>h. ci_key_eq (fst h) k) hs of None \<Rightarrow> empty_header | Some h \<Rightarrow> snd h)"

definition get_part_by_name :: "string \<Rightarrow> multipart_message \<Rightarrow> part" where
  "get_part_by_name name m = (case find (\<lambda>p. ci_key_eq (fst p) name) (part_map m) of None \<Rightarrow> empty_part | Some p \<Rightarrow> snd p)"

definition part_name :: "part \<Rightarrow> multipart_error + string" where
  "part_name p =
     (case map_of (params (get_header_object (part_headers p) ''Content-Disposition'')) ''name'' of
        None \<Rightarrow> Inl No_Name | Some n \<Rightarrow> Inr n)"

section \<open>Writing\<close>

definition pad :: "string \<Rightarrow> string" where "pad s = [CHR 0x22] @ s @ [CHR 0x22]"

definition dump_param :: "string \<times> string \<Rightarrow> string" where
  "dump_param = (\<lambda>(k, v). ''; '' @ k @ ''='' @ pad v)"

definition dump_header :: "string \<times> mp_header \<Rightarrow> string" where
  "dump_header = (\<lambda>(k, h). k @ '': '' @ mp_value h @ concat (map dump_param (params h)) @ crlf)"

definition dump_part :: "part \<Rightarrow> string" where
  "dump_part p = concat (map dump_header (part_headers p)) @ crlf @ part_body p @ crlf"

definition dump_message :: "string \<Rightarrow> part list \<Rightarrow> string" where
  "dump_message b ps = concat (map (\<lambda>p. (dd @ b) @ crlf @ dump_part p) ps) @ (dd @ b) @ dd @ crlf"

section \<open>Reading\<close>

definition get_boundary :: "string \<Rightarrow> string" where
  "get_boundary header =
     (case find_from ''boundary='' header 0 of
        None \<Rightarrow> []
      | Some i \<Rightarrow> (let t = drop (i + 9) header
                   in if t \<noteq> [] \<and> hd t = CHR 0x22 then take (length t - 2) (drop 1 t) else t))"

definition trim_quotes :: "string \<Rightarrow> string" where
  "trim_quotes s = (if length s > 1 \<and> hd s = CHR 0x22 \<and> last s = CHR 0x22 then take (length s - 2) (drop 1 s) else s)"

definition params_emplace :: "string \<Rightarrow> string \<Rightarrow> (string \<times> string) list \<Rightarrow> (string \<times> string) list" where
  "params_emplace k v ps = (if k \<in> fst ` set ps then ps else ps @ [(k, v)])"

text \<open>What follows a \<open>; \<close>, or nothing.\<close>

definition after_semicolon :: "string \<Rightarrow> string" where
  "after_semicolon line = (case find_from ''; '' line 0 of None \<Rightarrow> [] | Some i \<Rightarrow> drop (i + 2) line)"

function parse_params :: "string \<Rightarrow> (string \<times> string) list \<Rightarrow> (string \<times> string) list" where
  "parse_params line ps =
     (if line = [] then ps
      else
        (let param = until_found (find_from ''; '' line 0) line;
             split = find_from ''='' param 0
         in parse_params (after_semicolon line)
              (params_emplace (until_found split param) (trim_quotes (drop (after_found split 1) param)) ps)))"
  by pat_completeness auto
termination
  by (relation "measure (\<lambda>(line, ps). length line)") (auto simp: after_semicolon_def split: option.split)

declare parse_params.simps [simp del]

text \<open>One line of the head of a part.\<close>

definition parse_line :: "string \<Rightarrow> multipart_error + string \<times> mp_header" where
  "parse_line line =
     (if line = [] then Inr ([], empty_header)
      else
        (let header = until_found (find_from ''; '' line 0) line;
             split = find_from '': '' header 0
         in case substr_from (after_found split 2) header of
              Inl e \<Rightarrow> Inl e
            | Inr v \<Rightarrow> Inr (until_found split header, \<lparr>mp_value = v, params = parse_params (after_semicolon line) []\<rparr>)))"

function parse_section_head :: "string \<Rightarrow> (string \<times> mp_header) list \<Rightarrow> multipart_error + (string \<times> mp_header) list" where
  "parse_section_head ls hs =
     (if ls = [] then Inr hs
      else
        (let found = find_from crlf ls 0
         in case parse_line (until_found found ls) of
              Inl e \<Rightarrow> Inl e
            | Inr h \<Rightarrow> parse_section_head (drop (after_found found 2) ls) (hs @ [h])))"
  by pat_completeness auto
termination
  by (relation "measure (\<lambda>(ls, hs). length ls)") (auto simp: after_found_def split: option.split)

declare parse_section_head.simps [simp del]

text \<open>\<open>message::parse_section\<close> erases, \<open>message_view::parse_section\<close> takes \<open>substr\<close>.\<close>

definition parse_section :: "string \<Rightarrow> multipart_error + part" where
  "parse_section s =
     (let found = find_from (crlf @ crlf) s 0
      in case parse_section_head (take (after_found found 2) s) [] of
           Inl e \<Rightarrow> Inl e
         | Inr hs \<Rightarrow> Inr \<lparr>part_headers = hs, part_body = without_last_two (drop (after_found found 4) s)\<rparr>)"

text \<open>The readers of the view, in which every \<open>substr\<close> can be out of range.\<close>

function view_params :: "string \<Rightarrow> (string \<times> string) list \<Rightarrow> multipart_error + (string \<times> string) list" where
  "view_params line ps =
     (if line = [] then Inr ps
      else
        (let found = find_from ''; '' line 0; param = until_found found line; split = find_from ''='' param 0
         in case (case found of None \<Rightarrow> Inr [] | Some i \<Rightarrow> substr_from (i + 2) line) of
              Inl e \<Rightarrow> Inl e
            | Inr rest \<Rightarrow>
                (case substr_from (after_found split 1) param of
                   Inl e \<Rightarrow> Inl e
                 | Inr v \<Rightarrow> view_params rest (params_emplace (until_found split param) (trim_quotes v) ps))))"
  by pat_completeness auto
termination
  by (relation "measure (\<lambda>(line, ps). length line)") (auto simp: substr_from_def split: option.splits if_splits)

declare view_params.simps [simp del]

definition view_line :: "string \<Rightarrow> multipart_error + string \<times> mp_header" where
  "view_line line =
     (if line = [] then Inr ([], empty_header)
      else
        (let found = find_from ''; '' line 0; header = until_found found line; split = find_from '': '' header 0
         in case (case found of None \<Rightarrow> Inr [] | Some i \<Rightarrow> substr_from (i + 2) line) of
              Inl e \<Rightarrow> Inl e
            | Inr rest \<Rightarrow>
                (case substr_from (after_found split 2) header of
                   Inl e \<Rightarrow> Inl e
                 | Inr v \<Rightarrow> map_sum id (\<lambda>ps. (until_found split header, \<lparr>mp_value = v, params = ps\<rparr>)) (view_params rest []))))"

function view_section_head :: "string \<Rightarrow> (string \<times> mp_header) list \<Rightarrow> multipart_error + (string \<times> mp_header) list" where
  "view_section_head ls hs =
     (if ls = [] then Inr hs
      else
        (let found = find_from crlf ls 0
         in case substr_from (after_found found 2) ls of
              Inl e \<Rightarrow> Inl e
            | Inr rest \<Rightarrow>
                (case view_line (until_found found ls) of
                   Inl e \<Rightarrow> Inl e
                 | Inr h \<Rightarrow> view_section_head rest (hs @ [h]))))"
  by pat_completeness auto
termination
  by (relation "measure (\<lambda>(ls, hs). length ls)") (auto simp: after_found_def substr_from_def split: option.splits if_splits)

declare view_section_head.simps [simp del]

definition view_section :: "string \<Rightarrow> multipart_error + part" where
  "view_section s =
     (let found = find_from (crlf @ crlf) s 0
      in case substr_from (after_found found 4) s of
           Inl e \<Rightarrow> Inl e
         | Inr b \<Rightarrow>
             (case view_section_head (take (after_found found 2) s) [] of
                Inl e \<Rightarrow> Inl e
              | Inr hs \<Rightarrow> Inr \<lparr>part_headers = hs, part_body = without_last_two b\<rparr>))"

text \<open>A section becomes a part and an entry of \<open>part_map\<close>; an empty one is left out.\<close>

definition add_section ::
  "(string \<Rightarrow> multipart_error + part) \<Rightarrow> string \<Rightarrow> part list \<times> (string \<times> part) list \<Rightarrow> multipart_error + part list \<times> (string \<times> part) list" where
  "add_section read s = (\<lambda>(ps, pm).
     (if s = [] then Inr (ps, pm)
      else (case read s of
              Inl e \<Rightarrow> Inl e
            | Inr p \<Rightarrow> (case part_name p of Inl e \<Rightarrow> Inl e | Inr n \<Rightarrow> Inr (ps @ [p], pm @ [(n, p)])))))"

function parse_body ::
  "string \<Rightarrow> string \<Rightarrow> part list \<times> (string \<times> part) list \<Rightarrow> multipart_error + part list \<times> (string \<times> part) list" where
  "parse_body b bd acc =
     (if bd = crlf then Inr acc
      else (case find_from (dd @ b) bd 0 of
          None \<Rightarrow> Inl (Bad_Request ''Unable to find delimiter in multipart message. Probably ill-formed body'')
        | Some i \<Rightarrow>
            (case add_section parse_section (take i bd) acc of
               Inl e \<Rightarrow> Inl e
             | Inr acc' \<Rightarrow> parse_body b (drop (i + length (dd @ b) + 2) bd) acc')))"
  by pat_completeness auto
termination
proof (relation "measure (\<lambda>(b, bd, acc). length bd)", goal_cases)
  case (2 b bd acc i acc')
  then show ?case using find_from_bound [of "dd @ b" bd 0 i] by (simp add: dd_def)
qed simp

declare parse_body.simps [simp del]

text \<open>The view stops without an error when there is no delimiter, and its \<open>substr\<close> can throw.\<close>

function view_body ::
  "string \<Rightarrow> string \<Rightarrow> part list \<times> (string \<times> part) list \<Rightarrow> multipart_error + part list \<times> (string \<times> part) list" where
  "view_body b bd acc =
     (if bd = crlf then Inr acc
      else (case find_from (dd @ b) bd 0 of
          None \<Rightarrow> Inr acc
        | Some i \<Rightarrow>
            (if length bd < i + length (dd @ b) + 2 then Inl Out_Of_Range
             else (case add_section view_section (take i bd) acc of
                     Inl e \<Rightarrow> Inl e
                   | Inr acc' \<Rightarrow> view_body b (drop (i + length (dd @ b) + 2) bd) acc'))))"
  by pat_completeness auto
termination
proof (relation "measure (\<lambda>(b, bd, acc). length bd)", goal_cases)
  case (2 b bd acc i acc')
  then show ?case using find_from_bound [of "dd @ b" bd 0 i] by (simp add: dd_def)
qed simp

declare view_body.simps [simp del]

section \<open>Messages\<close>

definition type_with_boundary :: "string \<Rightarrow> string" where
  "type_with_boundary b = (if b \<noteq> [] then ''multipart/form-data; boundary='' @ b else ''multipart/form-data; boundary=CROW-BOUNDARY'')"

text \<open>The constructor from parts, and the one from the headers and the body of a request.\<close>

fun name_parts :: "part list \<Rightarrow> multipart_error + (string \<times> part) list" where
  "name_parts [] = Inr []"
| "name_parts (p # ps) =
     (case part_name p of
        Inl e \<Rightarrow> Inl e
      | Inr n \<Rightarrow> (case name_parts ps of Inl e \<Rightarrow> Inl e | Inr pm \<Rightarrow> Inr ((n, p) # pm)))"

definition message_of_parts :: "ci_map \<Rightarrow> string \<Rightarrow> part list \<Rightarrow> multipart_error + multipart_message" where
  "message_of_parts hs b ps =
     map_sum id (\<lambda>pm. \<lparr>message_headers = hs, boundary = b, parts = ps, part_map = pm, content_type = type_with_boundary b\<rparr>) (name_parts ps)"

definition message_of_request :: "ci_map \<Rightarrow> string \<Rightarrow> multipart_error + multipart_message" where
  "message_of_request hs bd =
     (let b = get_boundary (get_header_value hs ''Content-Type'')
      in if b = [] then Inl (Bad_Request ''Empty boundary in multipart message'')
         else map_sum id (\<lambda>(ps, pm). \<lparr>message_headers = hs, boundary = b, parts = ps, part_map = pm, content_type = type_with_boundary b\<rparr>)
                (parse_body b bd ([], [])))"

text \<open>
  A view has no content type.  \<open>to_return[0]\<close> of an empty view is no character; the result of an empty
  header is the empty boundary.
\<close>

definition view_boundary :: "string \<Rightarrow> multipart_error + string" where
  "view_boundary header =
     (if (case find_from ''boundary='' header 0 of None \<Rightarrow> False | Some i \<Rightarrow> drop (i + 9) header = []) then Inl No_Character
      else Inr (get_boundary header))"

definition view_of_request :: "ci_map \<Rightarrow> string \<Rightarrow> multipart_error + string \<times> part list \<times> (string \<times> part) list" where
  "view_of_request hs bd =
     (case view_boundary (get_header_value hs ''Content-Type'') of
        Inl e \<Rightarrow> Inl e
      | Inr b \<Rightarrow> map_sum id (Pair b) (view_body b bd ([], [])))"

end
