(* ===== verification/Multipart_Properties.thy ===== *)
theory Multipart_Properties
  imports Multipart
begin

text \<open>
  Properties of multipart messages: what \<open>dump\<close> writes is read back, and a view of a message that can
  be read has the same parts.
\<close>

section \<open>Reading what was written\<close>

text \<open>What the writer does not quote must not look like a separator.\<close>

definition plain :: "string \<Rightarrow> bool" where
  "plain s \<longleftrightarrow> CHR 0x0D \<notin> set s \<and> CHR '';'' \<notin> set s"

definition param_ok :: "string \<times> string \<Rightarrow> bool" where
  "param_ok = (\<lambda>(k, v). plain k \<and> plain v \<and> CHR ''='' \<notin> set k)"

definition header_ok :: "string \<times> mp_header \<Rightarrow> bool" where
  "header_ok = (\<lambda>(k, h). plain k \<and> CHR '':'' \<notin> set k \<and> plain (mp_value h) \<and> (\<forall>p\<in>set (params h). param_ok p) \<and> distinct (map fst (params h)))"

definition part_ok :: "string \<Rightarrow> part \<Rightarrow> bool" where
  "part_ok b p \<longleftrightarrow> (\<forall>h\<in>set (part_headers p). header_ok h) \<and> first_there (dd @ b) (dump_part p)"

lemma until_found_length: "until_found (Some (length xs)) (xs @ ys) = xs"
  by (simp add: until_found_def)

lemma drop_line: "drop (after_found (Some (length xs)) 2) (xs @ crlf @ ys) = ys"
  by (simp add: after_found_def crlf_def)

lemma trim_pad [simp]: "trim_quotes (pad v) = v"
  by (simp add: trim_quotes_def pad_def)

definition params_text :: "(string \<times> string) list \<Rightarrow> string" where
  "params_text ps = concat (map dump_param ps)"

lemma params_text_simps [simp]:
  "params_text [] = []" "params_text ((k, v) # ps) = ''; '' @ k @ ''='' @ pad v @ params_text ps"
  by (simp_all add: params_text_def dump_param_def)

lemma find_before_params:
  assumes "CHR '';'' \<notin> set xs"
  shows "until_found (find_from ''; '' (xs @ params_text ps) 0) (xs @ params_text ps) = xs"
    and "after_semicolon (xs @ params_text ps) = drop 2 (params_text ps)"
proof -
  have f: "find_from ''; '' (xs @ params_text ps) 0 = (if ps = [] then None else Some (length xs))"
  proof (cases ps)
    case (Cons p qs)
    then obtain k v where "p = (k, v)" by (metis surj_pair)
    then show ?thesis using Cons find_hd [of "''; ''" xs "k @ ''='' @ pad v @ params_text qs"] assms by simp
  qed (simp add: find_absent assms)
  then show "until_found (find_from ''; '' (xs @ params_text ps) 0) (xs @ params_text ps) = xs"
    by (simp add: until_found_def)
  show "after_semicolon (xs @ params_text ps) = drop 2 (params_text ps)"
    using f by (cases ps) (auto simp: after_semicolon_def)
qed

lemma parse_params_text:
  assumes "\<forall>p\<in>set ps. param_ok p" "distinct (map fst (qs @ ps))"
  shows "parse_params (drop 2 (params_text ps)) qs = qs @ ps"
  using assms
proof (induction ps arbitrary: qs)
  case Nil
  then show ?case by (simp add: parse_params.simps)
next
  case (Cons p ps)
  obtain k v where p: "p = (k, v)" by (rule prod.exhaust)
  let ?x = "k @ ''='' @ pad v"
  have ok: "CHR '';'' \<notin> set ?x" "CHR ''='' \<notin> set k" using Cons.prems(1) by (auto simp: p param_ok_def plain_def pad_def)
  have d: "drop 2 (params_text (p # ps)) = ?x @ params_text ps" by (simp add: p)
  have s: "find_from ''='' ?x 0 = Some (length k)" using find_char [OF ok(2), of "pad v"] by simp
  have new: "k \<notin> fst ` set qs" using Cons.prems(2) by (auto simp: p)
  have "parse_params (?x @ params_text ps) qs = parse_params (drop 2 (params_text ps)) (qs @ [(k, v)])"
    by (subst parse_params.simps) (simp only: find_before_params [OF ok(1)] s Let_def,
        simp add: until_found_def after_found_def params_emplace_def new)
  also have "\<dots> = qs @ p # ps" using Cons.IH [of "qs @ [(k, v)]"] Cons.prems by (simp add: p)
  finally show ?case unfolding d .
qed

lemma parse_line_dump:
  assumes "header_ok (k, h)"
  shows "parse_line (k @ '': '' @ mp_value h @ params_text (params h)) = Inr (k, h)"
proof -
  let ?x = "k @ '': '' @ mp_value h"
  have ok: "CHR '';'' \<notin> set ?x" "CHR '':'' \<notin> set k" "\<forall>p\<in>set (params h). param_ok p" "distinct (map fst (params h))"
    using assms by (auto simp: header_ok_def plain_def)
  have s: "find_from '': '' ?x 0 = Some (length k)" using find_hd [of "'': ''" k "mp_value h"] ok(2) by simp
  have ps: "parse_params (drop 2 (params_text (params h))) [] = params h" using parse_params_text [of "params h" "[]"] ok by simp
  have "parse_line (?x @ params_text (params h)) = Inr (k, \<lparr>mp_value = mp_value h, params = params h\<rparr>)"
    unfolding parse_line_def by (simp only: find_before_params [OF ok(1)] s Let_def ps)
      (simp add: until_found_def after_found_def substr_from_def)
  then show ?thesis by simp
qed

lemma header_line_plain:
  assumes "header_ok (k, h)"
  shows "CHR 0x0D \<notin> set (k @ '': '' @ mp_value h @ params_text (params h))"
proof -
  have "CHR 0x0D \<notin> set (params_text ps)" if "\<forall>p\<in>set ps. param_ok p" for ps
    using that by (induction ps) (auto simp: param_ok_def plain_def pad_def)
  then show ?thesis using assms by (auto simp: header_ok_def plain_def)
qed

lemma dump_header_line: "dump_header (k, h) = (k @ '': '' @ mp_value h @ params_text (params h)) @ crlf"
  by (simp add: dump_header_def params_text_def)

lemma parse_section_head_dump:
  assumes "\<forall>h\<in>set hs. header_ok h"
  shows "parse_section_head (concat (map dump_header hs)) gs = Inr (gs @ hs)"
  using assms
proof (induction hs arbitrary: gs)
  case Nil
  then show ?case by (simp add: parse_section_head.simps)
next
  case (Cons kh hs)
  obtain k h where kh: "kh = (k, h)" by (rule prod.exhaust)
  let ?l = "k @ '': '' @ mp_value h @ params_text (params h)"
  have ok: "header_ok (k, h)" using Cons.prems by (simp add: kh)
  have f: "find_from crlf (?l @ crlf @ concat (map dump_header hs)) 0 = Some (length ?l)"
    using find_hd [of crlf ?l] header_line_plain [OF ok] by (simp add: crlf_def)
  have t: "until_found (Some (length ?l)) (?l @ xs) = ?l" for xs by (rule until_found_length)
  have d: "drop (after_found (Some (length ?l)) 2) (?l @ crlf @ xs) = xs" for xs by (rule drop_line)
  have "parse_section_head (?l @ crlf @ concat (map dump_header hs)) gs = parse_section_head (concat (map dump_header hs)) (gs @ [(k, h)])"
    by (subst parse_section_head.simps) (simp only: f t d Let_def parse_line_dump [OF ok] sum.case, simp)
  then show ?case using Cons.IH [of "gs @ [(k, h)]"] Cons.prems by (simp add: kh dump_header_line)
qed

text \<open>The empty line after the headers is the first one.\<close>

lemma first_there_line:
  assumes "first_there (crlf @ crlf) H" "CHR 0x0D \<notin> set l" "H \<noteq> []" "hd H \<noteq> CHR 0x0D"
  shows "first_there (crlf @ crlf) (l @ crlf @ H)"
  unfolding first_there_def
proof (intro allI impI notI)
  fix j assume j: "j < length (l @ crlf @ H)" and t: "take (length (crlf @ crlf)) (drop j ((l @ crlf @ H) @ crlf @ crlf)) = crlf @ crlf"
  show False
  proof (cases "j < length l")
    case True
    then have "drop j ((l @ crlf @ H) @ crlf @ crlf) = l ! j # drop (Suc j) l @ crlf @ H @ crlf @ crlf"
      by (simp add: Cons_nth_drop_Suc [symmetric])
    then have "l ! j = CHR 0x0D" using t by (simp add: crlf_def)
    then show False using assms(2) True by (metis nth_mem)
  next
    case False
    then obtain i where i: "j = length l + i" using le_Suc_ex by (metis not_less)
    have t': "take 4 (drop i (crlf @ H @ crlf @ crlf)) = crlf @ crlf" using t by (simp add: i crlf_def eval_nat_numeral)
    consider "i = 0" | "i = 1" | k where "i = Suc (Suc k)" by (cases i; cases "i - 1") auto
    then show False
    proof cases
      case 1
      then show False using t' assms(3,4) by (cases H) (auto simp: crlf_def)
    next
      case 2
      then show False using t' by (simp add: crlf_def)
    next
      case 3
      then have "k < length H" using j i by (simp add: crlf_def)
      moreover have "take (length (crlf @ crlf)) (drop k (H @ crlf @ crlf)) = crlf @ crlf" using t' 3 by (simp add: crlf_def eval_nat_numeral)
      ultimately show False using assms(1) by (auto simp: first_there_def)
    qed
  qed
qed

lemma head_ends:
  assumes "\<forall>h\<in>set hs. header_ok h" "hs \<noteq> []"
  shows "\<exists>H. concat (map dump_header hs) = H @ crlf \<and> first_there (crlf @ crlf) H \<and> H \<noteq> [] \<and> hd H \<noteq> CHR 0x0D"
  using assms
proof (induction hs)
  case (Cons kh hs)
  obtain k h where kh: "kh = (k, h)" by (rule prod.exhaust)
  let ?l = "k @ '': '' @ mp_value h @ params_text (params h)"
  have l: "CHR 0x0D \<notin> set ?l" "?l \<noteq> []" using header_line_plain [of k h] Cons.prems(1) by (auto simp: kh)
  then have hd: "hd ?l \<noteq> CHR 0x0D" by (metis hd_in_set)
  show ?case
  proof (cases "hs = []")
    case True
    have "first_there (crlf @ crlf) ?l" using l by (intro hd_first_there) (auto simp: crlf_def)
    then show ?thesis using True l(2) hd by (intro exI [of _ ?l]) (simp add: kh dump_header_line)
  next
    case False
    with Cons obtain H where H: "concat (map dump_header hs) = H @ crlf" "first_there (crlf @ crlf) H" "H \<noteq> []" "hd H \<noteq> CHR 0x0D" by auto
    have "first_there (crlf @ crlf) (?l @ crlf @ H)" by (rule first_there_line [OF H(2) l(1) H(3,4)])
    moreover have "hd (?l @ crlf @ H) \<noteq> CHR 0x0D" using hd l(2) by (metis hd_append2)
    ultimately show ?thesis by (intro exI [of _ "?l @ crlf @ H"]) (simp add: kh dump_header_line H(1))
  qed
qed simp

lemma parse_section_dump:
  assumes "\<forall>h\<in>set (part_headers p). header_ok h" "part_headers p \<noteq> []"
  shows "parse_section (dump_part p) = Inr p"
proof -
  obtain H where H: "concat (map dump_header (part_headers p)) = H @ crlf" "first_there (crlf @ crlf) H"
    using head_ends [OF assms] by auto
  have d: "dump_part p = H @ (crlf @ crlf) @ part_body p @ crlf" by (simp add: dump_part_def H(1))
  have f: "find_from (crlf @ crlf) (dump_part p) 0 = Some (length H)" unfolding d by (rule find_first [OF H(2)])
  have h: "take (after_found (Some (length H)) 2) (dump_part p) = concat (map dump_header (part_headers p))"
    by (simp add: d after_found_def H(1) crlf_def)
  have b: "without_last_two (drop (after_found (Some (length H)) 4) (dump_part p)) = part_body p"
    by (simp add: d after_found_def crlf_def without_last_two_def)
  show ?thesis using parse_section_head_dump [OF assms(1), of "[]"]
    unfolding parse_section_def by (simp only: f Let_def h b) simp
qed

lemma part_name_headers: "part_name p = Inr n \<Longrightarrow> part_headers p \<noteq> []"
  by (auto simp: part_name_def get_header_object_def empty_header_def)

lemma dump_message_simps:
  "dump_message b [] = (dd @ b) @ dd @ crlf"
  "dump_message b (p # ps) = (dd @ b) @ crlf @ dump_part p @ dump_message b ps"
  by (simp_all add: dump_message_def)

text \<open>What follows the first delimiter and two characters.\<close>

definition after_delimiter :: "string \<Rightarrow> part list \<Rightarrow> string" where
  "after_delimiter b ps = (case ps of [] \<Rightarrow> crlf | p # qs \<Rightarrow> dump_part p @ dump_message b qs)"

lemma dump_message_split: "\<exists>two. length two = 2 \<and> dump_message b ps = (dd @ b) @ two @ after_delimiter b ps"
  by (cases ps) (auto simp: dump_message_simps after_delimiter_def dd_def crlf_def)

lemma parse_after_delimiter:
  assumes "\<forall>p\<in>set ps. part_ok b p" "name_parts ps = Inr pm"
  shows "parse_body b (after_delimiter b ps) (qs, qm) = Inr (qs @ ps, qm @ pm)"
  using assms
proof (induction ps arbitrary: qs qm pm)
  case Nil
  then show ?case by (subst parse_body.simps) (simp add: after_delimiter_def)
next
  case (Cons p ps)
  obtain n pm' where n: "part_name p = Inr n" "name_parts ps = Inr pm'" "pm = (n, p) # pm'"
    using Cons.prems(2) by (auto split: sum.splits)
  have ok: "part_ok b p" using Cons.prems(1) by simp
  have sec: "parse_section (dump_part p) = Inr p"
    using ok part_name_headers [OF n(1)] by (intro parse_section_dump) (auto simp: part_ok_def)
  obtain two where two: "length two = 2" "dump_message b ps = (dd @ b) @ two @ after_delimiter b ps" using dump_message_split by blast
  let ?s = "dump_part p @ (dd @ b) @ two @ after_delimiter b ps"
  have a: "after_delimiter b (p # ps) = ?s" by (simp add: after_delimiter_def two(2))
  have ne: "dump_part p \<noteq> []" "?s \<noteq> crlf" by (auto simp: dump_part_def crlf_def dd_def)
  have f: "find_from (dd @ b) ?s 0 = Some (length (dump_part p))" using ok by (intro find_first) (simp add: part_ok_def)
  have tk: "take (length (dump_part p)) ?s = dump_part p" by simp
  have dr: "drop (length (dump_part p) + length (dd @ b) + 2) ?s = after_delimiter b ps" using two(1) by simp
  have add: "add_section parse_section (dump_part p) (qs, qm) = Inr (qs @ [p], qm @ [(n, p)])"
    by (simp add: add_section_def ne(1) sec n(1))
  have "parse_body b ?s (qs, qm) = parse_body b (after_delimiter b ps) (qs @ [p], qm @ [(n, p)])"
    by (subst parse_body.simps) (simp only: f tk dr add ne(2) if_False option.case sum.case)
  then show ?case unfolding a using Cons.IH [OF _ n(2)] Cons.prems(1) n(3) by simp
qed

lemma parse_dump:
  assumes "\<forall>p\<in>set ps. part_ok b p" "name_parts ps = Inr pm"
  shows "parse_body b (dump_message b ps) ([], []) = Inr (ps, pm)"
proof -
  obtain two where two: "length two = 2" "dump_message b ps = (dd @ b) @ two @ after_delimiter b ps" using dump_message_split by blast
  let ?s = "(dd @ b) @ two @ after_delimiter b ps"
  have ne: "?s \<noteq> crlf" by (simp add: dd_def crlf_def)
  have f: "find_from (dd @ b) ?s 0 = Some 0" using find_first [of "dd @ b" "[]"] by (simp add: first_there_def)
  have dr: "drop (0 + length (dd @ b) + 2) ?s = after_delimiter b ps" using two(1) by simp
  have "parse_body b ?s ([], []) = parse_body b (after_delimiter b ps) ([], [])"
    by (subst parse_body.simps) (simp only: f dr ne if_False option.case take_0, simp add: add_section_def)
  then show ?thesis using parse_after_delimiter [OF assms, of "[]" "[]"] two(2) by simp
qed

lemma boundary_of_type:
  assumes "b \<noteq> []" "hd b \<noteq> CHR 0x22"
  shows "get_boundary (type_with_boundary b) = b"
proof -
  have "find_from ''boundary='' (''multipart/form-data; '' @ ''boundary='' @ b) 0 = Some (length ''multipart/form-data; '')"
    by (rule find_hd) simp_all
  then have "find_from ''boundary='' (''multipart/form-data; boundary='' @ b) 0 = Some 21" by simp
  then show ?thesis using assms by (simp add: get_boundary_def type_with_boundary_def)
qed

text \<open>C32: A message that was written is read back: when its names and values have no line break and no semicolon and the boundary occurs in no part, the message built from a request with its content type and its text has the same parts, under the same names.\<close>

theorem multipart_round_trip:
  assumes "message_of_parts hs b ps = Inr m" "get_header_value hs ''Content-Type'' = content_type m"
    "b \<noteq> []" "hd b \<noteq> CHR 0x22" "\<forall>p\<in>set ps. part_ok b p"
  shows "message_of_request hs (dump_message b ps) = Inr m"
proof -
  obtain pm where pm: "name_parts ps = Inr pm"
    "m = \<lparr>message_headers = hs, boundary = b, parts = ps, part_map = pm, content_type = type_with_boundary b\<rparr>"
    using assms(1) by (cases "name_parts ps") (auto simp: message_of_parts_def)
  have "get_boundary (get_header_value hs ''Content-Type'') = b" using assms(2-4) pm(2) by (simp add: boundary_of_type)
  then show ?thesis using parse_dump [OF assms(5) pm(1)] assms(3) pm(2) by (simp add: message_of_request_def Let_def)
qed

definition form_part :: "string \<Rightarrow> string \<Rightarrow> part" where
  "form_part n v = \<lparr>part_headers = [(''Content-Disposition'', \<lparr>mp_value = ''form-data'', params = [(''name'', n)]\<rparr>)], part_body = v\<rparr>"

lemma multipart_round_trip_witness:
  "message_of_request [(''Content-Type'', ''multipart/form-data; boundary=x'')] (dump_message ''x'' [form_part ''id'' ''7''])
    = Inr \<lparr>message_headers = [(''Content-Type'', ''multipart/form-data; boundary=x'')], boundary = ''x'', parts = [form_part ''id'' ''7''],
        part_map = [(''id'', form_part ''id'' ''7'')], content_type = ''multipart/form-data; boundary=x''\<rparr>"
proof (rule multipart_round_trip)
  show "message_of_parts [(''Content-Type'', ''multipart/form-data; boundary=x'')] ''x'' [form_part ''id'' ''7'']
    = Inr \<lparr>message_headers = [(''Content-Type'', ''multipart/form-data; boundary=x'')], boundary = ''x'', parts = [form_part ''id'' ''7''],
        part_map = [(''id'', form_part ''id'' ''7'')], content_type = ''multipart/form-data; boundary=x''\<rparr>"
    by (simp add: message_of_parts_def part_name_def get_header_object_def form_part_def ci_key_eq_def string_equals_def type_with_boundary_def)
  have "first_there (dd @ ''x'') (dump_part (form_part ''id'' ''7''))"
    by (simp add: first_there_def dump_part_def form_part_def dump_header_def dump_param_def pad_def crlf_def dd_def)
      (simp add: less_Suc_eq numeral_eq_Suc)
  then show "\<forall>p\<in>set [form_part ''id'' ''7'']. part_ok ''x'' p"
    by (simp add: part_ok_def header_ok_def param_ok_def plain_def form_part_def)
qed (simp_all add: get_header_value_def ci_key_eq_def string_equals_def)

section \<open>Views\<close>

lemma view_params_eq: "view_params line ps = Inr (parse_params line ps)"
proof (induction line ps rule: parse_params.induct)
  case (1 line ps)
  show ?case
  proof (cases "line = []")
    case False
    have "(case find_from ''; '' line 0 of None \<Rightarrow> Inr [] | Some i \<Rightarrow> substr_from (i + 2) line) = Inr (after_semicolon line)"
      using find_from_bound [of "''; ''" line 0] by (auto simp: after_semicolon_def substr_from_def split: option.split)
    moreover have "substr_from (after_found (find_from ''='' param 0) 1) param = Inr (drop (after_found (find_from ''='' param 0) 1) param)" for param
      using find_from_bound [of "''=''" param 0] by (auto simp: after_found_def substr_from_def split: option.split)
    ultimately show ?thesis using "1.IH" [OF False refl refl] False
      by (subst view_params.simps, subst parse_params.simps) (simp add: Let_def)
  qed (simp add: view_params.simps parse_params.simps)
qed

lemma view_line_eq: "view_line line = parse_line line"
proof -
  have "(case find_from ''; '' line 0 of None \<Rightarrow> Inr [] | Some i \<Rightarrow> substr_from (i + 2) line) = Inr (after_semicolon line)"
    using find_from_bound [of "''; ''" line 0] by (auto simp: after_semicolon_def substr_from_def split: option.split)
  then show ?thesis by (simp add: view_line_def parse_line_def Let_def view_params_eq split: sum.split)
qed

lemma view_section_head_eq: "view_section_head ls hs = parse_section_head ls hs"
proof (induction ls hs rule: parse_section_head.induct)
  case (1 ls hs)
  show ?case
  proof (cases "ls = []")
    case False
    have "substr_from (after_found (find_from crlf ls 0) 2) ls = Inr (drop (after_found (find_from crlf ls 0) 2) ls)"
      using find_from_bound [of crlf ls 0] False by (cases ls) (auto simp: after_found_def substr_from_def crlf_def split: option.split)
    then show ?thesis using "1.IH" [OF False refl] False
      by (subst view_section_head.simps, subst parse_section_head.simps) (simp add: Let_def view_line_eq split: sum.split)
  qed (simp add: view_section_head.simps parse_section_head.simps)
qed

lemma short_head_unnamed:
  assumes "length s \<le> 1" "parse_section_head s [] = Inr hs"
  shows "part_name \<lparr>part_headers = hs, part_body = b\<rparr> = Inl No_Name"
proof (cases s)
  case Nil
  then have "hs = []" using assms(2) by (simp add: parse_section_head.simps)
  then show ?thesis by (simp add: part_name_def get_header_object_def empty_header_def)
next
  case (Cons c s')
  then have s: "s = [c]" using assms(1) by simp
  have none: "find_from sep [c] 0 = None" if "length sep = 2" for sep using that by (auto simp: find_from_None)
  have "hs = [([c], \<lparr>mp_value = [], params = []\<rparr>)]" using assms(2)
    unfolding s by (simp add: parse_section_head.simps none crlf_def parse_line_def until_found_def after_found_def substr_from_def
        after_semicolon_def parse_params.simps)
  then show ?thesis by (simp add: part_name_def get_header_object_def empty_header_def ci_key_eq_def string_equals_def)
qed

lemma view_section_agrees:
  assumes "parse_section s = Inr p" "part_name p = Inr n"
  shows "view_section s = Inr p"
proof (cases "find_from (crlf @ crlf) s 0")
  case (Some i)
  then have "i + 4 \<le> length s" using find_from_bound [OF Some] by (simp add: crlf_def)
  then show ?thesis using assms(1) Some
    by (auto simp: parse_section_def view_section_def view_section_head_eq substr_from_def after_found_def Let_def split: sum.splits)
next
  case None
  obtain hs where hs: "parse_section_head (take 1 s) [] = Inr hs" "p = \<lparr>part_headers = hs, part_body = without_last_two (drop 3 s)\<rparr>"
    using assms(1) None by (auto simp: parse_section_def after_found_def Let_def split: sum.splits)
  then have "part_name p = Inl No_Name" using short_head_unnamed [OF _ hs(1)] by simp
  then show ?thesis using assms(2) by simp
qed

lemma add_section_agrees: "add_section parse_section s acc = Inr acc' \<Longrightarrow> add_section view_section s acc = Inr acc'"
  by (cases acc) (auto simp: add_section_def view_section_agrees split: if_splits sum.splits)

lemma parse_body_Nil: "parse_body b [] acc \<noteq> Inr x"
  by (subst parse_body.simps) (simp add: crlf_def dd_def find_from_def)

lemma view_body_agrees: "parse_body b s acc = Inr r \<Longrightarrow> view_body b s acc = Inr r"
proof (induction b s acc rule: parse_body.induct)
  case (1 b s acc)
  show ?case
  proof (cases "s = crlf")
    case True
    then show ?thesis using "1.prems" by (simp add: parse_body.simps view_body.simps)
  next
    case False
    then obtain i acc' where i: "find_from (dd @ b) s 0 = Some i" and a: "add_section parse_section (take i s) acc = Inr acc'"
      and p: "parse_body b (drop (i + length (dd @ b) + 2) s) acc' = Inr r"
      using "1.prems" by (subst (asm) parse_body.simps) (auto split: option.splits sum.splits)
    have "\<not> length s < i + length (dd @ b) + 2"
    proof
      assume "length s < i + length (dd @ b) + 2"
      then show False using p parse_body_Nil [of b acc' r] by simp
    qed
    then show ?thesis using "1.IH" [OF False i a p] False i add_section_agrees [OF a]
      by (subst view_body.simps) simp
  qed
qed

text \<open>C33: A view finds what the copying reader finds: whenever a message can be built from a request, the view of the request has the same boundary and the same parts under the same names, and none of its calls of \<open>substr\<close> is out of range.\<close>

theorem view_agrees:
  assumes "message_of_request hs s = Inr m"
  shows "view_of_request hs s = Inr (boundary m, parts m, part_map m)"
proof -
  let ?h = "get_header_value hs ''Content-Type''"
  from assms obtain ps pm where b: "get_boundary ?h \<noteq> []" and p: "parse_body (get_boundary ?h) s ([], []) = Inr (ps, pm)"
    and m: "boundary m = get_boundary ?h" "parts m = ps" "part_map m = pm"
    by (cases "parse_body (get_boundary ?h) s ([], [])") (auto simp: message_of_request_def Let_def split: if_splits)
  from b have "view_boundary ?h = Inr (get_boundary ?h)" by (auto simp: view_boundary_def get_boundary_def split: option.splits)
  then show ?thesis using view_body_agrees [OF p] m by (simp add: view_of_request_def)
qed

lemma view_agrees_witness:
  "view_of_request [(''Content-Type'', ''multipart/form-data; boundary=x'')] (dump_message ''x'' []) = Inr (''x'', [], [])"
proof -
  have t: "get_boundary (type_with_boundary ''x'') = ''x''" by (rule boundary_of_type) simp_all
  have "message_of_request [(''Content-Type'', ''multipart/form-data; boundary=x'')] (dump_message ''x'' [])
    = Inr \<lparr>message_headers = [(''Content-Type'', ''multipart/form-data; boundary=x'')], boundary = ''x'', parts = [], part_map = [],
        content_type = ''multipart/form-data; boundary=x''\<rparr>"
    using t parse_dump [of "[]" "''x''" "[]"]
    by (simp add: message_of_request_def get_header_value_def ci_key_eq_def string_equals_def type_with_boundary_def Let_def)
  from view_agrees [OF this] show ?thesis by simp
qed

end
