(* ===== verification/Mustache.thy ===== *)
theory Mustache
  imports Text_Search
begin

text \<open>
  Mustache templates (\<open>crow::mustache\<close>).  \<open>parse\<close> cuts the text of a template into fragments and actions: fragment
  \<open>i\<close> is followed by action \<open>i\<close>, and the actions that open and close a block hold each other's index.
  \<open>render_internal\<close> runs through them, with a stack of contexts.  Positions are natural numbers where the code
  casts them to \<open>int\<close>.
\<close>

section \<open>Contexts\<close>

text \<open>
  A context is a JSON value; a number is given by the text that \<open>dump\<close> writes for it and a function by the text
  that a call of it returns.
\<close>

datatype mctx =
    M_Null
  | M_False
  | M_True
  | M_Number string
  | M_String string
  | M_List "mctx list"
  | M_Object "(string \<times> mctx) list"
  | M_Function string

definition member :: "string \<Rightarrow> mctx \<Rightarrow> mctx option" where
  "member k c = (case c of M_Object kvs \<Rightarrow> map_of kvs k | _ \<Rightarrow> None)"

definition is_object :: "mctx \<Rightarrow> bool" where
  "is_object c = (case c of M_Object _ \<Rightarrow> True | _ \<Rightarrow> False)"

section \<open>Compiled templates\<close>

datatype action_type = Ignore_Action | Tag_Action | Unescape_Tag | Open_Block | Close_Block | Else_Block | Partial_Action

record action =
  has_end_match :: bool
  tag_char :: char
  a_start :: nat
  a_end :: nat
  a_pos :: nat
  a_type :: action_type

definition new_action :: "char \<Rightarrow> action_type \<Rightarrow> nat \<Rightarrow> nat \<Rightarrow> nat \<Rightarrow> action" where
  "new_action c t s e p = \<lparr>has_end_match = False, tag_char = c, a_start = s, a_end = e, a_pos = p, a_type = t\<rparr>"

definition missing_end_pair :: "action \<Rightarrow> bool" where
  "missing_end_pair a = (case a_type a of Open_Block \<Rightarrow> \<not> has_end_match a | Else_Block \<Rightarrow> \<not> has_end_match a | _ \<Rightarrow> False)"

datatype template_error =
    Empty_Tag
  | Unmatched_Opening
  | Unexpected_Closing string
  | Not_Matched string string
  | Triple_Changed
  | Triple_Not_Matched
  | Not_Matching_Equals
  | Empty_Open_Tag
  | Empty_Close_Tag
  | Invalid_Tags string string
  | No_Space
  | No_End_Tag string

definition char_at :: "string \<Rightarrow> nat \<Rightarrow> char" where
  "char_at b p = (if p < length b then b ! p else NUL)"

text \<open>\<open>substr(s, e - s)\<close>, where a negative length wraps around and takes the rest.\<close>

definition text_at :: "string \<Rightarrow> nat \<Rightarrow> nat \<Rightarrow> string" where
  "text_at b s e = (if e < s then drop s b else take (e - s) (drop s b))"

text \<open>The loops that move a position over spaces, forwards and backwards.\<close>

definition skip_spaces :: "string \<Rightarrow> nat \<Rightarrow> nat" where
  "skip_spaces b p = p + length (takeWhile (\<lambda>c. c = CHR '' '') (drop p b))"

definition back_spaces :: "string \<Rightarrow> nat \<Rightarrow> nat" where
  "back_spaces b e = e - length (takeWhile (\<lambda>c. c = CHR '' '') (rev (take e b)))"

section \<open>Parsing\<close>

text \<open>The variables of \<open>parse\<close>; the last element of \<open>blockPositions\<close> is the first of the list.\<close>

record parse_state =
  tag_open :: string
  tag_close :: string
  block_positions :: "nat list"
  p_actions :: "action list"
  p_fragments :: "(nat \<times> nat) list"

definition add_action :: "action \<Rightarrow> parse_state \<Rightarrow> parse_state" where
  "add_action a p = p\<lparr>p_actions := p_actions p @ [a]\<rparr>"

definition open_block :: "char \<Rightarrow> action_type \<Rightarrow> nat \<Rightarrow> nat \<Rightarrow> parse_state \<Rightarrow> parse_state" where
  "open_block c t s e p = add_action (new_action c t s e 0) (p\<lparr>block_positions := length (p_actions p) # block_positions p\<rparr>)"

definition close_block :: "string \<Rightarrow> nat \<Rightarrow> nat \<Rightarrow> parse_state \<Rightarrow> template_error + parse_state" where
  "close_block b s e p =
     (case block_positions p of
        [] \<Rightarrow> Inl (Unexpected_Closing (text_at b s e))
      | m # ms \<Rightarrow>
          (let matched = p_actions p ! m
           in if text_at b s e \<noteq> text_at b (a_start matched) (a_end matched)
              then Inl (Not_Matched (text_at b (a_start matched) (a_end matched)) (text_at b s e))
              else Inr (add_action (new_action CHR ''/'' Close_Block s e m)
                (p\<lparr>p_actions := (p_actions p)[m := matched\<lparr>a_pos := length (p_actions p), has_end_match := True\<rparr>], block_positions := ms\<rparr>))))"

text \<open>\<open>{{=\<close> and the new delimiters up to \<open>=}}\<close>.\<close>

definition change_tags :: "string \<Rightarrow> nat \<Rightarrow> nat \<Rightarrow> parse_state \<Rightarrow> template_error + parse_state" where
  "change_tags b idx endIdx p =
     (let p1 = add_action (new_action CHR ''='' Ignore_Action idx endIdx 0) p
      in if char_at b (endIdx - 1) \<noteq> CHR ''='' then Inl Not_Matching_Equals
         else
           (let s = skip_spaces b idx; e = back_spaces b (endIdx - 1)
            in case find (\<lambda>i. char_at b i = CHR '' '') [s..<e] of
                 None \<Rightarrow> Inl No_Space
               | Some i \<Rightarrow>
                   (let opening = text_at b s i; closing = text_at b (skip_spaces b i) e
                    in if opening = [] then Inl Empty_Open_Tag
                       else if closing = [] then Inl Empty_Close_Tag
                       else if CHR '' '' \<in> set closing then Inl (Invalid_Tags opening closing)
                       else Inr (p1\<lparr>tag_open := opening, tag_close := closing\<rparr>))))"

text \<open>The switch over the first character of a tag; the number is what it adds to \<open>current\<close>.\<close>

definition parse_tag :: "string \<Rightarrow> nat \<Rightarrow> nat \<Rightarrow> parse_state \<Rightarrow> template_error + parse_state \<times> nat" where
  "parse_tag b idx endIdx p =
     (let c = char_at b idx; s = skip_spaces b (idx + 1); e = back_spaces b endIdx
      in if c = CHR ''#'' then Inr (open_block c Open_Block s e p, 0)
         else if c = CHR ''/'' then map_sum id (\<lambda>p. (p, 0)) (close_block b s e p)
         else if c = CHR ''^'' then Inr (open_block c Else_Block s e p, 0)
         else if c = CHR ''!'' then Inr (add_action (new_action c Ignore_Action (idx + 1) endIdx 0) p, 0)
         else if c = CHR ''>'' then Inr (add_action (new_action c Partial_Action s e 0) p, 0)
         else if c = CHR ''{'' then
           (if tag_open p \<noteq> ''{{'' \<or> tag_close p \<noteq> ''}}'' then Inl Triple_Changed
            else if char_at b (endIdx + 2) \<noteq> CHR ''}'' then Inl Triple_Not_Matched
            else Inr (add_action (new_action c Unescape_Tag s e 0) p, 1))
         else if c = CHR ''&'' then Inr (add_action (new_action c Unescape_Tag s e 0) p, 0)
         else if c = CHR ''='' then map_sum id (\<lambda>p. (p, 0)) (change_tags b (idx + 1) endIdx p)
         else Inr (add_action (new_action c Tag_Action (skip_spaces b idx) e 0) p, 0))"

definition add_fragment :: "nat \<Rightarrow> nat \<Rightarrow> parse_state \<Rightarrow> parse_state" where
  "add_fragment s e p = p\<lparr>p_fragments := p_fragments p @ [(s, e)]\<rparr>"

text \<open>The loop of \<open>parse\<close>.\<close>

function parse_tags :: "string \<Rightarrow> nat \<Rightarrow> parse_state \<Rightarrow> template_error + parse_state" where
  "parse_tags b current p =
     (case find_from (tag_open p) b current of
        None \<Rightarrow> Inr (add_action (new_action CHR ''!'' Ignore_Action 0 0 0) (add_fragment current (length b) p))
      | Some i \<Rightarrow>
          (let idx = i + length (tag_open p)
           in case find_from (tag_close p) b idx of
                None \<Rightarrow> Inl Unmatched_Opening
              | Some endIdx \<Rightarrow>
                  (if endIdx = idx then Inl Empty_Tag
                   else (case parse_tag b idx endIdx (add_fragment current i p) of
                           Inl e \<Rightarrow> Inl e
                         | Inr (p', n) \<Rightarrow> parse_tags b (endIdx + length (tag_close p) + n) p'))))"
  by pat_completeness auto
termination
proof (relation "measure (\<lambda>(b, current, p). length b - current)", goal_cases)
  case (2 b current p i idx endIdx x p' n)
  then show ?case using find_from_bound [of "tag_open p" b current i] find_from_bound [of "tag_close p" b idx endIdx] by auto
qed simp

declare parse_tags.simps [simp del]

text \<open>Removing the lines on which a tag stands alone, for one action.\<close>

definition slice :: "string \<Rightarrow> nat \<Rightarrow> nat \<Rightarrow> string" where
  "slice b s e = take (e - s) (drop s b)"

definition remove_standalone :: "string \<Rightarrow> nat \<Rightarrow> (nat \<times> nat) list \<times> action list \<Rightarrow> (nat \<times> nat) list \<times> action list" where
  "remove_standalone b i = (\<lambda>(fs, acts).
     (if a_type (acts ! i) = Tag_Action \<or> a_type (acts ! i) = Unescape_Tag then (fs, acts)
      else
        (case (fs ! i, fs ! (i + 1)) of ((f1, s1), (f2, s2)) \<Rightarrow>
          (let is_last_action = (i = length acts - 2);
               spaces = length (takeWhile (\<lambda>c. c = CHR '' '') (rev (slice b f1 s1)));
               all_space_before = (spaces = s1 - f1);
               k = f2 + length (takeWhile (\<lambda>c. c = CHR '' '') (slice b f2 (min s2 (length b))));
               all_space_after = (min s2 (length b) \<le> k);
               newline = (char_at b k = CHR 0x0A);
               newline2 = (char_at b k = CHR 0x0D \<and> k + 1 < length b \<and> char_at b (k + 1) = CHR 0x0A)
           in if all_space_before \<and> 0 < i then (fs, acts)
              else if \<not> all_space_before \<and> char_at b (s1 - spaces - 1) \<noteq> CHR 0x0A then (fs, acts)
              else if all_space_after \<and> \<not> is_last_action then (fs, acts)
              else if \<not> all_space_after \<and> \<not> (newline \<or> newline2) then (fs, acts)
              else
                (let acts' = (if a_type (acts ! i) = Partial_Action then acts[i := (acts ! i)\<lparr>a_pos := spaces\<rparr>] else acts);
                     fs' = fs[i := (f1, s1 - spaces)]
                 in (if all_space_after then fs' else fs'[i + 1 := ((if newline then k + 1 else k + 2), s2)], acts'))))))"

definition remove_standalones :: "string \<Rightarrow> (nat \<times> nat) list \<times> action list \<Rightarrow> (nat \<times> nat) list \<times> action list" where
  "remove_standalones b fa = fold (remove_standalone b) (rev [0..<length (snd fa) - 1]) fa"

record template =
  t_body :: string
  t_fragments :: "(nat \<times> nat) list"
  t_actions :: "action list"

definition tag_name :: "template \<Rightarrow> action \<Rightarrow> string" where
  "tag_name t a = text_at (t_body t) (a_start a) (a_end a)"

definition initial_parse :: parse_state where
  "initial_parse = \<lparr>tag_open = ''{{'', tag_close = ''}}'', block_positions = [], p_actions = [], p_fragments = []\<rparr>"

definition mustache_compile :: "string \<Rightarrow> template_error + template" where
  "mustache_compile b =
     (case parse_tags b 0 initial_parse of
        Inl e \<Rightarrow> Inl e
      | Inr p \<Rightarrow>
          (case find missing_end_pair (p_actions p) of
             Some a \<Rightarrow> Inl (No_End_Tag (text_at b (a_start a) (a_end a)))
           | None \<Rightarrow>
               (case remove_standalones b (p_fragments p, p_actions p) of
                  (fs, acts) \<Rightarrow> Inr \<lparr>t_body = b, t_fragments = fs, t_actions = acts\<rparr>)))"

end
