(* ===== verification/Mustache_Render.thy ===== *)
theory Mustache_Render
  imports Mustache
begin

text \<open>
  Rendering of compiled templates (\<open>template_t::render_internal\<close> and what it calls).  The head of the list is the
  last element of \<open>stack\<close>.  Partials and functions can make rendering go on for ever, so it has fuel: the depth of
  the recursion, where going on in the loop is one level.
\<close>

section \<open>Looking up names\<close>

fun follow :: "string list \<Rightarrow> mctx \<Rightarrow> mctx option" where
  "follow [] view = Some view"
| "follow (n # ns) view = (case member n view of None \<Rightarrow> None | Some w \<Rightarrow> follow ns w)"

fun find_in_stack :: "string list \<Rightarrow> bool \<Rightarrow> mctx list \<Rightarrow> mctx option" where
  "find_in_stack names only_first [] = None"
| "find_in_stack names only_first (c # cs) =
     (case follow names c of
        Some w \<Rightarrow> Some w
      | None \<Rightarrow> (if only_first then None else find_in_stack names only_first cs))"

definition find_context :: "string \<Rightarrow> mctx list \<Rightarrow> bool \<Rightarrow> mctx option" where
  "find_context name stack only_first =
     (if name = ''.'' then Some (hd stack)
      else if CHR ''.'' \<notin> set name then find_in_stack [name] False stack
      else find_in_stack (split_at name ''.'') only_first stack)"

text \<open>The loop over the actions before \<open>current\<close>, last one first.\<close>

fun inside_object :: "bool \<Rightarrow> int \<Rightarrow> action list \<Rightarrow> bool" where
  "inside_object top_is_object opened [] = False"
| "inside_object top_is_object opened (a # acts) =
     (if a_type a = Open_Block then
        (if opened = 0 \<and> top_is_object then True else inside_object top_is_object (opened - 1) acts)
      else if a_type a = Close_Block then inside_object top_is_object (opened + 1) acts
      else inside_object top_is_object opened acts)"

definition isTagInsideObjectBlock :: "template \<Rightarrow> nat \<Rightarrow> mctx list \<Rightarrow> bool" where
  "isTagInsideObjectBlock t current stack = inside_object (is_object (hd stack)) 0 (rev (take current (t_actions t)))"

section \<open>Text\<close>

definition html_escape_char :: "char \<Rightarrow> string" where
  "html_escape_char c =
     (if c = CHR ''&'' then ''&amp;''
      else if c = CHR ''<'' then ''&lt;''
      else if c = CHR ''>'' then ''&gt;''
      else if c = CHR 0x22 then ''&quot;''
      else if c = CHR 0x27 then ''&#39;''
      else if c = CHR ''/'' then ''&#x2F;''
      else if c = CHR 0x60 then ''&#x60;''
      else if c = CHR ''='' then ''&#x3D;''
      else [c])"

definition html_escape :: "string \<Rightarrow> string" where
  "html_escape s = concat (map html_escape_char s)"

definition render_fragment :: "string \<Rightarrow> nat \<Rightarrow> nat \<times> nat \<Rightarrow> string" where
  "render_fragment b indent = (\<lambda>(s, e).
     (if indent \<noteq> 0 then
        concat (map (\<lambda>i. char_at b i # (if char_at b i = CHR 0x0A \<and> i + 1 \<noteq> length b then replicate indent CHR '' '' else [])) [s..<e])
      else text_at b s e))"

section \<open>Rendering\<close>

datatype render_error = Bad_Template template_error | Tag_Type mctx | Section_Type mctx

type_synonym rendering = "(render_error + string \<times> mctx list) option"

text \<open>\<open>None\<close>: out of fuel.  The text that was written before, in front of the rest.\<close>

definition prepend :: "string \<Rightarrow> rendering \<Rightarrow> rendering" where
  "prepend out r = map_option (map_sum id (\<lambda>(rest, st). (out @ rest, st))) r"

definition continue_with :: "rendering \<Rightarrow> (string \<Rightarrow> mctx list \<Rightarrow> rendering) \<Rightarrow> rendering" where
  "continue_with r f =
     (case r of None \<Rightarrow> None | Some (Inl e) \<Rightarrow> Some (Inl e) | Some (Inr (out, st)) \<Rightarrow> f out st)"

lemma continue_with_cong [fundef_cong]:
  "r = r' \<Longrightarrow> (\<And>out st. r' = Some (Inr (out, st)) \<Longrightarrow> f out st = f' out st) \<Longrightarrow> continue_with r f = continue_with r' f'"
  by (auto simp: continue_with_def split: option.split sum.split)

definition tag_context :: "template \<Rightarrow> nat \<Rightarrow> mctx list \<Rightarrow> mctx" where
  "tag_context t current stack =
     (case find_context (tag_name t (t_actions t ! current)) stack (isTagInsideObjectBlock t current stack) of
        None \<Rightarrow> M_String [] | Some c \<Rightarrow> c)"

definition block_context :: "template \<Rightarrow> nat \<Rightarrow> mctx list \<Rightarrow> mctx option" where
  "block_context t current stack = find_context (tag_name t (t_actions t ! current)) stack False"

definition last_fragment :: "template \<Rightarrow> nat" where
  "last_fragment t = length (t_fragments t) - 1"

text \<open>What a tag writes, if it is not a function.\<close>

definition tag_text :: "action_type \<Rightarrow> mctx \<Rightarrow> string option" where
  "tag_text ty c =
     (case c of
        M_False \<Rightarrow> Some ''false''
      | M_True \<Rightarrow> Some ''true''
      | M_Number s \<Rightarrow> Some s
      | M_String s \<Rightarrow> Some (if ty = Tag_Action then html_escape s else s)
      | _ \<Rightarrow> None)"

text \<open>What a block does with its context: skip, enter with a new context on the stack, repeat, or throw.\<close>

datatype block_plan = Skip_Block | Enter_Block mctx | Repeat_Block "mctx list" | Throw_Block mctx

definition open_plan :: "mctx option \<Rightarrow> block_plan" where
  "open_plan c =
     (case c of
        None \<Rightarrow> Skip_Block
      | Some (M_List xs) \<Rightarrow> Repeat_Block xs
      | Some M_False \<Rightarrow> Skip_Block
      | Some M_Null \<Rightarrow> Skip_Block
      | Some (M_Function s) \<Rightarrow> Throw_Block (M_Function s)
      | Some d \<Rightarrow> Enter_Block d)"

definition else_plan :: "mctx option \<Rightarrow> block_plan" where
  "else_plan c =
     (case c of
        None \<Rightarrow> Enter_Block M_Null
      | Some (M_List []) \<Rightarrow> Enter_Block M_Null
      | Some M_False \<Rightarrow> Enter_Block M_Null
      | Some M_Null \<Rightarrow> Enter_Block M_Null
      | Some d \<Rightarrow> Skip_Block)"

definition plan_of :: "template \<Rightarrow> nat \<Rightarrow> mctx list \<Rightarrow> block_plan" where
  "plan_of t current stack =
     (if a_type (t_actions t ! current) = Open_Block then open_plan (block_context t current stack) else else_plan (block_context t current stack))"

text \<open>\<open>mustache::load\<close>.\<close>

definition mustache_load :: "(string \<Rightarrow> string) \<Rightarrow> string \<Rightarrow> template_error + template" where
  "mustache_load loader filename = mustache_compile (loader (sanitize_filename filename CHR ''_''))"

function (sequential) render_loop :: "nat \<Rightarrow> (string \<Rightarrow> string) \<Rightarrow> template \<Rightarrow> nat \<Rightarrow> nat \<Rightarrow> nat \<Rightarrow> mctx list \<Rightarrow> rendering"
  and render_items :: "nat \<Rightarrow> (string \<Rightarrow> string) \<Rightarrow> template \<Rightarrow> nat \<Rightarrow> nat \<Rightarrow> nat \<Rightarrow> mctx list \<Rightarrow> mctx list \<Rightarrow> rendering"
  and expand :: "nat \<Rightarrow> (string \<Rightarrow> string) \<Rightarrow> mctx \<Rightarrow> string \<Rightarrow> rendering" where
  "render_loop 0 loader t indent current stop stack = None"
| "render_loop (Suc n) loader t indent current stop stack =
     (if stop \<le> current then Some (Inr (render_fragment (t_body t) indent (t_fragments t ! stop), stack))
      else
        prepend (render_fragment (t_body t) indent (t_fragments t ! current))
          (let a = t_actions t ! current
           in case a_type a of
                Ignore_Action \<Rightarrow> render_loop n loader t indent (current + 1) stop stack
              | Partial_Action \<Rightarrow>
                  (case mustache_load loader (tag_name t a) of
                     Inl e \<Rightarrow> Some (Inl (Bad_Template e))
                   | Inr t' \<Rightarrow>
                       (let ind = (if a_pos a \<noteq> 0 then indent + a_pos a else 0)
                        in continue_with (prepend (replicate ind CHR '' '') (render_loop n loader t' ind 0 (last_fragment t') stack))
                             (\<lambda>out st. prepend out (render_loop n loader t indent (current + 1) stop st))))
              | Close_Block \<Rightarrow> render_loop n loader t indent (current + 1) stop (tl stack)
              | Tag_Action \<Rightarrow>
                  (case tag_context t current stack of
                     M_Function s \<Rightarrow>
                       continue_with (expand n loader (last stack) s)
                         (\<lambda>out _. prepend (html_escape out) (render_loop n loader t indent (current + 1) stop stack))
                   | c \<Rightarrow> (case tag_text Tag_Action c of
                             None \<Rightarrow> Some (Inl (Tag_Type c))
                           | Some out \<Rightarrow> prepend out (render_loop n loader t indent (current + 1) stop stack)))
              | Unescape_Tag \<Rightarrow>
                  (case tag_context t current stack of
                     M_Function s \<Rightarrow>
                       continue_with (expand n loader (last stack) s)
                         (\<lambda>out _. prepend out (render_loop n loader t indent (current + 1) stop stack))
                   | c \<Rightarrow> (case tag_text Unescape_Tag c of
                             None \<Rightarrow> Some (Inl (Tag_Type c))
                           | Some out \<Rightarrow> prepend out (render_loop n loader t indent (current + 1) stop stack)))
              | _ \<Rightarrow>
                  (case plan_of t current stack of
                     Skip_Block \<Rightarrow> render_loop n loader t indent (a_pos a + 1) stop stack
                   | Enter_Block c \<Rightarrow> render_loop n loader t indent (current + 1) stop (c # stack)
                   | Throw_Block c \<Rightarrow> Some (Inl (Section_Type c))
                   | Repeat_Block xs \<Rightarrow>
                       continue_with (render_items n loader t indent (current + 1) (a_pos a) stack xs)
                         (\<lambda>out st. prepend out (render_loop n loader t indent (a_pos a + 1) stop st)))))"
| "render_items n loader t indent first stop stack [] = Some (Inr ([], stack))"
| "render_items n loader t indent first stop stack (x # xs) =
     continue_with (prepend (replicate indent CHR '' '') (render_loop n loader t indent first stop (x # stack)))
       (\<lambda>out st. prepend out (render_items n loader t indent first stop (tl st) xs))"
| "expand 0 loader bottom s = None"
| "expand (Suc n) loader bottom s =
     (if find_from ''{{'' s 0 = None then Some (Inr (s, []))
      else (case mustache_compile s of
              Inl e \<Rightarrow> Some (Inl (Bad_Template e))
            | Inr t \<Rightarrow> continue_with (render_loop n loader t 0 0 (last_fragment t) [bottom]) (\<lambda>out _. expand n loader bottom out)))"
  by pat_completeness auto
termination
  by (relation "measures [\<lambda>x. case x of Inl (n, _) \<Rightarrow> n | Inr (Inl (n, _)) \<Rightarrow> n | Inr (Inr (n, _)) \<Rightarrow> n,
      \<lambda>x. case x of Inr (Inl (n, l, t, i, f, s, st, xs)) \<Rightarrow> Suc (length xs) | _ \<Rightarrow> 0]") auto

definition render_string :: "nat \<Rightarrow> (string \<Rightarrow> string) \<Rightarrow> template \<Rightarrow> mctx \<Rightarrow> (render_error + string) option" where
  "render_string n loader t ctx = map_option (map_sum id fst) (render_loop n loader t 0 0 (last_fragment t) [ctx])"

end
