(* ===== verification/Mustache_Facts.thy ===== *)
theory Mustache_Facts
  imports Mustache_Render
begin

text \<open>
  The blocks of a compiled template are nested, and rendering it means what its blocks mean: a
  reference that renders every block by itself, with its own stack, gives the same text.
\<close>

section \<open>Nested blocks\<close>

definition simple_action :: "action \<Rightarrow> bool" where
  "simple_action a \<longleftrightarrow> a_type a \<noteq> Open_Block \<and> a_type a \<noteq> Else_Block \<and> a_type a \<noteq> Close_Block"

definition opens_block :: "action \<Rightarrow> bool" where
  "opens_block a \<longleftrightarrow> a_type a = Open_Block \<or> a_type a = Else_Block"

definition same_name :: "string \<Rightarrow> action \<Rightarrow> action \<Rightarrow> bool" where
  "same_name b a a' \<longleftrightarrow> text_at b (a_start a) (a_end a) = text_at b (a_start a') (a_end a')"

text \<open>The actions from \<open>i\<close> up to \<open>j\<close>.\<close>

inductive nested :: "string \<Rightarrow> action list \<Rightarrow> nat \<Rightarrow> nat \<Rightarrow> bool" for b acts where
  nested_done: "nested b acts i i"
| nested_simple: "simple_action (acts ! i) \<Longrightarrow> nested b acts (Suc i) j \<Longrightarrow> nested b acts i j"
| nested_block: "opens_block (acts ! i) \<Longrightarrow> nested b acts (Suc i) (a_pos (acts ! i)) \<Longrightarrow>
    a_type (acts ! a_pos (acts ! i)) = Close_Block \<Longrightarrow> same_name b (acts ! i) (acts ! a_pos (acts ! i)) \<Longrightarrow>
    nested b acts (Suc (a_pos (acts ! i))) j \<Longrightarrow> nested b acts i j"

lemma nested_le: "nested b acts i j \<Longrightarrow> i \<le> j"
  by (induction rule: nested.induct) auto

lemma nested_trans: "nested b acts i j \<Longrightarrow> nested b acts j k \<Longrightarrow> nested b acts i k"
  by (induction rule: nested.induct) (auto intro: nested.intros)

definition same_action :: "action \<Rightarrow> action \<Rightarrow> bool" where
  "same_action a a' \<longleftrightarrow> a = a' \<or> a_type a = Partial_Action \<and> a_type a' = Partial_Action"

lemma same_action_simps: "same_action a a' \<Longrightarrow> simple_action a \<Longrightarrow> simple_action a'"
  "same_action a a' \<Longrightarrow> opens_block a \<Longrightarrow> a' = a" "same_action a a' \<Longrightarrow> a_type a = Close_Block \<Longrightarrow> a' = a"
  by (auto simp: same_action_def simple_action_def opens_block_def)

lemma nested_cong:
  "nested b acts i j \<Longrightarrow> \<forall>l. i \<le> l \<and> l < j \<longrightarrow> same_action (acts ! l) (acts' ! l) \<Longrightarrow> nested b acts' i j"
proof (induction rule: nested.induct)
  case (nested_simple i j)
  have "i < j" using nested_le [OF nested_simple.hyps(2)] by simp
  then have "same_action (acts ! i) (acts' ! i)" using nested_simple.prems by blast
  moreover have "nested b acts' (Suc i) j" using nested_simple.IH nested_simple.prems by simp
  ultimately show ?case using same_action_simps(1) nested_simple.hyps(1) by (blast intro: nested.nested_simple)
next
  case (nested_block i j)
  let ?k = "a_pos (acts ! i)"
  have k: "i < ?k" "?k < j" using nested_le [OF nested_block.hyps(2)] nested_le [OF nested_block.hyps(5)] by auto
  have i: "acts' ! i = acts ! i" using nested_block.prems k nested_block.hyps(1) by (intro same_action_simps(2)) auto
  have c: "acts' ! ?k = acts ! ?k" using nested_block.prems k nested_block.hyps(3) by (intro same_action_simps(3)) auto
  show ?case
  proof (rule nested.nested_block)
    show "nested b acts' (Suc i) (a_pos (acts' ! i))" using nested_block.IH(1) nested_block.prems k by (simp add: i)
    show "nested b acts' (Suc (a_pos (acts' ! i))) j" using nested_block.IH(2) nested_block.prems k by (simp add: i)
  qed (use nested_block.hyps i c in simp_all)
qed (rule nested.nested_done)

text \<open>The blocks that are open while the text is parsed, the innermost first.\<close>

fun opens_ok :: "string \<Rightarrow> action list \<Rightarrow> nat \<Rightarrow> nat list \<Rightarrow> bool" where
  "opens_ok b acts n [] = nested b acts 0 n"
| "opens_ok b acts n (m # ms) =
     (m < n \<and> opens_block (acts ! m) \<and> \<not> has_end_match (acts ! m) \<and> nested b acts (Suc m) n \<and> opens_ok b acts m ms)"

lemma opens_ok_cong: "opens_ok b acts n ms \<Longrightarrow> \<forall>l<n. acts ! l = acts' ! l \<Longrightarrow> opens_ok b acts' n ms"
proof (induction ms arbitrary: n)
  case Nil
  then have "nested b acts 0 n" by simp
  then have "nested b acts' 0 n" by (rule nested_cong) (use Nil.prems in \<open>simp add: same_action_def\<close>)
  then show ?case by simp
next
  case (Cons m ms)
  have "opens_ok b acts' m ms" using Cons.prems by (intro Cons.IH) auto
  moreover have "nested b acts' (Suc m) n"
    by (rule nested_cong [of b acts]) (use Cons.prems in \<open>auto simp: same_action_def\<close>)
  moreover have "acts' ! m = acts ! m" using Cons.prems by auto
  ultimately show ?case using Cons.prems(1) by simp
qed

lemma opens_ok_extend: "opens_ok b acts n ms \<Longrightarrow> nested b acts n n' \<Longrightarrow> opens_ok b acts n' ms"
  using nested_le [of b acts n n'] by (cases ms) (auto intro: nested_trans)

definition parse_inv :: "string \<Rightarrow> parse_state \<Rightarrow> bool" where
  "parse_inv b p \<longleftrightarrow> opens_ok b (p_actions p) (length (p_actions p)) (block_positions p)"

lemma inv_add_simple: "parse_inv b p \<Longrightarrow> simple_action a \<Longrightarrow> parse_inv b (add_action a p)"
proof -
  assume inv: "parse_inv b p" and s: "simple_action a"
  let ?as = "p_actions p @ [a]"
  have "opens_ok b ?as (length (p_actions p)) (block_positions p)"
    by (rule opens_ok_cong [of b "p_actions p"]) (use inv in \<open>simp_all add: parse_inv_def nth_append\<close>)
  moreover have "nested b ?as (length (p_actions p)) (Suc (length (p_actions p)))"
    by (rule nested_simple [OF _ nested_done]) (simp add: s)
  ultimately show ?thesis by (simp add: parse_inv_def add_action_def opens_ok_extend)
qed

lemma inv_open_block:
  assumes "parse_inv b p" "t = Open_Block \<or> t = Else_Block"
  shows "parse_inv b (open_block c t s e p)"
proof -
  have "opens_ok b (p_actions p @ [new_action c t s e 0]) (length (p_actions p)) (block_positions p)"
    by (rule opens_ok_cong [of b "p_actions p"]) (use assms(1) in \<open>simp_all add: parse_inv_def nth_append\<close>)
  then show ?thesis using assms(2)
    by (auto simp: parse_inv_def open_block_def add_action_def new_action_def opens_block_def intro: nested_done)
qed

lemma inv_close_block:
  assumes "parse_inv b p" "close_block b s e p = Inr p'"
  shows "parse_inv b p'"
proof -
  obtain m ms where ms: "block_positions p = m # ms" using assms(2) by (cases "block_positions p") (auto simp: close_block_def)
  define n where "n = length (p_actions p)"
  define c where "c = new_action CHR ''/'' Close_Block s e m"
  define acts' where "acts' = (p_actions p)[m := (p_actions p ! m)\<lparr>a_pos := n, has_end_match := True\<rparr>] @ [c]"
  have p': "p_actions p' = acts'" "block_positions p' = ms"
    and name: "text_at b s e = text_at b (a_start (p_actions p ! m)) (a_end (p_actions p ! m))"
    using assms(2) by (auto simp: close_block_def ms Let_def add_action_def acts'_def n_def c_def split: if_splits)
  have m: "m < n" "opens_block (p_actions p ! m)" "nested b (p_actions p) (Suc m) n" "opens_ok b (p_actions p) m ms"
    using assms(1) by (auto simp: parse_inv_def ms n_def)
  have at: "acts' ! m = (p_actions p ! m)\<lparr>a_pos := n, has_end_match := True\<rparr>" "acts' ! n = c" "length acts' = Suc n"
    using m(1) by (simp_all add: acts'_def n_def nth_append)
  have other: "acts' ! l = p_actions p ! l" if "l < n" "l \<noteq> m" for l using that by (simp add: acts'_def n_def nth_append)
  have "nested b acts' m (Suc n)"
  proof (rule nested_block)
    show "nested b acts' (Suc m) (a_pos (acts' ! m))"
      using nested_cong [OF m(3), of acts'] by (simp add: at same_action_def other)
    show "nested b acts' (Suc (a_pos (acts' ! m))) (Suc n)" by (simp add: at nested_done)
    show "same_name b (acts' ! m) (acts' ! a_pos (acts' ! m))" using name by (simp add: at same_name_def c_def new_action_def)
  qed (use m(2) in \<open>simp_all add: at c_def new_action_def opens_block_def\<close>)
  moreover have "opens_ok b acts' m ms" by (rule opens_ok_cong [OF m(4)]) (use m(1) other in auto)
  ultimately show ?thesis using p' at(3) by (simp add: parse_inv_def opens_ok_extend)
qed

lemma inv_same_blocks: "parse_inv b p \<Longrightarrow> p_actions p' = p_actions p \<Longrightarrow> block_positions p' = block_positions p \<Longrightarrow> parse_inv b p'"
  by (simp add: parse_inv_def)

lemma simple_new_action: "simple_action (new_action c t s e q) \<longleftrightarrow> t \<notin> {Open_Block, Else_Block, Close_Block}"
  by (auto simp: simple_action_def new_action_def)

lemma inv_change_tags: "parse_inv b p \<Longrightarrow> change_tags b idx e p = Inr p' \<Longrightarrow> parse_inv b p'"
  by (rule inv_same_blocks [OF inv_add_simple [of b p "new_action CHR ''='' Ignore_Action idx e 0"]])
    (auto simp: change_tags_def Let_def simple_new_action split: if_splits option.splits)

lemma inv_parse_tag: "parse_inv b p \<Longrightarrow> parse_tag b idx e p = Inr (p', n) \<Longrightarrow> parse_inv b p'"
proof -
  assume inv: "parse_inv b p" and t: "parse_tag b idx e p = Inr (p', n)"
  have close: "parse_inv b q" if "close_block b s e' p = Inr q" for s e' q using inv_close_block [OF inv that] .
  have change: "parse_inv b q" if "change_tags b i e' p = Inr q" for i e' q using inv_change_tags [OF inv that] .
  have ms: "(\<exists>q. r = Inr q \<and> p' = q)" if "map_sum id (\<lambda>p. (p, 0)) r = Inr (p', n)" for r :: "template_error + parse_state"
    using that by (cases r) auto
  show "parse_inv b p'"
    using t inv unfolding parse_tag_def Let_def
    by (auto split: if_splits dest!: ms intro: inv_open_block inv_add_simple close change simp: simple_new_action)
qed

lemma parse_tag_lengths:
  "parse_tag b idx e p = Inr (p', n) \<Longrightarrow> p_fragments p' = p_fragments p \<and> length (p_actions p') = Suc (length (p_actions p))"
proof -
  assume t: "parse_tag b idx e p = Inr (p', n)"
  have ms: "(\<exists>q. r = Inr q \<and> p' = q)" if "map_sum id (\<lambda>p. (p, 0)) r = Inr (p', n)" for r :: "template_error + parse_state"
    using that by (cases r) auto
  have close: "p_fragments q = p_fragments p \<and> length (p_actions q) = Suc (length (p_actions p))" if "close_block b s e' p = Inr q" for s e' q
    using that by (auto simp: close_block_def add_action_def Let_def split: list.splits if_splits)
  have change: "p_fragments q = p_fragments p \<and> length (p_actions q) = Suc (length (p_actions p))" if "change_tags b i e' p = Inr q" for i e' q
    using that by (auto simp: change_tags_def add_action_def Let_def split: option.splits if_splits)
  show ?thesis using t unfolding parse_tag_def Let_def
    by (auto split: if_splits dest!: ms dest: close change simp: open_block_def add_action_def)
qed

definition parsed_ok :: "string \<Rightarrow> parse_state \<Rightarrow> bool" where
  "parsed_ok b p \<longleftrightarrow> length (p_fragments p) = length (p_actions p) \<and> p_actions p \<noteq> [] \<and>
    opens_ok b (p_actions p) (length (p_actions p) - 1) (block_positions p)"

lemma parsed_tags:
  "parse_tags b cur p = Inr p' \<Longrightarrow> parse_inv b p \<Longrightarrow> length (p_fragments p) = length (p_actions p) \<Longrightarrow> parsed_ok b p'"
proof (induction b cur p rule: parse_tags.induct)
  case (1 b cur p)
  show ?case
  proof (cases "find_from (tag_open p) b cur")
    case None
    let ?a = "new_action CHR ''!'' Ignore_Action 0 0 0"
    have p': "p' = add_action ?a (add_fragment cur (length b) p)"
      using "1.prems"(1) by (simp add: parse_tags.simps [of b cur p] None)
    have "opens_ok b (p_actions p @ [?a]) (length (p_actions p)) (block_positions p)"
      by (rule opens_ok_cong [of b "p_actions p"]) (use "1.prems"(2) in \<open>simp_all add: parse_inv_def nth_append\<close>)
    then show ?thesis using "1.prems"(3) by (simp add: p' parsed_ok_def add_action_def add_fragment_def)
  next
    case (Some i)
    define idx where "idx = i + length (tag_open p)"
    obtain e q n where e: "find_from (tag_close p) b idx = Some e" "e \<noteq> idx"
      and t: "parse_tag b idx e (add_fragment cur i p) = Inr (q, n)" and r: "parse_tags b (e + length (tag_close p) + n) q = Inr p'"
      using "1.prems"(1) by (subst (asm) parse_tags.simps) (auto simp: Some Let_def idx_def split: option.splits if_splits sum.splits)
    have inv: "parse_inv b (add_fragment cur i p)" using "1.prems"(2) by (simp add: parse_inv_def add_fragment_def)
    have "parse_inv b q" by (rule inv_parse_tag [OF inv t])
    moreover have "length (p_fragments q) = length (p_actions q)"
      using parse_tag_lengths [OF t] "1.prems"(3) by (simp add: add_fragment_def)
    ultimately show ?thesis using "1.IH" [OF Some idx_def e t refl r] by simp
  qed
qed

lemma remove_standalone_same:
  assumes "remove_standalone b i (fs, acts) = (fs', acts')"
  shows "length fs' = length fs \<and> length acts' = length acts \<and> (\<forall>l. same_action (acts ! l) (acts' ! l))"
proof -
  have u: "same_action (acts ! l) (acts[j := (acts ! j)\<lparr>a_pos := q\<rparr>] ! l)" if "a_type (acts ! j) = Partial_Action" for j l q
    using that by (cases "j < length acts"; cases "l = j") (auto simp: same_action_def list_update_beyond)
  have s: "same_action a a" for a by (simp add: same_action_def)
  obtain f1 s1 f2 s2 where fs: "fs ! i = (f1, s1)" "fs ! (i + 1) = (f2, s2)" by (metis surj_pair)
  show ?thesis using assms unfolding remove_standalone_def prod.case fs Let_def
    by (auto split: if_splits intro: u s)
qed

lemma remove_standalones_same:
  "remove_standalones b (fs, acts) = (fs', acts') \<Longrightarrow>
    length fs' = length fs \<and> length acts' = length acts \<and> (\<forall>l. same_action (acts ! l) (acts' ! l))"
proof -
  have t: "same_action x y \<Longrightarrow> same_action y z \<Longrightarrow> same_action x z" for x y z by (auto simp: same_action_def)
  have "fold (remove_standalone b) is (fs, acts) = (fs', acts') \<Longrightarrow>
    length fs' = length fs \<and> length acts' = length acts \<and> (\<forall>l. same_action (acts ! l) (acts' ! l))" for "is"
  proof (induction "is" arbitrary: fs acts)
    case Nil
    then show ?case by (simp add: same_action_def)
  next
    case (Cons i "is")
    obtain fs1 acts1 where 1: "remove_standalone b i (fs, acts) = (fs1, acts1)" by (metis surj_pair)
    from remove_standalone_same [OF 1] Cons.IH [of fs1 acts1] Cons.prems 1 show ?case by (auto intro: t)
  qed
  then show "remove_standalones b (fs, acts) = (fs', acts') \<Longrightarrow>
    length fs' = length fs \<and> length acts' = length acts \<and> (\<forall>l. same_action (acts ! l) (acts' ! l))"
    by (simp add: remove_standalones_def)
qed

lemma compiled_nested:
  assumes "mustache_compile b = Inr t"
  shows "t_body t = b" "length (t_fragments t) = length (t_actions t)" "t_actions t \<noteq> []" "nested b (t_actions t) 0 (last_fragment t)"
proof -
  obtain p where p: "parse_tags b 0 initial_parse = Inr p" and miss: "find missing_end_pair (p_actions p) = None"
    and t: "remove_standalones b (p_fragments p, p_actions p) = (t_fragments t, t_actions t)" "t_body t = b"
    using assms by (auto simp: mustache_compile_def split: sum.splits option.splits prod.splits)
  have "parse_inv b initial_parse" by (simp add: parse_inv_def initial_parse_def nested_done)
  from parsed_tags [OF p this] have ok: "parsed_ok b p" by (simp add: initial_parse_def)
  have "block_positions p = []"
  proof (rule ccontr)
    assume "block_positions p \<noteq> []"
    then obtain m ms where "block_positions p = m # ms" by (cases "block_positions p") auto
    then have "m < length (p_actions p)" "opens_block (p_actions p ! m)" "\<not> has_end_match (p_actions p ! m)"
      using ok by (auto simp: parsed_ok_def)
    then have "missing_end_pair (p_actions p ! m)" "p_actions p ! m \<in> set (p_actions p)"
      by (auto simp: missing_end_pair_def opens_block_def)
    then show False using miss by (auto simp: find_None_iff)
  qed
  then have n: "nested b (p_actions p) 0 (length (p_actions p) - 1)" using ok by (simp add: parsed_ok_def)
  note same = remove_standalones_same [OF t(1)]
  show "t_body t = b" "length (t_fragments t) = length (t_actions t)" "t_actions t \<noteq> []"
    using same ok t(2) by (auto simp: parsed_ok_def)
  have "length (p_actions p) - 1 = last_fragment t" using same ok by (simp add: last_fragment_def parsed_ok_def)
  then show "nested b (t_actions t) 0 (last_fragment t)" using nested_cong [OF n] same by simp
qed

section \<open>The meaning of blocks\<close>

definition append_result :: "render_error + string \<Rightarrow> render_error + string \<Rightarrow> render_error + string" where
  "append_result r r' = (case r of Inl e \<Rightarrow> Inl e | Inr s \<Rightarrow> map_sum id (append s) r')"

fun append_results :: "(render_error + string) list \<Rightarrow> render_error + string" where
  "append_results [] = Inr []"
| "append_results (r # rs) = append_result r (append_results rs)"

text \<open>
  The text of the actions from \<open>i\<close> up to \<open>j\<close>, each with the fragment before it.  A block is rendered by itself: not at
  all, once with its context on the stack, or once for every element of a list.
\<close>

function segment :: "template \<Rightarrow> nat \<Rightarrow> nat \<Rightarrow> nat \<Rightarrow> mctx list \<Rightarrow> render_error + string" where
  "segment t indent i j stack =
     (if j \<le> i then Inr []
      else
        (let a = t_actions t ! i; k = a_pos a; before = Inr (render_fragment (t_body t) indent (t_fragments t ! i))
         in if opens_block a then
              (if i < k \<and> k < j then
                 append_result before
                   (append_result
                     (case plan_of t i stack of
                        Skip_Block \<Rightarrow> Inr []
                      | Throw_Block c \<Rightarrow> Inl (Section_Type c)
                      | Enter_Block c \<Rightarrow>
                          append_result (segment t indent (Suc i) k (c # stack)) (Inr (render_fragment (t_body t) indent (t_fragments t ! k)))
                      | Repeat_Block xs \<Rightarrow>
                          append_results (map (\<lambda>x. append_result (Inr (replicate indent CHR '' ''))
                            (append_result (segment t indent (Suc i) k (x # stack)) (Inr (render_fragment (t_body t) indent (t_fragments t ! k))))) xs))
                     (segment t indent (Suc k) j stack))
               else Inr [])
            else if a_type a = Tag_Action \<or> a_type a = Unescape_Tag then
              append_result before
                (append_result
                  (case tag_text (a_type a) (tag_context t i stack) of None \<Rightarrow> Inl (Tag_Type (tag_context t i stack)) | Some out \<Rightarrow> Inr out)
                  (segment t indent (Suc i) j stack))
            else append_result before (segment t indent (Suc i) j stack)))"
  by pat_completeness auto
termination
  by (relation "measure (\<lambda>(t, indent, i, j, stack). j - i)") auto

declare segment.simps [simp del]

text \<open>A whole template.\<close>

definition mustache_meaning :: "template \<Rightarrow> mctx \<Rightarrow> render_error + string" where
  "mustache_meaning t c =
     append_result (segment t 0 0 (last_fragment t) [c]) (Inr (render_fragment (t_body t) 0 (t_fragments t ! last_fragment t)))"

text \<open>Contexts without functions.\<close>

fun function_free :: "mctx \<Rightarrow> bool" where
  "function_free (M_List xs) = (\<forall>x\<in>set xs. function_free x)"
| "function_free (M_Object kvs) = (\<forall>kv\<in>set kvs. function_free (snd kv))"
| "function_free (M_Function s) = False"
| "function_free c = True"

definition stack_ok :: "mctx list \<Rightarrow> bool" where
  "stack_ok st \<longleftrightarrow> st \<noteq> [] \<and> (\<forall>c\<in>set st. function_free c)"

lemma function_free_member: "function_free c \<Longrightarrow> member k c = Some d \<Longrightarrow> function_free d"
  by (cases c) (fastforce simp: member_def dest: map_of_SomeD)+

lemma function_free_follow: "function_free c \<Longrightarrow> follow ns c = Some d \<Longrightarrow> function_free d"
  by (induction ns arbitrary: c) (auto split: option.splits dest: function_free_member)

lemma function_free_find: "\<forall>c\<in>set st. function_free c \<Longrightarrow> find_in_stack ns only st = Some d \<Longrightarrow> function_free d"
  by (induction st) (auto split: option.splits if_splits dest: function_free_follow)

lemma function_free_context: "stack_ok st \<Longrightarrow> find_context name st only = Some d \<Longrightarrow> function_free d"
  by (auto simp: find_context_def stack_ok_def dest: function_free_find split: if_splits)

lemma function_free_tag: "stack_ok st \<Longrightarrow> function_free (tag_context t i st)"
  by (auto simp: tag_context_def split: option.split dest: function_free_context)

lemma plan_ok:
  assumes "stack_ok st"
  shows "plan_of t i st = Enter_Block c \<Longrightarrow> function_free c" "plan_of t i st = Repeat_Block xs \<Longrightarrow> \<forall>x\<in>set xs. function_free x"
proof -
  have f: "block_context t i st = Some d \<Longrightarrow> function_free d" for d using function_free_context [OF assms] by (simp add: block_context_def)
  show "plan_of t i st = Enter_Block c \<Longrightarrow> function_free c"
    using f by (auto simp: plan_of_def open_plan_def else_plan_def split: if_splits option.splits mctx.splits list.splits)
  show "plan_of t i st = Repeat_Block xs \<Longrightarrow> \<forall>x\<in>set xs. function_free x"
    using f by (auto simp: plan_of_def open_plan_def else_plan_def split: if_splits option.splits mctx.splits list.splits)
qed

section \<open>The loop computes the meaning\<close>

text \<open>Running the loop from \<open>i\<close> writes the text of a segment, then goes on at its end with the same stack; with an error it stops.\<close>

definition reaches ::
  "(string \<Rightarrow> string) \<Rightarrow> template \<Rightarrow> nat \<Rightarrow> rendering \<Rightarrow> render_error + string \<Rightarrow> nat \<Rightarrow> nat \<Rightarrow> mctx list \<Rightarrow> bool" where
  "reaches loader t indent r res k stop st =
     (case res of
        Inl e \<Rightarrow> r = Some (Inl e)
      | Inr out \<Rightarrow> (\<exists>n>stop - k. r = prepend out (render_loop n loader t indent k stop st)))"

lemma prepend_prepend: "prepend a (prepend b r) = prepend (a @ b) r"
  by (cases r rule: option.exhaust) (auto simp: prepend_def sum.map_comp fun_eq_iff split_def map_sum_def split: sum.splits)

lemma prepend_simps [simp]: "prepend out None = None" "prepend out (Some (Inl e)) = Some (Inl e)"
  "prepend out (Some (Inr (s, st))) = Some (Inr (out @ s, st))"
  by (simp_all add: prepend_def)

lemma prepend_Nil [simp]: "prepend [] r = r"
  by (cases r; cases "the r") (auto simp: prepend_def)

lemma append_result_simps [simp]:
  "append_result (Inl e) r = Inl e" "append_result (Inr s) (Inl e) = Inl e" "append_result (Inr s) (Inr s') = Inr (s @ s')"
  by (simp_all add: append_result_def)

lemma append_result_assoc: "append_result (append_result a b) c = append_result a (append_result b c)"
  by (cases a; cases b; cases c) simp_all

lemma reaches_prepend: "reaches loader t indent r res k stop st \<Longrightarrow> reaches loader t indent (prepend out r) (append_result (Inr out) res) k stop st"
  by (cases res) (auto simp: reaches_def prepend_prepend)

lemma reaches_trans:
  assumes "reaches loader t indent r res k stop st"
    "\<And>n. stop - k < n \<Longrightarrow> reaches loader t indent (render_loop n loader t indent k stop st) res' k' stop st'"
  shows "reaches loader t indent r (append_result res res') k' stop st'"
proof (cases res)
  case (Inr out)
  then obtain n where n: "stop - k < n" "r = prepend out (render_loop n loader t indent k stop st)" using assms(1) by (auto simp: reaches_def)
  show ?thesis unfolding Inr n(2) by (rule reaches_prepend [OF assms(2) [OF n(1)]])
qed (use assms(1) in \<open>simp add: reaches_def\<close>)

lemma reaches_here: "stop - i < n \<Longrightarrow> reaches loader t indent (render_loop n loader t indent i stop st) (Inr []) i stop st"
  by (auto simp: reaches_def)

lemma loop_tag:
  assumes "i < stop" "a_type (t_actions t ! i) = Tag_Action \<or> a_type (t_actions t ! i) = Unescape_Tag" "function_free (tag_context t i st)"
  shows "render_loop (Suc m) loader t indent i stop st =
    prepend (render_fragment (t_body t) indent (t_fragments t ! i))
      (case tag_text (a_type (t_actions t ! i)) (tag_context t i st) of
         None \<Rightarrow> Some (Inl (Tag_Type (tag_context t i st)))
       | Some out \<Rightarrow> prepend out (render_loop m loader t indent (Suc i) stop st))"
  using assms by (cases "tag_context t i st") (auto simp: Let_def tag_text_def)

lemma loop_block:
  assumes "i < stop" "opens_block (t_actions t ! i)"
  shows "render_loop (Suc m) loader t indent i stop st =
    prepend (render_fragment (t_body t) indent (t_fragments t ! i))
      (case plan_of t i st of
         Skip_Block \<Rightarrow> render_loop m loader t indent (Suc (a_pos (t_actions t ! i))) stop st
       | Enter_Block c \<Rightarrow> render_loop m loader t indent (Suc i) stop (c # st)
       | Throw_Block c \<Rightarrow> Some (Inl (Section_Type c))
       | Repeat_Block xs \<Rightarrow>
           continue_with (render_items m loader t indent (Suc i) (a_pos (t_actions t ! i)) st xs)
             (\<lambda>out st. prepend out (render_loop m loader t indent (Suc (a_pos (t_actions t ! i))) stop st)))"
proof -
  have e: "Suc i = i + 1" "Suc (a_pos (t_actions t ! i)) = a_pos (t_actions t ! i) + 1" by simp_all
  show ?thesis unfolding e using assms by (auto simp: Let_def opens_block_def)
qed

lemma loop_close:
  "i < stop \<Longrightarrow> a_type (t_actions t ! i) = Close_Block \<Longrightarrow>
    render_loop (Suc m) loader t indent i stop st =
      prepend (render_fragment (t_body t) indent (t_fragments t ! i)) (render_loop m loader t indent (Suc i) stop (tl st))"
  by (simp add: Let_def)

lemma loop_ignore:
  "i < stop \<Longrightarrow> a_type (t_actions t ! i) = Ignore_Action \<Longrightarrow>
    render_loop (Suc m) loader t indent i stop st =
      prepend (render_fragment (t_body t) indent (t_fragments t ! i)) (render_loop m loader t indent (Suc i) stop st)"
  by (simp add: Let_def)

lemma loop_end: "0 < n \<Longrightarrow> render_loop n loader t indent k k st = Some (Inr (render_fragment (t_body t) indent (t_fragments t ! k), st))"
  by (cases n) simp_all

lemma reaches_end:
  "reaches loader t indent r res k k st \<Longrightarrow>
    r = Some (map_sum id (\<lambda>s. (s, st)) (append_result res (Inr (render_fragment (t_body t) indent (t_fragments t ! k)))))"
  by (cases res) (auto simp: reaches_def loop_end)

definition block_items :: "template \<Rightarrow> nat \<Rightarrow> nat \<Rightarrow> nat \<Rightarrow> mctx list \<Rightarrow> mctx list \<Rightarrow> render_error + string" where
  "block_items t indent i k st xs =
     append_results (map (\<lambda>x. append_result (Inr (replicate indent CHR '' ''))
       (append_result (segment t indent i k (x # st)) (Inr (render_fragment (t_body t) indent (t_fragments t ! k))))) xs)"

lemma items_text:
  assumes "\<And>st n. k - i < n \<Longrightarrow> stack_ok st \<Longrightarrow> reaches loader t indent (render_loop n loader t indent i k st) (segment t indent i k st) k k st"
    and "k - i < m" "stack_ok st" "\<forall>x\<in>set xs. function_free x"
  shows "render_items m loader t indent i k st xs = Some (map_sum id (\<lambda>s. (s, st)) (block_items t indent i k st xs))"
  using assms(4)
proof (induction xs)
  case Nil
  then show ?case by (simp add: block_items_def)
next
  case (Cons x xs)
  have "stack_ok (x # st)" using assms(3) Cons.prems by (simp add: stack_ok_def)
  from reaches_end [OF assms(1) [OF assms(2) this]]
  have one: "render_loop m loader t indent i k (x # st)
    = Some (map_sum id (\<lambda>s. (s, x # st)) (append_result (segment t indent i k (x # st)) (Inr (render_fragment (t_body t) indent (t_fragments t ! k)))))" .
  have IH: "render_items m loader t indent i k st xs = Some (map_sum id (\<lambda>s. (s, st)) (block_items t indent i k st xs))"
    by (rule Cons.IH) (use Cons.prems in simp)
  have items: "block_items t indent i k st (x # xs) = append_result (append_result (Inr (replicate indent CHR '' ''))
      (append_result (segment t indent i k (x # st)) (Inr (render_fragment (t_body t) indent (t_fragments t ! k))))) (block_items t indent i k st xs)"
    by (simp add: block_items_def)
  show ?case
  proof (cases "append_result (segment t indent i k (x # st)) (Inr (render_fragment (t_body t) indent (t_fragments t ! k)))")
    case (Inl e)
    then show ?thesis unfolding items by (simp add: one continue_with_def)
  next
    case (Inr s)
    then show ?thesis unfolding items by (cases "block_items t indent i k st xs") (simp_all add: one continue_with_def IH)
  qed
qed

lemma segment_block:
  assumes "opens_block (t_actions t ! i)" "i < a_pos (t_actions t ! i)" "a_pos (t_actions t ! i) < j"
  shows "segment t indent i j st =
    append_result (Inr (render_fragment (t_body t) indent (t_fragments t ! i)))
      (append_result
        (case plan_of t i st of
           Skip_Block \<Rightarrow> Inr []
         | Throw_Block c \<Rightarrow> Inl (Section_Type c)
         | Enter_Block c \<Rightarrow> append_result (segment t indent (Suc i) (a_pos (t_actions t ! i)) (c # st))
             (Inr (render_fragment (t_body t) indent (t_fragments t ! a_pos (t_actions t ! i))))
         | Repeat_Block xs \<Rightarrow> block_items t indent (Suc i) (a_pos (t_actions t ! i)) st xs)
        (segment t indent (Suc (a_pos (t_actions t ! i))) j st))"
  using assms unfolding block_items_def by (subst segment.simps) (simp add: Let_def)

definition no_partials :: "template \<Rightarrow> bool" where
  "no_partials t \<longleftrightarrow> (\<forall>a\<in>set (t_actions t). a_type a \<noteq> Partial_Action)"

lemma render_segment:
  assumes "nested b (t_actions t) i j" "no_partials t" "j \<le> length (t_actions t)"
  shows "j \<le> stop \<Longrightarrow> stop - i < n \<Longrightarrow> stack_ok st \<Longrightarrow>
    reaches loader t indent (render_loop n loader t indent i stop st) (segment t indent i j st) j stop st"
  using assms
proof (induction arbitrary: stop n st rule: nested.induct)
  case (nested_done i)
  then show ?case by (simp add: segment.simps reaches_here)
next
  case (nested_simple i j)
  have ij: "i < j" using nested_le [OF nested_simple.hyps(2)] by simp
  obtain m where n: "n = Suc m" using nested_simple.prems(2) by (cases n) auto
  let ?a = "t_actions t ! i"
  have IH: "reaches loader t indent (render_loop m loader t indent (Suc i) stop st) (segment t indent (Suc i) j st) j stop st"
    using nested_simple.prems ij n by (intro nested_simple.IH) auto
  have stop: "i < stop" using ij nested_simple.prems(1) by simp
  have "?a \<in> set (t_actions t)" using ij nested_simple.prems(5) by simp
  then have "a_type ?a \<noteq> Partial_Action" using nested_simple.prems(4) by (auto simp: no_partials_def)
  then consider "a_type ?a = Ignore_Action" | "a_type ?a = Tag_Action \<or> a_type ?a = Unescape_Tag"
    using nested_simple.hyps(1) by (cases "a_type ?a") (auto simp: simple_action_def)
  then show ?case
  proof cases
    case 1
    then have "segment t indent i j st = append_result (Inr (render_fragment (t_body t) indent (t_fragments t ! i))) (segment t indent (Suc i) j st)"
      using ij by (subst segment.simps) (simp add: opens_block_def Let_def)
    then show ?thesis using loop_ignore [OF stop 1] reaches_prepend [OF IH] by (simp add: n)
  next
    case 2
    then have s: "segment t indent i j st = append_result (Inr (render_fragment (t_body t) indent (t_fragments t ! i)))
        (append_result (case tag_text (a_type ?a) (tag_context t i st) of None \<Rightarrow> Inl (Tag_Type (tag_context t i st)) | Some out \<Rightarrow> Inr out)
          (segment t indent (Suc i) j st))"
      using ij by (subst segment.simps) (auto simp: opens_block_def Let_def)
    show ?thesis unfolding n s loop_tag [OF stop 2 function_free_tag [OF nested_simple.prems(3)]]
      by (rule reaches_prepend) (auto split: option.split simp: reaches_def intro: reaches_prepend [OF IH, unfolded reaches_def])
  qed
next
  case (nested_block i j)
  let ?k = "a_pos (t_actions t ! i)"
  have ik: "i < ?k" "?k < j" using nested_le [OF nested_block.hyps(2)] nested_le [OF nested_block.hyps(5)] by auto
  obtain m where n: "n = Suc m" using nested_block.prems(2) by (cases n) auto
  have stop: "i < stop" "?k < stop" using ik nested_block.prems(1) by auto
  have inner: "reaches loader t indent (render_loop n' loader t indent (Suc i) stop' st') (segment t indent (Suc i) ?k st') ?k stop' st'"
    if "?k \<le> stop'" "stop' - Suc i < n'" "stack_ok st'" for stop' n' st'
    using that nested_block.prems ik by (intro nested_block.IH(1)) auto
  have rest: "reaches loader t indent (render_loop n' loader t indent (Suc ?k) stop st) (segment t indent (Suc ?k) j st) j stop st"
    if "stop - Suc ?k < n'" for n'
    using that nested_block.prems ik by (intro nested_block.IH(2)) auto
  have rest_m: "reaches loader t indent (render_loop m loader t indent (Suc ?k) stop st) (segment t indent (Suc ?k) j st) j stop st"
    using nested_block.prems(2) ik n stop by (intro rest) auto
  have body: "reaches loader t indent
     (case plan_of t i st of Skip_Block \<Rightarrow> render_loop m loader t indent (Suc ?k) stop st
      | Enter_Block c \<Rightarrow> render_loop m loader t indent (Suc i) stop (c # st) | Repeat_Block xs \<Rightarrow>
          continue_with (render_items m loader t indent (Suc i) ?k st xs) (\<lambda>out st. prepend out (render_loop m loader t indent (Suc ?k) stop st))
      | Throw_Block c \<Rightarrow> Some (Inl (Section_Type c)))
     (append_result
       (case plan_of t i st of Skip_Block \<Rightarrow> Inr []
        | Enter_Block c \<Rightarrow> append_result (segment t indent (Suc i) ?k (c # st)) (Inr (render_fragment (t_body t) indent (t_fragments t ! ?k)))
        | Repeat_Block xs \<Rightarrow> block_items t indent (Suc i) ?k st xs | Throw_Block c \<Rightarrow> Inl (Section_Type c))
       (segment t indent (Suc ?k) j st))
     j stop st"
  proof (cases "plan_of t i st")
    case Skip_Block
    then show ?thesis using reaches_prepend [OF rest_m, of "[]"] by simp
  next
    case (Enter_Block c)
    have ok: "stack_ok (c # st)" using plan_ok(1) [OF nested_block.prems(3) Enter_Block] nested_block.prems(3) by (simp add: stack_ok_def)
    have "reaches loader t indent (render_loop m loader t indent (Suc i) stop (c # st))
      (append_result (segment t indent (Suc i) ?k (c # st))
        (append_result (Inr (render_fragment (t_body t) indent (t_fragments t ! ?k))) (segment t indent (Suc ?k) j st))) j stop st"
    proof (rule reaches_trans)
      show "reaches loader t indent (render_loop m loader t indent (Suc i) stop (c # st)) (segment t indent (Suc i) ?k (c # st)) ?k stop (c # st)"
        using nested_block.prems(2) n stop ok by (intro inner) auto
      fix n' assume "stop - ?k < n'"
      then obtain m' where "n' = Suc m'" "stop - Suc ?k < m'" using stop(2) by (cases n') auto
      then show "reaches loader t indent (render_loop n' loader t indent ?k stop (c # st))
        (append_result (Inr (render_fragment (t_body t) indent (t_fragments t ! ?k))) (segment t indent (Suc ?k) j st)) j stop st"
        using loop_close [OF stop(2) nested_block.hyps(3)] reaches_prepend [OF rest] by simp
    qed
    then show ?thesis using Enter_Block by (simp add: append_result_assoc)
  next
    case (Repeat_Block xs)
    have "render_items m loader t indent (Suc i) ?k st xs = Some (map_sum id (\<lambda>s. (s, st)) (block_items t indent (Suc i) ?k st xs))"
      by (rule items_text) (use inner nested_block.prems n stop plan_ok(2) [OF nested_block.prems(3) Repeat_Block] in auto)
    then show ?thesis using Repeat_Block reaches_prepend [OF rest_m]
      by (cases "block_items t indent (Suc i) ?k st xs") (auto simp: continue_with_def reaches_def)
  next
    case (Throw_Block c)
    then show ?thesis by (simp add: reaches_def)
  qed
  show ?case unfolding n loop_block [OF stop(1) nested_block.hyps(1)] segment_block [OF nested_block.hyps(1) ik]
    by (rule reaches_prepend [OF body])
qed

end
