(* ===== verification/Mustache_Properties.thy ===== *)
theory Mustache_Properties
  imports Mustache_Facts
begin

text \<open>
  Properties of mustache templates: compiled blocks are nested, rendering ends and means what the blocks mean,
  text without tags is unchanged, and what a tag writes is safe to put between or inside the tags of a page.
\<close>

text \<open>In a compiled template every action that opens a block holds the index of an action that closes it under the same name, blocks are nested, and there is one fragment for each action.\<close>

theorem compiled_blocks_nested:
  assumes "mustache_compile b = Inr t"
  shows "nested b (t_actions t) 0 (last_fragment t) \<and> length (t_fragments t) = length (t_actions t) \<and> t_body t = b"
  using compiled_nested [OF assms] by simp

text \<open>C34: Rendering a compiled template without partials, in a context without functions, ends: fuel for one level more than there are actions is enough.  Its result is the meaning of the template, in which every block is rendered by itself: not at all, once in its own context, or once for each element of a list.\<close>

theorem render_meaning:
  assumes "mustache_compile b = Inr t" "no_partials t" "function_free c" "length (t_actions t) < n"
  shows "render_string n loader t c = Some (mustache_meaning t c)"
proof -
  note t = compiled_nested [OF assms(1)]
  have j: "last_fragment t \<le> length (t_actions t)" using t(2) by (simp add: last_fragment_def)
  have "stack_ok [c]" using assms(3) by (simp add: stack_ok_def)
  then have "reaches loader t 0 (render_loop n loader t 0 0 (last_fragment t) [c]) (segment t 0 0 (last_fragment t) [c])
    (last_fragment t) (last_fragment t) [c]"
    using assms(4) j by (intro render_segment [OF t(4) assms(2) j]) auto
  from reaches_end [OF this] show ?thesis
    by (simp add: render_string_def mustache_meaning_def sum.map_comp comp_def sum.map_ident)
qed

text \<open>Text without a tag.\<close>

lemma text_unchanged:
  assumes "find_from ''{{'' b 0 = None"
  shows "\<exists>t. mustache_compile b = Inr t \<and> (\<forall>n>0. render_string n loader t c = Some (Inr b))"
proof -
  have "parse_tags b 0 initial_parse = Inr (add_action (new_action CHR ''!'' Ignore_Action 0 0 0) (add_fragment 0 (length b) initial_parse))"
    using assms by (subst parse_tags.simps) (simp add: initial_parse_def)
  then have "mustache_compile b = Inr \<lparr>t_body = b, t_fragments = [(0, length b)], t_actions = [new_action CHR ''!'' Ignore_Action 0 0 0]\<rparr>"
    by (simp add: mustache_compile_def add_action_def add_fragment_def initial_parse_def missing_end_pair_def new_action_def remove_standalones_def)
  moreover have "render_loop n loader \<lparr>t_body = b, t_fragments = [(0, length b)], t_actions = acts\<rparr> 0 0 0 st = Some (Inr (b, st))" if "0 < n" for n acts st
    using that by (cases n) (simp_all add: render_fragment_def text_at_def)
  ultimately show ?thesis by (auto simp: render_string_def last_fragment_def)
qed

section \<open>Escaping\<close>

lemma html_escape_simps [simp]: "html_escape [] = []" "html_escape (c # s) = html_escape_char c @ html_escape s"
  by (simp_all add: html_escape_def)

definition html_special :: "char set" where
  "html_special = {CHR ''<'', CHR ''>'', CHR 0x22, CHR 0x27, CHR ''/'', CHR 0x60, CHR ''=''}"

lemma html_escape_char_safe: "set (html_escape_char c) \<inter> html_special = {}"
  by (auto simp: html_escape_char_def html_special_def)

lemma html_escape_char_prefix: "html_escape_char c @ x = html_escape_char d @ y \<Longrightarrow> c = d"
  by (auto simp: html_escape_char_def split: if_splits)

lemma html_escape_char_not_Nil [simp]: "html_escape_char c \<noteq> []"
  by (simp add: html_escape_char_def)

text \<open>C35: What a tag writes for a text has no character that HTML gives a meaning to, but for the entities it writes; and two texts are never written alike.\<close>

theorem tags_escaped:
  "tag_text Tag_Action (M_String s) = Some (html_escape s) \<and> set (html_escape s) \<inter> html_special = {} \<and>
   (html_escape s = html_escape s' \<longleftrightarrow> s = s')"
proof -
  have "set (html_escape s) \<inter> html_special = {}"
    using html_escape_char_safe by (induction s) (auto simp: Int_Un_distrib2)
  moreover have "html_escape s = html_escape s' \<Longrightarrow> s = s'"
  proof (induction s arbitrary: s')
    case Nil
    then show ?case by (cases s') auto
  next
    case (Cons c s)
    then obtain d s'' where s': "s' = d # s''" by (cases s') auto
    then have "html_escape_char c @ html_escape s = html_escape_char d @ html_escape s''" using Cons.prems by simp
    then have "c = d" by (rule html_escape_char_prefix)
    then show ?case using Cons s' by simp
  qed
  ultimately show ?thesis by (auto simp: tag_text_def)
qed

section \<open>An example\<close>

text \<open>\<open>{{#u}}<{{n}}>{{/u}}\<close>\<close>

definition sample_template :: string where
  "sample_template = ''{{#u}}<{{n}}>{{/u}}''"

definition sample_compiled :: template where
  "sample_compiled = (case mustache_compile sample_template of Inr t \<Rightarrow> t)"

lemma sample_value: "mustache_compile sample_template = Inr sample_compiled"
  unfolding sample_compiled_def by code_simp

definition sample_context :: mctx where
  "sample_context = M_Object [(''u'', M_List [M_Object [(''n'', M_String ''<'')], M_Object [(''n'', M_Number ''1'')]])]"

lemma compiled_blocks_nested_witness:
  "nested sample_template (t_actions sample_compiled) 0 3 \<and> length (t_fragments sample_compiled) = 4"
proof -
  have "last_fragment sample_compiled = 3 \<and> length (t_fragments sample_compiled) = 4" unfolding sample_compiled_def by code_simp
  then show ?thesis using compiled_blocks_nested [OF sample_value] by simp
qed

lemma render_meaning_witness: "render_string 10 (\<lambda>_. []) sample_compiled sample_context = Some (Inr ''<&lt;><1>'')"
proof -
  have p: "no_partials sample_compiled" unfolding sample_compiled_def by code_simp
  have l: "length (t_actions sample_compiled) < 10" unfolding sample_compiled_def by code_simp
  have f: "function_free sample_context" by (simp add: sample_context_def)
  have "mustache_meaning sample_compiled sample_context = Inr ''<&lt;><1>''" unfolding sample_compiled_def by code_simp
  then show ?thesis using render_meaning [OF sample_value p f l] by simp
qed

end
