(* ===== verification/Json_Edit.thy ===== *)
theory Json_Edit
  imports Json_Write "HOL-Library.AList"
begin

text \<open>
  Editing JSON: the constructors and assignments of \<open>wvalue\<close>, its \<open>operator[]\<close>, which makes the value a
  list or an object when it is none, the copy of a read value into a write value, and the queries.
  An object is an \<open>unordered_map\<close>, here the list of its members in the order of insertion.  Doubles are
  opaque: \<open>double_ops\<close> holds what the code asks the C++ library about them.  The rest of \<open>rvalue\<close> is here
  too: \<open>d\<close>, \<open>lo\<close> and the stream operator.
\<close>

record 'd double_ops =
  d_finite :: "'d \<Rightarrow> bool"
  d_print_f :: "'d \<Rightarrow> string"
  d_print_g :: "'d \<Rightarrow> string"
  d_stream :: "'d \<Rightarrow> string"
  d_read :: "string \<Rightarrow> access_error + 'd"

section \<open>Read values\<close>

definition r_d :: "'d double_ops \<Rightarrow> rvalue \<Rightarrow> access_error + 'd" where
  "r_d ops v = (case v of R_Number t \<Rightarrow> d_read ops t | _ \<Rightarrow> Inl (Throws ''value is not number''))"

definition r_lo :: "rvalue \<Rightarrow> access_error + rvalue list" where
  "r_lo v =
     (case v of R_List vs \<Rightarrow> Inr vs | R_Object kvs \<Rightarrow> Inr (map snd kvs) | _ \<Rightarrow> Inl (Throws ''value is not a container''))"

definition r_count :: "rvalue \<Rightarrow> string \<Rightarrow> access_error + int" where
  "r_count v str = map_sum id (\<lambda>b. if b then 1 else 0) (r_has v str)"

text \<open>\<open>operator<<\<close>: a string is written without escapes, a key with them.\<close>

fun r_stream :: "'d double_ops \<Rightarrow> rvalue \<Rightarrow> access_error + string"
  and r_stream_elems :: "'d double_ops \<Rightarrow> bool \<Rightarrow> rvalue list \<Rightarrow> access_error + string"
  and r_stream_members :: "'d double_ops \<Rightarrow> bool \<Rightarrow> (string \<times> rvalue) list \<Rightarrow> access_error + string"
where
  "r_stream ops R_Null = Inr ''null''"
| "r_stream ops R_False = Inr ''false''"
| "r_stream ops R_True = Inr ''true''"
| "r_stream ops (R_Number t) =
     (case determine_num_type (R_Number t) of
        Signed_integer \<Rightarrow> map_sum id to_string (r_i (R_Number t))
      | Unsigned_integer \<Rightarrow> map_sum id (\<lambda>u. to_string (uint u)) (r_u (R_Number t))
      | NT_Null \<Rightarrow> Inl (Throws ''Number with num_type Null'')
      | _ \<Rightarrow> map_sum id (d_stream ops) (r_d ops (R_Number t)))"
| "r_stream ops (R_String raw esc) = Inr (CHR 0x22 # string_text raw esc @ [CHR 0x22])"
| "r_stream ops (R_List vs) = map_sum id (\<lambda>s. CHR ''['' # s @ '']'') (r_stream_elems ops True vs)"
| "r_stream ops (R_Object kvs) = map_sum id (\<lambda>s. CHR ''{'' # s @ ''}'') (r_stream_members ops True kvs)"
| "r_stream_elems ops first [] = Inr []"
| "r_stream_elems ops first (v # vs) =
     (case r_stream ops v of
        Inl e \<Rightarrow> Inl e
      | Inr s \<Rightarrow> map_sum id (\<lambda>s'. (if first then [] else '','') @ s @ s') (r_stream_elems ops False vs))"
| "r_stream_members ops first [] = Inr []"
| "r_stream_members ops first (kv # kvs) =
     (case r_stream ops (snd kv) of
        Inl e \<Rightarrow> Inl e
      | Inr s \<Rightarrow> map_sum id (\<lambda>s'. (if first then [] else '','') @ CHR 0x22 # escape (fst kv) @ [CHR 0x22] @ '':'' @ s @ s')
          (r_stream_members ops False kvs))"

section \<open>Making and assigning write values\<close>

text \<open>An assignment resets the value and sets its type and the number or text; so it does what the constructor does.\<close>

definition w_reset :: "wvalue \<Rightarrow> wvalue" where "w_reset v = W_Null"
definition w_of_bool :: "bool \<Rightarrow> wvalue" where "w_of_bool b = (if b then W_True else W_False)"

definition w_of_double :: "'d double_ops \<Rightarrow> 'd \<Rightarrow> wvalue" where
  "w_of_double ops d = (if d_finite ops d then W_Float (d_print_g ops d) else W_Nonfinite)"

definition w_of_float :: "'d double_ops \<Rightarrow> 'd \<Rightarrow> wvalue" where
  "w_of_float ops d = (if d_finite ops d then W_Float (d_print_f ops d) else W_Nonfinite)"

text \<open>An \<open>unordered_map\<close> made from a list of pairs, and \<open>emplace\<close>, keep the first value of a key.\<close>

definition emplace_member :: "string \<Rightarrow> wvalue \<Rightarrow> (string \<times> wvalue) list \<Rightarrow> (string \<times> wvalue) list" where
  "emplace_member k v kvs = (if map_of kvs k = None then kvs @ [(k, v)] else kvs)"

definition w_of_pairs :: "(string \<times> wvalue) list \<Rightarrow> wvalue" where
  "w_of_pairs kvs = W_Object (fold (\<lambda>(k, v). emplace_member k v) kvs [])"

definition w_of_list :: "wvalue list \<Rightarrow> wvalue" where "w_of_list vs = W_List vs"

section \<open>Access by index and by key\<close>

definition w_elems :: "wvalue \<Rightarrow> wvalue list" where
  "w_elems v = (case v of W_List l \<Rightarrow> l | _ \<Rightarrow> [])"

definition w_members :: "wvalue \<Rightarrow> (string \<times> wvalue) list" where
  "w_members v = (case v of W_Object kvs \<Rightarrow> kvs | _ \<Rightarrow> [])"

text \<open>
  \<open>operator[](unsigned)\<close> returns a reference, here what is done through it is the argument \<open>f\<close>.  The size
  asked for is \<open>index + 1\<close> in 32 bits; for the greatest index it is 0 and the reference is out of bounds, which is \<open>None\<close>.
\<close>

definition resized :: "nat \<Rightarrow> wvalue list \<Rightarrow> wvalue list" where
  "resized n l = (if length l < n then l @ replicate (n - length l) W_Null else l)"

definition w_at :: "32 word \<Rightarrow> (wvalue \<Rightarrow> wvalue) \<Rightarrow> wvalue \<Rightarrow> wvalue option" where
  "w_at index f v =
     (let l = resized (unat (index + 1)) (w_elems v)
      in if unat index < length l then Some (W_List (l[unat index := f (l ! unat index)])) else None)"

text \<open>\<open>operator[](const std::string&)\<close>: a key that is missing is inserted with the value null.\<close>

definition w_slot :: "string \<Rightarrow> wvalue \<Rightarrow> wvalue" where
  "w_slot k v = (case map_of (w_members v) k of None \<Rightarrow> W_Null | Some x \<Rightarrow> x)"

definition w_member :: "string \<Rightarrow> (wvalue \<Rightarrow> wvalue) \<Rightarrow> wvalue \<Rightarrow> wvalue" where
  "w_member k f v = W_Object (AList.update k (f (w_slot k v)) (w_members v))"

definition w_put :: "string \<Rightarrow> wvalue \<Rightarrow> wvalue \<Rightarrow> wvalue" where
  "w_put k x v = w_member k (\<lambda>_. x) v"

text \<open>The \<open>const\<close> versions cast \<open>const\<close> away and call these, so a look at a value changes it.\<close>

definition w_look :: "string \<Rightarrow> wvalue \<Rightarrow> wvalue \<times> wvalue" where
  "w_look k v = (w_slot k v, w_member k (\<lambda>x. x) v)"

section \<open>Queries\<close>

definition w_has :: "wvalue \<Rightarrow> string \<Rightarrow> bool" where
  "w_has v k = (case v of W_Object kvs \<Rightarrow> map_of kvs k \<noteq> None | _ \<Rightarrow> False)"

definition w_count :: "wvalue \<Rightarrow> string \<Rightarrow> int" where
  "w_count v k = (if w_has v k then 1 else 0)"

definition w_keys :: "wvalue \<Rightarrow> string list" where
  "w_keys v = (case v of W_Object kvs \<Rightarrow> map fst kvs | _ \<Rightarrow> [])"

definition w_size :: "wvalue \<Rightarrow> nat" where
  "w_size v = (case v of W_List l \<Rightarrow> length l | _ \<Rightarrow> 1)"

fun estimate_length :: "wvalue \<Rightarrow> nat" where
  "estimate_length W_Null = 4"
| "estimate_length W_False = 5"
| "estimate_length W_True = 4"
| "estimate_length (W_Signed _) = 30"
| "estimate_length (W_Unsigned _) = 30"
| "estimate_length (W_Float _) = 30"
| "estimate_length W_Nonfinite = 30"
| "estimate_length (W_String s) = 2 + length s + length s div 2"
| "estimate_length (W_List l) = sum_list (map (\<lambda>x. 1 + estimate_length x) l) + 2"
| "estimate_length (W_Object kvs) =
     sum_list (map (\<lambda>kv. 2 + (2 + length (fst kv) + length (fst kv) div 2) + estimate_length (snd kv)) kvs) + 2"
| "estimate_length W_Function = 0"

text \<open>\<open>wvalue_reader\<close>, for the types whose test does not depend on which kind of double the value holds.\<close>

definition reader_int :: "wvalue \<Rightarrow> int \<Rightarrow> int" where
  "reader_int v fallback = (case v of W_Signed i \<Rightarrow> sint i | W_Unsigned u \<Rightarrow> sint u | _ \<Rightarrow> fallback)"

definition reader_bool :: "wvalue \<Rightarrow> bool \<Rightarrow> bool" where
  "reader_bool v fallback = (case v of W_True \<Rightarrow> True | W_False \<Rightarrow> False | _ \<Rightarrow> fallback)"

definition reader_string :: "wvalue \<Rightarrow> string \<Rightarrow> string" where
  "reader_string v fallback = (case v of W_String s \<Rightarrow> s | _ \<Rightarrow> fallback)"

section \<open>A write value from a read value\<close>

fun of_rvalue :: "'d double_ops \<Rightarrow> rvalue \<Rightarrow> access_error + wvalue"
  and of_rvalues :: "'d double_ops \<Rightarrow> rvalue list \<Rightarrow> access_error + wvalue list"
  and of_members :: "'d double_ops \<Rightarrow> (string \<times> rvalue) list \<Rightarrow> (string \<times> wvalue) list \<Rightarrow> access_error + (string \<times> wvalue) list"
where
  "of_rvalue ops R_Null = Inr W_Null"
| "of_rvalue ops R_False = Inr W_False"
| "of_rvalue ops R_True = Inr W_True"
| "of_rvalue ops (R_Number t) =
     (case determine_num_type (R_Number t) of
        Floating_point \<Rightarrow> map_sum id (w_of_float ops) (r_d ops (R_Number t))
      | Double_precision_floating_point \<Rightarrow> map_sum id (w_of_double ops) (r_d ops (R_Number t))
      | Signed_integer \<Rightarrow> map_sum id (\<lambda>i. W_Signed (word_of_int i)) (r_i (R_Number t))
      | _ \<Rightarrow> map_sum id W_Unsigned (r_u (R_Number t)))"
| "of_rvalue ops (R_String raw esc) = map_sum id W_String (r_s (R_String raw esc))"
| "of_rvalue ops (R_List vs) = map_sum id W_List (of_rvalues ops vs)"
| "of_rvalue ops (R_Object kvs) = map_sum id W_Object (of_members ops kvs [])"
| "of_rvalues ops [] = Inr []"
| "of_rvalues ops (v # vs) =
     (case of_rvalue ops v of Inl e \<Rightarrow> Inl e | Inr w \<Rightarrow> map_sum id ((#) w) (of_rvalues ops vs))"
| "of_members ops [] acc = Inr acc"
| "of_members ops (kv # kvs) acc =
     (case of_rvalue ops (snd kv) of Inl e \<Rightarrow> Inl e | Inr w \<Rightarrow> of_members ops kvs (emplace_member (fst kv) w acc))"

end
