(* ===== verification/Json_Edit_Properties.thy ===== *)
theory Json_Edit_Properties
  imports Json_Edit
begin

text \<open>
  What editing does to a document: a text that is read, changed at a key and written again reads as the
  same document with the new member.  Two documents are the same when they have the same meaning, in which
  the order of members, the spelling of strings and numbers, and the later members of a repeated key do not count.
\<close>

section \<open>What the parser makes\<close>

text \<open>A predicate of values that holds of the leaves and goes from parts to wholes holds of every parsed value.\<close>

locale parsed_values =
  fixes Q :: "rvalue \<Rightarrow> bool"
  assumes leaf: "Q R_Null" "Q R_False" "Q R_True" "Q (R_String raw esc)"
    and number: "decode_number s = Good v r \<Longrightarrow> Q v"
    and whole: "\<forall>x\<in>set vs. Q x \<Longrightarrow> Q (R_List vs)" "\<forall>kv\<in>set kvs. Q (snd kv) \<Longrightarrow> Q (R_Object kvs)"
begin

lemma decoded:
  "decode_value n d s = Good v r \<Longrightarrow> Q v"
  "decode_list n d s = Good v r \<Longrightarrow> Q v"
  "decode_elems n d s = Good vs r \<Longrightarrow> \<forall>v \<in> set vs. Q v"
  "decode_object n d s = Good v r \<Longrightarrow> Q v"
  "decode_members n d s = Good kvs r \<Longrightarrow> \<forall>kv \<in> set kvs. Q (snd kv)"
proof (induction n d s and n d s and n d s and n d s and n d s arbitrary: v r and v r and vs r and v r and kvs r
    rule: decode_value_decode_list_decode_elems_decode_object_decode_members.induct)
  case (2 n d s)
  then show ?case using leaf number by (auto split: if_splits elim!: decode_string_Good)
next
  case (4 n d s)
  have "Q (R_List [])" by (rule whole(1)) simp
  with 4 show ?case using whole(1) by (auto simp: Let_def split: option.splits if_splits parsed.splits)
next
  case (6 n d s)
  from 6(3) obtain v s1 where v: "decode_value n (d + 1) s = Good v s1" by (auto split: parsed.splits)
  note IH = 6(1) [OF v]
  show ?case
  proof (cases "peek (ws_skip s1) = CHR '']''")
    case False
    with 6(3) v obtain s3 vs' where s3: "consume (CHR '','') (ws_skip s1) = Some s3"
      "decode_elems n d (ws_skip s3) = Good vs' r" "vs = v # vs'"
      by (auto simp: Let_def split: parsed.splits option.splits)
    from 6(2) [OF v refl False s3(1,2)] IH s3(3) show ?thesis by simp
  qed (use 6(3) v IH in \<open>auto simp: Let_def\<close>)
next
  case (8 n d s)
  have "Q (R_Object [])" by (rule whole(2)) simp
  with 8 show ?case using whole(2) by (auto simp: Let_def split: option.splits if_splits parsed.splits)
next
  case (10 n d s)
  from 10(3) obtain t s1 s2 v s3 where t: "decode_string s = Good t s1" "consume (CHR '':'') (ws_skip s1) = Some s2"
    and v: "decode_value n (d + 1) (ws_skip s2) = Good v s3"
    by (auto simp: Let_def split: parsed.splits option.splits)
  note IH = 10(1) [OF t refl v]
  show ?case
  proof (cases "peek (ws_skip s3) = CHR ''}''")
    case False
    with 10(3) t v obtain s5 kvs' k where k: "consume (CHR '','') (ws_skip s3) = Some s5"
      "decode_members n d (ws_skip s5) = Good kvs' r" "kvs = (k, v) # kvs'"
      by (auto simp: Let_def split: parsed.splits option.splits)
    from 10(2) [OF t refl v refl False k(1,2)] IH k(3) show ?thesis by simp
  qed (use 10(3) t v IH in \<open>auto simp: Let_def\<close>)
qed simp_all

lemma loaded: "load s = Some v \<Longrightarrow> Q v"
  by (auto simp: load_def parse_def Let_def dest: decoded(1) split: parsed.splits if_splits)

end

text \<open>The text of every number has a character to read, so that no accessor finds its result uninitialised.\<close>

fun readable :: "rvalue \<Rightarrow> bool" where
  "readable (R_Number t) \<longleftrightarrow> (\<exists>c\<in>set t. \<not> is_space c)"
| "readable (R_List vs) \<longleftrightarrow> (\<forall>v\<in>set vs. readable v)"
| "readable (R_Object kvs) \<longleftrightarrow> (\<forall>kv\<in>set kvs. readable (snd kv))"
| "readable v \<longleftrightarrow> True"

lemma number_table_space:
  assumes "number_table c \<noteq> None"
  shows "\<not> is_space c"
proof
  assume "is_space c"
  then have "code c \<le> 32" by (auto simp: is_space_def)
  then have "\<not> is_digit c" "c \<notin> {CHR ''0'', CHR ''.'', CHR ''-'', CHR ''+'', CHR ''e'', CHR ''E''}"
    by (auto simp: is_digit_def code_def)
  with assms show False by (simp add: number_table_def)
qed

lemma number_loop_head: "number_loop Minus s = Some (t, r) \<Longrightarrow> \<exists>c\<in>set t. \<not> is_space c"
proof (cases s)
  case (Cons c s')
  assume n: "number_loop Minus s = Some (t, r)"
  then have "\<exists>t'. t = c # t'" "number_table c \<noteq> None" unfolding Cons
    by (subst (asm) number_loop.simps, auto simp: accepting_def Let_def split: option.splits)+
  then show ?thesis using number_table_space by auto
qed (simp add: number_loop.simps accepting_def)

interpretation readable: parsed_values readable
proof
  show "decode_number s = Good v r \<Longrightarrow> readable v" for s v r
    by (auto simp: decode_number_def dest: number_loop_head split: option.splits)
qed auto

section \<open>Meaning\<close>

datatype document =
    D_Null | D_Bool bool | D_Int int | D_Text string | D_List "document list" | D_Object "string \<Rightarrow> document option"

fun meaning :: "rvalue \<Rightarrow> document" where
  "meaning R_Null = D_Null"
| "meaning R_False = D_Bool False"
| "meaning R_True = D_Bool True"
| "meaning (R_Number t) =
     D_Int (if CHR ''-'' \<in> set t then projr (lexical_cast_i64 t) else uint (projr (lexical_cast_u64 t)))"
| "meaning (R_String raw esc) = D_Text (string_text raw esc)"
| "meaning (R_List vs) = D_List (map meaning vs)"
| "meaning (R_Object kvs) = D_Object (map_of (map (\<lambda>kv. (fst kv, meaning (snd kv))) kvs))"

text \<open>Doubles lose digits when they are written; a document without them has only integers.\<close>

fun integral :: "rvalue \<Rightarrow> bool" where
  "integral (R_Number t) \<longleftrightarrow> CHR ''.'' \<notin> set t \<and> CHR ''e'' \<notin> set t \<and> CHR ''E'' \<notin> set t"
| "integral (R_List vs) \<longleftrightarrow> (\<forall>v\<in>set vs. integral v)"
| "integral (R_Object kvs) \<longleftrightarrow> (\<forall>kv\<in>set kvs. integral (snd kv))"
| "integral v \<longleftrightarrow> True"

lemma minus_to_string: "CHR ''-'' \<in> set (to_string k) \<longleftrightarrow> k < 0"
proof -
  have "CHR ''-'' \<notin> set (to_dec n)" for n using to_dec_digits [of n] by (auto simp: is_digit_def code_def)
  then show ?thesis by (simp add: to_string_def)
qed

lemma lexical_cast_i64_range:
  assumes "lexical_cast_i64 t = Inr i"
  shows "sint (word_of_int i :: 64 word) = i"
proof -
  have "- (2 ^ 63) \<le> i \<and> i < 2 ^ 63" using assms by (auto simp: lexical_cast_i64_def Let_def split: prod.splits if_splits)
  then show ?thesis by (simp add: signed_of_int signed_take_bit_int_eq_self)
qed

lemma meaning_signed: "meaning (R_Number (to_string (sint (w :: 64 word)))) = D_Int (sint w)"
proof (cases "sint w < 0")
  case False
  then have "uint (word_of_int (sint w) :: 64 word) = sint w"
    using sint_lt [of w] by (simp add: uint_sint take_bit_int_eq_self)
  then have "lexical_cast_u64 (to_string (sint w)) = Inr (word_of_int (sint w))"
    using lexical_cast_to_string_u64 [of "word_of_int (sint w)"] by simp
  with False show ?thesis
    using \<open>uint (word_of_int (sint w) :: 64 word) = sint w\<close> by (simp add: minus_to_string)
qed (simp add: minus_to_string lexical_cast_to_string_i64)

lemma meaning_unsigned: "meaning (R_Number (to_string (uint (w :: 64 word)))) = D_Int (uint w)"
  by (simp add: minus_to_string lexical_cast_to_string_u64)

lemma lexical_cast_total:
  assumes "\<exists>c\<in>set t. \<not> is_space c"
  obtains i u where "lexical_cast_i64 t = Inr i" "lexical_cast_u64 t = Inr u"
proof -
  have "dropWhile is_space t \<noteq> []" using assms by (simp add: dropWhile_eq_Nil_conv)
  then have "\<exists>i. lexical_cast_i64 t = Inr i" "\<exists>u. lexical_cast_u64 t = Inr u"
    by (cases "num_get (dropWhile is_space t)", simp add: lexical_cast_i64_def lexical_cast_u64_def Let_def)+
  then show thesis using that by blast
qed

section \<open>The copy\<close>

text \<open>What is kept of a value by its copy.\<close>

definition copy_of :: "rvalue \<Rightarrow> wvalue \<Rightarrow> bool" where
  "copy_of v w \<longleftrightarrow> dumpable w \<and> meaning (read_back w) = meaning v \<and> nesting (read_back w) \<le> nesting v"

abbreviation read_members :: "(string \<times> wvalue) list \<Rightarrow> string \<Rightarrow> document option" where
  "read_members kvs \<equiv> map_of (map (\<lambda>kv. (fst kv, meaning (read_back (snd kv)))) kvs)"

lemma map_of_map_snd: "map_of (map (\<lambda>kv. (fst kv, f (snd kv))) kvs) k = map_option f (map_of kvs k)"
  by (induction kvs) auto

lemma read_members_eq: "read_members kvs k = map_option (\<lambda>w. meaning (read_back w)) (map_of kvs k)"
  using map_of_map_snd [of "\<lambda>w. meaning (read_back w)"] .

lemma read_members_emplace:
  "read_members (emplace_member k w kvs) = (\<lambda>j. if j = k \<and> map_of kvs k = None then Some (meaning (read_back w)) else read_members kvs j)"
  by (auto simp: emplace_member_def read_members_eq map_add_def fun_eq_iff split: option.splits)

lemma set_emplace: "set (emplace_member k w kvs) \<subseteq> insert (k, w) (set kvs)"
  by (auto simp: emplace_member_def)

lemma nesting_list_le: "nesting (R_List vs) \<le> Suc n \<longleftrightarrow> (\<forall>v\<in>set vs. nesting v \<le> n)"
  by (simp add: foldr_max_le)

lemma nesting_object_le: "nesting (R_Object kvs) \<le> Suc n \<longleftrightarrow> (\<forall>kv\<in>set kvs. nesting (snd kv) \<le> n)"
  by (simp add: foldr_max_le)

lemma copied:
  "readable v \<Longrightarrow> integral v \<Longrightarrow> \<exists>w. of_rvalue ops v = Inr w \<and> copy_of v w"
  "\<forall>v\<in>set vs. readable v \<and> integral v \<Longrightarrow> \<exists>ws. of_rvalues ops vs = Inr ws \<and> list_all2 copy_of vs ws"
  "\<forall>kv\<in>set kvs. readable (snd kv) \<and> integral (snd kv) \<Longrightarrow> \<exists>ws. of_members ops kvs acc = Inr ws \<and>
     read_members ws = map_of (map (\<lambda>kv. (fst kv, meaning (snd kv))) kvs) ++ read_members acc \<and>
     (\<forall>w\<in>set ws. w \<in> set acc \<or> dumpable (snd w) \<and> (\<exists>kv\<in>set kvs. nesting (read_back (snd w)) \<le> nesting (snd kv)))"
proof (induction ops v and ops vs and ops kvs acc rule: of_rvalue_of_rvalues_of_members.induct)
  case (4 ops t)
  then have "\<exists>c\<in>set t. \<not> is_space c" by simp
  then obtain i u where iu: "lexical_cast_i64 t = Inr i" "lexical_cast_u64 t = Inr u" by (rule lexical_cast_total)
  show ?case
  proof (cases "CHR ''-'' \<in> set t")
    case True
    then show ?thesis using 4 iu meaning_signed [of "word_of_int i"]
      by (simp add: determine_num_type_def r_i_def copy_of_def lexical_cast_i64_range del: meaning.simps) simp
  next
    case False
    then show ?thesis using 4 iu meaning_unsigned [of u]
      by (simp add: determine_num_type_def r_u_def copy_of_def del: meaning.simps) simp
  qed
next
  case (5 ops raw esc)
  then show ?case by (simp add: r_s_def copy_of_def string_text_escape)
next
  case (6 ops vs)
  then obtain ws where ws: "of_rvalues ops vs = Inr ws" "list_all2 copy_of vs ws" by auto
  then have "copy_of (R_List vs) (W_List ws)"
    using nesting_list_le [of "map read_back ws" "foldr max (map nesting vs) 0"] foldr_max_le [of "map nesting vs" "foldr max (map nesting vs) 0"]
    by (auto simp: copy_of_def list_all2_conv_all_nth in_set_conv_nth list_eq_iff_nth_eq) (metis le_trans nth_mem)
  with ws show ?case by simp
next
  case (7 ops kvs)
  then obtain ws where ws: "of_members ops kvs [] = Inr ws" "read_members ws = map_of (map (\<lambda>kv. (fst kv, meaning (snd kv))) kvs)"
    "\<forall>w\<in>set ws. dumpable (snd w) \<and> (\<exists>kv\<in>set kvs. nesting (read_back (snd w)) \<le> nesting (snd kv))" by auto
  let ?n = "foldr max (map (\<lambda>kv. nesting (snd kv)) kvs) 0"
  have "\<forall>kv\<in>set kvs. nesting (snd kv) \<le> ?n" using foldr_max_le [of "map (\<lambda>kv. nesting (snd kv)) kvs" ?n] by auto
  then have "\<forall>w\<in>set ws. nesting (read_back (snd w)) \<le> ?n" using ws(3) by (meson le_trans)
  then have "copy_of (R_Object kvs) (W_Object ws)"
    using ws nesting_object_le [of "map (\<lambda>kv. (fst kv, read_back (snd kv))) ws" ?n] by (auto simp: copy_of_def comp_def)
  with ws show ?case by simp
next
  case (11 ops kv kvs acc)
  then obtain w where w: "of_rvalue ops (snd kv) = Inr w" "copy_of (snd kv) w" by auto
  with 11 obtain ws where ws: "of_members ops kvs (emplace_member (fst kv) w acc) = Inr ws"
    "read_members ws = map_of (map (\<lambda>kv. (fst kv, meaning (snd kv))) kvs) ++ read_members (emplace_member (fst kv) w acc)"
    "\<forall>x\<in>set ws. x \<in> set (emplace_member (fst kv) w acc) \<or> dumpable (snd x) \<and> (\<exists>kv\<in>set kvs. nesting (read_back (snd x)) \<le> nesting (snd kv))"
    by auto
  have "\<forall>x\<in>set ws. x \<in> set acc \<or> dumpable (snd x) \<and> (\<exists>kv\<in>set (kv # kvs). nesting (read_back (snd x)) \<le> nesting (snd kv))"
    using ws(3) set_emplace [of "fst kv" w acc] w(2) by (fastforce simp: copy_of_def)
  moreover have "read_members ws = map_of (map (\<lambda>kv. (fst kv, meaning (snd kv))) (kv # kvs)) ++ read_members acc"
    using w(2) unfolding ws(2) read_members_emplace
    by (auto simp: copy_of_def map_add_def fun_eq_iff map_of_map_snd read_members_eq split: option.splits)
  ultimately show ?case using w ws(1) by (simp add: fun_upd_def)
qed (auto simp: copy_of_def)

section \<open>Editing a member\<close>

lemma w_put_simps [simp]:
  "map_of (w_members (w_put k x w)) j = (if j = k then Some x else map_of (w_members w) j)"
  "w_slot j (w_put k x w) = (if j = k then x else w_slot j w)"
  by (auto simp: w_put_def w_member_def w_members_def w_slot_def update_conv)

lemma set_update: "kv \<in> set (AList.update k x kvs) \<Longrightarrow> kv = (k, x) \<or> kv \<in> set kvs"
  by (induction kvs) (auto split: if_splits)

lemma set_w_put: "kv \<in> set (w_members (w_put k x w)) \<Longrightarrow> snd kv = x \<or> kv \<in> set (w_members w)"
  using set_update [of kv k x] by (force simp: w_put_def w_member_def w_members_def)

lemma edit_document:
  assumes v: "load s = Some (R_Object kvs)" "integral (R_Object kvs)"
    and x: "dumpable x" "nesting (read_back x) < 5000"
  shows "\<exists>w ms. of_rvalue ops (R_Object kvs) = Inr w \<and> load (dump (w_put k x w) indent CHR '' '') = Some (R_Object ms) \<and>
    map_of ms k = Some (read_back x) \<and>
    (\<forall>j. j \<noteq> k \<longrightarrow> map_option meaning (map_of ms j) = map_option meaning (map_of kvs j))"
proof -
  obtain w where w: "of_rvalue ops (R_Object kvs) = Inr w" "copy_of (R_Object kvs) w"
    using copied(1) [OF readable.loaded [OF v(1)] v(2)] by blast
  then obtain ws where ws: "w = W_Object ws" by (cases "of_members ops kvs []") auto
  have "nesting (R_Object kvs) \<le> 5000" using v(1) parse_nesting by (auto simp only: load_def split: parsed.splits)
  then have "nesting (read_back w) \<le> Suc 4999" using w(2) by (simp add: copy_of_def)
  then have n: "\<forall>kv\<in>set ws. dumpable (snd kv) \<and> nesting (read_back (snd kv)) \<le> 4999"
    using w(2) nesting_object_le [of "map (\<lambda>kv. (fst kv, read_back (snd kv))) ws" 4999] by (auto simp: ws copy_of_def)
  have r: "read_members ws = map_of (map (\<lambda>kv. (fst kv, meaning (snd kv))) kvs)"
    using w(2) by (simp add: ws copy_of_def comp_def)
  define l where "l = w_members (w_put k x w)"
  have e: "w_put k x w = W_Object l" by (simp add: l_def w_put_def w_member_def w_members_def)
  have "\<forall>kv\<in>set l. dumpable (snd kv) \<and> nesting (read_back (snd kv)) \<le> 4999"
    using set_w_put [of _ k x w] n x by (fastforce simp: ws w_members_def l_def)
  then have "load (dump (w_put k x w) indent CHR '' '') = Some (read_back (W_Object l))"
    using nesting_object_le [of "map (\<lambda>kv. (fst kv, read_back (snd kv))) l" 4999]
    unfolding e by (intro load_dump) (auto simp: is_ws_def)
  moreover have m: "map_of (map (\<lambda>kv. (fst kv, read_back (snd kv))) l) j = (if j = k then Some (read_back x) else map_option read_back (map_of ws j))" for j
    by (simp only: map_of_map_snd l_def w_put_simps) (simp add: ws w_members_def)
  moreover have "map_option meaning (map_option read_back (map_of ws j)) = map_option meaning (map_of kvs j)" for j
    using fun_cong [OF r, of j] by (simp add: read_members_eq map_of_map_snd option.map_comp comp_def)
  ultimately show ?thesis using w(1) by (intro exI [of _ w] exI [of _ "map (\<lambda>kv. (fst kv, read_back (snd kv))) l"]) simp
qed

text \<open>C36: A document that is read, changed at one member and written again reads as the same document with the new member: every integer, text and container of the other members is kept, and for a repeated key the member that lookup finds.\<close>

theorem json_edited:
  assumes "load s = Some (R_Object kvs)" "integral (R_Object kvs)" "dumpable x" "nesting (read_back x) < 5000"
  shows "\<exists>w ms. of_rvalue ops (R_Object kvs) = Inr w \<and> load (dump (w_put k x w) indent CHR '' '') = Some (R_Object ms) \<and>
    map_of ms k = Some (read_back x) \<and>
    (\<forall>j. j \<noteq> k \<longrightarrow> map_option meaning (map_of ms j) = map_option meaning (map_of kvs j))"
  using assms by (rule edit_document)

definition sample_ops :: "nat double_ops" where
  "sample_ops = \<lparr>d_finite = (\<lambda>_. True), d_print_f = (\<lambda>d. to_string (int d) @ ''.0''), d_print_g = (\<lambda>d. to_string (int d)),
     d_stream = (\<lambda>d. to_string (int d)), d_read = (\<lambda>_. Inr 0)\<rparr>"

lemma json_edited_witness:
  "\<exists>w ms. of_rvalue sample_ops (R_Object [(''a'', R_Number ''-7''), (''b'', R_List [R_True])]) = Inr w \<and>
     load (dump (w_put ''b'' W_Null w) (- 1) CHR '' '') = Some (R_Object ms) \<and>
     map_of ms ''b'' = Some R_Null \<and> map_option meaning (map_of ms ''a'') = Some (D_Int (- 7))"
proof -
  have l: "load (''{'' @ [CHR 0x22] @ ''a'' @ [CHR 0x22] @ '':-7,'' @ [CHR 0x22] @ ''b'' @ [CHR 0x22] @ '':[true]}'')
    = Some (R_Object [(''a'', R_Number ''-7''), (''b'', R_List [R_True])])" by code_simp
  have m: "meaning (R_Number ''-7'') = D_Int (- 7)"
    by (simp add: lexical_cast_i64_def num_get_def is_space_def is_digit_def digits_value_def code_def)
  have i: "integral (R_Object [(''a'', R_Number ''-7''), (''b'', R_List [R_True])])" by simp
  have x: "dumpable W_Null" "nesting (read_back W_Null) < 5000" by simp_all
  obtain w ms where w: "of_rvalue sample_ops (R_Object [(''a'', R_Number ''-7''), (''b'', R_List [R_True])]) = Inr w"
      "load (dump (w_put ''b'' W_Null w) (- 1) CHR '' '') = Some (R_Object ms)" "map_of ms ''b'' = Some (read_back W_Null)"
    and j: "\<forall>j. j \<noteq> ''b'' \<longrightarrow> map_option meaning (map_of ms j) = map_option meaning (map_of [(''a'', R_Number ''-7''), (''b'', R_List [R_True])] j)"
    using json_edited [OF l i x, of sample_ops] by blast
  have "map_option meaning (map_of ms ''a'') = Some (D_Int (- 7))" using j [rule_format, of "''a''"] m by (simp del: meaning.simps)
  with w show ?thesis by (intro exI [of _ w] exI [of _ ms]) (simp del: of_rvalue.simps)
qed

section \<open>Access that changes\<close>

text \<open>A look at a missing member of a \<open>const\<close> value inserts it, and a look into a value that is no object destroys it.\<close>

lemma look_inserts: "snd (w_look k W_True) = W_Object [(k, W_Null)]" "w_has v k \<Longrightarrow> snd (w_look k v) = v"
  by (simp_all add: w_look_def w_member_def w_members_def w_slot_def)
    (auto simp: w_has_def w_look_def w_member_def w_members_def w_slot_def update_triv split: wvalue.splits)

text \<open>The greatest index wraps to the size 0, and the reference is out of bounds.\<close>

lemma greatest_index: "length (w_elems v) < 2 ^ 32 - 1 \<Longrightarrow> w_at (- 1) f v = None"
  by (simp add: w_at_def resized_def unsigned_minus_1_eq_mask mask_eq_exp_minus_1)

text \<open>The stream operator does not escape a string, so what it writes need not be JSON.\<close>

lemma stream_not_json: "r_stream ops (R_String [CHR 0x5C, CHR 0x22] True) = Inr [CHR 0x22, CHR 0x22, CHR 0x22] \<and> load [CHR 0x22, CHR 0x22, CHR 0x22] = None"
proof -
  have "load [CHR 0x22, CHR 0x22, CHR 0x22] = None" by code_simp
  then show ?thesis by (simp add: string_text_def unescape_char_def)
qed

end
