(* ===== verification/Sessions.thy ===== *)
theory Sessions
  imports Cookies Json_Edit
begin

text \<open>
  Sessions: \<open>SessionMiddleware\<close> with its values (\<open>multi_value\<close>), the cache of sessions that requests share
  (\<open>CachedSession\<close>, reached through shared pointers, here addresses into the list \<open>sm_nodes\<close>), and
  \<open>InMemoryStore\<close>.  The store of the middleware is its template parameter, here a record of operations.  A step of the system is one
  call of the middleware or of a context, each of which runs under the lock of the middleware or the session.
\<close>

section \<open>Values\<close>

datatype 'd multi_value = MV_Bool bool | MV_Int "64 word" | MV_Double 'd | MV_String string

definition mv_json :: "'d double_ops \<Rightarrow> 'd multi_value \<Rightarrow> wvalue" where
  "mv_json ops v = (case v of MV_Bool b \<Rightarrow> w_of_bool b | MV_Int i \<Rightarrow> W_Signed i | MV_Double d \<Rightarrow> w_of_double ops d | MV_String s \<Rightarrow> W_String s)"

definition mv_string :: "'d double_ops \<Rightarrow> 'd multi_value \<Rightarrow> string" where
  "mv_string ops v =
     (case v of MV_Bool b \<Rightarrow> (if b then ''1'' else ''0'') | MV_Int i \<Rightarrow> to_string (sint i) | MV_Double d \<Rightarrow> d_print_f ops d | MV_String s \<Rightarrow> s)"

text \<open>\<open>get<T>\<close>: the value if it is of the type of the fallback.\<close>

definition mv_get :: "'d multi_value \<Rightarrow> 'd multi_value \<Rightarrow> 'd multi_value" where
  "mv_get fallback v =
     (case (fallback, v) of
        (MV_Bool _, MV_Bool _) \<Rightarrow> v | (MV_Int _, MV_Int _) \<Rightarrow> v | (MV_Double _, MV_Double _) \<Rightarrow> v | (MV_String _, MV_String _) \<Rightarrow> v
      | _ \<Rightarrow> fallback)"

definition mv_from_json :: "'d double_ops \<Rightarrow> rvalue \<Rightarrow> access_error + 'd multi_value" where
  "mv_from_json ops rv =
     (case type_of rv of
        T_Number \<Rightarrow>
          (case determine_num_type rv of
             Floating_point \<Rightarrow> map_sum id MV_Double (r_d ops rv)
           | Double_precision_floating_point \<Rightarrow> map_sum id MV_Double (r_d ops rv)
           | Unsigned_integer \<Rightarrow> map_sum id MV_Int (r_u rv)
           | _ \<Rightarrow> map_sum id (\<lambda>i. MV_Int (word_of_int i)) (r_i rv))
      | T_False \<Rightarrow> Inr (MV_Bool False)
      | T_True \<Rightarrow> Inr (MV_Bool True)
      | T_String \<Rightarrow> map_sum id MV_String (r_string rv)
      | _ \<Rightarrow> Inr (MV_Bool False))"

section \<open>Cached sessions\<close>

text \<open>The entries are an \<open>unordered_map\<close>, here a list of pairs with the keys in the order of insertion.\<close>

record 'd cached_session =
  session_id :: string
  requested_session_id :: string
  sn_entries :: "(string \<times> 'd multi_value) list"
  dirty :: "string set"
  requested_refresh :: bool
  referrers :: int

definition new_session :: "'d cached_session" where
  "new_session = \<lparr>session_id = [], requested_session_id = [], sn_entries = [], dirty = {}, requested_refresh = False, referrers = 0\<rparr>"

text \<open>A default-constructed \<open>multi_value\<close> holds the first alternative, false.\<close>

definition node_entry :: "string \<Rightarrow> 'd cached_session \<Rightarrow> 'd multi_value" where
  "node_entry k n = (case map_of (sn_entries n) k of None \<Rightarrow> MV_Bool False | Some v \<Rightarrow> v)"

definition node_set :: "string \<Rightarrow> 'd multi_value \<Rightarrow> 'd cached_session \<Rightarrow> 'd cached_session" where
  "node_set k v n = n\<lparr>dirty := insert k (dirty n), sn_entries := AList.update k v (sn_entries n)\<rparr>"

definition node_remove :: "string \<Rightarrow> 'd cached_session \<Rightarrow> 'd cached_session" where
  "node_remove k n = n\<lparr>dirty := insert k (dirty n), sn_entries := AList.delete k (sn_entries n)\<rparr>"

section \<open>The middleware\<close>

text \<open>\<open>load\<close> may throw (\<open>None\<close>); what \<open>save\<close> leaves in the session is its first result.\<close>

record ('d, 's) store_ops =
  st_contains :: "string \<Rightarrow> 's \<Rightarrow> bool"
  st_load :: "'d cached_session \<Rightarrow> 's \<Rightarrow> 'd cached_session option \<times> 's"
  st_save :: "'d cached_session \<Rightarrow> 's \<Rightarrow> 'd cached_session \<times> 's"

record ('d, 's, 't) session_state =
  sm_nodes :: "'d cached_session list"
  sm_cache :: "string \<rightharpoonup> nat"
  sm_store :: 's
  sm_cookie :: "'t cookie"

definition node_at :: "nat \<Rightarrow> ('d, 's, 't) session_state \<Rightarrow> 'd cached_session" where
  "node_at a m = sm_nodes m ! a"

definition change_node :: "nat \<Rightarrow> ('d cached_session \<Rightarrow> 'd cached_session) \<Rightarrow> ('d, 's, 't) session_state \<Rightarrow> ('d, 's, 't) session_state" where
  "change_node a f m = m\<lparr>sm_nodes := (sm_nodes m)[a := f (sm_nodes m ! a)]\<rparr>"

definition allocate :: "'d cached_session \<Rightarrow> ('d, 's, 't) session_state \<Rightarrow> nat \<times> ('d, 's, 't) session_state" where
  "allocate n m = (length (sm_nodes m), m\<lparr>sm_nodes := sm_nodes m @ [n]\<rparr>)"

text \<open>\<open>context\<close>: the shared pointer \<open>node\<close> of a request, null at first.\<close>

definition check_node :: "nat option \<Rightarrow> ('d, 's, 't) session_state \<Rightarrow> nat \<times> ('d, 's, 't) session_state" where
  "check_node nd m = (case nd of Some a \<Rightarrow> (a, m) | None \<Rightarrow> allocate new_session m)"

definition context_exists :: "nat option \<Rightarrow> bool" where
  "context_exists nd \<longleftrightarrow> nd \<noteq> None"

definition context_get :: "string \<Rightarrow> 'd multi_value \<Rightarrow> nat option \<Rightarrow> ('d, 's, 't) session_state \<Rightarrow> 'd multi_value" where
  "context_get k fallback nd m =
     (case nd of
        None \<Rightarrow> fallback
      | Some a \<Rightarrow> (case map_of (sn_entries (node_at a m)) k of None \<Rightarrow> fallback | Some v \<Rightarrow> mv_get fallback v))"

definition context_contains :: "string \<Rightarrow> nat option \<Rightarrow> ('d, 's, 't) session_state \<Rightarrow> bool" where
  "context_contains k nd m = (case nd of None \<Rightarrow> False | Some a \<Rightarrow> map_of (sn_entries (node_at a m)) k \<noteq> None)"

definition context_string :: "'d double_ops \<Rightarrow> string \<Rightarrow> nat option \<Rightarrow> ('d, 's, 't) session_state \<Rightarrow> string" where
  "context_string ops k nd m =
     (case nd of
        None \<Rightarrow> []
      | Some a \<Rightarrow> (case map_of (sn_entries (node_at a m)) k of None \<Rightarrow> [] | Some v \<Rightarrow> mv_string ops v))"

definition context_keys :: "nat option \<Rightarrow> ('d, 's, 't) session_state \<Rightarrow> string list" where
  "context_keys nd m = (case nd of None \<Rightarrow> [] | Some a \<Rightarrow> map fst (sn_entries (node_at a m)))"

definition context_set ::
  "string \<Rightarrow> 'd multi_value \<Rightarrow> nat option \<Rightarrow> ('d, 's, 't) session_state \<Rightarrow> nat option \<times> ('d, 's, 't) session_state" where
  "context_set k v nd m = (case check_node nd m of (a, m') \<Rightarrow> (Some a, change_node a (node_set k v) m'))"

text \<open>\<open>apply\<close>: the function gets the entry, or the default value of its argument type.\<close>

definition context_apply ::
  "string \<Rightarrow> 'd multi_value \<Rightarrow> ('d multi_value \<Rightarrow> 'd multi_value) \<Rightarrow> nat option \<Rightarrow> ('d, 's, 't) session_state \<Rightarrow> nat option \<times> ('d, 's, 't) session_state" where
  "context_apply k arg f nd m =
     (case check_node nd m of (a, m') \<Rightarrow> (Some a, change_node a (\<lambda>n. node_set k (f (mv_get arg (node_entry k n))) n) m'))"

definition context_remove :: "string \<Rightarrow> nat option \<Rightarrow> ('d, 's, 't) session_state \<Rightarrow> ('d, 's, 't) session_state" where
  "context_remove k nd m = (case nd of None \<Rightarrow> m | Some a \<Rightarrow> change_node a (node_remove k) m)"

definition refresh_expiration :: "nat option \<Rightarrow> ('d, 's, 't) session_state \<Rightarrow> ('d, 's, 't) session_state" where
  "refresh_expiration nd m = (case nd of None \<Rightarrow> m | Some a \<Rightarrow> change_node a (\<lambda>n. n\<lparr>requested_refresh := True\<rparr>) m)"

definition load_id :: "('d, 's, 't) session_state \<Rightarrow> 't cookie_context \<Rightarrow> string" where
  "load_id m cookies = get_cookie (cookie_key (sm_cookie m)) cookies"

definition store_id ::
  "string \<Rightarrow> 't cookie_context \<Rightarrow> ('d, 's, 't) session_state \<Rightarrow> 't cookie_context \<times> ('d, 's, 't) session_state" where
  "store_id sid cookies m = (let c = with_value sid (sm_cookie m) in (set_cookie c cookies, m\<lparr>sm_cookie := c\<rparr>))"

text \<open>\<open>before_handle\<close>: the context's pointer stays null unless a session is found.\<close>

definition session_before ::
  "('d, 's) store_ops \<Rightarrow> 't cookie_context \<Rightarrow> ('d, 's, 't) session_state \<Rightarrow> nat option \<times> ('d, 's, 't) session_state" where
  "session_before ops cookies m =
     (let sid = load_id m cookies
      in if sid = [] then (None, m)
         else (case sm_cache m sid of
                 Some a \<Rightarrow> (Some a, change_node a (\<lambda>n. n\<lparr>referrers := referrers n + 1\<rparr>) m)
               | None \<Rightarrow>
                   (if \<not> st_contains ops sid (sm_store m) then (None, m)
                    else (case st_load ops (new_session\<lparr>session_id := sid, referrers := 1\<rparr>) (sm_store m) of
                            (None, s) \<Rightarrow> (None, m\<lparr>sm_store := s\<rparr>)
                          | (Some n, s) \<Rightarrow>
                              (case allocate n (m\<lparr>sm_store := s\<rparr>) of
                                 (a, m') \<Rightarrow> (Some a, m'\<lparr>sm_cache := (sm_cache m')(sid \<mapsto> a)\<rparr>))))))"

text \<open>
  \<open>after_handle\<close>; \<open>fresh\<close> is what \<open>random_alphanum\<close> returns.  A session without an identifier gets the one
  that was requested, or the random one.
\<close>

definition name_session :: "string \<Rightarrow> 'd cached_session \<Rightarrow> 'd cached_session" where
  "name_session fresh n =
     n\<lparr>session_id := (if requested_session_id n = [] then fresh else requested_session_id n), requested_session_id := []\<rparr>"

definition session_after ::
  "('d, 's) store_ops \<Rightarrow> string \<Rightarrow> nat option \<Rightarrow> 't cookie_context \<Rightarrow> ('d, 's, 't) session_state \<Rightarrow> 't cookie_context \<times> ('d, 's, 't) session_state" where
  "session_after ops fresh nd cookies m =
     (case nd of
        None \<Rightarrow> (cookies, m)
      | Some a \<Rightarrow>
          (let n1 = (node_at a m)\<lparr>referrers := referrers (node_at a m) - 1\<rparr>
           in if referrers n1 > 0 then (cookies, change_node a (\<lambda>_. n1) m)
              else
                (let n2 = n1\<lparr>requested_refresh := requested_refresh n1 \<or> session_id n1 = []\<rparr>;
                     n3 = (if session_id n2 = [] then name_session fresh n2 else n2);
                     m3 = (if session_id n2 = [] then m else m\<lparr>sm_cache := (sm_cache m)(session_id n2 := None)\<rparr>);
                     (cookies', m4) = (if requested_refresh n3 then store_id (session_id n3) cookies m3 else (cookies, m3));
                     (n4, s) = st_save ops n3 (sm_store m4)
                 in (cookies', change_node a (\<lambda>_. n4) (m4\<lparr>sm_store := s\<rparr>)))))"

section \<open>InMemoryStore\<close>

text \<open>Entries are moved from the store into the session and back; a map that was moved from is empty.\<close>

type_synonym 'd memory = "string \<rightharpoonup> (string \<times> 'd multi_value) list"

definition memory_contains :: "string \<Rightarrow> 'd memory \<Rightarrow> bool" where
  "memory_contains sid s \<longleftrightarrow> s sid \<noteq> None"

definition memory_load :: "'d cached_session \<Rightarrow> 'd memory \<Rightarrow> 'd cached_session option \<times> 'd memory" where
  "memory_load n s =
     (Some (n\<lparr>sn_entries := (case s (session_id n) of None \<Rightarrow> [] | Some es \<Rightarrow> es)\<rparr>), s(session_id n \<mapsto> []))"

definition memory_save :: "'d cached_session \<Rightarrow> 'd memory \<Rightarrow> 'd cached_session \<times> 'd memory" where
  "memory_save n s = (n\<lparr>sn_entries := []\<rparr>, s(session_id n \<mapsto> sn_entries n))"

definition memory_store :: "('d, 'd memory) store_ops" where
  "memory_store = \<lparr>st_contains = memory_contains, st_load = memory_load, st_save = memory_save\<rparr>"

end
