(* ===== verification/Session_Store.thy ===== *)
theory Session_Store
  imports Sessions
begin

text \<open>
  What a store promises the session middleware (\<open>session_store\<close>), the system of concurrent requests that
  share sessions, and the specification they implement: one table of sessions, in which every change of a request is seen
  by all others at once and none is lost.
\<close>

section \<open>The contract of a store\<close>

text \<open>
  \<open>holds\<close> is the contents of a store.  \<open>clean s sid e\<close> says that a session with the entries \<open>e\<close> need not be
  marked as changed to be saved right; \<open>proper\<close> which
  identifiers it tells apart, and \<open>fits\<close> which entries it can hold under an identifier.
\<close>

definition others_kept ::
  "('s \<Rightarrow> string \<Rightarrow> 'e option) \<Rightarrow> ('s \<Rightarrow> string \<Rightarrow> 'e \<Rightarrow> bool) \<Rightarrow> string \<Rightarrow> 's \<Rightarrow> 's \<Rightarrow> bool" where
  "others_kept holds clean sid s s' \<longleftrightarrow> (\<forall>j. j \<noteq> sid \<longrightarrow> holds s' j = holds s j \<and> (\<forall>e. clean s j e \<longrightarrow> clean s' j e))"

definition entry_map :: "'d cached_session \<Rightarrow> string \<rightharpoonup> 'd multi_value" where
  "entry_map n = map_of (sn_entries n)"

locale session_store =
  fixes ops :: "('d, 's) store_ops"
    and holds :: "'s \<Rightarrow> string \<Rightarrow> (string \<rightharpoonup> 'd multi_value) option"
    and clean :: "'s \<Rightarrow> string \<Rightarrow> (string \<rightharpoonup> 'd multi_value) \<Rightarrow> bool"
    and good :: "'s \<Rightarrow> bool"
    and proper :: "string \<Rightarrow> bool"
    and fits :: "string \<Rightarrow> (string \<rightharpoonup> 'd multi_value) \<Rightarrow> bool"
  assumes contains_holds: "good s \<Longrightarrow> proper sid \<Longrightarrow> st_contains ops sid s \<longleftrightarrow> holds s sid \<noteq> None"
    and load_holds: "good s \<Longrightarrow> holds s sid = Some e \<Longrightarrow> session_id n = sid \<Longrightarrow> sn_entries n = [] \<Longrightarrow>
      \<exists>es s'. st_load ops n s = (Some (n\<lparr>sn_entries := es\<rparr>), s') \<and> map_of es = e \<and> good s' \<and> clean s' sid e \<and> others_kept holds clean sid s s'"
    and save_holds: "good s \<Longrightarrow> fits (session_id n) (entry_map n) \<Longrightarrow> dirty n \<noteq> {} \<or> clean s (session_id n) (entry_map n) \<Longrightarrow>
      \<exists>n' s'. st_save ops n s = (n', s') \<and> good s' \<and> holds s' (session_id n) = Some (entry_map n) \<and> others_kept holds clean (session_id n) s s'"

section \<open>Concurrent requests\<close>

text \<open>A request that is being handled has the pointer of its session context and its cookies.\<close>

record ('d, 's, 't) session_system =
  sy_state :: "('d, 's, 't) session_state"
  sy_active :: "nat \<rightharpoonup> nat option \<times> 't cookie_context"

datatype ('d, 't) session_event =
    Begin_Request nat "'t cookie_context"
  | Set_Entry nat string "'d multi_value"
  | Apply_Entry nat string "'d multi_value" "'d multi_value \<Rightarrow> 'd multi_value"
  | Remove_Entry nat string
  | Refresh_Session nat
  | Finish_Request nat string

definition in_context ::
  "nat \<Rightarrow> (nat option \<Rightarrow> ('d, 's, 't) session_state \<Rightarrow> nat option \<times> ('d, 's, 't) session_state) \<Rightarrow>
   ('d, 's, 't) session_system \<Rightarrow> ('d, 's, 't) session_system option" where
  "in_context r f y =
     (case sy_active y r of
        None \<Rightarrow> None
      | Some (nd, ck) \<Rightarrow> (case f nd (sy_state y) of (nd', m) \<Rightarrow> Some (y\<lparr>sy_state := m, sy_active := (sy_active y)(r \<mapsto> (nd', ck))\<rparr>)))"

fun session_call :: "('d, 's) store_ops \<Rightarrow> ('d, 't) session_event \<Rightarrow> ('d, 's, 't) session_system \<Rightarrow> ('d, 's, 't) session_system option" where
  "session_call ops (Begin_Request r ck) y =
     (case sy_active y r of
        Some _ \<Rightarrow> None
      | None \<Rightarrow> (case session_before ops ck (sy_state y) of (nd, m) \<Rightarrow> Some (y\<lparr>sy_state := m, sy_active := (sy_active y)(r \<mapsto> (nd, ck))\<rparr>)))"
| "session_call ops (Set_Entry r k v) y = in_context r (context_set k v) y"
| "session_call ops (Apply_Entry r k arg f) y = in_context r (context_apply k arg f) y"
| "session_call ops (Remove_Entry r k) y = in_context r (\<lambda>nd m. (nd, context_remove k nd m)) y"
| "session_call ops (Refresh_Session r) y = in_context r (\<lambda>nd m. (nd, refresh_expiration nd m)) y"
| "session_call ops (Finish_Request r fresh) y =
     (case sy_active y r of
        None \<Rightarrow> None
      | Some (nd, ck) \<Rightarrow> (case session_after ops fresh nd ck (sy_state y) of (ck', m) \<Rightarrow> Some \<lparr>sy_state = m, sy_active = (sy_active y)(r := None)\<rparr>))"

fun session_run :: "('d, 's) store_ops \<Rightarrow> ('d, 't) session_event list \<Rightarrow> ('d, 's, 't) session_system \<Rightarrow> ('d, 's, 't) session_system option" where
  "session_run ops [] y = Some y"
| "session_run ops (c # cs) y = (case session_call ops c y of None \<Rightarrow> None | Some y' \<Rightarrow> session_run ops cs y')"

section \<open>The specification\<close>

datatype 'd session_view = No_Session | Saved string | Draft "string \<rightharpoonup> 'd multi_value"

record 'd session_spec =
  sp_sessions :: "string \<rightharpoonup> string \<rightharpoonup> 'd multi_value"
  sp_view :: "nat \<rightharpoonup> 'd session_view"

definition spec_update ::
  "nat \<Rightarrow> bool \<Rightarrow> ((string \<rightharpoonup> 'd multi_value) \<Rightarrow> string \<rightharpoonup> 'd multi_value) \<Rightarrow> 'd session_spec \<Rightarrow> 'd session_spec" where
  "spec_update r creates f p =
     (case sp_view p r of
        Some (Saved sid) \<Rightarrow> p\<lparr>sp_sessions := (sp_sessions p)(sid := map_option f (sp_sessions p sid))\<rparr>
      | Some (Draft d) \<Rightarrow> p\<lparr>sp_view := (sp_view p)(r \<mapsto> Draft (f d))\<rparr>
      | Some No_Session \<Rightarrow> (if creates then p\<lparr>sp_view := (sp_view p)(r \<mapsto> Draft (f Map.empty))\<rparr> else p)
      | None \<Rightarrow> p)"

definition looked_up :: "string \<Rightarrow> (string \<rightharpoonup> 'd multi_value) \<Rightarrow> 'd multi_value" where
  "looked_up k d = (case d k of None \<Rightarrow> MV_Bool False | Some v \<Rightarrow> v)"

fun spec_call :: "string \<Rightarrow> ('d, 't) session_event \<Rightarrow> 'd session_spec \<Rightarrow> 'd session_spec" where
  "spec_call name (Begin_Request r ck) p =
     (let sid = get_cookie name ck
      in p\<lparr>sp_view := (sp_view p)(r \<mapsto> (if sid = [] \<or> sp_sessions p sid = None then No_Session else Saved sid))\<rparr>)"
| "spec_call name (Set_Entry r k v) p = spec_update r True (\<lambda>d. d(k \<mapsto> v)) p"
| "spec_call name (Apply_Entry r k arg f) p = spec_update r True (\<lambda>d. d(k \<mapsto> f (mv_get arg (looked_up k d)))) p"
| "spec_call name (Remove_Entry r k) p = spec_update r False (\<lambda>d. d(k := None)) p"
| "spec_call name (Refresh_Session r) p = p"
| "spec_call name (Finish_Request r fresh) p =
     (case sp_view p r of
        Some (Draft d) \<Rightarrow> p\<lparr>sp_sessions := (sp_sessions p)(fresh \<mapsto> d), sp_view := (sp_view p)(r := None)\<rparr>
      | _ \<Rightarrow> p\<lparr>sp_view := (sp_view p)(r := None)\<rparr>)"

text \<open>What the code needs: a random identifier is none in use, identifiers are proper, and what is saved fits the store.\<close>

fun admissible ::
  "(string \<Rightarrow> bool) \<Rightarrow> (string \<Rightarrow> (string \<rightharpoonup> 'd multi_value) \<Rightarrow> bool) \<Rightarrow> string \<Rightarrow> ('d, 't) session_event \<Rightarrow> 'd session_spec \<Rightarrow> bool" where
  "admissible proper fits name (Begin_Request r ck) p \<longleftrightarrow> get_cookie name ck = [] \<or> proper (get_cookie name ck)"
| "admissible proper fits name (Finish_Request r fresh) p \<longleftrightarrow>
     (case sp_view p r of
        Some (Draft d) \<Rightarrow> fresh \<noteq> [] \<and> sp_sessions p fresh = None \<and> fits fresh d
      | Some (Saved sid) \<Rightarrow> (case sp_sessions p sid of None \<Rightarrow> True | Some e \<Rightarrow> fits sid e)
      | _ \<Rightarrow> True)"
| "admissible proper fits name _ p \<longleftrightarrow> True"

fun all_admissible ::
  "(string \<Rightarrow> bool) \<Rightarrow> (string \<Rightarrow> (string \<rightharpoonup> 'd multi_value) \<Rightarrow> bool) \<Rightarrow> string \<Rightarrow> ('d, 't) session_event list \<Rightarrow> 'd session_spec \<Rightarrow> bool" where
  "all_admissible proper fits name [] p \<longleftrightarrow> True"
| "all_admissible proper fits name (c # cs) p \<longleftrightarrow> admissible proper fits name c p \<and> all_admissible proper fits name cs (spec_call name c p)"

section \<open>Abstraction and invariant\<close>

definition view_of :: "('d, 's, 't) session_state \<Rightarrow> nat option \<Rightarrow> 'd session_view" where
  "view_of m nd =
     (case nd of
        None \<Rightarrow> No_Session
      | Some a \<Rightarrow> (if session_id (node_at a m) = [] then Draft (entry_map (node_at a m)) else Saved (session_id (node_at a m))))"

definition system_spec ::
  "('s \<Rightarrow> string \<Rightarrow> (string \<rightharpoonup> 'd multi_value) option) \<Rightarrow> ('d, 's, 't) session_system \<Rightarrow> 'd session_spec" where
  "system_spec holds y =
     \<lparr>sp_sessions = (\<lambda>sid. case sm_cache (sy_state y) sid of Some a \<Rightarrow> Some (entry_map (node_at a (sy_state y))) | None \<Rightarrow> holds (sm_store (sy_state y)) sid),
      sp_view = (\<lambda>r. map_option (\<lambda>x. view_of (sy_state y) (fst x)) (sy_active y r))\<rparr>"

definition users :: "(nat \<rightharpoonup> nat option \<times> 't cookie_context) \<Rightarrow> nat \<Rightarrow> nat set" where
  "users act a = {r. \<exists>ck. act r = Some (Some a, ck)}"

definition cache_sound ::
  "('s \<Rightarrow> string \<Rightarrow> (string \<rightharpoonup> 'd multi_value) \<Rightarrow> bool) \<Rightarrow> ('d, 's, 't) session_system \<Rightarrow> string \<Rightarrow> nat \<Rightarrow> bool" where
  "cache_sound clean y sid a \<longleftrightarrow>
     (let n = node_at a (sy_state y)
      in a < length (sm_nodes (sy_state y)) \<and> sid \<noteq> [] \<and> session_id n = sid \<and> users (sy_active y) a \<noteq> {} \<and>
         referrers n = int (card (users (sy_active y) a)) \<and>
         (dirty n = {} \<longrightarrow> clean (sm_store (sy_state y)) sid (entry_map n)))"

definition pointer_sound :: "('d, 's, 't) session_system \<Rightarrow> nat \<Rightarrow> nat \<Rightarrow> bool" where
  "pointer_sound y r a \<longleftrightarrow>
     (let n = node_at a (sy_state y)
      in a < length (sm_nodes (sy_state y)) \<and>
         (if session_id n = [] then users (sy_active y) a = {r} \<and> referrers n = 0 \<and> dirty n \<noteq> {} \<and> requested_session_id n = []
          else sm_cache (sy_state y) (session_id n) = Some a))"

definition system_inv ::
  "('s \<Rightarrow> string \<Rightarrow> (string \<rightharpoonup> 'd multi_value) \<Rightarrow> bool) \<Rightarrow> ('s \<Rightarrow> bool) \<Rightarrow> ('d, 's, 't) session_system \<Rightarrow> bool" where
  "system_inv clean good y \<longleftrightarrow>
     good (sm_store (sy_state y)) \<and> finite (dom (sy_active y)) \<and>
     (\<forall>sid a. sm_cache (sy_state y) sid = Some a \<longrightarrow> cache_sound clean y sid a) \<and>
     (\<forall>r a ck. sy_active y r = Some (Some a, ck) \<longrightarrow> pointer_sound y r a)"

end
