(* ===== verification/Session_Facts.thy ===== *)
theory Session_Facts
  imports Session_Store
begin

text \<open>
  The invariant of the system of sessions, and the proof, call by call, that it implements the specification for every
  store that keeps the contract.
\<close>

lemma users_upd: "users (act(r \<mapsto> (nd, ck))) a = (if nd = Some a then insert r (users act a) else users act a - {r})"
  by (auto simp: users_def)

lemma users_del: "users (act(r := None)) a = users act a - {r}"
  by (auto simp: users_def)

lemma in_users: "act r = Some (Some a, ck) \<Longrightarrow> r \<in> users act a"
  by (auto simp: users_def)

lemma users_notin: "act r = None \<Longrightarrow> r \<notin> users act a" "act r = Some (None, ck) \<Longrightarrow> r \<notin> users act a"
  by (auto simp: users_def)

lemma finite_users: "finite (dom act) \<Longrightarrow> finite (users act a)"
  by (rule finite_subset [of _ "dom act"]) (auto simp: users_def)

lemma change_node_simps [simp]:
  "sm_cache (change_node a g m) = sm_cache m" "sm_store (change_node a g m) = sm_store m"
  "sm_cookie (change_node a g m) = sm_cookie m" "length (sm_nodes (change_node a g m)) = length (sm_nodes m)"
  by (simp_all add: change_node_def)

lemma node_at_change: "b < length (sm_nodes m) \<Longrightarrow> node_at a (change_node b g m) = (if a = b then g (node_at b m) else node_at a m)"
  by (simp add: change_node_def node_at_def)

lemma node_at_simps [simp]:
  "node_at a (m\<lparr>sm_cache := c\<rparr>) = node_at a m" "node_at a (m\<lparr>sm_store := s\<rparr>) = node_at a m" "node_at a (m\<lparr>sm_cookie := k\<rparr>) = node_at a m"
  by (simp_all add: node_at_def)

lemma node_at_append: "node_at a (m\<lparr>sm_nodes := sm_nodes m @ [n]\<rparr>) =
    (if a < length (sm_nodes m) then node_at a m else if a = length (sm_nodes m) then n else [] ! (a - Suc (length (sm_nodes m))))"
  by (auto simp: node_at_def nth_append nth_Cons')

lemma system_invD:
  assumes "system_inv clean good y"
  shows "good (sm_store (sy_state y))" "finite (dom (sy_active y))"
    "sm_cache (sy_state y) sid = Some a \<Longrightarrow> cache_sound clean y sid a"
    "sy_active y r = Some (Some a, ck) \<Longrightarrow> pointer_sound y r a"
  using assms by (auto simp: system_inv_def)

section \<open>Changes of a session\<close>

definition modifies :: "('d cached_session \<Rightarrow> 'd cached_session) \<Rightarrow> ((string \<rightharpoonup> 'd multi_value) \<Rightarrow> string \<rightharpoonup> 'd multi_value) \<Rightarrow> bool" where
  "modifies g f \<longleftrightarrow> (\<forall>n. session_id (g n) = session_id n \<and> requested_session_id (g n) = requested_session_id n \<and>
     referrers (g n) = referrers n \<and> entry_map (g n) = f (entry_map n) \<and> (dirty (g n) = {} \<longrightarrow> dirty n = {} \<and> f (entry_map n) = entry_map n))"

lemma modifiesD:
  assumes "modifies g f"
  shows "session_id (g n) = session_id n" "requested_session_id (g n) = requested_session_id n" "referrers (g n) = referrers n"
    "entry_map (g n) = f (entry_map n)" "dirty (g n) = {} \<Longrightarrow> dirty n = {}" "dirty (g n) = {} \<Longrightarrow> f (entry_map n) = entry_map n"
  using assms by (auto simp: modifies_def)

lemma modifies_calls:
  "modifies (node_set k v) (\<lambda>d. d(k \<mapsto> v))"
  "modifies (\<lambda>n. node_set k (h (mv_get arg (node_entry k n))) n) (\<lambda>d. d(k \<mapsto> h (mv_get arg (looked_up k d))))"
  "modifies (node_remove k) (\<lambda>d. d(k := None))"
  "modifies (\<lambda>n. n\<lparr>requested_refresh := True\<rparr>) (\<lambda>d. d)"
  by (auto simp: modifies_def node_set_def node_remove_def entry_map_def update_conv' delete_conv' node_entry_def looked_up_def)

definition context_modify :: "('d cached_session \<Rightarrow> 'd cached_session) \<Rightarrow> nat option \<Rightarrow> ('d, 's, 't) session_state \<Rightarrow> nat option \<times> ('d, 's, 't) session_state" where
  "context_modify g nd m = (case check_node nd m of (a, m') \<Rightarrow> (Some a, change_node a g m'))"

definition context_touch :: "('d cached_session \<Rightarrow> 'd cached_session) \<Rightarrow> nat option \<Rightarrow> ('d, 's, 't) session_state \<Rightarrow> nat option \<times> ('d, 's, 't) session_state" where
  "context_touch g nd m = (nd, case nd of None \<Rightarrow> m | Some a \<Rightarrow> change_node a g m)"

lemma calls_modify:
  "context_set k v = context_modify (node_set k v)"
  "context_apply k arg h = context_modify (\<lambda>n. node_set k (h (mv_get arg (node_entry k n))) n)"
  "(\<lambda>nd m. (nd, context_remove k nd m)) = context_touch (node_remove k)"
  "(\<lambda>nd m. (nd, refresh_expiration nd m)) = context_touch (\<lambda>n. n\<lparr>requested_refresh := True\<rparr>)"
  by (auto simp: context_set_def context_apply_def context_modify_def context_touch_def context_remove_def refresh_expiration_def fun_eq_iff split: option.split)

lemma change_inv:
  assumes inv: "system_inv clean good y" and r: "sy_active y r = Some (Some a, ck)" and g: "modifies g f"
  shows "system_inv clean good (y\<lparr>sy_state := change_node a g (sy_state y)\<rparr>)" (is "system_inv _ _ ?y")
proof -
  note g = modifiesD [OF g]
  have a: "a < length (sm_nodes (sy_state y))" using system_invD(4) [OF inv r] by (simp add: pointer_sound_def Let_def)
  note n = node_at_change [OF a]
  have "cache_sound clean ?y sid b" if "sm_cache (sy_state y) sid = Some b" for sid b
    using system_invD(3) [OF inv that] g(6) [of "node_at b (sy_state y)"] by (auto simp: cache_sound_def Let_def n g(1-5))
  moreover have "pointer_sound ?y q b" if "sy_active y q = Some (Some b, c)" for q b c
    using system_invD(4) [OF inv that] by (auto simp: pointer_sound_def Let_def n g(1-3) dest: g(5))
  ultimately show ?thesis using system_invD(1,2) [OF inv] by (auto simp: system_inv_def)
qed

lemma change_spec:
  assumes inv: "system_inv clean good y" and r: "sy_active y r = Some (Some a, ck)" and g: "modifies g f"
  shows "system_spec holds (y\<lparr>sy_state := change_node a g (sy_state y)\<rparr>) = spec_update r c f (system_spec holds y)"
proof -
  note g = modifiesD(1-4) [OF g]
  let ?n = "node_at a (sy_state y)"
  have p: "pointer_sound y r a" by (rule system_invD(4) [OF inv r])
  then have a: "a < length (sm_nodes (sy_state y))" by (simp add: pointer_sound_def Let_def)
  note n = node_at_change [OF a]
  have cached: "session_id (node_at b (sy_state y)) = sid" if "sm_cache (sy_state y) sid = Some b" for sid b
    using system_invD(3) [OF inv that] by (simp add: cache_sound_def Let_def)
  let ?y = "y\<lparr>sy_state := change_node a g (sy_state y)\<rparr>"
  have v: "view_of (change_node a g (sy_state y)) nd = view_of (sy_state y) nd" if "nd \<noteq> Some a" for nd
    using that by (auto simp: view_of_def n split: option.split)
  have va: "view_of (change_node a g (sy_state y)) (Some a) = (if session_id ?n = [] then Draft (f (entry_map ?n)) else Saved (session_id ?n))"
    by (simp add: view_of_def n g)
  have w: "sp_view (system_spec holds ?y) q =
      (case sy_active y q of
         None \<Rightarrow> None
       | Some x \<Rightarrow> Some (if fst x = Some a then (if session_id ?n = [] then Draft (f (entry_map ?n)) else Saved (session_id ?n)) else view_of (sy_state y) (fst x)))" for q
    by (auto simp: system_spec_def v va split: option.split)
  have s: "sp_sessions (system_spec holds ?y) sid = (if sm_cache (sy_state y) sid = Some a then Some (f (entry_map ?n)) else sp_sessions (system_spec holds y) sid)" for sid
    by (auto simp: system_spec_def n g split: option.split)
  show ?thesis
  proof (cases "session_id ?n = []")
    case True
    have "users (sy_active y) a = {r}" using p True by (simp add: pointer_sound_def Let_def)
    then have only: "(\<exists>c. sy_active y q = Some (Some a, c)) \<longleftrightarrow> q = r" for q by (auto simp: users_def)
    have "sp_view (system_spec holds ?y) q = (if q = r then Some (Draft (f (entry_map ?n))) else sp_view (system_spec holds y) q)" for q
    proof (cases "q = r")
      case False
      then have "fst x \<noteq> Some a" if "sy_active y q = Some x" for x using only [of q] that by (cases x) auto
      with False show ?thesis unfolding w by (simp add: system_spec_def split: option.split)
    qed (simp add: w r True)
    moreover have "sm_cache (sy_state y) sid \<noteq> Some a" for sid
      using system_invD(3) [OF inv, of sid a] True by (auto simp: cache_sound_def Let_def)
    moreover have "sp_view (system_spec holds y) r = Some (Draft (entry_map ?n))" using r True by (simp add: system_spec_def view_of_def)
    ultimately show ?thesis using s by (intro session_spec.equality ext) (simp_all add: spec_update_def)
  next
    case False
    then have c: "sm_cache (sy_state y) (session_id ?n) = Some a" using p by (simp add: pointer_sound_def Let_def)
    have "sp_view (system_spec holds ?y) q = sp_view (system_spec holds y) q" for q
    proof (cases "sy_active y q")
      case (Some x)
      show ?thesis
      proof (cases "fst x = Some a")
        case True
        then show ?thesis unfolding w Some using False by (simp add: system_spec_def view_of_def Some)
      next
        case False
        then show ?thesis unfolding w Some by (simp add: system_spec_def Some)
      qed
    qed (simp add: system_spec_def)
    moreover have "sp_view (system_spec holds y) r = Some (Saved (session_id ?n))" using r False by (simp add: system_spec_def view_of_def)
    moreover have "sm_cache (sy_state y) sid = Some a \<longleftrightarrow> sid = session_id ?n" for sid using c cached [of sid a] by metis
    moreover have "sp_sessions (system_spec holds y) (session_id ?n) = Some (entry_map ?n)" using c by (simp add: system_spec_def)
    ultimately show ?thesis using s by (intro session_spec.equality ext) (simp_all add: spec_update_def)
  qed
qed

lemma create_both:
  assumes inv: "system_inv clean good y" and r: "sy_active y r = Some (None, ck)" and g: "modifies g f" "dirty (g new_session) \<noteq> {}"
    and y': "y' = y\<lparr>sy_state := (sy_state y)\<lparr>sm_nodes := sm_nodes (sy_state y) @ [g new_session]\<rparr>,
      sy_active := (sy_active y)(r \<mapsto> (Some (length (sm_nodes (sy_state y))), ck))\<rparr>"
  shows "system_inv clean good y'" "system_spec holds y' = spec_update r True f (system_spec holds y)"
proof -
  note g = modifiesD [OF g(1)] g(2)
  let ?m = "sy_state y" and ?a = "length (sm_nodes (sy_state y))"
  have n: "node_at b (sy_state y') = (if b < ?a then node_at b ?m else g new_session)" if "b \<le> ?a" for b
    using that by (auto simp: y' node_at_append)
  have lt1: "b < ?a" if "sm_cache ?m sid = Some b" for sid b
    using system_invD(3) [OF inv that] by (simp add: cache_sound_def Let_def)
  have lt2: "b < ?a" if "sy_active y q = Some (Some b, c)" for b q c
    using system_invD(4) [OF inv that] by (simp add: pointer_sound_def Let_def)
  have u: "users (sy_active y') b = users (sy_active y) b" if "b < ?a" for b
    using that users_notin(2) [of "sy_active y", OF r] by (simp add: y' users_upd)
  have "users (sy_active y) ?a = {}" using lt2 by (fastforce simp: users_def)
  then have ua: "users (sy_active y') ?a = {r}" by (simp add: y' users_upd)
  have "cache_sound clean y' sid b" if "sm_cache ?m sid = Some b" for sid b
    using system_invD(3) [OF inv that] lt1 [OF that] by (simp add: cache_sound_def Let_def n u) (simp add: y')
  moreover have "pointer_sound y' q b" if "sy_active y' q = Some (Some b, c)" for q b c
  proof (cases "q = r")
    case True
    then have "b = ?a" using that by (simp add: y')
    then show ?thesis using g True ua by (simp add: pointer_sound_def Let_def n) (simp add: y' new_session_def)
  next
    case False
    then have q: "sy_active y q = Some (Some b, c)" using that by (simp add: y')
    show ?thesis using system_invD(4) [OF inv q] lt2 [OF q] by (simp add: pointer_sound_def Let_def n u) (simp add: y')
  qed
  ultimately show "system_inv clean good y'" using system_invD(1,2) [OF inv] by (auto simp: system_inv_def y')
  have v: "view_of (sy_state y') nd = view_of ?m nd" if "\<forall>b. nd = Some b \<longrightarrow> b < ?a" for nd
    using that n by (auto simp: view_of_def split: option.split)
  have e: "entry_map new_session = Map.empty" "session_id new_session = []" by (simp_all add: entry_map_def new_session_def)
  have c: "sm_cache (sy_state y') = sm_cache ?m" "sm_store (sy_state y') = sm_store ?m" by (simp_all add: y')
  have "sp_sessions (system_spec holds y') sid = sp_sessions (system_spec holds y) sid" for sid
    using lt1 n by (auto simp: system_spec_def c dest!: lt1 split: option.split)
  moreover have "sp_view (system_spec holds y') q = (if q = r then Some (Draft (f Map.empty)) else sp_view (system_spec holds y) q)" for q
  proof (cases "q = r")
    case True
    have "node_at ?a (sy_state y') = g new_session" "sy_active y' r = Some (Some ?a, ck)" using n [of ?a] by (simp_all, simp add: y')
    then show ?thesis using True by (simp add: system_spec_def view_of_def g(1,4) e)
  next
    case False
    have "view_of (sy_state y') (fst x) = view_of ?m (fst x)" if "sy_active y q = Some x" for x
      using lt2 that by (intro v) (cases x, auto)
    moreover have "sy_active y' q = sy_active y q" using False by (simp add: y')
    ultimately show ?thesis using False by (cases "sy_active y q") (simp_all add: system_spec_def)
  qed
  ultimately show "system_spec holds y' = spec_update r True f (system_spec holds y)"
    using r by (intro session_spec.equality ext) (simp_all add: spec_update_def, simp_all add: system_spec_def view_of_def)
qed

lemma modify_step:
  assumes "system_inv clean good y" "in_context r (context_modify g) y = Some y'" "modifies g f" "dirty (g new_session) \<noteq> {}"
  shows "system_inv clean good y' \<and> system_spec holds y' = spec_update r True f (system_spec holds y)"
proof -
  obtain nd ck where r: "sy_active y r = Some (nd, ck)" using assms(2) by (auto simp: in_context_def split: option.splits)
  show ?thesis
  proof (cases nd)
    case None
    have "y' = y\<lparr>sy_state := (sy_state y)\<lparr>sm_nodes := sm_nodes (sy_state y) @ [g new_session]\<rparr>,
      sy_active := (sy_active y)(r \<mapsto> (Some (length (sm_nodes (sy_state y))), ck))\<rparr>"
      using assms(2) r None by (simp add: in_context_def context_modify_def check_node_def allocate_def change_node_def)
    from create_both [OF assms(1) _ assms(3,4) this] r None show ?thesis by simp
  next
    case (Some a)
    then have r: "sy_active y r = Some (Some a, ck)" using r by simp
    then have "(sy_active y)(r \<mapsto> (Some a, ck)) = sy_active y" by (rule fun_upd_idem)
    then have "y' = y\<lparr>sy_state := change_node a g (sy_state y)\<rparr>"
      using assms(2) r by (simp add: in_context_def context_modify_def check_node_def)
    then show ?thesis using change_inv [OF assms(1) r assms(3)] change_spec [OF assms(1) r assms(3)] by simp
  qed
qed

lemma touch_step:
  assumes "system_inv clean good y" "in_context r (context_touch g) y = Some y'" "modifies g f"
  shows "system_inv clean good y' \<and> system_spec holds y' = spec_update r False f (system_spec holds y)"
proof -
  obtain nd ck where r: "sy_active y r = Some (nd, ck)" using assms(2) by (auto simp: in_context_def split: option.splits)
  then have u: "(sy_active y)(r \<mapsto> (nd, ck)) = sy_active y" by (rule fun_upd_idem)
  show ?thesis
  proof (cases nd)
    case None
    then have "y' = y" using assms(2) r u by (simp add: in_context_def context_touch_def)
    with assms(1) r None show ?thesis by (simp add: spec_update_def system_spec_def view_of_def)
  next
    case (Some a)
    then have r: "sy_active y r = Some (Some a, ck)" using r by simp
    have "y' = y\<lparr>sy_state := change_node a g (sy_state y)\<rparr>"
      using assms(2) r u Some by (simp add: in_context_def context_touch_def)
    then show ?thesis using change_inv [OF assms(1) r assms(3)] change_spec [OF assms(1) r assms(3)] by simp
  qed
qed

lemma spec_update_identity: "spec_update r False (\<lambda>d. d) p = p"
  by (auto simp: spec_update_def map_option.id [unfolded id_def] fun_upd_idem split: option.split session_view.split)

section \<open>The beginning of a request\<close>

lemma begin_plain:
  assumes inv: "system_inv clean good y" and r: "sy_active y r = None"
    and y': "y' = y\<lparr>sy_active := (sy_active y)(r \<mapsto> (None, ck))\<rparr>"
  shows "system_inv clean good y'"
    "system_spec holds y' = (system_spec holds y)\<lparr>sp_view := (sp_view (system_spec holds y))(r \<mapsto> No_Session)\<rparr>"
proof -
  have u: "users (sy_active y') a = users (sy_active y) a" for a
    using users_notin(1) [of "sy_active y", OF r] by (simp add: y' users_upd)
  have "cache_sound clean y' sid a" if "cache_sound clean y sid a" for sid a
    using that by (simp add: cache_sound_def Let_def u) (simp add: y')
  moreover have "pointer_sound y' q a" if "pointer_sound y q a" for q a
    using that by (simp add: pointer_sound_def Let_def u) (simp add: y')
  ultimately show "system_inv clean good y'"
    using inv unfolding system_inv_def by (auto simp: y' split: if_splits)
  show "system_spec holds y' = (system_spec holds y)\<lparr>sp_view := (sp_view (system_spec holds y))(r \<mapsto> No_Session)\<rparr>"
    by (auto simp: system_spec_def y' fun_eq_iff view_of_def split: option.split)
qed

lemma begin_cached:
  assumes inv: "system_inv clean good y" and r: "sy_active y r = None" and c: "sm_cache (sy_state y) sid = Some a"
    and y': "y' = y\<lparr>sy_state := change_node a (\<lambda>n. n\<lparr>referrers := referrers n + 1\<rparr>) (sy_state y), sy_active := (sy_active y)(r \<mapsto> (Some a, ck))\<rparr>"
  shows "system_inv clean good y'"
    "system_spec holds y' = (system_spec holds y)\<lparr>sp_view := (sp_view (system_spec holds y))(r \<mapsto> Saved sid)\<rparr>"
proof -
  have s: "cache_sound clean y sid a" by (rule system_invD(3) [OF inv c])
  then have a: "a < length (sm_nodes (sy_state y))" and sid: "session_id (node_at a (sy_state y)) = sid" "sid \<noteq> []"
    by (auto simp: cache_sound_def Let_def)
  have n: "node_at b (sy_state y') = (if b = a then (node_at a (sy_state y))\<lparr>referrers := referrers (node_at a (sy_state y)) + 1\<rparr> else node_at b (sy_state y))" for b
    by (simp add: y' node_at_change [OF a])
  have u: "users (sy_active y') b = (if b = a then insert r (users (sy_active y) a) else users (sy_active y) b)" for b
    using users_notin(1) [of "sy_active y", OF r] by (simp add: y' users_upd)
  have k: "int (card (insert r (users (sy_active y) a))) = int (card (users (sy_active y) a)) + 1"
    using users_notin(1) [of "sy_active y", OF r] finite_users [OF system_invD(2) [OF inv]] by simp
  have e: "entry_map (n\<lparr>referrers := x\<rparr>) = entry_map n" for n :: "'b cached_session" and x by (simp add: entry_map_def)
  have "cache_sound clean y' s b" if "sm_cache (sy_state y) s = Some b" for s b
    using system_invD(3) [OF inv that] by (simp add: cache_sound_def Let_def u n k e) (auto simp: y' entry_map_def)
  moreover have "pointer_sound y' q b" if "sy_active y' q = Some (Some b, ck')" for q b ck'
  proof (cases "q = r")
    case True
    then have "b = a" using that by (simp add: y')
    then show ?thesis using sid c a by (simp add: pointer_sound_def Let_def n) (simp add: y')
  next
    case False
    then have q: "sy_active y q = Some (Some b, ck')" using that by (simp add: y')
    show ?thesis using system_invD(4) [OF inv q] sid by (simp add: pointer_sound_def Let_def n u) (auto simp: y')
  qed
  ultimately show "system_inv clean good y'" using system_invD(1,2) [OF inv] by (auto simp: system_inv_def y')
  have v: "view_of (sy_state y') nd = view_of (sy_state y) nd" for nd by (auto simp: view_of_def n entry_map_def split: option.split)
  have "sp_sessions (system_spec holds y') = sp_sessions (system_spec holds y)"
    by (auto simp: system_spec_def n e fun_eq_iff split: option.split) (auto simp: y')
  moreover have "sp_view (system_spec holds y') = (sp_view (system_spec holds y))(r \<mapsto> Saved sid)"
    using sid by (auto simp: system_spec_def v fun_eq_iff) (auto simp: y' view_of_def)
  ultimately show "system_spec holds y' = (system_spec holds y)\<lparr>sp_view := (sp_view (system_spec holds y))(r \<mapsto> Saved sid)\<rparr>"
    by (intro session_spec.equality) simp_all
qed

section \<open>Requests that start or end with the store\<close>

context session_store
begin

lemma begin_loaded:
  assumes inv: "system_inv clean good y" and r: "sy_active y r = None" and c: "sm_cache (sy_state y) sid = None" "sid \<noteq> []"
    and h: "holds (sm_store (sy_state y)) sid = Some (map_of es)"
    and s': "good s'" "clean s' sid (map_of es)" "others_kept holds clean sid (sm_store (sy_state y)) s'"
    and y': "y' = y\<lparr>sy_state := (sy_state y)\<lparr>sm_store := s', sm_nodes := sm_nodes (sy_state y) @ [new_session\<lparr>session_id := sid, referrers := 1, sn_entries := es\<rparr>],
      sm_cache := (sm_cache (sy_state y))(sid \<mapsto> length (sm_nodes (sy_state y)))\<rparr>,
      sy_active := (sy_active y)(r \<mapsto> (Some (length (sm_nodes (sy_state y))), ck))\<rparr>"
  shows "system_inv clean good y'"
    "system_spec holds y' = (system_spec holds y)\<lparr>sp_view := (sp_view (system_spec holds y))(r \<mapsto> Saved sid)\<rparr>"
proof -
  let ?m = "sy_state y" and ?a = "length (sm_nodes (sy_state y))" and ?n = "new_session\<lparr>session_id := sid, referrers := 1, sn_entries := es\<rparr>"
  have n: "node_at b (sy_state y') = (if b < ?a then node_at b ?m else ?n)" if "b \<le> ?a" for b
    using that by (auto simp: y' node_at_def nth_append)
  have lt1: "b < ?a" if "sm_cache ?m sid = Some b" for sid b
    using system_invD(3) [OF inv that] by (simp add: cache_sound_def Let_def)
  have lt2: "b < ?a" if "sy_active y q = Some (Some b, c)" for b q c
    using system_invD(4) [OF inv that] by (simp add: pointer_sound_def Let_def)
  have u: "users (sy_active y') b = users (sy_active y) b" if "b < ?a" for b
    using that users_notin(1) [of "sy_active y", OF r] by (simp add: y' users_upd)
  have "users (sy_active y) ?a = {}" using lt2 by (fastforce simp: users_def)
  then have ua: "users (sy_active y') ?a = {r}" by (simp add: y' users_upd)
  have f: "sm_store (sy_state y') = s'" "sm_cache (sy_state y') = (sm_cache ?m)(sid \<mapsto> ?a)" "length (sm_nodes (sy_state y')) = Suc ?a"
    by (simp_all add: y')
  have o: "holds s' j = holds (sm_store ?m) j" "clean (sm_store ?m) j e \<Longrightarrow> clean s' j e" if "j \<noteq> sid" for j e
    using s'(3) that by (auto simp: others_kept_def)
  have "cache_sound clean y' j b" if j: "sm_cache (sy_state y') j = Some b" for j b
  proof (cases "j = sid")
    case True
    then have "b = ?a" using that by (simp add: f)
    then show ?thesis using True c(2) s'(2) by (simp add: cache_sound_def Let_def n ua f entry_map_def)
  next
    case False
    then have k: "sm_cache ?m j = Some b" using that by (simp add: f)
    show ?thesis using system_invD(3) [OF inv k] lt1 [OF k] o(2) [OF False] by (auto simp: cache_sound_def Let_def n u f)
  qed
  moreover have "pointer_sound y' q b" if "sy_active y' q = Some (Some b, ck')" for q b ck'
  proof (cases "q = r")
    case True
    then have "b = ?a" using that by (simp add: y')
    then show ?thesis using c(2) by (simp add: pointer_sound_def Let_def n f)
  next
    case False
    then have q: "sy_active y q = Some (Some b, ck')" using that by (simp add: y')
    show ?thesis using system_invD(4) [OF inv q] lt2 [OF q] c(1) by (auto simp: pointer_sound_def Let_def n u f split: if_splits)
  qed
  ultimately show "system_inv clean good y'" using system_invD(2) [OF inv] s'(1) by (auto simp: system_inv_def f) (simp add: y')
  have "sp_sessions (system_spec holds y') j = sp_sessions (system_spec holds y) j" for j
    using h c(1) o(1) [of j] by (cases "sm_cache ?m j") (auto simp: system_spec_def f n entry_map_def dest: lt1)
  moreover have "sp_view (system_spec holds y') q = (if q = r then Some (Saved sid) else sp_view (system_spec holds y) q)" for q
  proof (cases "q = r")
    case True
    have "sy_active y' r = Some (Some ?a, ck)" by (simp add: y')
    with True show ?thesis using c(2) by (simp add: system_spec_def view_of_def n)
  next
    case False
    have "view_of (sy_state y') (fst x) = view_of ?m (fst x)" if "sy_active y q = Some x" for x
      using lt2 [of q _ "snd x"] that by (cases x) (auto simp: view_of_def n dest: lt2 split: option.split)
    moreover have "sy_active y' q = sy_active y q" using False by (simp add: y')
    ultimately show ?thesis using False by (cases "sy_active y q") (simp_all add: system_spec_def)
  qed
  ultimately show "system_spec holds y' = (system_spec holds y)\<lparr>sp_view := (sp_view (system_spec holds y))(r \<mapsto> Saved sid)\<rparr>"
    by (intro session_spec.equality ext) simp_all
qed

lemma begin_step:
  assumes inv: "system_inv clean good y" and step: "session_call ops (Begin_Request r ck) y = Some y'"
    and adm: "get_cookie (cookie_key (sm_cookie (sy_state y))) ck = [] \<or> proper (get_cookie (cookie_key (sm_cookie (sy_state y))) ck)"
  shows "system_inv clean good y' \<and>
    system_spec holds y' = spec_call (cookie_key (sm_cookie (sy_state y))) (Begin_Request r ck) (system_spec holds y)"
proof -
  let ?m = "sy_state y" and ?sid = "get_cookie (cookie_key (sm_cookie (sy_state y))) ck"
  have r: "sy_active y r = None" using step by (auto split: option.splits)
  have none: "?thesis" if "session_before ops ck ?m = (None, ?m)" "?sid = [] \<or> sm_cache ?m ?sid = None \<and> holds (sm_store ?m) ?sid = None"
  proof -
    have "y' = y\<lparr>sy_active := (sy_active y)(r \<mapsto> (None, ck))\<rparr>" using step r that(1) by simp
    note b = begin_plain [OF inv r this]
    have "?sid = [] \<or> sp_sessions (system_spec holds y) ?sid = None" using that(2) by (auto simp: system_spec_def)
    with b(1) show ?thesis by (simp add: b(2) Let_def)
  qed
  show ?thesis
  proof (cases "?sid = [] \<or> sm_cache ?m ?sid = None \<and> holds (sm_store ?m) ?sid = None")
    case True
    then show ?thesis using contains_holds [OF system_invD(1) [OF inv]] adm
      by (intro none) (auto simp: session_before_def Let_def load_id_def)
  next
    case False
    then have sid: "?sid \<noteq> []" by simp
    have known: "sp_sessions (system_spec holds y) ?sid \<noteq> None" using False by (auto simp: system_spec_def split: option.split)
    show ?thesis
    proof (cases "sm_cache ?m ?sid")
      case (Some a)
      have "y' = y\<lparr>sy_state := change_node a (\<lambda>n. n\<lparr>referrers := referrers n + 1\<rparr>) ?m, sy_active := (sy_active y)(r \<mapsto> (Some a, ck))\<rparr>"
        using step r Some sid by (simp add: session_before_def Let_def load_id_def)
      note b = begin_cached [OF inv r Some this]
      show ?thesis using b(1) known sid by (auto simp: b(2) Let_def)
    next
      case None
      then obtain e where e: "holds (sm_store ?m) ?sid = Some e" using False by auto
      then have cont: "st_contains ops ?sid (sm_store ?m)" using contains_holds [OF system_invD(1) [OF inv]] adm sid by simp
      obtain es s' where l: "st_load ops (new_session\<lparr>session_id := ?sid, referrers := 1\<rparr>) (sm_store ?m)
          = (Some ((new_session\<lparr>session_id := ?sid, referrers := 1\<rparr>)\<lparr>sn_entries := es\<rparr>), s')" "map_of es = e"
          "good s'" "clean s' ?sid e" "others_kept holds clean ?sid (sm_store ?m) s'"
        using load_holds [OF system_invD(1) [OF inv] e, of "new_session\<lparr>session_id := ?sid, referrers := 1\<rparr>"] by (auto simp: new_session_def)
      have "y' = y\<lparr>sy_state := ?m\<lparr>sm_store := s', sm_nodes := sm_nodes ?m @ [new_session\<lparr>session_id := ?sid, referrers := 1, sn_entries := es\<rparr>],
          sm_cache := (sm_cache ?m)(?sid \<mapsto> length (sm_nodes ?m))\<rparr>, sy_active := (sy_active y)(r \<mapsto> (Some (length (sm_nodes ?m)), ck))\<rparr>"
        using step r None sid cont l(1) by (simp add: session_before_def Let_def load_id_def allocate_def)
      note b = begin_loaded [OF inv r None sid _ _ _ l(5) this]
      show ?thesis using b e l known sid by (auto simp: Let_def)
    qed
  qed
qed

lemma finish_none:
  assumes inv: "system_inv clean good y" and r: "sy_active y r = Some (None, ck)"
    and y': "y' = y\<lparr>sy_active := (sy_active y)(r := None)\<rparr>"
  shows "system_inv clean good y'"
    "system_spec holds y' = (system_spec holds y)\<lparr>sp_view := (sp_view (system_spec holds y))(r := None)\<rparr>"
proof -
  have u: "users (sy_active y') a = users (sy_active y) a" for a
    using users_notin(2) [of "sy_active y", OF r] by (simp add: y' users_del)
  have "cache_sound clean y' sid a" if "cache_sound clean y sid a" for sid a
    using that by (simp add: cache_sound_def Let_def u) (simp add: y')
  moreover have "pointer_sound y' q a" if "pointer_sound y q a" for q a
    using that by (simp add: pointer_sound_def Let_def u) (simp add: y')
  ultimately show "system_inv clean good y'"
    using inv unfolding system_inv_def by (auto simp: y' split: if_splits)
  show "system_spec holds y' = (system_spec holds y)\<lparr>sp_view := (sp_view (system_spec holds y))(r := None)\<rparr>"
    by (auto simp: system_spec_def y' fun_eq_iff split: option.split)
qed

text \<open>A request that ends while others still use its session only gives up its reference.\<close>

lemma finish_shared:
  assumes inv: "system_inv clean good y" and r: "sy_active y r = Some (Some a, ck)" and more: "1 < referrers (node_at a (sy_state y))"
    and y': "y' = \<lparr>sy_state = change_node a (\<lambda>_. (node_at a (sy_state y))\<lparr>referrers := referrers (node_at a (sy_state y)) - 1\<rparr>) (sy_state y),
      sy_active = (sy_active y)(r := None)\<rparr>"
  shows "system_inv clean good y'"
    "system_spec holds y' = (system_spec holds y)\<lparr>sp_view := (sp_view (system_spec holds y))(r := None)\<rparr>"
    "\<exists>sid. sp_view (system_spec holds y) r = Some (Saved sid)"
proof -
  let ?m = "sy_state y" and ?sid = "session_id (node_at a (sy_state y))"
  have p: "pointer_sound y r a" by (rule system_invD(4) [OF inv r])
  then have sid: "?sid \<noteq> []" using more by (auto simp: pointer_sound_def Let_def)
  then have c: "sm_cache ?m ?sid = Some a" using p by (simp add: pointer_sound_def Let_def)
  have a: "a < length (sm_nodes ?m)" using p by (simp add: pointer_sound_def Let_def)
  have n: "node_at b (sy_state y') = (if b = a then (node_at a ?m)\<lparr>referrers := referrers (node_at a ?m) - 1\<rparr> else node_at b ?m)" for b
    by (simp add: y' node_at_change [OF a])
  have u: "users (sy_active y') b = users (sy_active y) b - {r}" for b by (simp add: y' users_del)
  have other: "r \<notin> users (sy_active y) b" if "b \<noteq> a" for b using r that by (auto simp: users_def)
  have fin: "finite (users (sy_active y) b)" for b using finite_users [OF system_invD(2) [OF inv]] .
  have k: "int (card (users (sy_active y) a - {r})) = int (card (users (sy_active y) a)) - 1"
    using in_users [of "sy_active y", OF r] card_Suc_Diff1 [OF fin, of r a] by simp
  have "referrers (node_at a ?m) = int (card (users (sy_active y) a))"
    using system_invD(3) [OF inv c] by (simp add: cache_sound_def Let_def)
  then have "card (users (sy_active y) a - {r}) \<noteq> 0" using more k by linarith
  then have ne: "users (sy_active y) a - {r} \<noteq> {}" by (metis card.empty)
  have "cache_sound clean y' j b" if j: "sm_cache ?m j = Some b" for j b
  proof (cases "b = a")
    case True
    show ?thesis using system_invD(3) [OF inv j] ne k True by (simp add: cache_sound_def Let_def u n entry_map_def) (simp add: y')
  next
    case False
    show ?thesis using system_invD(3) [OF inv j] other [OF False] False by (simp add: cache_sound_def Let_def u n) (simp add: y')
  qed
  moreover have "pointer_sound y' q b" if "sy_active y' q = Some (Some b, ck')" for q b ck'
  proof -
    have q: "sy_active y q = Some (Some b, ck')" "q \<noteq> r" using that by (auto simp: y' split: if_splits)
    show ?thesis using system_invD(4) [OF inv q(1)] sid other [of b] q(2) by (cases "b = a") (simp_all add: pointer_sound_def Let_def n u, simp_all add: y')
  qed
  ultimately show "system_inv clean good y'" using system_invD(1,2) [OF inv] by (auto simp: system_inv_def y')
  have v: "view_of (sy_state y') nd = view_of ?m nd" for nd by (auto simp: view_of_def n entry_map_def split: option.split)
  have "sp_sessions (system_spec holds y') = sp_sessions (system_spec holds y)"
    by (auto simp: system_spec_def n entry_map_def fun_eq_iff split: option.split) (auto simp: y')
  moreover have "sp_view (system_spec holds y') = (sp_view (system_spec holds y))(r := None)"
    by (auto simp: system_spec_def v fun_eq_iff) (auto simp: y')
  ultimately show "system_spec holds y' = (system_spec holds y)\<lparr>sp_view := (sp_view (system_spec holds y))(r := None)\<rparr>"
    by (intro session_spec.equality) simp_all
  show "\<exists>sid. sp_view (system_spec holds y) r = Some (Saved sid)" using r sid by (simp add: system_spec_def view_of_def)
qed

text \<open>The last request of a session: its session leaves the cache and is saved; so does a new session, under its new name.\<close>

lemma finish_last:
  assumes inv: "system_inv clean good y" and r: "sy_active y r = Some (Some a, ck)" and last: "users (sy_active y) a = {r}"
    and sid: "sid = session_id (node_at a (sy_state y)) \<or> session_id (node_at a (sy_state y)) = [] \<and> sm_cache (sy_state y) sid = None" "sid \<noteq> []"
    and y': "y' = \<lparr>sy_state = m', sy_active = (sy_active y)(r := None)\<rparr>"
    and m': "sm_cache m' = (sm_cache (sy_state y))(sid := None)" "sm_store m' = s'" "length (sm_nodes m') = length (sm_nodes (sy_state y))"
      "\<forall>b. b \<noteq> a \<longrightarrow> node_at b m' = node_at b (sy_state y)"
    and s': "good s'" "holds s' sid = Some (entry_map (node_at a (sy_state y)))" "others_kept holds clean sid (sm_store (sy_state y)) s'"
  shows "system_inv clean good y'"
    "system_spec holds y' = \<lparr>sp_sessions = (sp_sessions (system_spec holds y))(sid \<mapsto> entry_map (node_at a (sy_state y))),
       sp_view = (sp_view (system_spec holds y))(r := None)\<rparr>"
proof -
  let ?m = "sy_state y"
  have o: "holds s' j = holds (sm_store ?m) j" "clean (sm_store ?m) j e \<Longrightarrow> clean s' j e" if "j \<noteq> sid" for j e
    using s'(3) that by (auto simp: others_kept_def)
  have u: "users (sy_active y') b = users (sy_active y) b - {r}" for b by (simp add: y' users_del)
  have p: "pointer_sound y r a" by (rule system_invD(4) [OF inv r])
  have other: "r \<notin> users (sy_active y) b" if "b \<noteq> a" for b using r that by (auto simp: users_def)
  have f: "sy_state y' = m'" by (simp add: y')
  have away: "b \<noteq> a" if "sm_cache ?m j = Some b" "j \<noteq> sid" for j b
  proof
    assume "b = a"
    then have "session_id (node_at a ?m) = j" "j \<noteq> []" using system_invD(3) [OF inv that(1)] by (auto simp: cache_sound_def Let_def)
    with sid(1) that(2) show False by auto
  qed
  have "cache_sound clean y' j b" if "sm_cache m' j = Some b" for j b
  proof -
    have j: "sm_cache ?m j = Some b" "j \<noteq> sid" using that by (auto simp: m' split: if_splits)
    note b = away [OF j]
    show ?thesis using system_invD(3) [OF inv j(1)] b other [OF b] o(2) [OF j(2)] m' by (simp add: cache_sound_def Let_def u f)
  qed
  moreover have "pointer_sound y' q b" if "sy_active y' q = Some (Some b, ck')" for q b ck'
  proof -
    have q: "sy_active y q = Some (Some b, ck')" "q \<noteq> r" using that by (auto simp: y' split: if_splits)
    have b: "b \<noteq> a" using in_users [of "sy_active y", OF q(1)] last q(2) by auto
    have "session_id (node_at b ?m) \<noteq> sid"
    proof
      assume e: "session_id (node_at b ?m) = sid"
      then have cb: "sm_cache ?m sid = Some b" using system_invD(4) [OF inv q(1)] sid(2) by (simp add: pointer_sound_def Let_def)
      then have "sid = session_id (node_at a ?m)" using sid(1) by auto
      then have "sm_cache ?m sid = Some a" using p sid(2) by (simp add: pointer_sound_def Let_def)
      with cb b show False by simp
    qed
    then show ?thesis using system_invD(4) [OF inv q(1)] other [OF b] b m' q(2) by (simp add: pointer_sound_def Let_def u f)
  qed
  ultimately show "system_inv clean good y'" using system_invD(2) [OF inv] s'(1) by (auto simp: system_inv_def f m') (simp add: y')
  have "sp_sessions (system_spec holds y') j = ((sp_sessions (system_spec holds y))(sid \<mapsto> entry_map (node_at a ?m))) j" for j
    using s'(2) o(1) [of j] m' by (auto simp: system_spec_def f dest: away split: option.split)
  moreover have "sp_view (system_spec holds y') q = ((sp_view (system_spec holds y))(r := None)) q" for q
  proof (cases "q = r")
    case False
    have "view_of m' (fst x) = view_of ?m (fst x)" if x: "sy_active y q = Some x" for x
    proof (cases "fst x")
      case (Some b)
      then have "sy_active y q = Some (Some b, snd x)" using x by (cases x) simp
      then have "q \<in> users (sy_active y) b" by (rule in_users)
      then have "b \<noteq> a" using last False by auto
      then show ?thesis using Some m' by (simp add: view_of_def)
    qed (simp add: view_of_def)
    moreover have "sy_active y' q = sy_active y q" using False by (simp add: y')
    ultimately show ?thesis using False by (cases "sy_active y q") (simp_all add: system_spec_def f)
  qed (simp add: system_spec_def y')
  ultimately show "system_spec holds y' = \<lparr>sp_sessions = (sp_sessions (system_spec holds y))(sid \<mapsto> entry_map (node_at a (sy_state y))),
       sp_view = (sp_view (system_spec holds y))(r := None)\<rparr>"
    by (intro session_spec.equality ext) simp_all
qed

lemma finish_step:
  assumes inv: "system_inv clean good y" and step: "session_call ops (Finish_Request r fresh) y = Some y'"
    and adm: "admissible proper fits name (Finish_Request r fresh) (system_spec holds y)"
  shows "system_inv clean good y' \<and> system_spec holds y' = spec_call name (Finish_Request r fresh) (system_spec holds y)"
proof -
  let ?m = "sy_state y"
  obtain nd ck where r: "sy_active y r = Some (nd, ck)" using step by (auto split: option.splits)
  show ?thesis
  proof (cases nd)
    case None
    have "y' = y\<lparr>sy_active := (sy_active y)(r := None)\<rparr>" using step r None by (cases y) (auto simp: session_after_def)
    from finish_none [OF inv _ this] r None show ?thesis by (auto simp: system_spec_def view_of_def)
  next
    case (Some a)
    note r = r [unfolded Some]
    define n where "n = node_at a ?m"
    have p: "pointer_sound y r a" by (rule system_invD(4) [OF inv r])
    show ?thesis
    proof (cases "1 < referrers n")
      case True
      then have "y' = \<lparr>sy_state = change_node a (\<lambda>_. (node_at a ?m)\<lparr>referrers := referrers (node_at a ?m) - 1\<rparr>) ?m, sy_active = (sy_active y)(r := None)\<rparr>"
        using step r by (simp add: session_after_def Let_def n_def)
      from finish_shared [OF inv r True [unfolded n_def] this] show ?thesis by auto
    next
      case False
      define draft where "draft \<longleftrightarrow> session_id n = []"
      define n2 where "n2 = n\<lparr>referrers := referrers n - 1, requested_refresh := requested_refresh n \<or> draft\<rparr>"
      define n3 where "n3 = (if draft then name_session fresh n2 else n2)"
      define m3 where "m3 = (if draft then ?m else ?m\<lparr>sm_cache := (sm_cache ?m)(session_id n := None)\<rparr>)"
      obtain ck' m4 where m4: "(if requested_refresh n3 then store_id (session_id n3) ck m3 else (ck, m3)) = (ck', m4)" by (rule prod.exhaust)
      obtain n4 s' where n4: "st_save ops n3 (sm_store m4) = (n4, s')" by (rule prod.exhaust)
      have y': "y' = \<lparr>sy_state = change_node a (\<lambda>_. n4) (m4\<lparr>sm_store := s'\<rparr>), sy_active = (sy_active y)(r := None)\<rparr>"
        using step r False m4 n4 unfolding n3_def n2_def m3_def draft_def
        by (cases "session_id n = []") (simp_all add: session_after_def Let_def n_def [symmetric] split: if_splits)
      have m4': "sm_cache m4 = sm_cache m3" "sm_store m4 = sm_store ?m" "sm_nodes m4 = sm_nodes ?m"
        using m4 by (auto simp: store_id_def Let_def m3_def split: if_splits)
      define sid where "sid = session_id n3"
      have e: "entry_map n3 = entry_map n" "dirty n3 = dirty n" by (simp_all add: n3_def n2_def name_session_def entry_map_def)
      have cases: "users (sy_active y) a = {r} \<and> (dirty n \<noteq> {} \<or> clean (sm_store ?m) sid (entry_map n)) \<and> sid \<noteq> [] \<and> fits sid (entry_map n) \<and>
          sm_cache m3 = (sm_cache ?m)(sid := None) \<and> (sid = session_id n \<or> draft \<and> sm_cache ?m sid = None) \<and>
          spec_call name (Finish_Request r fresh) (system_spec holds y) =
            \<lparr>sp_sessions = (sp_sessions (system_spec holds y))(sid \<mapsto> entry_map n), sp_view = (sp_view (system_spec holds y))(r := None)\<rparr>"
      proof (cases draft)
        case True
        then have v: "sp_view (system_spec holds y) r = Some (Draft (entry_map n))" using r by (simp add: system_spec_def view_of_def n_def draft_def)
        have s: "sid = fresh" using p True by (simp add: sid_def n3_def n2_def name_session_def pointer_sound_def Let_def n_def draft_def)
        have "fresh \<noteq> []" "sp_sessions (system_spec holds y) fresh = None" "fits fresh (entry_map n)" using adm v by simp_all
        moreover from this(2) have "sm_cache ?m fresh = None" by (auto simp: system_spec_def split: option.splits)
        ultimately show ?thesis using p True v s by (simp add: pointer_sound_def Let_def n_def draft_def m3_def fun_upd_idem)
      next
        case f: False
        then have s: "sid = session_id n" by (simp add: sid_def n3_def n2_def)
        then have c: "sm_cache ?m sid = Some a" using p f by (simp add: pointer_sound_def Let_def n_def draft_def)
        note cs = system_invD(3) [OF inv c]
        have v: "sp_view (system_spec holds y) r = Some (Saved sid)" using r f s by (simp add: system_spec_def view_of_def n_def draft_def)
        have q: "sp_sessions (system_spec holds y) sid = Some (entry_map n)" using c by (simp add: system_spec_def n_def)
        have "card (users (sy_active y) a) \<le> 1" using cs False by (simp add: cache_sound_def Let_def n_def)
        then have "users (sy_active y) a = {r}"
          using in_users [of "sy_active y", OF r] finite_users [OF system_invD(2) [OF inv], of a] by (auto simp: card_le_Suc0_iff_eq)
        moreover have "(system_spec holds y)\<lparr>sp_view := f\<rparr> =
            \<lparr>sp_sessions = (sp_sessions (system_spec holds y))(sid \<mapsto> entry_map n), sp_view = f\<rparr>" for f
          using q by (intro session_spec.equality) (simp_all add: fun_upd_idem)
        ultimately show ?thesis using cs adm v q f s by (auto simp: cache_sound_def Let_def n_def m3_def)
      qed
      obtain n' t where t: "st_save ops n3 (sm_store ?m) = (n', t)" "good t" "holds t sid = Some (entry_map n)" "others_kept holds clean sid (sm_store ?m) t"
        using save_holds [OF system_invD(1) [OF inv], of n3] cases e by (auto simp: sid_def)
      have "s' = t" using n4 t(1) m4' by simp
      then have f: "system_inv clean good y'" "system_spec holds y' =
          \<lparr>sp_sessions = (sp_sessions (system_spec holds y))(sid \<mapsto> entry_map (node_at a ?m)), sp_view = (sp_view (system_spec holds y))(r := None)\<rparr>"
        using finish_last [OF inv r _ _ _ y', of sid s'] cases t m4' p
        by (auto simp: n_def draft_def node_at_change pointer_sound_def Let_def) (auto simp: node_at_def change_node_def)
      with cases show ?thesis by (simp add: n_def)
    qed
  qed
qed

lemma system_step:
  assumes inv: "system_inv clean good y" and step: "session_call ops c y = Some y'"
    and adm: "admissible proper fits (cookie_key (sm_cookie (sy_state y))) c (system_spec holds y)"
  shows "system_inv clean good y' \<and> system_spec holds y' = spec_call (cookie_key (sm_cookie (sy_state y))) c (system_spec holds y)"
proof (cases c)
  case (Begin_Request r ck)
  then show ?thesis using begin_step [OF inv] step adm by simp
next
  case (Set_Entry r k v)
  then show ?thesis using modify_step [OF inv _ modifies_calls(1)] step by (simp add: calls_modify node_set_def)
next
  case (Apply_Entry r k arg f)
  then show ?thesis using modify_step [OF inv _ modifies_calls(2)] step by (simp add: calls_modify node_set_def)
next
  case (Remove_Entry r k)
  then show ?thesis using touch_step [OF inv _ modifies_calls(3)] step by (simp add: calls_modify)
next
  case (Refresh_Session r)
  then show ?thesis using touch_step [OF inv _ modifies_calls(4), of r y' holds] step by (simp add: calls_modify spec_update_identity)
next
  case (Finish_Request r fresh)
  then show ?thesis using finish_step [OF inv] step adm by simp
qed

end

end
