(* ===== verification/Session_Properties.thy ===== *)
theory Session_Properties
  imports Session_Facts
begin

text \<open>
  Sessions over a whole run: requests that overlap in any way share their sessions and lose no change, with
  \<open>InMemoryStore\<close> as the store.  Identifiers are only assumed to be new where the code draws one; what happens when they are not is shown too.
\<close>

lemma name_kept:
  assumes "session_call ops c y = Some y'"
  shows "cookie_key (sm_cookie (sy_state y')) = cookie_key (sm_cookie (sy_state y))"
proof -
  have m: "cookie_key (sm_cookie (snd (context_modify g nd m))) = cookie_key (sm_cookie m)" for g nd and m :: "('a, 'b, 'c) session_state"
    by (simp add: context_modify_def check_node_def allocate_def split: option.split)
  have t: "cookie_key (sm_cookie (snd (context_touch g nd m))) = cookie_key (sm_cookie m)" for g nd and m :: "('a, 'b, 'c) session_state"
    by (simp add: context_touch_def split: option.split)
  have i: "cookie_key (sm_cookie (sy_state z)) = cookie_key (sm_cookie (sy_state y))"
    if z: "in_context r f y = Some z" and f: "\<And>nd m. cookie_key (sm_cookie (snd (f nd m))) = cookie_key (sm_cookie m)" for r f z
  proof -
    obtain nd ck where "sy_active y r = Some (nd, ck)" using z by (auto simp: in_context_def split: option.splits)
    then show ?thesis using z f [of nd "sy_state y"] by (cases "f nd (sy_state y)") (auto simp: in_context_def)
  qed
  show ?thesis
  proof (cases c)
    case (Begin_Request r ck)
    then show ?thesis using assms
      by (auto simp: session_before_def Let_def allocate_def split: option.splits if_splits prod.splits)
  next
    case (Finish_Request r fresh)
    then show ?thesis using assms
      by (auto simp: session_after_def Let_def store_id_def with_value_def split: option.splits if_splits prod.splits)
  qed (use assms i m t in \<open>simp_all add: calls_modify\<close>)
qed

context session_store
begin

lemma run_spec:
  assumes "system_inv clean good y" "session_run ops cs y = Some y'"
    "all_admissible proper fits (cookie_key (sm_cookie (sy_state y))) cs (system_spec holds y)"
  shows "system_inv clean good y' \<and> system_spec holds y' = fold (spec_call (cookie_key (sm_cookie (sy_state y)))) cs (system_spec holds y)"
  using assms
proof (induction cs arbitrary: y)
  case (Cons c cs)
  then obtain z where z: "session_call ops c y = Some z" "session_run ops cs z = Some y'" by (auto split: option.splits)
  have s: "system_inv clean good z" "system_spec holds z = spec_call (cookie_key (sm_cookie (sy_state y))) c (system_spec holds y)"
    using system_step [OF Cons.prems(1) z(1)] Cons.prems(3) by auto
  show ?case using Cons.IH [OF s(1) z(2)] Cons.prems(3) by (simp add: s(2) name_kept [OF z(1)])
qed simp

end

section \<open>Sessions in memory\<close>

definition memory_holds :: "'d memory \<Rightarrow> string \<Rightarrow> (string \<rightharpoonup> 'd multi_value) option" where
  "memory_holds s sid = map_option map_of (s sid)"

interpretation memory: session_store memory_store memory_holds "\<lambda>_ _ _. True" "\<lambda>_. True" "\<lambda>_. True" "\<lambda>_ _. True"
  by unfold_locales
    (auto simp: memory_store_def memory_holds_def memory_contains_def memory_load_def memory_save_def others_kept_def entry_map_def)

definition start_system :: "'d memory \<Rightarrow> 't cookie \<Rightarrow> ('d, 'd memory, 't) session_system" where
  "start_system s c = \<lparr>sy_state = \<lparr>sm_nodes = [], sm_cache = Map.empty, sm_store = s, sm_cookie = c\<rparr>, sy_active = Map.empty\<rparr>"

definition start_spec :: "'d memory \<Rightarrow> 'd session_spec" where
  "start_spec s = \<lparr>sp_sessions = memory_holds s, sp_view = Map.empty\<rparr>"

lemma start_inv: "system_inv clean (\<lambda>_. True) (start_system s c)"
  by (simp add: system_inv_def start_system_def)

lemma start_abs: "system_spec memory_holds (start_system s c) = start_spec s"
  by (simp add: system_spec_def start_system_def start_spec_def)

text \<open>What a request reads is what the table holds for it.\<close>

definition spec_read :: "string \<Rightarrow> 'd multi_value \<Rightarrow> nat \<Rightarrow> 'd session_spec \<Rightarrow> 'd multi_value" where
  "spec_read k fallback r p =
     (case (case sp_view p r of Some (Saved sid) \<Rightarrow> sp_sessions p sid | Some (Draft d) \<Rightarrow> Some d | _ \<Rightarrow> None) of
        None \<Rightarrow> fallback
      | Some e \<Rightarrow> (case e k of None \<Rightarrow> fallback | Some v \<Rightarrow> mv_get fallback v))"

lemma reads_spec:
  assumes inv: "system_inv clean good y" and r: "sy_active y r = Some (nd, ck)"
  shows "context_get k fallback nd (sy_state y) = spec_read k fallback r (system_spec holds y)"
proof (cases nd)
  case (Some a)
  note p = system_invD(4) [OF inv r [unfolded Some]]
  show ?thesis
  proof (cases "session_id (node_at a (sy_state y)) = []")
    case True
    then show ?thesis using r Some by (simp add: spec_read_def system_spec_def view_of_def context_get_def entry_map_def)
  next
    case False
    then have "sm_cache (sy_state y) (session_id (node_at a (sy_state y))) = Some a" using p by (simp add: pointer_sound_def Let_def)
    then show ?thesis using r Some False by (simp add: spec_read_def system_spec_def view_of_def context_get_def entry_map_def)
  qed
qed (use r in \<open>simp add: spec_read_def system_spec_def view_of_def context_get_def\<close>)

text \<open>C37: Requests that overlap share their sessions: after any run of calls, however the requests interleave, every request reads what one table of sessions holds to which all changes were applied in their order, and the sessions in the store and in the cache are those of the table: no change of a request is lost.\<close>

theorem sessions_shared:
  assumes "session_run memory_store cs (start_system s c) = Some y" "all_admissible (\<lambda>_. True) (\<lambda>_ _. True) (cookie_key c) cs (start_spec s)"
  shows "system_spec memory_holds y = fold (spec_call (cookie_key c)) cs (start_spec s) \<and>
    (\<forall>r nd ck. sy_active y r = Some (nd, ck) \<longrightarrow>
       context_get k fallback nd (sy_state y) = spec_read k fallback r (fold (spec_call (cookie_key c)) cs (start_spec s)))"
proof -
  have k: "cookie_key (sm_cookie (sy_state (start_system s c))) = cookie_key c" by (simp add: start_system_def)
  have "system_inv (\<lambda>_ _ _. True) (\<lambda>_. True) y \<and> system_spec memory_holds y = fold (spec_call (cookie_key c)) cs (start_spec s)"
    using memory.run_spec [OF start_inv assms(1)] assms(2) unfolding k start_abs by blast
  then show ?thesis using reads_spec by metis
qed

definition sample_cookie :: "nat cookie" where "sample_cookie = new_cookie ''session'' []"

definition sample_visit :: "nat cookie_context" where
  "sample_visit = \<lparr>jar = [''session'' \<mapsto> ''X''], cookies_to_add = []\<rparr>"

text \<open>Two visits of one session overlap; each sees what the other set, and both changes are saved.\<close>

definition sample_calls :: "(nat, nat) session_event list" where
  "sample_calls = [Begin_Request 0 sample_visit, Begin_Request 1 sample_visit, Set_Entry 0 ''a'' (MV_Bool True),
     Set_Entry 1 ''b'' (MV_String ''u''), Finish_Request 0 ''-'']"

definition sample_memory :: "nat memory" where "sample_memory = [''X'' \<mapsto> []]"

lemma sessions_shared_witness:
  "\<exists>y nd ck. session_run memory_store sample_calls (start_system sample_memory sample_cookie) = Some y \<and>
     sy_active y 1 = Some (nd, ck) \<and> context_get ''a'' (MV_Bool False) nd (sy_state y) = MV_Bool True"
proof -
  have adm: "all_admissible (\<lambda>_. True) (\<lambda>_ _. True) (cookie_key sample_cookie) sample_calls (start_spec sample_memory)"
    by (simp add: sample_calls_def sample_visit_def sample_cookie_def new_cookie_def start_spec_def memory_holds_def sample_memory_def
        get_cookie_def Let_def spec_update_def)
  obtain y nd where y: "session_run memory_store sample_calls (start_system sample_memory sample_cookie) = Some y" "sy_active y 1 = Some (nd, sample_visit)"
    by (simp add: sample_calls_def sample_visit_def sample_cookie_def new_cookie_def start_system_def sample_memory_def memory_store_def
        memory_contains_def memory_load_def memory_save_def session_before_def session_after_def load_id_def get_cookie_def Let_def allocate_def
        in_context_def context_set_def check_node_def change_node_def node_at_def new_session_def node_set_def)
  have "context_get ''a'' (MV_Bool False) nd (sy_state y)
      = spec_read ''a'' (MV_Bool False) 1 (fold (spec_call (cookie_key sample_cookie)) sample_calls (start_spec sample_memory))"
    using sessions_shared [OF y(1) adm, of "''a''" "MV_Bool False"] y(2) by blast
  also have "\<dots> = MV_Bool True"
    by (simp add: sample_calls_def sample_visit_def sample_cookie_def new_cookie_def start_spec_def memory_holds_def sample_memory_def
        get_cookie_def Let_def spec_update_def spec_read_def mv_get_def)
  finally show ?thesis using y by blast
qed

section \<open>Where the code falls short\<close>

text \<open>The function that draws an identifier until it is new, \<open>next_id\<close>, is never called: a random identifier that is in use replaces the session that has it.\<close>

lemma identifier_collision:
  assumes "node_at a m = n" "session_id n = []" "requested_session_id n = []" "referrers n = 0" "a < length (sm_nodes m)"
  shows "sm_store (snd (session_after memory_store fresh (Some a) ck m)) fresh = Some (sn_entries n)"
  using assms by (auto simp: session_after_def Let_def name_session_def store_id_def memory_store_def memory_save_def change_node_def)

text \<open>A request that asked for a new cookie gets none when another request still uses the session; the other one gets it.\<close>

lemma refresh_without_cookie:
  assumes "1 < referrers (node_at a m)"
  shows "fst (session_after ops fresh (Some a) ck m) = ck"
  using assms by (simp add: session_after_def Let_def)

end
