(* ===== verification/File_Store.thy ===== *)
theory File_Store
  imports Session_Properties
begin

text \<open>
  \<open>FileStore\<close>, which keeps a session as a JSON text in a file and deletes expired ones, and the
  \<open>ExpirationTracker\<close> it uses.  The file system is a map from paths to contents.  Times are 64 bit
  numbers of seconds; the clock is read by the caller.
\<close>

section \<open>The tracker of expirations\<close>

text \<open>
  \<open>std::set\<close> of pairs, ordered by time and then by the bytes of the key, as a sorted list.  An iterator to the first pair
  of an empty set must not be followed; \<open>pop_first\<close> is then \<open>None\<close>.
\<close>

record expiration_tracker =
  et_queue :: "(u64 \<times> string) list"
  et_times :: "string \<rightharpoonup> u64"

definition no_expirations :: expiration_tracker where
  "no_expirations = \<lparr>et_queue = [], et_times = Map.empty\<rparr>"

definition queue_rank :: "u64 \<times> string \<Rightarrow> nat list" where
  "queue_rank x = unat (fst x) # map code (snd x)"

definition tracker_remove :: "string \<Rightarrow> expiration_tracker \<Rightarrow> expiration_tracker" where
  "tracker_remove k e =
     (case et_times e k of
        None \<Rightarrow> e
      | Some t \<Rightarrow> e\<lparr>et_queue := removeAll (t, k) (et_queue e), et_times := (et_times e)(k := None)\<rparr>)"

definition tracker_add :: "string \<Rightarrow> u64 \<Rightarrow> expiration_tracker \<Rightarrow> expiration_tracker" where
  "tracker_add k t e =
     (let e' = (if et_times e k \<noteq> None then tracker_remove k e else e)
      in e'\<lparr>et_times := (et_times e')(k \<mapsto> t), et_queue := insort_insert_key queue_rank (t, k) (et_queue e')\<rparr>)"

definition peek_first :: "expiration_tracker \<Rightarrow> u64" where
  "peek_first e = (case et_queue e of [] \<Rightarrow> - 1 | x # _ \<Rightarrow> fst x)"

definition pop_first :: "expiration_tracker \<Rightarrow> (string \<times> expiration_tracker) option" where
  "pop_first e =
     (case et_queue e of
        [] \<Rightarrow> None
      | x # q \<Rightarrow>
          (case et_times e (snd x) of
             None \<Rightarrow> None
           | Some _ \<Rightarrow> Some (snd x, \<lparr>et_queue = q, et_times = (et_times e)(snd x := None)\<rparr>)))"

section \<open>Files\<close>

record file_store =
  fs_path :: string
  fs_expiration_seconds :: u64
  fs_expirations :: expiration_tracker
  fs_files :: "string \<rightharpoonup> string"
  fs_writable :: "string \<Rightarrow> bool"

definition get_filename :: "string \<Rightarrow> bool \<Rightarrow> file_store \<Rightarrow> string" where
  "get_filename k suffix s = join_path (fs_path s) (k @ (if suffix then ''.json'' else []))"

definition write_file :: "string \<Rightarrow> string \<Rightarrow> file_store \<Rightarrow> file_store" where
  "write_file f text s = (if fs_writable s f then s\<lparr>fs_files := (fs_files s)(f \<mapsto> text)\<rparr> else s)"

definition evict :: "string \<Rightarrow> file_store \<Rightarrow> file_store" where
  "evict k s = s\<lparr>fs_files := (fs_files s)(get_filename k True s := None)\<rparr>"

definition file_contains :: "string \<Rightarrow> file_store \<Rightarrow> bool" where
  "file_contains k s \<longleftrightarrow> fs_files s (get_filename k True s) \<noteq> None"

text \<open>\<open>handle_expired\<close>: the argument is the number of deletions that are left, of at most 3.\<close>

primrec expire_loop :: "nat \<Rightarrow> u64 \<Rightarrow> file_store \<Rightarrow> file_store option" where
  "expire_loop 0 now s = Some s"
| "expire_loop (Suc n) now s =
     (if peek_first (fs_expirations s) < now then
        (case pop_first (fs_expirations s) of
           None \<Rightarrow> None
         | Some (k, e) \<Rightarrow> expire_loop n now (evict k (s\<lparr>fs_expirations := e\<rparr>)))
      else Some s)"

definition handle_expired :: "u64 \<Rightarrow> file_store \<Rightarrow> file_store option" where
  "handle_expired now s = expire_loop 3 now s"

text \<open>
  The loop of \<open>load\<close> over the members.  The key of an element of a list was never set; to read it is the error
  \<open>Indeterminate\<close>.  \<open>load\<close> appends a line feed to a text that is not empty, since an empty one fails the stream.
\<close>

fun add_members :: "'d double_ops \<Rightarrow> (string \<times> rvalue) list \<Rightarrow> (string \<times> 'd multi_value) list \<Rightarrow> access_error + (string \<times> 'd multi_value) list" where
  "add_members ops [] es = Inr es"
| "add_members ops ((k, v) # kvs) es =
     (case mv_from_json ops v of Inl e \<Rightarrow> Inl e | Inr x \<Rightarrow> add_members ops kvs (AList.update k x es))"

definition read_entries :: "'d double_ops \<Rightarrow> string \<Rightarrow> (string \<times> 'd multi_value) list \<Rightarrow> access_error + (string \<times> 'd multi_value) list" where
  "read_entries ops text es =
     (case load (if text = [] then [] else text @ [CHR 0x0A]) of
        None \<Rightarrow> Inl (Throws ''invalid json object'')
      | Some (R_Object kvs) \<Rightarrow> add_members ops kvs es
      | Some (R_List vs) \<Rightarrow> (if vs = [] then Inr es else Inl Indeterminate)
      | Some _ \<Rightarrow> Inl (Throws ''value is not a container''))"

definition file_load ::
  "'d double_ops \<Rightarrow> u64 \<Rightarrow> 'd cached_session \<Rightarrow> file_store \<Rightarrow> (access_error + 'd cached_session) \<times> file_store" where
  "file_load ops now n s =
     (case handle_expired now s of
        None \<Rightarrow> (Inl Indeterminate, s)
      | Some s' \<Rightarrow>
          (map_sum id (\<lambda>es. n\<lparr>sn_entries := es\<rparr>)
             (read_entries ops (case fs_files s' (get_filename (session_id n) True s') of None \<Rightarrow> [] | Some text \<Rightarrow> text) (sn_entries n)), s'))"

text \<open>\<open>save\<close> goes through an \<open>unordered_map\<close>, in an order that is not specified: here from the newest entry to the oldest.\<close>

definition session_json :: "'d double_ops \<Rightarrow> (string \<times> 'd multi_value) list \<Rightarrow> wvalue" where
  "session_json ops es = foldr (\<lambda>(k, v) w. w_put k (mv_json ops v) w) es W_Null"

definition file_save :: "'d double_ops \<Rightarrow> u64 \<Rightarrow> 'd cached_session \<Rightarrow> file_store \<Rightarrow> 'd cached_session \<times> file_store" where
  "file_save ops now n s =
     (let s1 = (if requested_refresh n
                then s\<lparr>fs_expirations := tracker_add (session_id n) (now + fs_expiration_seconds s) (fs_expirations s)\<rparr> else s)
      in (n, if dirty n = {} then s1
             else write_file (get_filename (session_id n) True s1) (dump (session_json ops (sn_entries n)) (- 1) CHR '' '') s1))"

text \<open>
  The store as the middleware uses it, at a time.  The middleware catches every exception; that an uninitialised key is
  read, in a file that holds a list, counts as one here, as \<open>save\<close> never writes such a file.
\<close>

definition file_ops :: "'d double_ops \<Rightarrow> u64 \<Rightarrow> ('d, file_store) store_ops" where
  "file_ops ops now =
     \<lparr>st_contains = file_contains,
      st_load = (\<lambda>n s. case file_load ops now n s of (r, s') \<Rightarrow> (case r of Inl _ \<Rightarrow> None | Inr n' \<Rightarrow> Some n', s')),
      st_save = file_save ops now\<rparr>"

section \<open>The file of expirations\<close>

text \<open>\<open>ifs >> key >> time\<close>: a word, and a number of 64 bits, after white space each.\<close>

definition read_word :: "string \<Rightarrow> (string \<times> string) option" where
  "read_word s = (let s1 = dropWhile is_space s; w = takeWhile (\<lambda>c. \<not> is_space c) s1
     in if w = [] then None else Some (w, drop (length w) s1))"

definition read_u64 :: "string \<Rightarrow> (u64 \<times> string) option" where
  "read_u64 s =
     (let s1 = dropWhile is_space s
      in case num_get s1 of (neg, ds) \<Rightarrow>
        (let rest = drop (length ds) (if s1 \<noteq> [] \<and> (hd s1 = CHR ''-'' \<or> hd s1 = CHR ''+'') then tl s1 else s1)
         in if ds = [] \<or> 2 ^ 64 \<le> digits_value ds then None
            else Some (if neg then - of_nat (digits_value ds) else of_nat (digits_value ds), rest)))"

lemma read_word_shorter: "read_word s = Some (w, r) \<Longrightarrow> length r < length s"
proof -
  assume r: "read_word s = Some (w, r)"
  let ?s = "dropWhile is_space s"
  have "w = takeWhile (\<lambda>c. \<not> is_space c) ?s" "w \<noteq> []" "r = drop (length w) ?s" using r by (auto simp: read_word_def Let_def split: if_splits)
  moreover from this have "?s \<noteq> []" by (metis takeWhile.simps(1))
  moreover have "length ?s \<le> length s" by (rule length_dropWhile_le)
  ultimately show ?thesis by (cases ?s) auto
qed

lemma read_u64_length: "read_u64 s = Some (t, r) \<Longrightarrow> length r \<le> length s"
  using length_dropWhile_le [of is_space s] by (auto simp: read_u64_def Let_def split: prod.splits if_splits)

function read_expirations :: "string \<Rightarrow> (string \<times> u64) list" where
  "read_expirations s =
     (case read_word s of
        None \<Rightarrow> []
      | Some (k, s1) \<Rightarrow> (case read_u64 s1 of None \<Rightarrow> [] | Some (t, s2) \<Rightarrow> (k, t) # read_expirations s2))"
  by pat_completeness auto
termination
  by (relation "measure length") (auto dest!: read_word_shorter read_u64_length)

declare read_expirations.simps [simp del]

definition restore :: "u64 \<Rightarrow> string \<times> u64 \<Rightarrow> file_store \<Rightarrow> file_store" where
  "restore now x s =
     (if snd x < now then evict (fst x) s
      else if file_contains (fst x) s then s\<lparr>fs_expirations := tracker_add (fst x) (snd x) (fs_expirations s)\<rparr> else s)"

text \<open>The constructor and the destructor.\<close>

definition open_store :: "string \<Rightarrow> u64 \<Rightarrow> u64 \<Rightarrow> (string \<rightharpoonup> string) \<Rightarrow> (string \<Rightarrow> bool) \<Rightarrow> file_store" where
  "open_store folder seconds now files writable =
     (let s = \<lparr>fs_path = folder, fs_expiration_seconds = seconds, fs_expirations = no_expirations, fs_files = files, fs_writable = writable\<rparr>
      in fold (restore now) (read_expirations (case files (get_filename ''.expirations'' False s) of None \<Rightarrow> [] | Some text \<Rightarrow> text)) s)"

definition expiration_line :: "u64 \<times> string \<Rightarrow> string" where
  "expiration_line x = snd x @ '' '' @ to_string (uint (fst x)) @ [CHR 0x0A]"

definition close_store :: "file_store \<Rightarrow> file_store" where
  "close_store s = write_file (get_filename ''.expirations'' False s) (concat (map expiration_line (et_queue (fs_expirations s)))) s"

end
