(* ===== verification/File_Store_Properties.thy ===== *)
theory File_Store_Properties
  imports File_Store Json_Edit_Properties
begin

text \<open>
  The tracker holds every key once, soonest first; expired sessions are deleted in that order; a session that is saved
  to its file is read back; and so \<open>FileStore\<close> keeps the contract of a store.
\<close>

section \<open>The tracker\<close>

definition tracker_inv :: "expiration_tracker \<Rightarrow> bool" where
  "tracker_inv e \<longleftrightarrow> sorted_wrt (<) (map queue_rank (et_queue e)) \<and> (\<forall>t k. (t, k) \<in> set (et_queue e) \<longleftrightarrow> et_times e k = Some t)"

lemma queue_rank_inj: "queue_rank x = queue_rank y \<longleftrightarrow> x = y"
proof -
  have "map code k = map code k' \<longleftrightarrow> k = k'" for k k' by (rule inj_map_eq_map) (simp add: inj_def code_inj)
  then show ?thesis by (cases x; cases y) (auto simp: queue_rank_def dest: unsigned_word_eqI)
qed

lemma tracker_inv_empty: "tracker_inv no_expirations"
  by (simp add: tracker_inv_def no_expirations_def)

lemma tracker_inv_remove:
  assumes "tracker_inv e"
  shows "tracker_inv (tracker_remove k e)"
proof (cases "et_times e k")
  case (Some t)
  have "sorted_wrt (<) (map queue_rank (removeAll (t, k) (et_queue e)))"
    using assms by (auto simp: tracker_inv_def removeAll_filter_not_eq sorted_wrt_map sorted_wrt_filter)
  then show ?thesis using assms Some by (auto simp: tracker_inv_def tracker_remove_def)
qed (use assms in \<open>simp add: tracker_remove_def\<close>)

lemma tracker_remove_times [simp]: "et_times (tracker_remove k e) = (et_times e)(k := None)"
  by (auto simp: tracker_remove_def split: option.split)

lemma tracker_add_times [simp]: "et_times (tracker_add k t e) = (et_times e)(k \<mapsto> t)"
  by (simp add: tracker_add_def Let_def)

lemma tracker_inv_add:
  assumes "tracker_inv e"
  shows "tracker_inv (tracker_add k t e)"
proof -
  define e' where "e' = (if et_times e k \<noteq> None then tracker_remove k e else e)"
  have e': "tracker_inv e'" "et_times e' k = None" using assms tracker_inv_remove by (auto simp: e'_def)
  then have new: "queue_rank (t, k) \<notin> queue_rank ` set (et_queue e')" by (auto simp: tracker_inv_def queue_rank_inj)
  then have q: "et_queue (tracker_add k t e) = insort_key queue_rank (t, k) (et_queue e')" "et_times (tracker_add k t e) = (et_times e')(k \<mapsto> t)"
    unfolding tracker_add_def e'_def [symmetric] Let_def by (simp_all add: insort_insert_key_def)
  have "sorted_wrt (<) (map queue_rank (insort_key queue_rank (t, k) (et_queue e')))"
    using e'(1) new by (simp add: tracker_inv_def strict_sorted_iff sorted_insort_key distinct_insort_key)
  then show ?thesis using e' unfolding tracker_inv_def q by (auto simp: set_insort_key)
qed

lemma pop_first_inv:
  assumes "tracker_inv e" "et_queue e = (t, k) # q"
  shows "pop_first e = Some (k, \<lparr>et_queue = q, et_times = (et_times e)(k := None)\<rparr>)" "tracker_inv \<lparr>et_queue = q, et_times = (et_times e)(k := None)\<rparr>"
proof -
  have m: "(t', k') \<in> set ((t, k) # q) \<longleftrightarrow> et_times e k' = Some t'" for t' k' using assms by (simp add: tracker_inv_def)
  then have t: "et_times e k = Some t" by auto
  then show "pop_first e = Some (k, \<lparr>et_queue = q, et_times = (et_times e)(k := None)\<rparr>)" using assms by (simp add: pop_first_def)
  have "distinct ((t, k) # q)" using assms by (auto simp: tracker_inv_def strict_sorted_iff distinct_map)
  then have "(t', k') \<in> set q \<longleftrightarrow> ((et_times e)(k := None)) k' = Some t'" for t' k'
    using m [of t' k'] t by auto
  then show "tracker_inv \<lparr>et_queue = q, et_times = (et_times e)(k := None)\<rparr>" using assms by (simp add: tracker_inv_def)
qed

lemma peek_first_least:
  assumes "tracker_inv e" "et_times e k = Some t"
  shows "peek_first e \<le> t"
proof (cases "et_queue e")
  case (Cons x q)
  have "(t, k) \<in> set (x # q)" using assms Cons by (auto simp: tracker_inv_def)
  moreover have "fst x \<le> fst y" if "y \<in> set q" for y
    using assms(1) that by (fastforce simp: tracker_inv_def Cons queue_rank_def word_le_nat_alt)
  ultimately show ?thesis by (auto simp: peek_first_def Cons)
qed (use assms in \<open>simp add: tracker_inv_def\<close>)

lemma tracker_soonest:
  assumes "tracker_inv e" "pop_first e = Some (k, e')"
  shows "\<exists>t. et_times e k = Some t \<and> (\<forall>k' t'. et_times e k' = Some t' \<longrightarrow> t \<le> t') \<and> et_times e' = (et_times e)(k := None) \<and> tracker_inv e'"
proof -
  obtain t q where q: "et_queue e = (t, k) # q" using assms(2) by (auto simp: pop_first_def split: list.splits option.splits prod.splits)
  have "et_times e k = Some t" using assms(1) q by (auto simp: tracker_inv_def)
  moreover have "t \<le> t'" if "et_times e k' = Some t'" for k' t' using peek_first_least [OF assms(1) that] q by (simp add: peek_first_def)
  ultimately show ?thesis using pop_first_inv [OF assms(1) q] assms(2) by auto
qed

section \<open>Expired sessions\<close>

lemma expire_loop_exact:
  assumes "tracker_inv (fs_expirations s)"
  shows "\<exists>s'. expire_loop n now s = Some s' \<and> tracker_inv (fs_expirations s') \<and>
    (let gone = take n (takeWhile (\<lambda>x. fst x < now) (et_queue (fs_expirations s)))
     in et_queue (fs_expirations s') = drop (length gone) (et_queue (fs_expirations s)) \<and>
        et_times (fs_expirations s') = (\<lambda>k. if k \<in> snd ` set gone then None else et_times (fs_expirations s) k) \<and>
        fs_files s' = (\<lambda>f. if f \<in> (\<lambda>x. get_filename (snd x) True s) ` set gone then None else fs_files s f) \<and>
        fs_path s' = fs_path s \<and> fs_expiration_seconds s' = fs_expiration_seconds s \<and> fs_writable s' = fs_writable s)"
  using assms
proof (induction n arbitrary: s)
  case (Suc n)
  show ?case
  proof (cases "peek_first (fs_expirations s) < now")
    case True
    then obtain t k q where q: "et_queue (fs_expirations s) = (t, k) # q" and t: "t < now"
      by (cases "et_queue (fs_expirations s)") (auto simp: peek_first_def)
    note p = pop_first_inv [OF Suc.prems q]
    let ?s = "evict k (s\<lparr>fs_expirations := \<lparr>et_queue = q, et_times = (et_times (fs_expirations s))(k := None)\<rparr>\<rparr>)"
    have g: "get_filename j True ?s = get_filename j True s" for j by (simp add: get_filename_def evict_def)
    have "tracker_inv (fs_expirations ?s)" using p(2) by (simp add: evict_def)
    from Suc.IH [OF this] obtain s' where s': "expire_loop n now ?s = Some s'" "tracker_inv (fs_expirations s')"
      "et_queue (fs_expirations s') = drop (length (take n (takeWhile (\<lambda>x. fst x < now) q))) q"
      "et_times (fs_expirations s') = (\<lambda>j. if j \<in> snd ` set (take n (takeWhile (\<lambda>x. fst x < now) q)) then None else et_times (fs_expirations ?s) j)"
      "fs_files s' = (\<lambda>f. if f \<in> (\<lambda>x. get_filename (snd x) True s) ` set (take n (takeWhile (\<lambda>x. fst x < now) q)) then None else fs_files ?s f)"
      "fs_path s' = fs_path s" "fs_expiration_seconds s' = fs_expiration_seconds s" "fs_writable s' = fs_writable s"
      unfolding g Let_def by (auto simp: evict_def)
    have "expire_loop (Suc n) now s = Some s'" using True p(1) s'(1) by simp
    then show ?thesis using s'(2-) t
      by (intro exI [of _ s']) (auto simp: q Let_def evict_def fun_eq_iff get_filename_def)
  next
    case False
    then have "takeWhile (\<lambda>x. fst x < now) (et_queue (fs_expirations s)) = []"
      by (cases "et_queue (fs_expirations s)") (auto simp: peek_first_def)
    with False Suc.prems show ?thesis by simp
  qed
qed simp


text \<open>C39: \<open>handle_expired\<close> deletes the files of the three sessions that expired first, or of all that did when they are fewer, forgets their expirations, and touches nothing else; it never follows an iterator into an empty set.\<close>

theorem handle_expired_exact:
  assumes "tracker_inv (fs_expirations s)"
  shows "\<exists>s' gone. handle_expired now s = Some s' \<and> tracker_inv (fs_expirations s') \<and>
    gone = take 3 (takeWhile (\<lambda>x. fst x < now) (et_queue (fs_expirations s))) \<and>
    et_times (fs_expirations s') = (\<lambda>k. if k \<in> snd ` set gone then None else et_times (fs_expirations s) k) \<and>
    fs_files s' = (\<lambda>f. if f \<in> (\<lambda>x. get_filename (snd x) True s) ` set gone then None else fs_files s f) \<and>
    (length gone < 3 \<longrightarrow> (\<forall>k t. et_times (fs_expirations s') k = Some t \<longrightarrow> now \<le> t))"
proof -
  define gone where "gone = take 3 (takeWhile (\<lambda>x. fst x < now) (et_queue (fs_expirations s)))"
  obtain s' where s': "handle_expired now s = Some s'" "tracker_inv (fs_expirations s')"
    "et_queue (fs_expirations s') = drop (length gone) (et_queue (fs_expirations s))"
    "et_times (fs_expirations s') = (\<lambda>k. if k \<in> snd ` set gone then None else et_times (fs_expirations s) k)"
    "fs_files s' = (\<lambda>f. if f \<in> (\<lambda>x. get_filename (snd x) True s) ` set gone then None else fs_files s f)"
    using expire_loop_exact [OF assms(1), of 3 now] unfolding handle_expired_def gone_def Let_def by blast
  have "now \<le> t" if "length gone < 3" "et_times (fs_expirations s') k = Some t" for k t
  proof -
    let ?q = "et_queue (fs_expirations s)"
    have "gone = takeWhile (\<lambda>x. fst x < now) ?q" using that(1) by (simp add: gone_def)
    then have d: "et_queue (fs_expirations s') = dropWhile (\<lambda>x. fst x < now) ?q" using s'(3) by (simp add: dropWhile_eq_drop)
    have "now \<le> peek_first (fs_expirations s')"
    proof (cases "et_queue (fs_expirations s')")
      case (Cons x q)
      then show ?thesis using hd_dropWhile [of "\<lambda>x. fst x < now" ?q] d by (simp add: peek_first_def not_less)
    qed (simp add: peek_first_def)
    then show ?thesis using peek_first_least [OF s'(2) that(2)] by simp
  qed
  with s' gone_def show ?thesis by blast
qed

lemma handle_expired_exact_witness:
  "\<exists>s'. handle_expired 5 (\<lparr>fs_path = ''d'', fs_expiration_seconds = 1, fs_expirations = tracker_add ''b'' 7 (tracker_add ''a'' 4 no_expirations),
     fs_files = [''d/a.json'' \<mapsto> ''x'', ''d/b.json'' \<mapsto> ''y''], fs_writable = (\<lambda>_. True)\<rparr>) = Some s' \<and>
     fs_files s' ''d/a.json'' = None \<and> fs_files s' ''d/b.json'' = Some ''y''"
proof -
  define s where "s = \<lparr>fs_path = ''d'', fs_expiration_seconds = 1, fs_expirations = tracker_add ''b'' 7 (tracker_add ''a'' 4 no_expirations),
     fs_files = [''d/a.json'' \<mapsto> ''x'', ''d/b.json'' \<mapsto> ''y''], fs_writable = (\<lambda>_. True)\<rparr>"
  have q: "et_queue (fs_expirations s) = [(4, ''a''), (7, ''b'')]"
    by (simp add: s_def tracker_add_def no_expirations_def insort_insert_key_def queue_rank_def)
  have "tracker_inv (fs_expirations s)" by (simp add: s_def tracker_inv_add tracker_inv_empty)
  from handle_expired_exact [OF this, of 5] obtain s' gone where s': "handle_expired 5 s = Some s'"
    "gone = take 3 (takeWhile (\<lambda>x. fst x < 5) (et_queue (fs_expirations s)))"
    "fs_files s' = (\<lambda>f. if f \<in> (\<lambda>x. get_filename (snd x) True s) ` set gone then None else fs_files s f)"
    by blast
  have "gone = [(4, ''a'')]" using s'(2) by (simp add: q)
  then have "fs_files s' ''d/a.json'' = None" "fs_files s' ''d/b.json'' = Some ''y''"
    by (simp_all add: s'(3)) (simp_all add: s_def get_filename_def join_path_def)
  then show ?thesis using s'(1) unfolding s_def by blast
qed

section \<open>Session files\<close>

lemma load_dump_line:
  assumes "dumpable v" "nesting (read_back v) \<le> 5000"
  shows "load (dump v indent CHR '' '' @ [CHR 0x0A]) = Some (read_back v)"
proof -
  let ?s = "dump v indent CHR '' '' @ [CHR 0x0A]"
  have sep: "is_ws CHR '' ''" by (simp add: is_ws_def)
  have ws: "ws_skip ?s = ?s" "ws_skip [CHR 0x0A] = []"
    using starts_valueD [OF starts_value_dump [OF assms(1)], of indent "CHR '' ''" 0 "[CHR 0x0A]"] by (simp_all add: dump_def ws_skip_def is_ws_def)
  have "stops [CHR 0x0A]" by (simp add: stops_def peek_def number_table_def is_digit_def code_def)
  moreover have "within 0 (read_back v)" using assms(2) by (simp add: within_def max_depth_def)
  ultimately have "decode_value (decode_fuel ?s) 0 ?s = Good (read_back v) [CHR 0x0A]"
    using reads_backD [OF reads_back_all [OF sep assms(1)], of 0 "[CHR 0x0A]" indent 0 "decode_fuel ?s"]
    by (simp add: dump_def decode_fuel_def)
  with ws show ?thesis by (simp add: load_def parse_def peek_def NUL_def)
qed

definition storable :: "'d multi_value \<Rightarrow> bool" where
  "storable v \<longleftrightarrow> (case v of MV_Double _ \<Rightarrow> False | _ \<Rightarrow> True)"

lemma mv_round_trip:
  assumes "storable v"
  shows "mv_from_json ops (read_back (mv_json ops v)) = Inr v" "dumpable (mv_json ops v)" "nesting (read_back (mv_json ops v)) = 0"
proof -
  have digits: "CHR ''.'' \<notin> set (to_string k)" "CHR ''e'' \<notin> set (to_string k)" "CHR ''E'' \<notin> set (to_string k)" for k
    using to_dec_digits [of "nat k"] to_dec_digits [of "nat (- k)"] by (auto simp: to_string_def is_digit_def code_def)
  have i: "mv_from_json ops (R_Number (to_string (sint i))) = Inr (MV_Int i)" for i :: "64 word"
  proof (cases "sint i < 0")
    case True
    then show ?thesis by (simp add: mv_from_json_def determine_num_type_def digits minus_to_string r_i_def lexical_cast_to_string_i64)
  next
    case False
    then have "uint i = sint i" using sint_lt [of i] by (simp add: uint_sint take_bit_int_eq_self)
    with False show ?thesis using lexical_cast_to_string_u64 [of i]
      by (simp add: mv_from_json_def determine_num_type_def digits minus_to_string r_u_def)
  qed
  show "mv_from_json ops (read_back (mv_json ops v)) = Inr v" "dumpable (mv_json ops v)" "nesting (read_back (mv_json ops v)) = 0"
    using assms i by (cases v; simp add: mv_json_def storable_def w_of_bool_def mv_from_json_def r_string_def string_text_escape)+
qed

lemma session_json_members:
  "map_of (w_members (session_json ops es)) k = map_option (mv_json ops) (map_of es k)"
  "distinct (map fst (w_members (session_json ops es)))"
  "es \<noteq> [] \<Longrightarrow> session_json ops es = W_Object (w_members (session_json ops es))"
proof -
  have c: "session_json ops (e # es) = w_put (fst e) (mv_json ops (snd e)) (session_json ops es)" for e es
    by (cases e) (simp add: session_json_def)
  show "map_of (w_members (session_json ops es)) k = map_option (mv_json ops) (map_of es k)"
    by (induction es) (simp_all add: c, simp add: session_json_def w_members_def)
  show "distinct (map fst (w_members (session_json ops es)))"
  proof (induction es)
    case (Cons e es)
    then show ?case unfolding c by (simp add: w_put_def w_member_def w_members_def distinct_update)
  qed (simp add: session_json_def w_members_def)
  show "session_json ops es = W_Object (w_members (session_json ops es))" if "es \<noteq> []"
    using that by (cases es) (simp_all add: c w_put_def w_member_def w_members_def)
qed

lemma add_members_total:
  assumes "\<forall>kv\<in>set kvs. \<exists>x. mv_from_json ops (snd kv) = Inr x" "distinct (map fst kvs)"
  shows "\<exists>es'. add_members ops kvs es = Inr es' \<and>
    map_of es' = map_of es ++ (\<lambda>k. map_option (\<lambda>v. projr (mv_from_json ops v)) (map_of kvs k))"
  using assms
proof (induction kvs arbitrary: es)
  case (Cons kv kvs)
  obtain k v where kv: "kv = (k, v)" by (rule prod.exhaust)
  obtain x where x: "mv_from_json ops v = Inr x" using Cons.prems(1) kv by auto
  have "map_of kvs k = None" using Cons.prems(2) kv by (simp add: map_of_eq_None_iff)
  with Cons.IH [of "AList.update k x es"] Cons.prems x show ?case
    by (auto simp: kv update_conv' map_add_def fun_eq_iff split: option.split)
qed simp

lemma session_text_read:
  assumes "es \<noteq> []" "\<forall>v\<in>ran (map_of es). storable v"
  shows "\<exists>es'. read_entries ops (dump (session_json ops es) (- 1) CHR '' '') [] = Inr es' \<and> map_of es' = map_of es"
proof -
  obtain ms where j: "session_json ops es = W_Object ms" using session_json_members(3) [OF assms(1)] by blast
  then have w: "w_members (session_json ops es) = ms" by (simp add: w_members_def)
  note m = session_json_members(1,2) [of ops es, unfolded w]
  have v: "dumpable (snd kv)" "nesting (read_back (snd kv)) = 0" "\<exists>x. mv_from_json ops (read_back (snd kv)) = Inr x" if "kv \<in> set ms" for kv
  proof -
    have "map_of ms (fst kv) = Some (snd kv)" using that m(2) by (intro map_of_is_SomeI) auto
    then obtain x where "map_of es (fst kv) = Some x" "snd kv = mv_json ops x" using m(1) [of "fst kv"] by auto
    with assms(2) show "dumpable (snd kv)" "nesting (read_back (snd kv)) = 0" "\<exists>x. mv_from_json ops (read_back (snd kv)) = Inr x"
      using mv_round_trip [of x ops] by (auto simp: ranI)
  qed
  have "nesting (read_back (W_Object ms)) \<le> Suc 0"
    using nesting_object_le [of "map (\<lambda>kv. (fst kv, read_back (snd kv))) ms" 0] v(2) by auto
  moreover have "dumpable (W_Object ms)" using v(1) by simp
  ultimately have l: "load (dump (session_json ops es) (- 1) CHR '' '' @ [CHR 0x0A]) = Some (R_Object (map (\<lambda>kv. (fst kv, read_back (snd kv))) ms))"
    using load_dump_line [of "W_Object ms" "- 1"] by (simp add: j)
  have ne: "dump (session_json ops es) (- 1) CHR '' '' \<noteq> []" by (simp add: j dump_def)
  have "\<exists>es'. add_members ops (map (\<lambda>kv. (fst kv, read_back (snd kv))) ms) [] = Inr es' \<and>
      map_of es' = map_of [] ++ (\<lambda>k. map_option (\<lambda>v. projr (mv_from_json ops v)) (map_of (map (\<lambda>kv. (fst kv, read_back (snd kv))) ms) k))"
    using v(3) m(2) by (intro add_members_total) (auto simp: comp_def)
  moreover have "map_option (\<lambda>v. projr (mv_from_json ops v)) (map_of (map (\<lambda>kv. (fst kv, read_back (snd kv))) ms) k) = map_of es k" for k
    using assms(2) by (cases "map_of es k") (auto simp: map_of_map_snd m(1) mv_round_trip(1) ranI)
  ultimately show ?thesis using l ne by (auto simp: read_entries_def)
qed

section \<open>FileStore keeps the contract\<close>

definition proper_id :: "string \<Rightarrow> bool" where
  "proper_id sid \<longleftrightarrow> sid \<noteq> [] \<and> hd sid \<noteq> CHR ''/''"

definition file_holds :: "'d double_ops \<Rightarrow> file_store \<Rightarrow> string \<Rightarrow> (string \<rightharpoonup> 'd multi_value) option" where
  "file_holds ops s sid =
     (if proper_id sid
      then (case fs_files s (get_filename sid True s) of
              None \<Rightarrow> None
            | Some text \<Rightarrow> (case read_entries ops text [] of Inl _ \<Rightarrow> None | Inr es \<Rightarrow> Some (map_of es)))
      else None)"

text \<open>No session expires at the time, files can be written, and the files of sessions hold what the store can read.\<close>

definition file_good :: "'d double_ops \<Rightarrow> u64 \<Rightarrow> file_store \<Rightarrow> bool" where
  "file_good ops now s \<longleftrightarrow>
     tracker_inv (fs_expirations s) \<and> (\<forall>k t. et_times (fs_expirations s) k = Some t \<longrightarrow> now \<le> t) \<and> now \<le> now + fs_expiration_seconds s \<and>
     (\<forall>sid. proper_id sid \<longrightarrow> fs_writable s (get_filename sid True s)) \<and>
     (\<forall>sid text. proper_id sid \<longrightarrow> fs_files s (get_filename sid True s) = Some text \<longrightarrow> (\<exists>es. read_entries ops text [] = Inr es))"

definition file_fits :: "string \<Rightarrow> (string \<rightharpoonup> 'd multi_value) \<Rightarrow> bool" where
  "file_fits sid e \<longleftrightarrow> proper_id sid \<and> e \<noteq> Map.empty \<and> (\<forall>v\<in>ran e. storable v)"

lemma get_filename_inj:
  assumes "proper_id sid" "proper_id sid'" "get_filename sid True s = get_filename sid' True s"
  shows "sid = sid'"
  using assms by (auto simp: get_filename_def join_path_def proper_id_def split: if_splits)

lemma nothing_expired:
  assumes "file_good ops now s"
  shows "handle_expired now s = Some s"
proof -
  have "\<not> peek_first (fs_expirations s) < now"
  proof (cases "et_queue (fs_expirations s)")
    case (Cons x q)
    then have "et_times (fs_expirations s) (snd x) = Some (fst x)" using assms by (cases x) (auto simp: file_good_def tracker_inv_def)
    then show ?thesis using assms Cons by (auto simp: file_good_def peek_first_def not_less)
  qed (simp add: peek_first_def)
  then show ?thesis by (simp add: handle_expired_def numeral_3_eq_3)
qed

lemma file_load_holds:
  assumes "file_good ops now s" "file_holds ops s sid = Some e" "session_id n = sid" "sn_entries n = []"
  shows "\<exists>es. st_load (file_ops ops now) n s = (Some (n\<lparr>sn_entries := es\<rparr>), s) \<and> map_of es = e"
  using assms nothing_expired [OF assms(1)]
  by (auto simp: file_holds_def file_ops_def file_load_def split: option.splits sum.splits if_splits)

lemma file_save_holds:
  assumes good: "file_good ops now s" and fits: "file_fits (session_id n) (entry_map n)"
    and change: "dirty n \<noteq> {} \<or> file_holds ops s (session_id n) = Some (entry_map n)"
  shows "\<exists>n' s'. st_save (file_ops ops now) n s = (n', s') \<and> file_good ops now s' \<and>
    file_holds ops s' (session_id n) = Some (entry_map n) \<and> (\<forall>j. j \<noteq> session_id n \<longrightarrow> file_holds ops s' j = file_holds ops s j)"
proof -
  let ?sid = "session_id n"
  define s1 where "s1 = (if requested_refresh n then s\<lparr>fs_expirations := tracker_add ?sid (now + fs_expiration_seconds s) (fs_expirations s)\<rparr> else s)"
  have s1: "fs_files s1 = fs_files s" "get_filename k b s1 = get_filename k b s" "fs_writable s1 = fs_writable s"
    "fs_expiration_seconds s1 = fs_expiration_seconds s" for k b by (simp_all add: s1_def get_filename_def)
  have e1: "tracker_inv (fs_expirations s1)" "\<forall>k t. et_times (fs_expirations s1) k = Some t \<longrightarrow> now \<le> t"
    using good by (auto simp: s1_def file_good_def tracker_inv_add)
  have g1: "file_good ops now s1" using good e1 by (auto simp: file_good_def s1)
  have h1: "file_holds ops s1 = file_holds ops s" by (simp add: file_holds_def s1 fun_eq_iff)
  show ?thesis
  proof (cases "dirty n = {}")
    case True
    then have "st_save (file_ops ops now) n s = (n, s1)" by (simp add: file_ops_def file_save_def s1_def Let_def)
    with True change g1 h1 show ?thesis by simp
  next
    case False
    let ?f = "get_filename ?sid True s" and ?text = "dump (session_json ops (sn_entries n)) (- 1) CHR '' ''"
    define s2 where "s2 = s1\<lparr>fs_files := (fs_files s)(?f \<mapsto> ?text)\<rparr>"
    have p: "proper_id ?sid" and "sn_entries n \<noteq> []" and "\<forall>v\<in>ran (map_of (sn_entries n)). storable v"
      using fits by (auto simp: file_fits_def entry_map_def)
    then obtain es where es: "read_entries ops ?text [] = Inr es" "map_of es = entry_map n"
      using session_text_read [of "sn_entries n" ops] by (auto simp: entry_map_def)
    have "fs_writable s ?f" using good p by (simp add: file_good_def)
    then have "st_save (file_ops ops now) n s = (n, s2)"
      using False by (simp add: file_ops_def file_save_def Let_def s1_def [symmetric] s1 write_file_def s2_def)
    moreover have s2: "get_filename k b s2 = get_filename k b s" "fs_files s2 = (fs_files s)(?f \<mapsto> ?text)" for k b
      by (simp_all add: s2_def s1 [symmetric]) (simp_all add: get_filename_def)
    have "file_good ops now s2" using g1 es(1) by (auto simp: file_good_def s2 s1) (simp_all add: s2_def s1)
    moreover have "file_holds ops s2 ?sid = Some (entry_map n)" using p es by (simp add: file_holds_def s2)
    moreover have "file_holds ops s2 j = file_holds ops s j" if "j \<noteq> ?sid" for j
      using get_filename_inj [of j ?sid s] p that by (auto simp: file_holds_def s2)
    ultimately show ?thesis by blast
  qed
qed

interpretation files: session_store "file_ops ops now" "file_holds ops" "\<lambda>s sid e. file_holds ops s sid = Some e" "file_good ops now" proper_id file_fits
  for ops now
proof
  fix s sid
  assume "file_good ops now s" "proper_id sid"
  then show "st_contains (file_ops ops now) sid s \<longleftrightarrow> file_holds ops s sid \<noteq> None"
    by (auto simp: file_ops_def file_contains_def file_holds_def file_good_def split: option.splits sum.splits)
next
  fix s sid e and n :: "'a cached_session"
  assume a: "file_good ops now s" "file_holds ops s sid = Some e" "session_id n = sid" "sn_entries n = []"
  from file_load_holds [OF this] a(1,2)
  show "\<exists>es s'. st_load (file_ops ops now) n s = (Some (n\<lparr>sn_entries := es\<rparr>), s') \<and> map_of es = e \<and> file_good ops now s' \<and>
      file_holds ops s' sid = Some e \<and> others_kept (file_holds ops) (\<lambda>s sid e. file_holds ops s sid = Some e) sid s s'"
    by (auto simp: others_kept_def)
next
  fix s and n :: "'a cached_session"
  assume "file_good ops now s" "file_fits (session_id n) (entry_map n)" "dirty n \<noteq> {} \<or> file_holds ops s (session_id n) = Some (entry_map n)"
  from file_save_holds [OF this]
  show "\<exists>n' s'. st_save (file_ops ops now) n s = (n', s') \<and> file_good ops now s' \<and> file_holds ops s' (session_id n) = Some (entry_map n) \<and>
      others_kept (file_holds ops) (\<lambda>s sid e. file_holds ops s sid = Some e) (session_id n) s s'"
    by (auto simp: others_kept_def)
qed

section \<open>Sessions in files\<close>

definition start_files :: "file_store \<Rightarrow> 't cookie \<Rightarrow> ('d, file_store, 't) session_system" where
  "start_files s c = \<lparr>sy_state = \<lparr>sm_nodes = [], sm_cache = Map.empty, sm_store = s, sm_cookie = c\<rparr>, sy_active = Map.empty\<rparr>"

text \<open>C38: With \<open>FileStore\<close>, while no session expires, any run of overlapping requests leaves in the files and the cache what one table of sessions holds after the same calls: truth values, 64 bit integers and texts with any bytes survive the JSON files.  The sessions that are saved must not be empty, and identifiers must not start with a slash.\<close>

theorem sessions_in_files:
  assumes "file_good ops now s" "session_run (file_ops ops now) cs (start_files s c) = Some y"
    "all_admissible proper_id file_fits (cookie_key c) cs \<lparr>sp_sessions = file_holds ops s, sp_view = Map.empty\<rparr>"
  shows "file_good ops now (sm_store (sy_state y)) \<and>
    system_spec (file_holds ops) y = fold (spec_call (cookie_key c)) cs \<lparr>sp_sessions = file_holds ops s, sp_view = Map.empty\<rparr>"
proof -
  have k: "cookie_key (sm_cookie (sy_state (start_files s c))) = cookie_key c" by (simp add: start_files_def)
  have a: "system_spec (file_holds ops) (start_files s c) = \<lparr>sp_sessions = file_holds ops s, sp_view = Map.empty\<rparr>"
    by (simp add: system_spec_def start_files_def)
  have i: "system_inv (\<lambda>s sid e. file_holds ops s sid = Some e) (file_good ops now) (start_files s c)"
    using assms(1) by (simp add: system_inv_def start_files_def)
  show ?thesis using files.run_spec [OF i assms(2)] assms(3) unfolding k a by (auto simp: system_inv_def)
qed

definition empty_folder :: file_store where
  "empty_folder = \<lparr>fs_path = ''d'', fs_expiration_seconds = 60, fs_expirations = no_expirations, fs_files = Map.empty, fs_writable = (\<lambda>_. True)\<rparr>"

lemma empty_folder_good: "file_good ops 100 empty_folder"
  by (simp add: file_good_def empty_folder_def tracker_inv_empty) (simp add: no_expirations_def)

definition first_visit :: "(nat, nat) session_event list" where
  "first_visit = [Begin_Request 0 new_cookie_context, Set_Entry 0 ''a'' (MV_Bool True), Finish_Request 0 ''X'']"

lemma sessions_in_files_witness:
  "\<exists>y. session_run (file_ops sample_ops 100) first_visit (start_files empty_folder sample_cookie) = Some y \<and>
     file_holds sample_ops (sm_store (sy_state y)) ''X'' = Some [''a'' \<mapsto> MV_Bool True]"
proof -
  have adm: "all_admissible proper_id file_fits (cookie_key sample_cookie) first_visit \<lparr>sp_sessions = file_holds sample_ops empty_folder, sp_view = Map.empty\<rparr>"
    by (simp add: first_visit_def new_cookie_context_def get_cookie_def Let_def spec_update_def file_holds_def empty_folder_def file_fits_def proper_id_def storable_def)
  obtain y where y: "session_run (file_ops sample_ops 100) first_visit (start_files empty_folder sample_cookie) = Some y" "sm_cache (sy_state y) = Map.empty"
    by (simp add: first_visit_def new_cookie_context_def start_files_def session_before_def session_after_def load_id_def get_cookie_def Let_def
        allocate_def in_context_def context_set_def check_node_def change_node_def node_at_def new_session_def node_set_def name_session_def
        store_id_def file_ops_def file_save_def)
  have "system_spec (file_holds sample_ops) y = fold (spec_call (cookie_key sample_cookie)) first_visit \<lparr>sp_sessions = file_holds sample_ops empty_folder, sp_view = Map.empty\<rparr>"
    using sessions_in_files [OF empty_folder_good y(1) adm] by blast
  then have "sp_sessions (system_spec (file_holds sample_ops) y) ''X'' = Some [''a'' \<mapsto> MV_Bool True]"
    by (simp add: first_visit_def new_cookie_context_def get_cookie_def Let_def spec_update_def)
  then have "file_holds sample_ops (sm_store (sy_state y)) ''X'' = Some [''a'' \<mapsto> MV_Bool True]" by (simp add: system_spec_def y(2))
  with y(1) show ?thesis by blast
qed

section \<open>Expirations across restarts\<close>

lemma get_filename_simps [simp]:
  "get_filename i b (s\<lparr>fs_files := f\<rparr>) = get_filename i b s" "get_filename i b (s\<lparr>fs_expirations := e\<rparr>) = get_filename i b s"
  by (simp_all add: get_filename_def)

definition plain_key :: "string \<Rightarrow> bool" where
  "plain_key k \<longleftrightarrow> proper_id k \<and> (\<forall>c\<in>set k. \<not> is_space c)"

lemma read_word_line: "plain_key k \<Longrightarrow> p = [] \<or> p = [CHR 0x0A] \<Longrightarrow> read_word (p @ k @ CHR '' '' # s) = Some (k, CHR '' '' # s)"
proof -
  assume k: "plain_key k" and p: "p = [] \<or> p = [CHR 0x0A]"
  have sp: "is_space CHR '' ''" "is_space CHR 0x0A" by (simp_all add: is_space_def code_def)
  obtain c k' where c: "k = c # k'" "\<not> is_space c" using k by (cases k) (auto simp: plain_key_def proper_id_def)
  have d: "dropWhile is_space (p @ k @ CHR '' '' # s) = k @ CHR '' '' # s" using p c sp by auto
  have t: "takeWhile (\<lambda>c. \<not> is_space c) (k @ CHR '' '' # s) = k" using k sp by (subst takeWhile_append2) (auto simp: plain_key_def)
  show ?thesis unfolding read_word_def d Let_def t using c by simp
qed

lemma read_u64_line: "read_u64 (CHR '' '' # to_string (uint t) @ CHR 0x0A # s) = Some (t, CHR 0x0A # s)"
proof -
  have sp: "is_space CHR '' ''" "\<not> is_digit CHR 0x0A" by (simp_all add: is_space_def is_digit_def code_def)
  obtain c ds where c: "to_dec (unat t) = c # ds" by (cases "to_dec (unat t)") auto
  have dg: "\<forall>x\<in>set (to_dec (unat t)). is_digit x" by (rule to_dec_digits)
  then have "is_digit c" using c by simp
  then have c': "\<not> is_space c" "c \<noteq> CHR ''-''" "c \<noteq> CHR ''+''" by (auto simp: is_digit_def is_space_def code_def)
  have s: "to_string (uint t) = to_dec (unat t)" by (simp add: to_string_def not_less)
  have d: "dropWhile is_space (CHR '' '' # to_string (uint t) @ CHR 0x0A # s) = to_dec (unat t) @ CHR 0x0A # s"
    unfolding s using c c'(1) sp(1) by simp
  have n: "num_get (to_dec (unat t) @ CHR 0x0A # s) = (False, to_dec (unat t))"
    using c c'(2,3) dg sp(2) by (simp add: num_get_def takeWhile_append2)
  have "unat t < 2 ^ 64" using unsigned_less [where ?'a = nat, of t] by simp
  moreover have "\<not> (to_dec (unat t) @ CHR 0x0A # s \<noteq> [] \<and> (hd (to_dec (unat t) @ CHR 0x0A # s) = CHR ''-'' \<or> hd (to_dec (unat t) @ CHR 0x0A # s) = CHR ''+''))"
    using c c'(2,3) by simp
  moreover have "to_dec (unat t) \<noteq> []" using c by simp
  ultimately show ?thesis unfolding read_u64_def d Let_def n prod.case by (simp only: if_not_P if_False digits_value_to_dec not_le) simp
qed

lemma read_expirations_lines:
  assumes "\<forall>x\<in>set q. plain_key (snd x)" "p = [] \<or> p = [CHR 0x0A]"
  shows "read_expirations (p @ concat (map expiration_line q)) = map (\<lambda>x. (snd x, fst x)) q"
  using assms
proof (induction q arbitrary: p)
  case Nil
  have "read_word p = None" using Nil.prems(2) by (auto simp: read_word_def is_space_def code_def)
  then show ?case by (subst read_expirations.simps) simp
next
  case (Cons x q)
  let ?rest = "concat (map expiration_line q)"
  have "read_word (p @ snd x @ CHR '' '' # to_string (uint (fst x)) @ CHR 0x0A # ?rest) = Some (snd x, CHR '' '' # to_string (uint (fst x)) @ CHR 0x0A # ?rest)"
    using Cons.prems by (intro read_word_line) auto
  then have "read_expirations (p @ concat (map expiration_line (x # q))) = (snd x, fst x) # read_expirations ([CHR 0x0A] @ ?rest)"
    by (subst read_expirations.simps) (simp add: expiration_line_def read_u64_line)
  also have "read_expirations ([CHR 0x0A] @ ?rest) = map (\<lambda>x. (snd x, fst x)) q" using Cons.prems by (intro Cons.IH) auto
  finally show ?case by simp
qed

lemma restored:
  assumes "distinct (map fst xs)" "\<forall>x\<in>set xs. proper_id (fst x)" "\<forall>x\<in>set xs. et_times (fs_expirations s) (fst x) = None"
  shows "et_times (fs_expirations (fold (restore now) xs s)) k =
    (case map_of xs k of
       None \<Rightarrow> et_times (fs_expirations s) k
     | Some t \<Rightarrow> if now \<le> t \<and> file_contains k s then Some t else None)"
  using assms
proof (induction xs arbitrary: s)
  case (Cons x xs)
  obtain j t where x: "x = (j, t)" by (rule prod.exhaust)
  have g: "get_filename i b (restore now x s) = get_filename i b s" for i b by (simp add: restore_def evict_def get_filename_def)
  have f: "file_contains i (restore now x s) = file_contains i s" if "i \<noteq> j" "proper_id i" for i
    using get_filename_inj [of i j s] that Cons.prems(2) x by (auto simp: file_contains_def g) (auto simp: restore_def evict_def split: if_splits)
  have e: "et_times (fs_expirations (restore now x s)) i =
      (if i = j then (if now \<le> t \<and> file_contains j s then Some t else None) else et_times (fs_expirations s) i)" for i
    using Cons.prems(3) by (auto simp: restore_def x evict_def)
  have notin: "j \<notin> fst ` set xs" using Cons.prems(1) x by auto
  have IH: "et_times (fs_expirations (fold (restore now) xs (restore now x s))) k =
    (case map_of xs k of
       None \<Rightarrow> et_times (fs_expirations (restore now x s)) k
     | Some u \<Rightarrow> if now \<le> u \<and> file_contains k (restore now x s) then Some u else None)"
    using Cons.prems notin by (intro Cons.IH) (auto simp: e image_iff)
  show ?case
  proof (cases "map_of xs k")
    case None
    then have "et_times (fs_expirations (fold (restore now) (x # xs) s)) k = et_times (fs_expirations (restore now x s)) k" using IH by simp
    with None show ?thesis by (simp add: e [unfolded x] x)
  next
    case (Some u)
    have k: "k \<noteq> j" "proper_id k" using map_of_SomeD [OF Some] notin Cons.prems(2) by force+
    have "et_times (fs_expirations (fold (restore now) (x # xs) s)) k = (if now \<le> u \<and> file_contains k s then Some u else None)"
      using IH Some f [OF k] by simp
    with Some k show ?thesis by (simp add: x)
  qed
qed simp

lemma option_same: "(\<And>t. x = Some t \<longleftrightarrow> y = Some t) \<Longrightarrow> x = y"
  by (cases x; cases y) auto

text \<open>C40: A store that is opened again with the folder another one left knows the same expirations, but for those that have passed, whose files it deletes, and those whose file is gone.\<close>

theorem expirations_restored:
  assumes "tracker_inv (fs_expirations s)" "\<forall>k t. et_times (fs_expirations s) k = Some t \<longrightarrow> plain_key k"
    "fs_writable s (get_filename ''.expirations'' False s)"
  shows "et_times (fs_expirations (open_store (fs_path s) seconds now (fs_files (close_store s)) writable)) k =
    (case et_times (fs_expirations s) k of
       None \<Rightarrow> None
     | Some t \<Rightarrow> if now \<le> t \<and> file_contains k (close_store s) then Some t else None)"
proof -
  let ?q = "et_queue (fs_expirations s)" and ?xs = "map (\<lambda>x. (snd x, fst x)) (et_queue (fs_expirations s))"
  define s0 where "s0 = \<lparr>fs_path = fs_path s, fs_expiration_seconds = seconds, fs_expirations = no_expirations,
    fs_files = fs_files (close_store s), fs_writable = writable\<rparr>"
  have m: "(t, k) \<in> set ?q \<longleftrightarrow> et_times (fs_expirations s) k = Some t" for t k using assms(1) by (simp add: tracker_inv_def)
  have "\<forall>x\<in>set ?q. plain_key (snd x)" using m assms(2) by fastforce
  then have r: "read_expirations (concat (map expiration_line ?q)) = ?xs" using read_expirations_lines [of ?q "[]"] by simp
  have g: "get_filename j b s0 = get_filename j b s" for j b by (simp add: s0_def get_filename_def)
  have "fs_files s0 (get_filename ''.expirations'' False s0) = Some (concat (map expiration_line ?q))"
    using assms(3) by (simp add: g) (simp add: s0_def close_store_def write_file_def)
  then have o: "open_store (fs_path s) seconds now (fs_files (close_store s)) writable = fold (restore now) ?xs s0"
    using r by (simp add: open_store_def s0_def Let_def)
  have "distinct ?q" using assms(1) by (auto simp: tracker_inv_def strict_sorted_iff distinct_map)
  moreover have "inj_on snd (set ?q)" using m by (auto simp: inj_on_def)
  ultimately have dx: "distinct (map fst ?xs)" by (simp add: comp_def distinct_map)
  have "map_of ?xs j = Some t \<longleftrightarrow> et_times (fs_expirations s) j = Some t" for j t
  proof -
    have "(j, t) \<in> set ?xs \<longleftrightarrow> (t, j) \<in> set ?q" by force
    then show ?thesis using map_of_eq_Some_iff [OF dx, of j t] m [of t j] by simp
  qed
  then have mo: "map_of ?xs j = et_times (fs_expirations s) j" for j
    by (intro option_same) simp
  moreover have "\<forall>x\<in>set ?xs. proper_id (fst x)" using m assms(2) by (fastforce simp: plain_key_def)
  ultimately have "et_times (fs_expirations (fold (restore now) ?xs s0)) k =
    (case et_times (fs_expirations s) k of None \<Rightarrow> et_times (fs_expirations s0) k | Some t \<Rightarrow> if now \<le> t \<and> file_contains k s0 then Some t else None)"
    using restored [OF dx, of s0 now k] by (simp add: s0_def no_expirations_def)
  moreover have "file_contains k s0 = file_contains k (close_store s)"
    by (simp add: file_contains_def get_filename_def close_store_def write_file_def s0_def)
  moreover have "et_times (fs_expirations s0) k = None" by (simp add: s0_def no_expirations_def)
  ultimately show ?thesis unfolding o by (auto split: option.split)
qed

lemma expirations_restored_witness:
  "et_times (fs_expirations (open_store ''d'' 60 5 (fs_files (close_store \<lparr>fs_path = ''d'', fs_expiration_seconds = 60,
     fs_expirations = tracker_add ''a'' 7 no_expirations, fs_files = [''d/a.json'' \<mapsto> ''x''], fs_writable = (\<lambda>_. True)\<rparr>)) (\<lambda>_. True))) ''a'' = Some 7"
proof -
  define s where "s = \<lparr>fs_path = ''d'', fs_expiration_seconds = 60, fs_expirations = tracker_add ''a'' 7 no_expirations,
     fs_files = [''d/a.json'' \<mapsto> ''x''], fs_writable = (\<lambda>_. True)\<rparr>"
  have i: "tracker_inv (fs_expirations s)" by (simp add: s_def tracker_inv_add tracker_inv_empty)
  have p: "\<forall>k t. et_times (fs_expirations s) k = Some t \<longrightarrow> plain_key k"
    by (simp add: s_def no_expirations_def plain_key_def proper_id_def is_space_def code_def)
  have t: "et_times (fs_expirations s) ''a'' = Some 7" by (simp add: s_def)
  have f: "file_contains ''a'' (close_store s)" by (simp add: s_def file_contains_def get_filename_def join_path_def close_store_def write_file_def)
  have "et_times (fs_expirations (open_store (fs_path s) 60 5 (fs_files (close_store s)) (\<lambda>_. True))) ''a'' = Some 7"
    using expirations_restored [OF i p, of 60 5 "\<lambda>_. True" "''a''"] t f by (simp add: s_def)
  then show ?thesis by (simp add: s_def)
qed

section \<open>Where the code falls short\<close>

text \<open>A session from which every entry was removed is saved as \<open>null\<close>, which \<open>load\<close> refuses: the session is lost.\<close>

lemma empty_session_lost: "read_entries ops (dump (session_json ops []) (- 1) CHR '' '') [] = Inl (Throws ''value is not a container'')"
proof -
  have "load (''null'' @ [CHR 0x0A]) = Some R_Null" by code_simp
  then show ?thesis by (simp add: read_entries_def session_json_def dump_def)
qed

text \<open>The identifier is the client's cookie; with it the client chooses a file outside the folder.\<close>

lemma client_chooses_file:
  "fs_path s = ''sessions'' \<Longrightarrow> get_filename ''/etc/app'' True s = ''/etc/app.json'' \<and> get_filename ''../app'' True s = ''sessions/../app.json''"
  by (simp add: get_filename_def join_path_def)

end
