(* ===== verification/Spec2Isabelle.thy ===== *)
theory Spec2Isabelle
  imports Book_Properties Engine_Properties Websocket_Properties Json_Properties Query_Properties Http_Properties Router_Properties Response_Properties Utility_Properties Http_Connection_Properties Task_Timer Cors Multipart_Properties Mustache_Properties Json_Edit_Properties File_Store_Properties
begin

text \<open>
  A model of the C++ reference engine of the trading arena: \<open>src/reference_engine_cpp/engine.cpp\<close>, a
  limit order book behind a WebSocket, and the parts of the bundled web framework
  \<open>src/submission_templates/cpp/crow.h\<close> that carry its requests and messages.  The definitions are
  translated from these two files; the orchestrator, the bots, the telemetry and the engines in other
  languages are not part of the development.

  \<^bold>\<open>How the program works.\<close>  A client opens a TCP connection.  \<open>Connection\<close> reads bytes into a buffer and
  gives them to \<open>HTTPParser\<close>, whose callbacks collect the request; the router finds the rule for the URL;
  the rule's handler fills a \<open>response\<close>, whose \<open>end\<close> makes the connection write it.  A request that asks for
  an upgrade goes to a WebSocket rule: the handshake is answered and from then on frames are read.  Each
  complete message goes to the engine's handler, which decodes it (JSON text or fixed binary layout), runs
  it on the order book inside a critical section, and sends the acknowledgement and the fills back.

  \<^bold>\<open>Where each part is.\<close>  Line numbers are in the manifest; names are those of the source.
    \<^item> \<open>Prelude\<close>, \<open>Chars\<close>, \<open>Ordered_Map\<close>: machine integers and their bytes, character classes and decimal
      numerals, \<open>std::map\<close> as a sorted association list (locale \<open>ordered_map\<close>, interpreted on it).
    \<^item> Order book (\<open>OrderBook\<close> in engine.cpp): \<open>Order_Book\<close> holds the state (price levels on both sides,
      list nodes with addresses that are never reused, the index from identifiers to a level and an iterator)
      and the operations, where following a dangling iterator is the error \<open>undefined_behaviour\<close>;
      \<open>Book_Spec\<close> the abstract book, two queues in price-time priority, and the refinement of the matching
      loops to one sweep over a queue; \<open>Book_Invariant\<close> and \<open>Book_Cancel\<close> the invariant (sorted levels, none
      empty, uncrossed, positive quantities, a sound index) and the contract \<open>venue\<close> the engine relies on;
      \<open>Book_Properties\<close> what follows for sequences of commands.
    \<^item> Message handler (\<open>on_message\<close> lambda, \<open>send_fill\<close>, \<open>getp\<close>, \<open>setp\<close>): \<open>Engine_Server\<close>, with concurrent
      handlers as the step relation \<open>server_step\<close> (decode, lock, execute, unlock, send one report at a
      time); \<open>Engine_Properties\<close> shows that every interleaving has the effect of the order in which the lock
      was taken, and that each handler sends what that sequential run gives it.
    \<^item> JSON (\<open>crow::json\<close>): \<open>Json_Read\<close> (the parser), \<open>Json_Value\<close> (accessors, with the numbers' conversions),
      \<open>Json_Write\<close> (\<open>escape\<close>, \<open>dump\<close>), \<open>Json_Facts\<close>, \<open>Json_Properties\<close>; \<open>Json_Edit\<close> holds what changes a \<open>wvalue\<close>
      and its copy from a read value, \<open>Json_Edit_Properties\<close> what is left of a document that is edited.
    \<^item> HTTP parser (\<open>http_parser_execute\<close>): \<open>Http_Types\<close> (tables, flags, the URL automaton), \<open>Http_Execute\<close>
      (macros and request line), \<open>Http_Headers\<close>, \<open>Http_Body\<close>, \<open>Http_Loop\<close>: one definition per \<open>case\<close>, each
      from the state to a \<open>flow\<close> (go on, process the byte again, return, a failed assertion).  \<open>Http_Run\<close> and the three
      \<open>Http_Safety\<close> theories hold the invariant; \<open>Http_Wrapper\<close> is \<open>HTTPParser\<close>; \<open>Http_Delivery\<close> and
      \<open>Http_Properties\<close> show what a handler gets for a body and for headers, however the bytes are cut up.
    \<^item> Query strings (\<open>qs_*\<close>, \<open>query_string\<close>): \<open>Query_String\<close> works on one buffer, in place, with offsets for
      pointers; \<open>Query_Facts\<close>, \<open>Query_Properties\<close>.
    \<^item> Router: \<open>Router_Trie\<close> (\<open>Trie\<close>), \<open>Router\<close> (\<open>Router\<close>, parameter tags), \<open>Router_Blueprint\<close> (\<open>Blueprint\<close>,
      \<open>validate_bp\<close>, \<open>Crow::run\<close>'s set-up).  \<open>Router_Facts\<close> abstracts a tree to its list of routes;
      \<open>Router_Spec\<close> is the reference, a search through the list of rules, with the set-up proved to implement
      it; \<open>Router_Properties\<close>.
    \<^item> Responses and text: \<open>Utility\<close>, \<open>Utility_Properties\<close> (\<open>crow::utility\<close>), \<open>Response\<close>, \<open>Response_Properties\<close>
      (\<open>crow::response\<close>, \<open>write_header_into_buffer\<close>).
    \<^item> Connection and timer: \<open>Http_Connection\<close> composes the parser, the router and the responses into the
      state machine of \<open>Connection\<close> (\<open>conn_step\<close>: bytes read, read error, deadline, a response ended later);
      \<open>Http_Connection_Properties\<close>; \<open>Task_Timer\<close> is \<open>task_timer\<close>, which keeps the deadlines.
    \<^item> WebSocket (\<open>websocket::Connection\<close>): \<open>Sha1\<close>, \<open>Base64\<close>, \<open>Websocket\<close> (handshake, frame reader, fragments,
      closing, the write queue), \<open>Websocket_Facts\<close>, \<open>Websocket_Properties\<close>.
    \<^item> Middlewares: \<open>Middleware\<close> (the call helpers of \<open>detail\<close>, from the first middleware to the handler and
      back), \<open>Cookies\<close> (\<open>CookieParser\<close>), \<open>Cors\<close> (\<open>CORSHandler\<close>, \<open>CORSRules\<close>); \<open>Text_Search\<close> is \<open>std::string::find\<close>.
    \<^item> Sessions (\<open>SessionMiddleware\<close>): \<open>Sessions\<close> holds the middleware with its cache of shared sessions and
      \<open>InMemoryStore\<close>; \<open>Session_Store\<close> the contract of a store as the locale \<open>session_store\<close> and the reference,
      one table of sessions; \<open>Session_Facts\<close> one step of the system, \<open>Session_Properties\<close> runs of overlapping
      requests and the interpretation of the contract on the store in memory.  \<open>File_Store\<close> is \<open>FileStore\<close> with its
      \<open>ExpirationTracker\<close>; \<open>File_Store_Properties\<close> interprets the contract on it while nothing expires.
    \<^item> Multipart messages (\<open>multipart::message\<close>, \<open>message_view\<close>): \<open>Multipart\<close>, \<open>Multipart_Properties\<close>.
    \<^item> Templates (\<open>mustache\<close>): \<open>Mustache\<close> compiles a text to actions and fragments, \<open>Mustache_Render\<close> runs them
      on a context, \<open>Mustache_Facts\<close> shows that blocks are nested and relates the run to a reference that
      renders each block by itself, \<open>Mustache_Properties\<close>.

  \<^bold>\<open>How the state is represented.\<close>  Structures are records with the source's field names, \<open>u8\<close> to \<open>u64\<close> are
  words, \<open>int64_t\<close> quantities and prices of the book are \<open>int\<close> (no operation of the book leaves the range
  of its inputs); strings are lists of characters; pointers into a buffer are offsets into it.  An
  exception, a failed assertion and undefined behaviour are values: \<open>Inl\<close> of a sum, \<open>None\<close>, or a
  constructor of their own; a theorem that a call is safe states that the value is not one of them.

  \<^bold>\<open>Loops, bounds and fuel.\<close>  Structural recursion or a measure wherever the loop ends: \<open>match_level\<close> by the
  length of the level and the quantity, \<open>exec_loop\<close> by the bytes that are left and a rank for states
  that look at a byte again.  The JSON reader has fuel \<open>3 * length s + 3\<close>, three calls per byte;
  \<open>json_parse_total\<close> shows it is never used up.  \<open>Trie::add\<close> can loop for ever, so it is a partial function;
  \<open>insertion_ends\<close> says for which URLs it returns.  SHA-1 is right for every message shorter
  than \<open>2 ^ 29\<close> bytes.  Rendering a template has fuel for the depth of calls, because partials and functions
  may call for ever; without them one more than the number of actions is enough (\<open>render_meaning\<close>).

  \<^bold>\<open>Parameters and assumptions.\<close>  \<open>strtod\<close>, \<open>snprintf\<close> for doubles, \<open>now_ns\<close>, \<open>put_time\<close>, \<open>stat\<close> and the contents of
  files, the loader of partials, the application's handlers and the bodies of its middlewares, random identifiers of
  sessions, the clock of the file store, and whether a socket accepts a write are arguments; \<open>double_ops\<close>
  collects what is asked of the library about doubles.  The hash tables of headers list equal keys in the order of insertion, as the
  containers of the C++ library do.  The connection is that of an application without middlewares, as the engine is;
  the calls of middlewares are modelled beside it.  Rules are registered before the single set-up run.

  \<^bold>\<open>What is shown.\<close>  Properties C1 to C5 are about the order book, C6 and C7 about JSON, C8 to C10 about
  the handlers, C11 to C14 about HTTP, C15 and C16 about query strings, C17 to C20 about the WebSocket, C21 to
  C24 about routing, C25 about the head of a response, C26 to C28 about connections, C29 about middlewares, C30 and
  C31 about cookies, C32 and C33 about multipart messages, C34 and C35 about templates, C36 about edited JSON
  documents, C37 and C38 about sessions, C39 and C40 about their files.
  Some of them state that the code does something it does not mean to: an order whose identifier was used
  again cannot be cancelled, and a connection keeps the cookies of its previous request.  Other lemmas show the
  same of a NUL byte after a header name, a catch-all handler that ends its response, a URL in two reads, of a
  session that loses its last entry and of an identifier that is drawn twice.

  \<^bold>\<open>Not modelled.\<close>  asio (threads, sockets, signals, acceptors, TLS), logging, zlib (not compiled in), the
  compile-time template machinery and the adapters of handlers, and the setters of \<open>Crow\<close>
  and of WebSocket rules.  Of the WebSocket the accept handler is left out, of the engine \<open>main\<close>, which only
  registers the route and reads the port.
\<close>

end
